(* ===== verification/Prelude.thy ===== *)
theory Prelude
  imports Main "HOL-Library.Word" "HOL-Library.Monad_Syntax"
begin

text \<open>
  The shared vocabulary of the development: the machine integers of
  \<^verbatim>\<open>common/common_types.h\<close>, the result codes of \<^verbatim>\<open>core/hle/kernel/errors.h\<close>, the way
  undefined behaviour is modelled, and the lemmas on words and lists that the components share.

  Conventions of every theory:
  \<^item> a C++ integer of w bits is a \<open>w word\<close> (\<open>+\<close>, \<open>-\<close>, \<open>*\<close> wrap); \<open>unat\<close> reads it;
  \<^item> an operation that can reach undefined behaviour (an iterator dereferenced at the end, an
    array index out of range, a shift by the width, a division by zero) returns an
    \<open>option\<close>, with \<open>None\<close> for the undefined execution;
  \<^item> \<^verbatim>\<open>ASSERT\<close>, \<^verbatim>\<open>UNREACHABLE\<close> and \<^verbatim>\<open>UNIMPLEMENTED\<close> of this repository only log and go on
    (\<^verbatim>\<open>common/assert.h\<close>), so they are no branch of a model; what they assert is stated as
    lemmas instead;
  \<^item> logging, locks and profiling scopes have no effect on the modelled state.
\<close>

unbundle bit_operations_syntax

section \<open>Types\<close>

type_synonym u8 = "8 word"
type_synonym u16 = "16 word"
type_synonym u32 = "32 word"
type_synonym u64 = "64 word"

text \<open>Result codes: the constants of \<^verbatim>\<open>errors.h\<close> and \<^verbatim>\<open>RESULT_SUCCESS\<close>.\<close>

datatype ResultCode =
    RESULT_SUCCESS
  | ERR_MAX_CONNECTIONS_REACHED
  | ERR_INVALID_CAPABILITY_DESCRIPTOR
  | ERR_THREAD_TERMINATING
  | ERR_INVALID_SIZE
  | ERR_INVALID_ADDRESS
  | ERR_OUT_OF_RESOURCES
  | ERR_OUT_OF_MEMORY
  | ERR_HANDLE_TABLE_FULL
  | ERR_INVALID_ADDRESS_STATE
  | ERR_INVALID_MEMORY_PERMISSIONS
  | ERR_INVALID_MEMORY_RANGE
  | ERR_INVALID_PROCESSOR_ID
  | ERR_INVALID_THREAD_PRIORITY
  | ERR_INVALID_HANDLE
  | ERR_INVALID_POINTER
  | ERR_INVALID_COMBINATION
  | RESULT_TIMEOUT
  | ERR_SYNCHRONIZATION_CANCELED
  | ERR_OUT_OF_RANGE
  | ERR_INVALID_ENUM_VALUE
  | ERR_NOT_FOUND
  | ERR_BUSY
  | ERR_SESSION_CLOSED_BY_REMOTE
  | ERR_INVALID_STATE
  | ERR_RESERVED_VALUE
  | ERR_RESOURCE_LIMIT_EXCEEDED

abbreviation IsError :: "ResultCode \<Rightarrow> bool" where
  "IsError r \<equiv> r \<noteq> RESULT_SUCCESS"

text \<open>An access to an array or a vector: out of range is undefined.\<close>

definition nth_opt :: "'a list \<Rightarrow> nat \<Rightarrow> 'a option" where
  "nth_opt xs i = (if i < length xs then Some (xs ! i) else None)"

lemma nth_opt_Some [simp]: "i < length xs \<Longrightarrow> nth_opt xs i = Some (xs ! i)"
  by (simp add: nth_opt_def)

lemma nth_opt_eq_Some: "nth_opt xs i = Some x \<longleftrightarrow> i < length xs \<and> xs ! i = x"
  by (auto simp: nth_opt_def)

text \<open>A write to an array; out of range is undefined as well.\<close>

definition upd_opt :: "'a list \<Rightarrow> nat \<Rightarrow> 'a \<Rightarrow> 'a list option" where
  "upd_opt xs i x = (if i < length xs then Some (xs[i := x]) else None)"

lemma upd_opt_Some [simp]: "i < length xs \<Longrightarrow> upd_opt xs i x = Some (xs[i := x])"
  by (simp add: upd_opt_def)

lemma upd_opt_eq_Some: "upd_opt xs i x = Some ys \<longleftrightarrow> i < length xs \<and> ys = xs[i := x]"
  by (auto simp: upd_opt_def)

section \<open>Collections of facts\<close>

named_theorems unat_simps \<open>word operations read through unat, where nothing wraps\<close>

section \<open>Words without wrap-around\<close>

lemma unat_plus [unat_simps]:
  "unat a + unat b < 2 ^ 64 \<Longrightarrow> unat (a + b) = unat a + unat b" for a b :: u64
  by (simp add: unat_word_ariths)

lemma unat_times [unat_simps]:
  "unat a * unat b < 2 ^ 64 \<Longrightarrow> unat (a * b) = unat a * unat b" for a b :: u64
  by (simp add: unat_word_ariths)

lemma unat_diff [unat_simps]:
  "unat b \<le> unat a \<Longrightarrow> unat (a - b) = unat a - unat b" for a b :: u64
  by (simp add: unat_sub word_le_nat_alt)

lemma unat_pred [unat_simps]:
  "0 < unat a \<Longrightarrow> unat (a - 1) = unat a - 1" for a :: u64
  by (subst unat_diff) auto

lemma unat_lt64 [simp]: "unat a < 2 ^ 64" for a :: u64
proof -
  have "unat a < 2 ^ LENGTH(64)" by (rule unsigned_less)
  then show ?thesis by simp
qed

lemma u64_eq_iff: "a = b \<longleftrightarrow> unat a = unat b" for a b :: u64
  by (rule word_unat_eq_iff)

lemma last_le_iff:
  "unat a \<noteq> 0 \<Longrightarrow> unat b \<noteq> 0 \<Longrightarrow> a - 1 \<ge> b - 1 \<longleftrightarrow> unat a \<ge> unat b" for a b :: u64
  by (auto simp: word_le_nat_alt unat_simps)

lemma unat_of_nat64 [simp]: "n < 2 ^ 64 \<Longrightarrow> unat (of_nat n :: u64) = n"
  by (simp add: unat_of_nat)

lemma unat_div64 [simp]: "unat (a div b) = unat a div unat b" for a b :: u64
  by (simp add: unat_div_distrib)

lemma unat_mod64 [simp]: "unat (a mod b) = unat a mod unat b" for a b :: u64
  by (simp add: unat_mod_distrib)

lemma sint_small: "unat a < 2 ^ 63 \<Longrightarrow> sint a = int (unat a)" for a :: u64
proof -
  assume "unat a < 2 ^ 63"
  then have "int (unat a) < 2 ^ 63" by (metis of_nat_less_iff of_nat_numeral of_nat_power)
  then have "uint a < 2 ^ 63" "0 \<le> uint a" by simp_all
  then show ?thesis unfolding sint_uint by (subst signed_take_bit_int_eq_self) (simp_all add: order_trans [of _ 0])
qed

section \<open>Bits\<close>

lemma unat_pow2: "n < LENGTH('a) \<Longrightarrow> unat (2 ^ n :: 'a::len word) = 2 ^ n"
  by (metis of_nat_numeral of_nat_power take_bit_nat_eq_self_iff unsigned_of_nat
      power_strict_increasing_iff one_less_numeral_iff semiring_norm(76))

lemma xor_zero_imp_eq: "a XOR b = 0 \<Longrightarrow> a = b" for a b :: "'a::len word"
proof (rule bit_eqI)
  fix n
  assume "a XOR b = 0"
  then have "\<not> bit (a XOR b) n" by simp
  then show "bit a n \<longleftrightarrow> bit b n" by (simp add: bit_xor_iff)
qed

lemma or_exp_bit: "bit a n \<Longrightarrow> a OR 2 ^ n = a" for a :: "'a::len word"
  by (rule bit_eqI) (auto simp: bit_or_iff bit_exp_iff)

lemma or_exp_and_not_exp: "\<not> bit a n \<Longrightarrow> (a OR 2 ^ n) AND NOT (2 ^ n) = a" for a :: "'a::len word"
  by (rule bit_eqI) (auto simp: bit_or_iff bit_and_iff bit_not_iff bit_exp_iff dest: bit_imp_le_length)

section \<open>Multiples of a block size\<close>

lemma mult_dvd_gap: "c dvd a \<Longrightarrow> c dvd b \<Longrightarrow> a < b \<Longrightarrow> a + c \<le> b" for a b c :: nat
  by (metis add.commute dvd_add_right_iff le_add_diff_inverse less_imp_le_nat nat_dvd_not_less
      not_less zero_less_diff dvd_diff_nat nat_le_linear add_le_cancel_left)

end
