(* ===== verification/Alignment.thy ===== *)
theory Alignment
  imports Prelude
begin

text \<open>
  \<^verbatim>\<open>common/alignment.h\<close> and \<^verbatim>\<open>common/bit_util.h\<close>. The alignment templates are modelled at
  their 64-bit instance, the one the kernel memory code uses. Alignment by zero divides by zero
  in C++; the one caller whose alignment is not a constant (\<^verbatim>\<open>FindFreeArea\<close>) checks it in its
  model. The compiler builtins \<^verbatim>\<open>__builtin_clz\<close> and \<^verbatim>\<open>__builtin_ctz\<close> are scans of the
  bits; they are undefined at zero.
\<close>

section \<open>Alignment\<close>

definition AlignUp :: "u64 \<Rightarrow> u64 \<Rightarrow> u64" where
  "AlignUp v sz =
     (let m = v mod sz; v' = v - m
      in if m = 0 then v' else v' + sz)"

definition AlignDown :: "u64 \<Rightarrow> u64 \<Rightarrow> u64" where
  "AlignDown v sz = v - v mod sz"

definition AlignBits :: "u64 \<Rightarrow> u64 \<Rightarrow> u64 option" where
  "AlignBits v al =
     (if al < 64
      then Some (push_bit (unat al) (drop_bit (unat al) (v + (push_bit (unat al) 1 - 1))))
      else None)"

definition Is4KBAligned :: "u64 \<Rightarrow> bool" where
  "Is4KBAligned v \<longleftrightarrow> v AND 0xFFF = 0"

definition IsWordAligned :: "u64 \<Rightarrow> bool" where
  "IsWordAligned v \<longleftrightarrow> v AND 3 = 0"

definition IsAligned :: "u64 \<Rightarrow> u64 \<Rightarrow> bool" where
  "IsAligned v al \<longleftrightarrow> v AND (al - 1) = 0"

section \<open>Bit counting\<close>

text \<open>The builtins, as scans over the bits of the word.\<close>

definition builtin_ctz :: "'a::len word \<Rightarrow> nat" where
  "builtin_ctz w = length (takeWhile (\<lambda>i. \<not> bit w i) [0..<LENGTH('a)])"

definition builtin_clz :: "'a::len word \<Rightarrow> nat" where
  "builtin_clz w = length (takeWhile (\<lambda>i. \<not> bit w i) (rev [0..<LENGTH('a)]))"

definition CountLeadingZeroes32 :: "u32 \<Rightarrow> u32" where
  "CountLeadingZeroes32 v = (if v = 0 then 32 else of_nat (builtin_clz v))"

definition CountLeadingZeroes64 :: "u64 \<Rightarrow> u32" where
  "CountLeadingZeroes64 v = (if v = 0 then 64 else of_nat (builtin_clz v))"

definition CountTrailingZeroes32 :: "u32 \<Rightarrow> u32" where
  "CountTrailingZeroes32 v = (if v = 0 then 32 else of_nat (builtin_ctz v))"

definition CountTrailingZeroes64 :: "u64 \<Rightarrow> u32" where
  "CountTrailingZeroes64 v = (if v = 0 then 64 else of_nat (builtin_ctz v))"

definition MostSignificantBit32 :: "u32 \<Rightarrow> u32 option" where
  "MostSignificantBit32 v = (if v = 0 then None else Some (31 - of_nat (builtin_clz v)))"

definition MostSignificantBit64 :: "u64 \<Rightarrow> u32 option" where
  "MostSignificantBit64 v = (if v = 0 then None else Some (63 - of_nat (builtin_clz v)))"

definition Log2Floor32 :: "u32 \<Rightarrow> u32 option" where
  "Log2Floor32 v = MostSignificantBit32 v"

definition Log2Ceil32 :: "u32 \<Rightarrow> u32 option" where
  "Log2Ceil32 v = do {
     log2_f \<leftarrow> Log2Floor32 v;
     Some (log2_f + (if v XOR push_bit (unat log2_f) 1 \<noteq> 0 then 1 else 0))
   }"

definition Log2Floor64 :: "u64 \<Rightarrow> u32 option" where
  "Log2Floor64 v = MostSignificantBit64 v"

definition Log2Ceil64 :: "u64 \<Rightarrow> u32 option" where
  "Log2Ceil64 v = do {
     l \<leftarrow> Log2Floor64 v;
     let log2_f = (ucast l :: u64);
     Some (ucast (log2_f + (if v XOR push_bit (unat log2_f) 1 \<noteq> 0 then 1 else 0)))
   }"

section \<open>Alignment facts\<close>

lemma unat_AlignDown:
  "unat (AlignDown v sz) = unat v - unat v mod unat sz"
  by (simp add: AlignDown_def unat_simps unat_mod_distrib)

lemma unat_AlignDown_div:
  "unat (AlignDown v sz) = unat v div unat sz * unat sz"
  by (simp add: unat_AlignDown minus_mod_eq_div_mult)

lemma AlignDown_le: "unat (AlignDown v sz) \<le> unat v"
  by (simp add: unat_AlignDown)

lemma AlignDown_dvd: "unat sz dvd unat (AlignDown v sz)"
  by (simp add: unat_AlignDown_div)

lemma unat_AlignUp:
  assumes "unat v + unat sz \<le> 2 ^ 64" and "sz \<noteq> 0"
  shows "unat (AlignUp v sz) =
    (if unat v mod unat sz = 0 then unat v else unat v - unat v mod unat sz + unat sz)"
proof -
  have m: "unat (v - v mod sz) = unat v - unat v mod unat sz"
    by (simp add: unat_simps unat_mod_distrib)
  have z: "v mod sz = 0 \<longleftrightarrow> unat v mod unat sz = 0"
    by (metis unat_0 unat_mod_distrib word_unat_eq_iff)
  show ?thesis
  proof (cases "unat v mod unat sz = 0")
    case True
    with z show ?thesis by (simp add: AlignUp_def m)
  next
    case False
    then have "unat v - unat v mod unat sz + unat sz < 2 ^ 64"
      using assms(1) mod_less_eq_dividend [of "unat v" "unat sz"] by linarith
    with False z show ?thesis
      by (simp add: AlignUp_def m unat_plus)
  qed
qed

lemma AlignUp_ge:
  assumes "unat v + unat sz \<le> 2 ^ 64" and "sz \<noteq> 0"
  shows "unat v \<le> unat (AlignUp v sz)" and "unat (AlignUp v sz) < unat v + unat sz"
    and "unat sz dvd unat (AlignUp v sz)"
proof -
  have pos: "0 < unat sz" using assms(2) by (simp add: unat_gt_0)
  have lt: "unat v mod unat sz < unat sz" using pos by simp
  show "unat v \<le> unat (AlignUp v sz)"
    using lt mod_less_eq_dividend [of "unat v" "unat sz"]
    by (auto simp: unat_AlignUp [OF assms])
  show "unat (AlignUp v sz) < unat v + unat sz"
    using lt pos mod_less_eq_dividend [of "unat v" "unat sz"]
    by (auto simp: unat_AlignUp [OF assms])
  show "unat sz dvd unat (AlignUp v sz)"
    by (auto simp: unat_AlignUp [OF assms] minus_mod_eq_div_mult mod_eq_0_iff_dvd)
qed

lemma IsAligned_pow2:
  assumes "k < 64"
  shows "IsAligned v (2 ^ k) \<longleftrightarrow> 2 ^ k dvd unat v"
proof -
  have "(2 ^ k :: u64) - 1 = mask k" by (simp add: mask_eq_exp_minus_1)
  then show ?thesis by (simp add: IsAligned_def and_mask_dvd_nat)
qed

lemma Is4KBAligned_iff: "Is4KBAligned v \<longleftrightarrow> 4096 dvd unat v"
proof -
  have "(0xFFF :: u64) = mask 12" by (simp add: mask_eq_exp_minus_1)
  then have "Is4KBAligned v \<longleftrightarrow> 2 ^ 12 dvd unat v"
    unfolding Is4KBAligned_def by (metis and_mask_dvd_nat)
  then show ?thesis by simp
qed

section \<open>Bit counting facts\<close>

lemma takeWhile_upt_first:
  assumes "P k" and "k < n" and "\<And>j. j < k \<Longrightarrow> \<not> P j"
  shows "length (takeWhile (\<lambda>i. \<not> P i) [0..<n]) = k"
proof -
  have "[0..<n] = [0..<k] @ k # [Suc k..<n]"
    using assms(2) by (metis le_add1 less_imp_add_positive upt_add_eq_append upt_conv_Cons add_0)
  moreover have "takeWhile (\<lambda>i. \<not> P i) ([0..<k] @ k # [Suc k..<n]) = [0..<k]"
    using assms(1,3) by (subst takeWhile_append2) auto
  ultimately show ?thesis by simp
qed

lemma builtin_ctz_props:
  fixes w :: "'a::len word"
  assumes "w \<noteq> 0"
  shows "bit w (builtin_ctz w)" and "builtin_ctz w < LENGTH('a)"
    and "j < builtin_ctz w \<Longrightarrow> \<not> bit w j"
proof -
  from assms obtain i where i: "bit w i"
    by (metis bit_eq_iff bit_0_eq bot_apply bot_bool_def)
  define k where "k = (LEAST i. bit w i)"
  have k: "bit w k" and least: "\<And>j. j < k \<Longrightarrow> \<not> bit w j"
    unfolding k_def using i by (auto intro: LeastI dest: not_less_Least)
  have kl: "k < LENGTH('a)" using k by (auto dest: bit_imp_le_length)
  have "builtin_ctz w = k"
    unfolding builtin_ctz_def using k kl least by (rule takeWhile_upt_first)
  with k kl least show "bit w (builtin_ctz w)" and "builtin_ctz w < LENGTH('a)"
    and "j < builtin_ctz w \<Longrightarrow> \<not> bit w j" by auto
qed

lemma takeWhile_rev_upt:
  assumes "P k" and "k < n" and "\<And>j. k < j \<Longrightarrow> j < n \<Longrightarrow> \<not> P j"
  shows "length (takeWhile (\<lambda>i. \<not> P i) (rev [0..<n])) = n - 1 - k"
proof -
  have "[0..<n] = [0..<k] @ k # [Suc k..<n]"
    using assms(2) by (metis le_add1 less_imp_add_positive upt_add_eq_append upt_conv_Cons add_0)
  then have "rev [0..<n] = rev [Suc k..<n] @ k # rev [0..<k]" by simp
  moreover have "takeWhile (\<lambda>i. \<not> P i) (rev [Suc k..<n] @ k # rev [0..<k]) = rev [Suc k..<n]"
    using assms(1,3) by (subst takeWhile_append2) auto
  ultimately show ?thesis using assms(2) by simp
qed

text \<open>The highest set bit, and what it says of the value.\<close>

lemma highest_bit:
  fixes w :: "'a::len word"
  assumes "w \<noteq> 0"
  obtains k where "k < LENGTH('a)" and "builtin_clz w = LENGTH('a) - 1 - k"
    and "2 ^ k \<le> unat w" and "unat w < 2 ^ Suc k"
proof -
  define k where "k = (GREATEST i. bit w i)"
  from assms obtain i where i: "bit w i"
    by (metis bit_eq_iff bit_0_eq bot_apply bot_bool_def)
  have bound: "\<forall>j. bit w j \<longrightarrow> j \<le> LENGTH('a)"
    by (auto dest: bit_imp_le_length)
  have k: "bit w k"
    unfolding k_def using i bound by (metis GreatestI_nat)
  have great: "\<And>j. bit w j \<Longrightarrow> j \<le> k"
    unfolding k_def using bound by (metis Greatest_le_nat)
  have kl: "k < LENGTH('a)" using k by (auto dest: bit_imp_le_length)
  have none: "\<And>j. k < j \<Longrightarrow> j < LENGTH('a) \<Longrightarrow> \<not> bit w j"
    by (meson great not_less)
  have clz: "builtin_clz w = LENGTH('a) - 1 - k"
    unfolding builtin_clz_def using k kl none by (rule takeWhile_rev_upt)
  have bn: "bit (unat w) j \<longleftrightarrow> bit w j" for j
    by (simp add: bit_unsigned_iff)
  have "take_bit (Suc k) (unat w) = unat w"
  proof (rule bit_eqI)
    fix j
    show "bit (take_bit (Suc k) (unat w)) j \<longleftrightarrow> bit (unat w) j"
      using great [of j] by (auto simp: bit_take_bit_iff bn)
  qed
  then have up: "unat w < 2 ^ Suc k"
    by (metis take_bit_nat_less_exp)
  have "odd (unat w div 2 ^ k)" using k bn [of k] by (simp add: bit_iff_odd)
  then have lo: "2 ^ k \<le> unat w"
    by (metis div_less even_zero not_less)
  show ?thesis using kl clz lo up by (rule that)
qed

lemma Log2Floor32_bounds:
  assumes "v \<noteq> 0"
  obtains r where "Log2Floor32 v = Some r" and "unat r < 32"
    and "2 ^ unat r \<le> unat v" and "unat v < 2 ^ Suc (unat r)"
proof -
  obtain k where k: "k < LENGTH(32)" "builtin_clz v = LENGTH(32) - 1 - k"
    "2 ^ k \<le> unat v" "unat v < 2 ^ Suc k"
    using assms by (rule highest_bit)
  have "(31 :: u32) - of_nat (31 - k) = of_nat k"
    using k(1) by (simp add: of_nat_diff)
  then have "Log2Floor32 v = Some (of_nat k)"
    using assms k(1,2) by (simp add: Log2Floor32_def MostSignificantBit32_def)
  moreover have "unat (of_nat k :: u32) = k"
    using k(1) by (simp add: unat_of_nat)
  ultimately show ?thesis using k by (intro that [of "of_nat k"]) auto
qed

lemma Log2Ceil32_eq:
  assumes f: "Log2Floor32 v = Some r" and r: "unat r < 32"
  shows "Log2Ceil32 v = Some (if unat v = 2 ^ unat r then r else r + 1)"
proof -
  have "v XOR push_bit (unat r) 1 \<noteq> 0 \<longleftrightarrow> v \<noteq> 2 ^ unat r"
    by (auto simp: push_bit_of_1 dest: xor_zero_imp_eq)
  moreover have "unat (2 ^ unat r :: u32) = 2 ^ unat r"
    using r by (simp add: unat_pow2)
  then have "v = 2 ^ unat r \<longleftrightarrow> unat v = 2 ^ unat r"
    by (metis word_unat_eq_iff)
  ultimately show ?thesis
    by (simp add: Log2Ceil32_def f)
qed

text \<open>
  \<open>Log2Ceil32\<close> returns the exponent of the least power of two that is not below its argument;
  it is defined for every argument but zero.
\<close>

lemma Log2Ceil32_correct:
  assumes "v \<noteq> 0"
  shows "\<exists>r. Log2Ceil32 v = Some r \<and> unat v \<le> 2 ^ unat r \<and>
    (\<forall>n. unat v \<le> 2 ^ n \<longrightarrow> unat r \<le> n)"
proof -
  obtain r where r: "Log2Floor32 v = Some r" "unat r < 32"
    "2 ^ unat r \<le> unat v" "unat v < 2 ^ Suc (unat r)"
    using assms by (rule Log2Floor32_bounds)
  have suc: "unat (r + 1) = Suc (unat r)"
    using r(2) by (simp add: unat_word_ariths)
  have below: "\<And>n. unat v \<le> 2 ^ n \<Longrightarrow> unat r \<le> n"
    using r(3) by (auto intro!: power_le_imp_le_exp [of 2] dest: order_trans)
  have strict: "\<And>n. unat v \<le> 2 ^ n \<Longrightarrow> unat v \<noteq> 2 ^ unat r \<Longrightarrow> Suc (unat r) \<le> n"
    using r(3) below by (metis Suc_leI le_antisym le_neq_implies_less)
  show ?thesis
    using r(4) suc below strict
    by (cases "unat v = 2 ^ unat r") (auto simp: Log2Ceil32_eq [OF r(1,2)])
qed

end
