(* ===== verification/Handle_Table.thy ===== *)
theory Handle_Table
  imports Prelude
begin

text \<open>
  The table of kernel handles of a process: \<^verbatim>\<open>core/hle/kernel/handle_table.h\<close> and
  \<^verbatim>\<open>handle_table.cpp\<close>. A kernel object is a value of a type parameter; the null pointer of
  an empty slot is \<open>None\<close>. The free slots form a linked list threaded through the array of
  generations. The lemmas show that this list and the array of objects never disagree, that the
  table implements a finite map from handles to objects, that a free slot is always found, and
  that a closed handle stays dead for as long as the generation counter has not come around.
\<close>

section \<open>The code\<close>

type_synonym Handle = u32

definition CurrentThread :: Handle where
  "CurrentThread = 0xFFFF8000"

definition CurrentProcess :: Handle where
  "CurrentProcess = 0xFFFF8001"

definition MAX_COUNT :: nat where
  "MAX_COUNT = 1024"

record 'o HandleTable =
  ht_objects :: "'o option list"
  ht_generations :: "u16 list"
  ht_table_size :: u16
  ht_next_generation :: u16
  ht_next_free_slot :: u16

definition GetSlot :: "Handle \<Rightarrow> u16" where
  "GetSlot h = ucast (drop_bit 15 h)"

definition GetGeneration :: "Handle \<Rightarrow> u16" where
  "GetGeneration h = ucast (h AND 0x7FFF)"

text \<open>The loop of \<^verbatim>\<open>Clear\<close>, with the rounds that are left.\<close>

primrec Clear_loop :: "nat \<Rightarrow> u16 \<Rightarrow> 'o HandleTable \<Rightarrow> 'o HandleTable option" where
  "Clear_loop 0 i ht = Some ht"
| "Clear_loop (Suc n) i ht = do {
     gs \<leftarrow> upd_opt (ht_generations ht) (unat i) (i + 1);
     os \<leftarrow> upd_opt (ht_objects ht) (unat i) None;
     Clear_loop n (i + 1) (ht\<lparr>ht_generations := gs, ht_objects := os\<rparr>)
   }"

definition Clear :: "'o HandleTable \<Rightarrow> 'o HandleTable option" where
  "Clear ht = do {
     ht \<leftarrow> Clear_loop (unat (ht_table_size ht)) 0 ht;
     Some (ht\<lparr>ht_next_free_slot := 0\<rparr>)
   }"

text \<open>
  The constructor. The generations are not initialised before \<^verbatim>\<open>Clear\<close> writes them; the
  values found there are an argument.
\<close>

definition mk_HandleTable :: "u16 list \<Rightarrow> 'o HandleTable option" where
  "mk_HandleTable garbage =
     Clear \<lparr>ht_objects = replicate MAX_COUNT None, ht_generations = take MAX_COUNT garbage,
            ht_table_size = of_nat MAX_COUNT, ht_next_generation = 1, ht_next_free_slot = 0\<rparr>"

definition SetSize :: "u32 \<Rightarrow> 'o HandleTable \<Rightarrow> ResultCode \<times> 'o HandleTable" where
  "SetSize handle_table_size ht =
     (if unat handle_table_size > MAX_COUNT then (ERR_OUT_OF_MEMORY, ht)
      else if sint handle_table_size > 0
      then (RESULT_SUCCESS, ht\<lparr>ht_table_size := ucast handle_table_size\<rparr>)
      else (RESULT_SUCCESS, ht))"

definition Create :: "'o \<Rightarrow> 'o HandleTable \<Rightarrow> ((ResultCode + Handle) \<times> 'o HandleTable) option" where
  "Create obj ht =
     (let slot = ht_next_free_slot ht
      in if slot \<ge> ht_table_size ht then Some (Inl ERR_HANDLE_TABLE_FULL, ht)
         else do {
           next_free \<leftarrow> nth_opt (ht_generations ht) (unat slot);
           let generation = ht_next_generation ht;
           let next_gen = (if generation + 1 \<ge> 2 ^ 15 then 1 else generation + 1);
           gs \<leftarrow> upd_opt (ht_generations ht) (unat slot) generation;
           os \<leftarrow> upd_opt (ht_objects ht) (unat slot) (Some obj);
           Some (Inr (ucast generation OR push_bit 15 (ucast slot)),
             ht\<lparr>ht_generations := gs, ht_objects := os,
                ht_next_generation := next_gen, ht_next_free_slot := next_free\<rparr>)
         })"

definition IsValid :: "Handle \<Rightarrow> 'o HandleTable \<Rightarrow> bool option" where
  "IsValid h ht =
     (let slot = unat (GetSlot h); generation = GetGeneration h
      in if slot < unat (ht_table_size ht)
         then do {
           obj \<leftarrow> nth_opt (ht_objects ht) slot;
           if obj \<noteq> None
           then do {
             g \<leftarrow> nth_opt (ht_generations ht) slot;
             Some (g = generation)
           }
           else Some False
         }
         else Some False)"

text \<open>The current thread and process belong to the kernel; they are arguments.\<close>

definition GetGeneric :: "'o option \<Rightarrow> 'o option \<Rightarrow> Handle \<Rightarrow> 'o HandleTable \<Rightarrow> 'o option option" where
  "GetGeneric thread process h ht =
     (if h = CurrentThread then Some thread
      else if h = CurrentProcess then Some process
      else do {
        valid \<leftarrow> IsValid h ht;
        if \<not> valid then Some None
        else nth_opt (ht_objects ht) (unat (GetSlot h))
      })"

definition Duplicate ::
  "'o option \<Rightarrow> 'o option \<Rightarrow> Handle \<Rightarrow> 'o HandleTable \<Rightarrow> ((ResultCode + Handle) \<times> 'o HandleTable) option"
where
  "Duplicate thread process h ht = do {
     obj \<leftarrow> GetGeneric thread process h ht;
     case obj of
       None \<Rightarrow> Some (Inl ERR_INVALID_HANDLE, ht)
     | Some obj \<Rightarrow> Create obj ht
   }"

definition Close :: "Handle \<Rightarrow> 'o HandleTable \<Rightarrow> (ResultCode \<times> 'o HandleTable) option" where
  "Close h ht = do {
     valid \<leftarrow> IsValid h ht;
     if \<not> valid then Some (ERR_INVALID_HANDLE, ht)
     else do {
       let slot = GetSlot h;
       os \<leftarrow> upd_opt (ht_objects ht) (unat slot) None;
       gs \<leftarrow> upd_opt (ht_generations ht) (unat slot) (ht_next_free_slot ht);
       Some (RESULT_SUCCESS, ht\<lparr>ht_objects := os, ht_generations := gs, ht_next_free_slot := slot\<rparr>)
     }
   }"

section \<open>The invariant\<close>

text \<open>The free list: the slots met from \<open>s\<close> on, up to the first index that is no slot.\<close>

fun chain :: "u16 list \<Rightarrow> nat \<Rightarrow> u16 \<Rightarrow> nat list \<Rightarrow> bool" where
  "chain gs n s [] \<longleftrightarrow> n \<le> unat s"
| "chain gs n s (x # xs) \<longleftrightarrow> unat s = x \<and> x < n \<and> chain gs n (gs ! x) xs"

abbreviation slots :: "'o HandleTable \<Rightarrow> nat" where
  "slots ht \<equiv> unat (ht_table_size ht)"

definition live_slots :: "'o HandleTable \<Rightarrow> nat set" where
  "live_slots ht = {i. i < slots ht \<and> ht_objects ht ! i \<noteq> None}"

definition free_list_of :: "'o HandleTable \<Rightarrow> nat list \<Rightarrow> bool" where
  "free_list_of ht fl \<longleftrightarrow>
     distinct fl \<and> chain (ht_generations ht) (slots ht) (ht_next_free_slot ht) fl \<and>
     set fl = {i. i < slots ht \<and> ht_objects ht ! i = None}"

definition gen_ok :: "u16 \<Rightarrow> bool" where
  "gen_ok g \<longleftrightarrow> 1 \<le> unat g \<and> unat g < 2 ^ 15"

definition ht_inv :: "'o HandleTable \<Rightarrow> bool" where
  "ht_inv ht \<longleftrightarrow>
     length (ht_objects ht) = MAX_COUNT \<and> length (ht_generations ht) = MAX_COUNT \<and>
     slots ht \<le> MAX_COUNT \<and> gen_ok (ht_next_generation ht) \<and>
     (\<forall>i \<in> live_slots ht. gen_ok (ht_generations ht ! i)) \<and>
     (\<exists>fl. free_list_of ht fl)"

lemma chain_nfs:
  "chain gs n s fl \<Longrightarrow> unat s < n \<longleftrightarrow> fl \<noteq> []"
  by (cases fl) auto

lemma chain_update:
  "x \<notin> set fl \<Longrightarrow> chain (gs[x := v]) n s fl \<longleftrightarrow> chain gs n s fl"
  by (induction fl arbitrary: s) auto

section \<open>Handles as pairs of slot and generation\<close>

lemma GetSlot_bits: "bit (GetSlot h) n \<longleftrightarrow> n < 16 \<and> bit h (n + 15)"
  by (auto simp: GetSlot_def bit_unsigned_iff bit_drop_bit_eq ac_simps)

lemma bit_7FFF: "bit (0x7FFF :: u32) n \<longleftrightarrow> n < 15"
proof -
  have "(0x7FFF :: u32) = mask 15" by (simp add: mask_eq_exp_minus_1)
  show ?thesis unfolding \<open>0x7FFF = mask 15\<close> by (auto simp: bit_mask_iff)
qed

lemma GetGeneration_bits: "bit (GetGeneration h) n \<longleftrightarrow> n < 15 \<and> bit h n"
  unfolding GetGeneration_def bit_unsigned_iff bit_and_iff bit_7FFF by auto

lemma small_bits: "unat w < 2 ^ k \<Longrightarrow> k \<le> n \<Longrightarrow> \<not> bit w n" for w :: u16
proof
  assume a: "unat w < 2 ^ k" "k \<le> n" "bit w n"
  have "(2::nat) ^ k \<le> 2 ^ n" using a(2) by (rule power_increasing) simp
  with a(1) have "unat w < 2 ^ n" by linarith
  then have "unat w div 2 ^ n = 0" by (rule div_less)
  moreover have "bit (unat w) n" using a(3) by (simp add: bit_unsigned_iff)
  then have "odd (unat w div 2 ^ n)" unfolding bit_iff_odd .
  ultimately show False by simp
qed

lemma GetSlot_mk:
  fixes g :: u16
  assumes "unat g < 2 ^ 15"
  shows "GetSlot (ucast g OR push_bit 15 (ucast s)) = s"
  by (rule bit_eqI)
    (use assms small_bits[OF assms] in \<open>auto simp: GetSlot_bits bit_or_iff bit_push_bit_iff bit_unsigned_iff\<close>)

lemma GetGeneration_mk:
  fixes g :: u16
  assumes "unat g < 2 ^ 15"
  shows "GetGeneration (ucast g OR push_bit 15 (ucast s)) = g"
  by (rule bit_eqI)
    (use assms small_bits[OF assms] in \<open>auto simp: GetGeneration_bits bit_or_iff bit_push_bit_iff bit_unsigned_iff
       dest: bit_imp_le_length intro: leI\<close>)


section \<open>The table as a map\<close>

text \<open>The specification of the table: the object a slot holds under a generation.\<close>

definition key :: "Handle \<Rightarrow> nat \<times> u16" where
  "key h = (unat (GetSlot h), GetGeneration h)"

definition entry :: "'o HandleTable \<Rightarrow> nat \<times> u16 \<rightharpoonup> 'o" where
  "entry ht = (\<lambda>(s, g). if s < slots ht \<and> ht_generations ht ! s = g then ht_objects ht ! s else None)"

lemma ht_invD:
  assumes "ht_inv ht"
  shows "length (ht_objects ht) = MAX_COUNT" "length (ht_generations ht) = MAX_COUNT"
    "slots ht \<le> MAX_COUNT" "gen_ok (ht_next_generation ht)"
    "i < slots ht \<Longrightarrow> ht_objects ht ! i \<noteq> None \<Longrightarrow> gen_ok (ht_generations ht ! i)"
    "i < slots ht \<Longrightarrow> i < length (ht_objects ht)" "i < slots ht \<Longrightarrow> i < length (ht_generations ht)"
  using assms by (auto simp: ht_inv_def live_slots_def)

lemma slot_access:
  assumes "ht_inv ht" "i < slots ht"
  shows "nth_opt (ht_objects ht) i = Some (ht_objects ht ! i)"
    "nth_opt (ht_generations ht) i = Some (ht_generations ht ! i)"
    "upd_opt (ht_objects ht) i x = Some ((ht_objects ht)[i := x])"
    "upd_opt (ht_generations ht) i g = Some ((ht_generations ht)[i := g])"
  using ht_invD(6,7)[OF assms] by simp_all

lemma ht_invI:
  assumes "length (ht_objects ht) = MAX_COUNT" "length (ht_generations ht) = MAX_COUNT"
    "slots ht \<le> MAX_COUNT" "gen_ok (ht_next_generation ht)"
    "\<And>i. i < slots ht \<Longrightarrow> ht_objects ht ! i \<noteq> None \<Longrightarrow> gen_ok (ht_generations ht ! i)"
    "free_list_of ht fl"
  shows "ht_inv ht"
  using assms unfolding ht_inv_def live_slots_def by blast

lemma IsValid_entry: "ht_inv ht \<Longrightarrow> IsValid h ht = Some (entry ht (key h) \<noteq> None)"
  by (simp add: IsValid_def entry_def key_def slot_access Let_def)

lemma GetGeneric_entry:
  assumes "ht_inv ht" "h \<noteq> CurrentThread" "h \<noteq> CurrentProcess"
  shows "GetGeneric t p h ht = Some (entry ht (key h))"
proof (cases "entry ht (key h)")
  case None
  then show ?thesis using assms by (simp add: GetGeneric_def IsValid_entry)
next
  case (Some obj)
  then have "unat (GetSlot h) < slots ht" "ht_objects ht ! unat (GetSlot h) = Some obj"
    by (auto simp: entry_def key_def split: if_splits)
  then show ?thesis using assms Some by (simp add: GetGeneric_def IsValid_entry slot_access)
qed

lemma Close_invalid:
  "ht_inv ht \<Longrightarrow> entry ht (key h) = None \<Longrightarrow> Close h ht = Some (ERR_INVALID_HANDLE, ht)"
  by (simp add: Close_def IsValid_entry)

lemma Close_valid:
  assumes inv: "ht_inv ht" and e: "entry ht (key h) = Some obj"
  shows "\<exists>ht'. Close h ht = Some (RESULT_SUCCESS, ht') \<and> ht_inv ht' \<and>
    entry ht' = (entry ht)(key h := None) \<and> live_slots ht' = live_slots ht - {unat (GetSlot h)} \<and>
    ht_next_generation ht' = ht_next_generation ht \<and> ht_table_size ht' = ht_table_size ht"
proof -
  define s where "s = GetSlot h"
  have s: "unat s < slots ht" "ht_objects ht ! unat s = Some obj"
    "ht_generations ht ! unat s = GetGeneration h"
    using e by (auto simp: entry_def key_def s_def split: if_splits)
  note len = ht_invD(6,7)[OF inv s(1)]
  define ht' where "ht' = ht\<lparr>ht_objects := (ht_objects ht)[unat s := None],
    ht_generations := (ht_generations ht)[unat s := ht_next_free_slot ht], ht_next_free_slot := s\<rparr>"
  have "Close h ht = Some (RESULT_SUCCESS, ht')"
    using inv e s(1) by (simp add: Close_def IsValid_entry slot_access ht'_def Let_def flip: s_def)
  moreover obtain fl where fl: "free_list_of ht fl" using inv by (auto simp: ht_inv_def)
  then have "unat s \<notin> set fl" using s by (simp add: free_list_of_def)
  then have "free_list_of ht' (unat s # fl)"
    using fl s len unfolding free_list_of_def ht'_def by (auto simp: chain_update nth_list_update)
  then have "ht_inv ht'"
    by (rule ht_invI[rotated -1])
      (use ht_invD(1-5)[OF inv] s len in \<open>auto simp: ht'_def nth_list_update split: if_splits\<close>)
  moreover have "entry ht' k = ((entry ht)(key h := None)) k" for k
    using s len
    by (cases k; cases "fst k = unat s") (auto simp add: entry_def key_def ht'_def simp flip: s_def)
  then have "entry ht' = (entry ht)(key h := None)" by (rule ext)
  moreover have "live_slots ht' = live_slots ht - {unat s}"
    using len by (auto simp: live_slots_def ht'_def nth_list_update)
  ultimately show ?thesis by (auto simp: ht'_def s_def)
qed

definition next_gen :: "u16 \<Rightarrow> u16" where
  "next_gen g = (if g + 1 \<ge> 2 ^ 15 then 1 else g + 1)"

lemma unat_next_gen:
  assumes "gen_ok g"
  shows "unat (next_gen g) = (if unat g + 1 = 2 ^ 15 then 1 else unat g + 1)"
proof -
  have "unat (g + 1) = unat g + 1" using assms by (simp add: gen_ok_def unat_word_ariths)
  then show ?thesis using assms by (auto simp: next_gen_def gen_ok_def word_le_nat_alt)
qed

lemma gen_ok_next: "gen_ok g \<Longrightarrow> gen_ok (next_gen g)"
  using unat_next_gen[of g] by (auto simp: gen_ok_def)

lemma handle_not_special:
  fixes g s :: u16
  assumes "gen_ok g" "unat s < MAX_COUNT"
  defines "h \<equiv> (ucast g :: Handle) OR push_bit 15 (ucast s)"
  shows "h \<noteq> 0" "h \<noteq> CurrentThread" "h \<noteq> CurrentProcess"
proof -
  have g: "unat g < 2 ^ 15" using assms by (simp add: gen_ok_def)
  have gs: "GetGeneration h = g" "GetSlot h = s"
    unfolding h_def by (rule GetGeneration_mk[OF g], rule GetSlot_mk[OF g])
  have z: "GetGeneration 0 = 0" "GetSlot CurrentThread = 0xFFFF" "GetSlot CurrentProcess = 0xFFFF"
    by (simp_all add: GetGeneration_def GetSlot_def CurrentThread_def CurrentProcess_def)
  show "h \<noteq> 0" "h \<noteq> CurrentThread" "h \<noteq> CurrentProcess"
    using gs z assms(1,2) by (auto simp: gen_ok_def MAX_COUNT_def)
qed

lemma full_iff:
  assumes "ht_inv ht"
  shows "ht_table_size ht \<le> ht_next_free_slot ht \<longleftrightarrow> card (live_slots ht) = slots ht"
proof -
  obtain fl where fl: "free_list_of ht fl" using assms by (auto simp: ht_inv_def)
  have nfs: "unat (ht_next_free_slot ht) < slots ht \<longleftrightarrow> fl \<noteq> []"
    using fl chain_nfs unfolding free_list_of_def by blast
  have sub: "live_slots ht \<subseteq> {..<slots ht}" by (auto simp: live_slots_def)
  have "set fl = {i. i < slots ht \<and> ht_objects ht ! i = None}" using fl by (simp add: free_list_of_def)
  moreover have "{i. i < slots ht \<and> ht_objects ht ! i = None} = {..<slots ht} - live_slots ht"
    by (auto simp: live_slots_def)
  ultimately have fls: "set fl = {..<slots ht} - live_slots ht" by (rule trans)
  have "set fl = {} \<longleftrightarrow> live_slots ht = {..<slots ht}"
    unfolding fls Diff_eq_empty_iff using sub by (metis subset_antisym order_refl)
  moreover have "live_slots ht = {..<slots ht} \<longleftrightarrow> card (live_slots ht) = slots ht"
    using card_subset_eq[OF finite_lessThan sub] card_lessThan[of "slots ht"] by metis
  ultimately show ?thesis unfolding word_le_nat_alt set_empty using nfs not_less by metis
qed

lemma Create_full:
  "ht_inv ht \<Longrightarrow> card (live_slots ht) = slots ht \<Longrightarrow> Create obj ht = Some (Inl ERR_HANDLE_TABLE_FULL, ht)"
  by (simp add: Create_def full_iff)

lemma Create_free:
  assumes inv: "ht_inv ht" and room: "card (live_slots ht) \<noteq> slots ht"
  shows "\<exists>h ht'. Create obj ht = Some (Inr h, ht') \<and> ht_inv ht' \<and>
    h \<noteq> 0 \<and> h \<noteq> CurrentThread \<and> h \<noteq> CurrentProcess \<and> entry ht (key h) = None \<and>
    entry ht' = (entry ht)(key h \<mapsto> obj) \<and> live_slots ht' = insert (unat (GetSlot h)) (live_slots ht) \<and>
    unat (GetSlot h) \<notin> live_slots ht \<and> GetGeneration h = ht_next_generation ht \<and>
    ht_next_generation ht' = next_gen (ht_next_generation ht) \<and> ht_table_size ht' = ht_table_size ht"
proof -
  define s where "s = ht_next_free_slot ht"
  define g where "g = ht_next_generation ht"
  have s: "unat s < slots ht" and nf: "\<not> ht_table_size ht \<le> ht_next_free_slot ht"
    using full_iff[OF inv] room by (auto simp: s_def word_le_nat_alt)
  note len = ht_invD(6,7)[OF inv s]
  have g: "gen_ok g" "unat g < 2 ^ 15" using ht_invD(4)[OF inv] by (simp_all add: gen_ok_def g_def)
  define h :: Handle where "h = ucast g OR push_bit 15 (ucast s)"
  have h: "GetGeneration h = g" "GetSlot h = s"
    unfolding h_def by (rule GetGeneration_mk[OF g(2)], rule GetSlot_mk[OF g(2)])
  obtain fl where fl: "free_list_of ht fl" using inv by (auto simp: ht_inv_def)
  then obtain fl' where fl': "fl = unat s # fl'" using s by (cases fl) (auto simp: free_list_of_def s_def)
  have empty: "ht_objects ht ! unat s = None" using fl fl' by (auto simp: free_list_of_def)
  define ht' where "ht' = ht\<lparr>ht_generations := (ht_generations ht)[unat s := g],
    ht_objects := (ht_objects ht)[unat s := Some obj],
    ht_next_generation := next_gen g, ht_next_free_slot := ht_generations ht ! unat s\<rparr>"
  have "Create obj ht = Some (Inr h, ht')"
    using nf slot_access[OF inv s]
    by (simp add: Create_def g_def h_def ht'_def next_gen_def Let_def flip: s_def)
  moreover have "set fl' = {i. i < slots ht \<and> ht_objects ht ! i = None} - {unat s}"
    using fl unfolding free_list_of_def fl' by auto
  then have "set fl' = {i. i < slots ht' \<and> ht_objects ht' ! i = None}"
    using len by (auto simp: ht'_def nth_list_update)
  then have "free_list_of ht' fl'"
    using fl unfolding free_list_of_def fl' by (simp add: ht'_def chain_update)
  then have "ht_inv ht'"
    by (rule ht_invI[rotated -1])
      (use ht_invD(1-5)[OF inv] s len g gen_ok_next in \<open>auto simp: ht'_def nth_list_update split: if_splits\<close>)
  moreover have "entry ht (key h) = None" using h empty by (simp add: entry_def key_def)
  moreover have "entry ht' k = ((entry ht)(key h \<mapsto> obj)) k" for k
    using s len h empty by (cases k; cases "fst k = unat s") (auto simp add: entry_def key_def ht'_def)
  then have "entry ht' = (entry ht)(key h \<mapsto> obj)" by (rule ext)
  moreover have "live_slots ht' = insert (unat s) (live_slots ht)"
    using len s by (auto simp: live_slots_def ht'_def nth_list_update)
  moreover have "h \<noteq> 0" "h \<noteq> CurrentThread" "h \<noteq> CurrentProcess"
    using handle_not_special[OF g(1), of s] s ht_invD(3)[OF inv] by (simp_all add: h_def)
  ultimately show ?thesis using h empty
    by (auto simp: ht'_def s_def g_def live_slots_def)
qed

section \<open>Construction\<close>

lemma unat_inc16: "unat i < MAX_COUNT \<Longrightarrow> unat (i + 1) = unat i + 1" for i :: u16
  by (simp add: unat_word_ariths MAX_COUNT_def)

lemma unat_of_nat16: "n \<le> MAX_COUNT \<Longrightarrow> unat (of_nat n :: u16) = n"
  by (simp add: unat_of_nat MAX_COUNT_def take_bit_nat_eq_self)

lemma Clear_loop_correct:
  assumes "unat i + n \<le> MAX_COUNT" "length (ht_objects ht) = MAX_COUNT" "length (ht_generations ht) = MAX_COUNT"
  shows "\<exists>gs os. Clear_loop n i ht = Some (ht\<lparr>ht_generations := gs, ht_objects := os\<rparr>) \<and>
    length gs = MAX_COUNT \<and> length os = MAX_COUNT \<and>
    (\<forall>j < MAX_COUNT. gs ! j = (if unat i \<le> j \<and> j < unat i + n then of_nat (j + 1) else ht_generations ht ! j) \<and>
       os ! j = (if unat i \<le> j \<and> j < unat i + n then None else ht_objects ht ! j))"
  using assms
proof (induction n arbitrary: i ht)
  case 0
  show ?case
    by (rule exI[of _ "ht_generations ht"], rule exI[of _ "ht_objects ht"]) (use 0 in auto)
next
  case (Suc n)
  define ht1 where "ht1 = ht\<lparr>ht_generations := (ht_generations ht)[unat i := i + 1],
    ht_objects := (ht_objects ht)[unat i := None]\<rparr>"
  have i: "unat (i + 1) = unat i + 1" "unat i < MAX_COUNT" using Suc.prems unat_inc16[of i] by auto
  obtain gs os where r: "Clear_loop n (i + 1) ht1 = Some (ht1\<lparr>ht_generations := gs, ht_objects := os\<rparr>)"
    "length gs = MAX_COUNT" "length os = MAX_COUNT"
    "\<And>j. j < MAX_COUNT \<Longrightarrow> gs ! j = (if unat i + 1 \<le> j \<and> j < unat i + 1 + n then of_nat (j + 1) else ht_generations ht1 ! j) \<and>
       os ! j = (if unat i + 1 \<le> j \<and> j < unat i + 1 + n then None else ht_objects ht1 ! j)"
    using Suc.IH[of "i + 1" ht1] Suc.prems i by (auto simp: ht1_def)
  have "Clear_loop (Suc n) i ht = Some (ht\<lparr>ht_generations := gs, ht_objects := os\<rparr>)"
    using Suc.prems i r(1) by (simp add: ht1_def)
  moreover have "gs ! j = (if unat i \<le> j \<and> j < unat i + Suc n then of_nat (j + 1) else ht_generations ht ! j) \<and>
      os ! j = (if unat i \<le> j \<and> j < unat i + Suc n then None else ht_objects ht ! j)"
    if "j < MAX_COUNT" for j
    using r(4)[OF that] Suc.prems i by (auto simp: ht1_def nth_list_update)
  ultimately show ?case using r(2,3) by blast
qed

lemma chain_upto:
  assumes "\<And>j. j < n \<Longrightarrow> gs ! j = of_nat (j + 1)" "i \<le> n" "n \<le> MAX_COUNT"
  shows "chain gs n (of_nat i) [i..<n]"
  using assms(2)
proof (induction "n - i" arbitrary: i)
  case 0
  then show ?case using assms(3) by (simp add: unat_of_nat16)
next
  case (Suc m)
  then have "i < n" "m = n - (i + 1)" by auto
  then have "i < n" "chain gs n (of_nat (i + 1)) [i + 1..<n]" using Suc.hyps(1)[of "i + 1"] by auto
  then show ?case using assms(1)[of i] assms(3) by (simp add: upt_conv_Cons unat_of_nat16)
qed

text \<open>A table whose free list is the ascending one: after the constructor and after \<^verbatim>\<open>Clear\<close>.\<close>

definition fresh :: "'o HandleTable \<Rightarrow> bool" where
  "fresh ht \<longleftrightarrow>
     length (ht_objects ht) = MAX_COUNT \<and> length (ht_generations ht) = MAX_COUNT \<and>
     slots ht \<le> MAX_COUNT \<and> gen_ok (ht_next_generation ht) \<and> ht_next_free_slot ht = 0 \<and>
     (\<forall>j < slots ht. ht_objects ht ! j = None \<and> ht_generations ht ! j = of_nat (j + 1))"

lemma fresh_inv:
  assumes "fresh ht"
  shows "ht_inv ht"
proof (rule ht_invI)
  show "free_list_of ht [0..<slots ht]"
    using assms chain_upto[of "slots ht" "ht_generations ht" 0] by (auto simp: fresh_def free_list_of_def)
qed (use assms in \<open>auto simp: fresh_def\<close>)

lemma fresh_empty: "fresh ht \<Longrightarrow> live_slots ht = {}" "fresh ht \<Longrightarrow> entry ht = Map.empty"
  by (auto simp: fresh_def live_slots_def entry_def fun_eq_iff)

lemma Clear_fresh:
  assumes "length (ht_objects ht) = MAX_COUNT" "length (ht_generations ht) = MAX_COUNT"
    "slots ht \<le> MAX_COUNT" "gen_ok (ht_next_generation ht)"
  shows "\<exists>ht'. Clear ht = Some ht' \<and> fresh ht' \<and>
    ht_next_generation ht' = ht_next_generation ht \<and> ht_table_size ht' = ht_table_size ht"
  using Clear_loop_correct[of 0 "slots ht" ht] assms by (auto simp: Clear_def fresh_def)

lemma mk_HandleTable_fresh:
  assumes "MAX_COUNT \<le> length garbage"
  shows "\<exists>ht. mk_HandleTable garbage = Some ht \<and> fresh ht \<and> slots ht = MAX_COUNT"
proof -
  let ?ht = "\<lparr>ht_objects = replicate MAX_COUNT None, ht_generations = take MAX_COUNT garbage,
            ht_table_size = of_nat MAX_COUNT, ht_next_generation = 1, ht_next_free_slot = 0\<rparr>"
  have "slots ?ht = MAX_COUNT" using unat_of_nat16[of MAX_COUNT] by simp
  moreover have "gen_ok 1" by (simp add: gen_ok_def)
  ultimately show ?thesis
    unfolding mk_HandleTable_def using Clear_fresh[of ?ht] assms by auto
qed

lemma SetSize_fresh:
  assumes "fresh ht" "slots ht = MAX_COUNT"
  shows "fresh (snd (SetSize n ht))"
proof -
  have "fresh (ht\<lparr>ht_table_size := ucast n\<rparr>)" if "unat n \<le> MAX_COUNT"
  proof -
    have "unat (ucast n :: u16) = unat n"
      using that by (simp add: unsigned_ucast_eq unsigned_take_bit_eq MAX_COUNT_def take_bit_nat_eq_self)
    then show ?thesis using assms that by (simp add: fresh_def)
  qed
  then show ?thesis using assms by (auto simp: SetSize_def)
qed

section \<open>Runs of the table\<close>

text \<open>
  The operations a process performs on its table, counting the handles created. The size is set
  once, before the first handle (\<^verbatim>\<open>Process::LoadFromMetadata\<close>).
\<close>

inductive ht_run :: "nat \<Rightarrow> 'o HandleTable \<Rightarrow> 'o HandleTable \<Rightarrow> bool" where
  ht_start: "ht_run 0 a a"
| ht_create: "ht_run k a b \<Longrightarrow> Create obj b = Some (Inr h, c) \<Longrightarrow> ht_run (Suc k) a c"
| ht_create_fail: "ht_run k a b \<Longrightarrow> Create obj b = Some (Inl e, c) \<Longrightarrow> ht_run k a c"
| ht_duplicate: "ht_run k a b \<Longrightarrow> Duplicate t p h b = Some (Inr h', c) \<Longrightarrow> ht_run (Suc k) a c"
| ht_duplicate_fail: "ht_run k a b \<Longrightarrow> Duplicate t p h b = Some (Inl e, c) \<Longrightarrow> ht_run k a c"
| ht_close: "ht_run k a b \<Longrightarrow> Close h b = Some (r, c) \<Longrightarrow> ht_run k a c"
| ht_clear: "ht_run k a b \<Longrightarrow> Clear b = Some c \<Longrightarrow> ht_run k a c"

inductive ht_reach :: "'o HandleTable \<Rightarrow> bool" where
  "MAX_COUNT \<le> length garbage \<Longrightarrow> mk_HandleTable garbage = Some a \<Longrightarrow> SetSize n a = (r, b) \<Longrightarrow>
   ht_run k b c \<Longrightarrow> ht_reach c"

lemma Create_Inr:
  assumes "ht_inv ht" "Create obj ht = Some (Inr h, ht')"
  shows "ht_inv ht'" "entry ht (key h) = None" "entry ht' = (entry ht)(key h \<mapsto> obj)"
    "GetGeneration h = ht_next_generation ht" "ht_next_generation ht' = next_gen (ht_next_generation ht)"
  using assms Create_free[OF assms(1), of obj] Create_full[OF assms(1), of obj]
  by (cases "card (live_slots ht) = slots ht"; auto)+

lemma Create_Inl: "ht_inv ht \<Longrightarrow> Create obj ht = Some (Inl e, ht') \<Longrightarrow> ht' = ht \<and> e = ERR_HANDLE_TABLE_FULL"
  using Create_free[of ht obj] Create_full[of ht obj] by (cases "card (live_slots ht) = slots ht") auto

lemma Duplicate_Create:
  "Duplicate t p h ht = Some (Inr h', ht') \<Longrightarrow> \<exists>obj. Create obj ht = Some (Inr h', ht')"
  "ht_inv ht \<Longrightarrow> Duplicate t p h ht = Some (Inl e, ht') \<Longrightarrow> ht' = ht"
  by (auto simp: Duplicate_def bind_eq_Some_conv Create_Inl split: option.splits)

lemma Close_step:
  assumes "ht_inv ht" "Close h ht = Some (r, ht')"
  shows "ht_inv ht'" "ht_next_generation ht' = ht_next_generation ht"
    "entry ht' = (entry ht)(key h := None)"
  using assms Close_invalid[OF assms(1), of h] Close_valid[OF assms(1), of h]
  by (cases "entry ht (key h)"; auto simp: fun_upd_idem)+

lemma Clear_step:
  assumes "ht_inv ht" "Clear ht = Some ht'"
  shows "ht_inv ht'" "ht_next_generation ht' = ht_next_generation ht" "entry ht' = Map.empty"
  using Clear_fresh[OF ht_invD(1-4)[OF assms(1)]] assms(2) fresh_inv fresh_empty by auto

text \<open>The generation \<open>n\<close> creations after \<open>g\<close>: it runs through 1 to 0x7FFF.\<close>

definition gen_at :: "nat \<Rightarrow> nat \<Rightarrow> nat" where
  "gen_at g n = 1 + (g - 1 + n) mod (2 ^ 15 - 1)"

lemma gen_at_0: "gen_ok g \<Longrightarrow> gen_at (unat g) 0 = unat g"
  by (auto simp: gen_at_def gen_ok_def)

lemma next_gen_at: "gen_ok g \<Longrightarrow> unat g = gen_at g0 n \<Longrightarrow> unat (next_gen g) = gen_at g0 (Suc n)"
  using unat_next_gen[of g] by (simp add: gen_at_def mod_Suc)

lemma gen_at_shift:
  assumes "gen_ok g"
  shows "gen_at (gen_at (unat g) m) n = gen_at (unat g) (m + n)"
proof -
  have "gen_at (gen_at (unat g) m) n = 1 + ((unat g - 1 + m) mod (2 ^ 15 - 1) + n) mod (2 ^ 15 - 1)"
    by (simp add: gen_at_def)
  also have "\<dots> = gen_at (unat g) (m + n)" by (simp only: mod_add_left_eq gen_at_def add.assoc)
  finally show ?thesis .
qed

lemma gen_at_distinct:
  assumes "gen_ok g" "0 < n" "n < 2 ^ 15 - 1"
  shows "gen_at (unat g) n \<noteq> unat g"
proof
  assume "gen_at (unat g) n = unat g"
  then have "gen_at (unat g) n = gen_at (unat g) 0" using gen_at_0[OF assms(1)] by (rule trans[OF _ sym])
  then have e: "(unat g - 1 + n) mod (2 ^ 15 - 1) = (unat g - 1) mod (2 ^ 15 - 1)"
    by (simp only: gen_at_def add_left_cancel add_0_right)
  then have "(2 ^ 15 - 1) dvd (unat g - 1 + n) - (unat g - 1)" by (subst mod_eq_dvd_iff_nat[symmetric]) simp_all
  then have "2 ^ 15 - 1 dvd n" by simp
  then have "2 ^ 15 - 1 \<le> n" using assms(2) by (rule dvd_imp_le)
  then show False using assms(3) by linarith
qed

text \<open>What a run keeps: the invariant, the counter, and the absence of every entry of an old generation.\<close>

lemma ht_run_keeps:
  assumes "ht_run k a b" "ht_inv a"
  shows "ht_inv b \<and> unat (ht_next_generation b) = gen_at (unat (ht_next_generation a)) k \<and>
    (\<forall>s g. entry a (s, g) = None \<longrightarrow> (\<forall>i < k. gen_at (unat (ht_next_generation a)) i \<noteq> unat g) \<longrightarrow>
      entry b (s, g) = None)"
  using assms
proof (induction rule: ht_run.induct)
  case (ht_start a)
  then show ?case by (simp add: gen_at_0 ht_invD(4))
next
  case (ht_create k a b obj h c)
  note IH = ht_create.IH[OF ht_create.prems]
  have ib: "ht_inv b" using IH by blast
  note c = Create_Inr[OF ib ht_create.hyps(2)]
  have "unat (ht_next_generation c) = gen_at (unat (ht_next_generation a)) (Suc k)"
    unfolding c(5) using IH ht_invD(4)[OF ib] by (intro next_gen_at) auto
  moreover have "entry c (s, g) = None" if "entry a (s, g) = None"
    "\<forall>i < Suc k. gen_at (unat (ht_next_generation a)) i \<noteq> unat g" for s g
    using that IH c(3,4) by (auto simp: key_def)
  ultimately show ?case using c(1) by blast
next
  case (ht_duplicate k a b t p h h' c)
  note IH = ht_duplicate.IH[OF ht_duplicate.prems]
  have ib: "ht_inv b" using IH by blast
  obtain obj where "Create obj b = Some (Inr h', c)" using Duplicate_Create(1)[OF ht_duplicate.hyps(2)] by blast
  note c = Create_Inr[OF ib this]
  have "unat (ht_next_generation c) = gen_at (unat (ht_next_generation a)) (Suc k)"
    unfolding c(5) using IH ht_invD(4)[OF ib] by (intro next_gen_at) auto
  moreover have "entry c (s, g) = None" if "entry a (s, g) = None"
    "\<forall>i < Suc k. gen_at (unat (ht_next_generation a)) i \<noteq> unat g" for s g
    using that IH c(3,4) by (auto simp: key_def)
  ultimately show ?case using c(1) by blast
next
  case (ht_close k a b h r c)
  then show ?case using Close_step[of b h r c] by auto
next
  case (ht_clear k a b c)
  then show ?case using Clear_step[of b c] by auto
qed (auto dest: Create_Inl Duplicate_Create(2))

lemma ht_reach_inv: "ht_reach ht \<Longrightarrow> ht_inv ht"
proof (induction rule: ht_reach.induct)
  case (1 garbage a n r b k c)
  obtain a' :: "'a HandleTable" where "mk_HandleTable garbage = Some a'" "fresh a'" "slots a' = MAX_COUNT"
    using mk_HandleTable_fresh[OF 1(1)] by blast
  then have "fresh a" "slots a = MAX_COUNT" using 1(2) by simp_all
  then have "fresh b" using SetSize_fresh[of a n] 1(3) by simp
  then show ?case using ht_run_keeps[OF 1(4)] fresh_inv by blast
qed

section \<open>Properties\<close>

text \<open>A table of two slots, as the constructor and \<^verbatim>\<open>SetSize\<close> build it.\<close>

definition example_table :: "nat HandleTable" where
  "example_table = \<lparr>ht_objects = replicate MAX_COUNT None, ht_generations = map (\<lambda>j. of_nat (j + 1)) [0..<MAX_COUNT],
     ht_table_size = 2, ht_next_generation = 1, ht_next_free_slot = 0\<rparr>"

lemma example_table_built:
  "mk_HandleTable (replicate MAX_COUNT 0) = Some (example_table\<lparr>ht_table_size := of_nat MAX_COUNT\<rparr>)"
proof -
  let ?ht = "\<lparr>ht_objects = replicate MAX_COUNT None, ht_generations = replicate MAX_COUNT 0,
            ht_table_size = of_nat MAX_COUNT, ht_next_generation = 1, ht_next_free_slot = 0\<rparr> :: nat HandleTable"
  have sz: "unat (of_nat MAX_COUNT :: u16) = MAX_COUNT" using unat_of_nat16[of MAX_COUNT] by simp
  obtain gs os where r: "Clear_loop MAX_COUNT 0 ?ht = Some (?ht\<lparr>ht_generations := gs, ht_objects := os\<rparr>)"
    "length gs = MAX_COUNT" "length os = MAX_COUNT"
    "\<And>j. j < MAX_COUNT \<Longrightarrow> gs ! j = of_nat (j + 1) \<and> os ! j = None"
    using Clear_loop_correct[of 0 MAX_COUNT ?ht] by auto
  have "gs = map (\<lambda>j. of_nat (j + 1)) [0..<MAX_COUNT]" "os = replicate MAX_COUNT None"
    using r(2-4) by (auto intro: nth_equalityI)
  then show ?thesis
    using r(1) sz by (simp add: mk_HandleTable_def Clear_def example_table_def)
qed

lemma example_table_reach: "ht_run k example_table ht \<Longrightarrow> ht_reach ht"
  by (rule ht_reach.intros[OF _ example_table_built, of 2])
    (auto simp: SetSize_def MAX_COUNT_def example_table_def)

lemma example_table_fresh: "fresh example_table"
  by (auto simp: fresh_def example_table_def gen_ok_def MAX_COUNT_def)

text \<open>
  C35. In every state a process can bring its table to, the free list visits each empty slot once
  and no other, every live slot has a generation from 1 to 0x7FFF, and no operation reads or writes
  outside the arrays.
\<close>

theorem HandleTable_invariant:
  assumes "ht_reach ht"
  shows "ht_inv ht \<and> IsValid h ht \<noteq> None \<and> GetGeneric t p h ht \<noteq> None \<and> Create obj ht \<noteq> None \<and>
    Duplicate t p h ht \<noteq> None \<and> Close h ht \<noteq> None \<and> Clear ht \<noteq> None"
proof -
  have inv: "ht_inv ht" using assms by (rule ht_reach_inv)
  have c: "Create obj ht \<noteq> None" for obj
    using Create_free[OF inv, of obj] Create_full[OF inv, of obj] by (cases "card (live_slots ht) = slots ht") auto
  have g: "GetGeneric t p h ht \<noteq> None" using GetGeneric_entry[OF inv, of h t p] by (auto simp: GetGeneric_def)
  have "Duplicate t p h ht \<noteq> None" using g c by (auto simp: Duplicate_def bind_eq_None_conv split: option.splits)
  moreover have "Close h ht \<noteq> None"
    using Close_valid[OF inv, of h] Close_invalid[OF inv, of h] by (cases "entry ht (key h)") auto
  moreover have "Clear ht \<noteq> None" using Clear_fresh[OF ht_invD(1-4)[OF inv]] by auto
  ultimately show ?thesis using inv c g IsValid_entry[OF inv, of h] by auto
qed

theorem HandleTable_invariant_witness:
  "ht_inv example_table \<and> Close 1 example_table \<noteq> None"
  using HandleTable_invariant[OF example_table_reach[OF ht_start], of 1] by simp

text \<open>
  C36. The table implements a finite map from the slot and generation of a handle to an object:
  a lookup reads the map, a successful Create adds one entry under an unused handle that is neither
  zero nor a pseudo-handle, a Duplicate adds the object of the old handle, Close removes an entry or
  reports an invalid handle, and Clear removes all.
\<close>

theorem HandleTable_implements_map:
  assumes "ht_reach ht" "h \<noteq> CurrentThread" "h \<noteq> CurrentProcess"
  shows "GetGeneric t p h ht = Some (entry ht (key h)) \<and>
    (\<forall>obj h' ht'. Create obj ht = Some (Inr h', ht') \<longrightarrow>
       h' \<noteq> 0 \<and> h' \<noteq> CurrentThread \<and> h' \<noteq> CurrentProcess \<and>
       entry ht (key h') = None \<and> entry ht' = (entry ht)(key h' \<mapsto> obj)) \<and>
    Duplicate t p h ht =
      (case entry ht (key h) of None \<Rightarrow> Some (Inl ERR_INVALID_HANDLE, ht) | Some obj \<Rightarrow> Create obj ht) \<and>
    (\<exists>ht'. Close h ht = Some (if entry ht (key h) = None then ERR_INVALID_HANDLE else RESULT_SUCCESS, ht') \<and>
       entry ht' = (entry ht)(key h := None)) \<and>
    (\<exists>ht'. Clear ht = Some ht' \<and> entry ht' = Map.empty)"
proof (intro conjI allI impI)
  have inv: "ht_inv ht" using assms(1) by (rule ht_reach_inv)
  show g: "GetGeneric t p h ht = Some (entry ht (key h))" by (rule GetGeneric_entry[OF inv assms(2,3)])
  show "Duplicate t p h ht =
      (case entry ht (key h) of None \<Rightarrow> Some (Inl ERR_INVALID_HANDLE, ht) | Some obj \<Rightarrow> Create obj ht)"
    by (simp add: Duplicate_def g)
  show "\<exists>ht'. Close h ht = Some (if entry ht (key h) = None then ERR_INVALID_HANDLE else RESULT_SUCCESS, ht') \<and>
      entry ht' = (entry ht)(key h := None)"
    using Close_valid[OF inv, of h] Close_invalid[OF inv, of h] by (cases "entry ht (key h)") auto
  show "\<exists>ht'. Clear ht = Some ht' \<and> entry ht' = Map.empty"
    using Clear_fresh[OF ht_invD(1-4)[OF inv]] fresh_empty(2) by blast
  fix obj h' ht'
  assume c: "Create obj ht = Some (Inr h', ht')"
  show "h' \<noteq> 0" "h' \<noteq> CurrentThread" "h' \<noteq> CurrentProcess"
    "entry ht (key h') = None" "entry ht' = (entry ht)(key h' \<mapsto> obj)"
    using Create_free[OF inv, of obj] Create_full[OF inv, of obj] c
    by (cases "card (live_slots ht) = slots ht"; auto)+
qed

theorem HandleTable_implements_map_witness:
  "Duplicate None None 5 example_table = Some (Inl ERR_INVALID_HANDLE, example_table) \<and>
   GetGeneric None None 5 example_table = Some None"
  using HandleTable_implements_map[OF example_table_reach[OF ht_start], of 5 None None]
  by (simp add: CurrentThread_def CurrentProcess_def fresh_empty[OF example_table_fresh])

text \<open>
  Create finds a slot whenever fewer handles are live than the table has slots, and then one
  more is live; it reports a full table exactly when all slots are taken, and then changes nothing.
\<close>

lemma Create_finds_slot:
  assumes "ht_reach ht"
  shows "if card (live_slots ht) < slots ht
    then \<exists>h ht'. Create obj ht = Some (Inr h, ht') \<and> card (live_slots ht') = card (live_slots ht) + 1
    else Create obj ht = Some (Inl ERR_HANDLE_TABLE_FULL, ht)"
proof -
  have inv: "ht_inv ht" using assms by (rule ht_reach_inv)
  have sub: "live_slots ht \<subseteq> {..<slots ht}" by (auto simp: live_slots_def)
  then have fin: "finite (live_slots ht)" by (rule finite_subset) simp
  show ?thesis
  proof (cases "card (live_slots ht) < slots ht")
    case True
    then show ?thesis using Create_free[OF inv, of obj] fin by auto
  next
    case False
    then have "card (live_slots ht) = slots ht" using card_mono[OF _ sub] by simp
    then show ?thesis using Create_full[OF inv] by simp
  qed
qed

text \<open>
  C37. A closed handle stays invalid until 0x7FFF further handles have been created since its own
  creation, whatever is created, duplicated or closed meanwhile and even if its slot is reused.
\<close>

theorem closed_handle_stays_invalid:
  assumes "ht_reach a" "Create obj a = Some (Inr h, b)" "ht_run j b c"
    "Close h c = Some (r, d)" "ht_run k d e" "j + k < 2 ^ 15 - 1"
  shows "IsValid h e = Some False"
proof -
  have ia: "ht_inv a" using assms(1) by (rule ht_reach_inv)
  note b = Create_Inr[OF ia assms(2)]
  let ?g = "ht_next_generation a"
  have g: "gen_ok ?g" using ia by (rule ht_invD)
  have gb: "unat (ht_next_generation b) = gen_at (unat ?g) 1"
    unfolding b(5) using next_gen_at[OF g gen_at_0[OF g, symmetric]] by simp
  have c: "ht_inv c" "unat (ht_next_generation c) = gen_at (unat ?g) (1 + j)"
    using ht_run_keeps[OF assms(3) b(1)] gen_at_shift[OF g, of 1 j] gb by auto
  note d = Close_step[OF c(1) assms(4)]
  have "gen_at (unat (ht_next_generation d)) i \<noteq> unat (GetGeneration h)" if "i < k" for i
  proof -
    have "gen_at (unat (ht_next_generation d)) i = gen_at (unat ?g) (1 + j + i)"
      unfolding d(2) c(2) by (rule gen_at_shift[OF g])
    also have "\<dots> \<noteq> unat ?g" using that assms(6) by (intro gen_at_distinct[OF g]) auto
    finally show ?thesis unfolding b(4) .
  qed
  moreover have "entry d (unat (GetSlot h), GetGeneration h) = None" by (simp add: d(3) key_def)
  ultimately have "ht_inv e" "entry e (key h) = None"
    using ht_run_keeps[OF assms(5) d(1)] unfolding key_def by auto
  then show ?thesis by (simp add: IsValid_entry)
qed

definition example_created :: "nat HandleTable" where
  "example_created = snd (the (Create 7 example_table))"

definition example_closed :: "nat HandleTable" where
  "example_closed = snd (the (Close 1 example_created))"

definition example_reused :: "nat HandleTable" where
  "example_reused = snd (the (Create 8 example_closed))"

lemma example_steps:
  "Create 7 example_table = Some (Inr 1, example_created)"
  "Close 1 example_created = Some (RESULT_SUCCESS, example_closed)"
  "Create 8 example_closed = Some (Inr 2, example_reused)"
  by (simp_all add: Create_def example_table_def MAX_COUNT_def example_created_def example_closed_def
      example_reused_def Close_def IsValid_def GetSlot_def GetGeneration_def Let_def)

theorem closed_handle_stays_invalid_witness:
  "Create 7 example_table = Some (Inr 1, example_created) \<and>
   Close 1 example_created = Some (RESULT_SUCCESS, example_closed) \<and>
   Create 8 example_closed = Some (Inr 2, example_reused) \<and> IsValid 1 example_reused = Some False"
  using closed_handle_stays_invalid[OF example_table_reach[OF ht_start] example_steps(1) ht_start
      example_steps(2) ht_create[OF ht_start example_steps(3)]] example_steps
  by simp

text \<open>
  Bit 31 of a handle is not looked at: the slot is cut to 16 bits, although the class describes
  the slot as bits 31 to 15.
\<close>

lemma IsValid_ignores_top_bit: "IsValid (h XOR 0x80000000) ht = IsValid h ht"
proof -
  have "(0x80000000 :: u32) = 2 ^ 31" by simp
  then have b: "bit (0x80000000 :: u32) n \<longleftrightarrow> n = 31" for n by (simp only: bit_exp_iff) auto
  have "GetSlot (h XOR 0x80000000) = GetSlot h"
    by (rule bit_eqI) (unfold GetSlot_bits bit_xor_iff b, auto)
  moreover have "GetGeneration (h XOR 0x80000000) = GetGeneration h"
    by (rule bit_eqI) (unfold GetGeneration_bits bit_xor_iff b, auto)
  ultimately show ?thesis by (simp add: IsValid_def)
qed

text \<open>
  A negative size is refused, although the comment in the function says that it stands for the
  maximum: the comparison with the maximum is made on the unsigned value.
\<close>

lemma SetSize_negative:
  assumes "sint n < 0"
  shows "SetSize n ht = (ERR_OUT_OF_MEMORY, ht)"
proof -
  have "\<not> unat n \<le> MAX_COUNT"
  proof
    assume "unat n \<le> MAX_COUNT"
    then have "int (unat n) \<le> 1024" unfolding MAX_COUNT_def by linarith
    then have "uint n \<le> 1024" "0 \<le> uint n" by simp_all
    then have "sint n = uint n" unfolding sint_uint by (subst signed_take_bit_int_eq_self) (simp_all add: order_trans [of _ 0])
    then show False using assms \<open>0 \<le> uint n\<close> by linarith
  qed
  then show ?thesis by (simp add: SetSize_def)
qed

end
