(* ===== verification/Process_Capability.thy ===== *)
theory Process_Capability
  imports Alignment Handle_Table
begin

text \<open>
  The capability descriptors of a process: \<^verbatim>\<open>core/hle/kernel/process_capability.h\<close> and
  \<^verbatim>\<open>process_capability.cpp\<close>. The two bit sets are lists of booleans of length 128 and 1024,
  the descriptors a list. An enumeration that is cast from an integer keeps that integer. The
  handlers of the two mapping descriptors are stubs in the code and take no part in the state.
\<close>

section \<open>The code\<close>

definition InitializeOnceMask :: u32 where
  "InitializeOnceMask =
     push_bit 3 1 OR push_bit 13 1 OR push_bit 14 1 OR push_bit 15 1 OR push_bit 16 1"

definition PackedKernelVersion :: u32 where
  "PackedKernelVersion = 0x520000"

text \<open>\<^verbatim>\<open>CapabilityType\<close>: the values of the enumeration.\<close>

definition CapabilityType_Unset :: u32 where
  "CapabilityType_Unset = 0"

definition CapabilityType_PriorityAndCoreNum :: u32 where
  "CapabilityType_PriorityAndCoreNum = push_bit 3 1 - 1"

definition CapabilityType_Syscall :: u32 where
  "CapabilityType_Syscall = push_bit 4 1 - 1"

definition CapabilityType_MapPhysical :: u32 where
  "CapabilityType_MapPhysical = push_bit 6 1 - 1"

definition CapabilityType_MapIO :: u32 where
  "CapabilityType_MapIO = push_bit 7 1 - 1"

definition CapabilityType_Interrupt :: u32 where
  "CapabilityType_Interrupt = push_bit 11 1 - 1"

definition CapabilityType_ProgramType :: u32 where
  "CapabilityType_ProgramType = push_bit 13 1 - 1"

definition CapabilityType_KernelVersion :: u32 where
  "CapabilityType_KernelVersion = push_bit 14 1 - 1"

definition CapabilityType_HandleTableSize :: u32 where
  "CapabilityType_HandleTableSize = push_bit 15 1 - 1"

definition CapabilityType_Debug :: u32 where
  "CapabilityType_Debug = push_bit 16 1 - 1"

definition CapabilityType_Ignorable :: u32 where
  "CapabilityType_Ignorable = 0xFFFFFFFF"

lemmas CapabilityType_defs =
  CapabilityType_Unset_def CapabilityType_PriorityAndCoreNum_def CapabilityType_Syscall_def
  CapabilityType_MapPhysical_def CapabilityType_MapIO_def CapabilityType_Interrupt_def
  CapabilityType_ProgramType_def CapabilityType_KernelVersion_def
  CapabilityType_HandleTableSize_def CapabilityType_Debug_def CapabilityType_Ignorable_def

definition GetCapabilityType :: "u32 \<Rightarrow> u32" where
  "GetCapabilityType v = (NOT v AND (v + 1)) - 1"

definition GetFlagBitOffset :: "u32 \<Rightarrow> u32" where
  "GetFlagBitOffset type = 32 - CountLeadingZeroes32 type"

record ProcessCapabilities =
  pc_svc_capabilities :: "bool list"
  pc_interrupt_capabilities :: "bool list"
  pc_core_mask :: u64
  pc_priority_mask :: u64
  pc_handle_table_size :: u32
  pc_kernel_version :: u32
  pc_program_type :: u32
  pc_is_debuggable :: bool
  pc_can_force_debug :: bool

definition ProgramType_SysModule :: u32 where
  "ProgramType_SysModule = 0"

definition mk_ProcessCapabilities :: ProcessCapabilities where
  "mk_ProcessCapabilities =
     \<lparr>pc_svc_capabilities = replicate 128 False, pc_interrupt_capabilities = replicate 1024 False,
      pc_core_mask = 0, pc_priority_mask = 0, pc_handle_table_size = 0, pc_kernel_version = 0,
      pc_program_type = ProgramType_SysModule, pc_is_debuggable = False, pc_can_force_debug = False\<rparr>"

definition Capabilities_Clear :: "ProcessCapabilities \<Rightarrow> ProcessCapabilities" where
  "Capabilities_Clear pc =
     pc\<lparr>pc_svc_capabilities := map (\<lambda>_. False) (pc_svc_capabilities pc),
        pc_interrupt_capabilities := map (\<lambda>_. False) (pc_interrupt_capabilities pc),
        pc_core_mask := 0, pc_priority_mask := 0, pc_handle_table_size := 0, pc_kernel_version := 0,
        pc_program_type := ProgramType_SysModule, pc_is_debuggable := False, pc_can_force_debug := False\<rparr>"

text \<open>The lambda \<^verbatim>\<open>make_mask\<close>: a shift by 64 is undefined.\<close>

definition make_mask :: "u64 \<Rightarrow> u64 \<Rightarrow> u64 option" where
  "make_mask lo hi =
     (let range = hi - lo + 1
      in if range < 64 \<and> lo < 64
         then Some (push_bit (unat lo) (push_bit (unat range) 1 - 1))
         else None)"

definition HandlePriorityCoreNumFlags ::
  "u32 \<Rightarrow> ProcessCapabilities \<Rightarrow> (ResultCode \<times> ProcessCapabilities) option" where
  "HandlePriorityCoreNumFlags flags pc =
     (if pc_priority_mask pc \<noteq> 0 \<or> pc_core_mask pc \<noteq> 0
      then Some (ERR_INVALID_CAPABILITY_DESCRIPTOR, pc)
      else let core_num_min = drop_bit 16 flags AND 0xFF; core_num_max = drop_bit 24 flags AND 0xFF
      in if core_num_min > core_num_max then Some (ERR_INVALID_COMBINATION, pc)
      else let priority_min = drop_bit 10 flags AND 0x3F; priority_max = drop_bit 4 flags AND 0x3F
      in if priority_min > priority_max then Some (ERR_INVALID_COMBINATION, pc)
      else if core_num_max \<ge> 4 then Some (ERR_INVALID_PROCESSOR_ID, pc)
      else do {
        core \<leftarrow> make_mask (ucast core_num_min) (ucast core_num_max);
        priority \<leftarrow> make_mask (ucast priority_min) (ucast priority_max);
        Some (RESULT_SUCCESS, pc\<lparr>pc_core_mask := core, pc_priority_mask := priority\<rparr>)
      })"

text \<open>The loop of \<^verbatim>\<open>HandleSyscallFlags\<close> over the values of \<^verbatim>\<open>i\<close> that are left.\<close>

fun HandleSyscallFlags_loop :: "u32 \<Rightarrow> u32 \<Rightarrow> nat list \<Rightarrow> bool list \<Rightarrow> (ResultCode \<times> bool list) option" where
  "HandleSyscallFlags_loop index svc_mask [] svc = Some (RESULT_SUCCESS, svc)"
| "HandleSyscallFlags_loop index svc_mask (i # is) svc =
     (let svc_number = index * 24 + of_nat i
      in if svc_mask AND push_bit i 1 = 0 then HandleSyscallFlags_loop index svc_mask is svc
         else if unat svc_number \<ge> length svc then Some (ERR_OUT_OF_RANGE, svc)
         else do {
           svc \<leftarrow> upd_opt svc (unat svc_number) True;
           HandleSyscallFlags_loop index svc_mask is svc
         })"

definition HandleSyscallFlags ::
  "u32 \<Rightarrow> u32 \<Rightarrow> ProcessCapabilities \<Rightarrow> (ResultCode \<times> u32 \<times> ProcessCapabilities) option" where
  "HandleSyscallFlags set_svc_bits flags pc =
     (let index = drop_bit 29 flags; svc_bit = push_bit (unat index) 1
      in if set_svc_bits AND svc_bit \<noteq> 0 then Some (ERR_INVALID_COMBINATION, set_svc_bits, pc)
         else do {
           let svc_mask = drop_bit 5 flags AND 0xFFFFFF;
           (r, svc) \<leftarrow> HandleSyscallFlags_loop index svc_mask [0..<24] (pc_svc_capabilities pc);
           Some (r, set_svc_bits OR svc_bit, pc\<lparr>pc_svc_capabilities := svc\<rparr>)
         })"

definition HandleMapPhysicalFlags :: "u32 \<Rightarrow> u32 \<Rightarrow> ResultCode" where
  "HandleMapPhysicalFlags flags size_flags = RESULT_SUCCESS"

definition HandleMapIOFlags :: "u32 \<Rightarrow> ResultCode" where
  "HandleMapIOFlags flags = RESULT_SUCCESS"

fun HandleInterruptFlags_loop :: "u32 list \<Rightarrow> bool list \<Rightarrow> (ResultCode \<times> bool list) option" where
  "HandleInterruptFlags_loop [] ints = Some (RESULT_SUCCESS, ints)"
| "HandleInterruptFlags_loop (interrupt # is) ints =
     (if interrupt = 0x3FF then HandleInterruptFlags_loop is ints
      else if unat interrupt \<ge> length ints then Some (ERR_OUT_OF_RANGE, ints)
      else do {
        ints \<leftarrow> upd_opt ints (unat interrupt) True;
        HandleInterruptFlags_loop is ints
      })"

definition HandleInterruptFlags ::
  "u32 \<Rightarrow> ProcessCapabilities \<Rightarrow> (ResultCode \<times> ProcessCapabilities) option" where
  "HandleInterruptFlags flags pc = do {
     let interrupt0 = drop_bit 12 flags AND 0x3FF;
     let interrupt1 = drop_bit 22 flags AND 0x3FF;
     (r, ints) \<leftarrow> HandleInterruptFlags_loop [interrupt0, interrupt1] (pc_interrupt_capabilities pc);
     Some (r, pc\<lparr>pc_interrupt_capabilities := ints\<rparr>)
   }"

definition HandleProgramTypeFlags :: "u32 \<Rightarrow> ProcessCapabilities \<Rightarrow> ResultCode \<times> ProcessCapabilities" where
  "HandleProgramTypeFlags flags pc =
     (if drop_bit 17 flags \<noteq> 0 then (ERR_RESERVED_VALUE, pc)
      else (RESULT_SUCCESS, pc\<lparr>pc_program_type := drop_bit 14 flags AND 7\<rparr>))"

definition HandleKernelVersionFlags :: "u32 \<Rightarrow> ProcessCapabilities \<Rightarrow> ResultCode \<times> ProcessCapabilities" where
  "HandleKernelVersionFlags flags pc =
     (let major_version = drop_bit 19 (pc_kernel_version pc)
      in if major_version \<noteq> 0 \<or> flags < 0x80000 then (ERR_INVALID_CAPABILITY_DESCRIPTOR, pc)
         else (RESULT_SUCCESS, pc\<lparr>pc_kernel_version := flags\<rparr>))"

definition HandleHandleTableFlags :: "u32 \<Rightarrow> ProcessCapabilities \<Rightarrow> ResultCode \<times> ProcessCapabilities" where
  "HandleHandleTableFlags flags pc =
     (if drop_bit 26 flags \<noteq> 0 then (ERR_RESERVED_VALUE, pc)
      else (RESULT_SUCCESS, pc\<lparr>pc_handle_table_size := drop_bit 16 flags AND 0x3FF\<rparr>))"

definition HandleDebugFlags :: "u32 \<Rightarrow> ProcessCapabilities \<Rightarrow> ResultCode \<times> ProcessCapabilities" where
  "HandleDebugFlags flags pc =
     (if drop_bit 19 flags \<noteq> 0 then (ERR_RESERVED_VALUE, pc)
      else (RESULT_SUCCESS, pc\<lparr>pc_is_debuggable := (flags AND 0x20000 \<noteq> 0),
                               pc_can_force_debug := (flags AND 0x40000 \<noteq> 0)\<rparr>))"

text \<open>
  One descriptor. The two running sets are in and out parameters; a shift by 32 or more is
  undefined.
\<close>

definition ParseSingleFlagCapability ::
  "u32 \<Rightarrow> u32 \<Rightarrow> u32 \<Rightarrow> ProcessCapabilities \<Rightarrow> (ResultCode \<times> u32 \<times> u32 \<times> ProcessCapabilities) option" where
  "ParseSingleFlagCapability set_flags set_svc_bits flag pc =
     (let type = GetCapabilityType flag
      in if type = CapabilityType_Unset
         then Some (ERR_INVALID_CAPABILITY_DESCRIPTOR, set_flags, set_svc_bits, pc)
      else if type = CapabilityType_Ignorable then Some (RESULT_SUCCESS, set_flags, set_svc_bits, pc)
      else if \<not> GetFlagBitOffset type < 32 then None
      else let set_flag = push_bit (unat (GetFlagBitOffset type)) 1
      in if set_flag AND set_flags AND InitializeOnceMask \<noteq> 0
         then Some (ERR_INVALID_COMBINATION, set_flags, set_svc_bits, pc)
      else let set_flags = set_flags OR set_flag
      in if type = CapabilityType_PriorityAndCoreNum
         then do { (r, pc) \<leftarrow> HandlePriorityCoreNumFlags flag pc; Some (r, set_flags, set_svc_bits, pc) }
      else if type = CapabilityType_Syscall
         then do { (r, set_svc_bits, pc) \<leftarrow> HandleSyscallFlags set_svc_bits flag pc;
                   Some (r, set_flags, set_svc_bits, pc) }
      else if type = CapabilityType_MapIO then Some (HandleMapIOFlags flag, set_flags, set_svc_bits, pc)
      else if type = CapabilityType_Interrupt
         then do { (r, pc) \<leftarrow> HandleInterruptFlags flag pc; Some (r, set_flags, set_svc_bits, pc) }
      else if type = CapabilityType_ProgramType
         then let (r, pc) = HandleProgramTypeFlags flag pc in Some (r, set_flags, set_svc_bits, pc)
      else if type = CapabilityType_KernelVersion
         then let (r, pc) = HandleKernelVersionFlags flag pc in Some (r, set_flags, set_svc_bits, pc)
      else if type = CapabilityType_HandleTableSize
         then let (r, pc) = HandleHandleTableFlags flag pc in Some (r, set_flags, set_svc_bits, pc)
      else if type = CapabilityType_Debug
         then let (r, pc) = HandleDebugFlags flag pc in Some (r, set_flags, set_svc_bits, pc)
      else Some (ERR_INVALID_CAPABILITY_DESCRIPTOR, set_flags, set_svc_bits, pc))"

text \<open>The loop of \<^verbatim>\<open>ParseCapabilities\<close> over the descriptors that are left.\<close>

fun ParseCapabilities_loop ::
  "u32 list \<Rightarrow> u32 \<Rightarrow> u32 \<Rightarrow> ProcessCapabilities \<Rightarrow> (ResultCode \<times> ProcessCapabilities) option" where
  "ParseCapabilities_loop [] set_flags set_svc_bits pc = Some (RESULT_SUCCESS, pc)"
| "ParseCapabilities_loop (descriptor # rest) set_flags set_svc_bits pc =
     (if GetCapabilityType descriptor = CapabilityType_MapPhysical
      then case rest of
        [] \<Rightarrow> Some (ERR_INVALID_COMBINATION, pc)
      | size_flags # rest' \<Rightarrow>
          if GetCapabilityType size_flags \<noteq> CapabilityType_MapPhysical
          then Some (ERR_INVALID_COMBINATION, pc)
          else let result = HandleMapPhysicalFlags descriptor size_flags
          in if IsError result then Some (result, pc)
          else ParseCapabilities_loop rest' set_flags set_svc_bits pc
      else do {
        (result, set_flags, set_svc_bits, pc) \<leftarrow>
          ParseSingleFlagCapability set_flags set_svc_bits descriptor pc;
        if IsError result then Some (result, pc)
        else ParseCapabilities_loop rest set_flags set_svc_bits pc
      })"

definition ParseCapabilities ::
  "u32 list \<Rightarrow> ProcessCapabilities \<Rightarrow> (ResultCode \<times> ProcessCapabilities) option" where
  "ParseCapabilities capabilities pc = ParseCapabilities_loop capabilities 0 0 pc"

definition InitializeForKernelProcess ::
  "u32 list \<Rightarrow> ProcessCapabilities \<Rightarrow> (ResultCode \<times> ProcessCapabilities) option" where
  "InitializeForKernelProcess capabilities pc =
     ParseCapabilities capabilities
       ((Capabilities_Clear pc)\<lparr>pc_core_mask := 0xF, pc_priority_mask := 0xFFFFFFFFFFFFFFFF,
          pc_kernel_version := PackedKernelVersion\<rparr>)"

definition InitializeForUserProcess ::
  "u32 list \<Rightarrow> ProcessCapabilities \<Rightarrow> (ResultCode \<times> ProcessCapabilities) option" where
  "InitializeForUserProcess capabilities pc = ParseCapabilities capabilities (Capabilities_Clear pc)"

definition InitializeForMetadatalessProcess :: "ProcessCapabilities \<Rightarrow> ProcessCapabilities" where
  "InitializeForMetadatalessProcess pc =
     pc\<lparr>pc_core_mask := 0xF, pc_priority_mask := 0xFFFFFFFFFFFFFFFF,
        pc_kernel_version := PackedKernelVersion,
        pc_svc_capabilities := map (\<lambda>_. True) (pc_svc_capabilities pc),
        pc_interrupt_capabilities := map (\<lambda>_. True) (pc_interrupt_capabilities pc),
        pc_handle_table_size := of_nat MAX_COUNT, pc_is_debuggable := True, pc_can_force_debug := True\<rparr>"

section \<open>Types of descriptors\<close>

text \<open>
  A descriptor has type \<open>2 ^ k - 1\<close> when its bits below \<open>k\<close> are set and bit \<open>k\<close> is clear, as the
  class comment draws it.
\<close>

definition low_ones :: "u32 \<Rightarrow> nat \<Rightarrow> bool" where
  "low_ones v k \<longleftrightarrow> (\<forall>n < k. bit v n) \<and> \<not> bit v k"

lemma low_ones_ex:
  assumes "v \<noteq> - 1"
  shows "\<exists>k < 32. low_ones v k"
proof -
  have "\<exists>k. \<not> bit v k \<and> k < 32"
  proof (rule ccontr)
    assume "\<nexists>k. \<not> bit v k \<and> k < 32"
    then have "v = - 1" by (intro bit_eqI) auto
    then show False using assms by simp
  qed
  then obtain k0 where k0: "\<not> bit v k0" "k0 < 32" by blast
  define k where "k = (LEAST k. \<not> bit v k)"
  have "\<not> bit v k" unfolding k_def using k0(1) by (rule LeastI)
  moreover have "\<forall>n < k. bit v n" unfolding k_def using not_less_Least by blast
  moreover have "k \<le> k0" unfolding k_def using k0(1) by (rule Least_le)
  ultimately show ?thesis using k0(2) unfolding low_ones_def by (intro exI[of _ k]) auto
qed

lemma low_ones_step:
  assumes "low_ones v k" "k < 32"
  shows "NOT v AND (v + 1) = 2 ^ k"
proof -
  define w where "w = v AND NOT (mask (Suc k))"
  have vb: "bit v n \<longleftrightarrow> bit w n \<or> n < k" if "n < 32" for n
    using assms(1) that by (cases "n = k") (auto simp: w_def low_ones_def bit_and_iff bit_not_iff bit_mask_iff)
  have wb: "bit w n \<Longrightarrow> k < n" for n
    by (auto simp: w_def bit_and_iff bit_not_iff bit_mask_iff)
  have wk: "\<not> bit w n" if "n \<le> k" for n using wb[of n] that by auto
  have "w AND mask k = 0" by (rule bit_eqI) (auto simp: bit_and_iff bit_mask_iff wk)
  moreover have "w AND 2 ^ k = 0" by (rule bit_eqI) (auto simp: bit_and_iff bit_exp_iff wk)
  ultimately have add: "w + mask k = w OR mask k" "w + 2 ^ k = w OR 2 ^ k"
    by (simp_all only: disjunctive_add_eq_or)
  have "v = w OR mask k"
    by (rule bit_eqI) (use vb in \<open>auto simp: bit_or_iff bit_mask_iff\<close>)
  then have "v + 1 = w + (mask k + 1)" using add(1) by (simp add: add.assoc)
  also have "mask k + 1 = (2 ^ k :: u32)" by (simp add: mask_eq_exp_minus_1)
  finally have "v + 1 = w OR 2 ^ k" using add(2) by simp
  then show ?thesis
    by (intro bit_eqI) (use vb wb assms in \<open>auto simp: bit_and_iff bit_not_iff bit_or_iff bit_exp_iff low_ones_def\<close>)
qed

lemma GetCapabilityType_low_ones: "low_ones v k \<Longrightarrow> k < 32 \<Longrightarrow> GetCapabilityType v = 2 ^ k - 1"
  by (simp add: GetCapabilityType_def low_ones_step)

lemma GetCapabilityType_ones: "GetCapabilityType (- 1) = 0xFFFFFFFF"
  by (simp add: GetCapabilityType_def)

lemma len32: "LENGTH(32) = 32"
  by simp

lemma exp_minus_1_inject: "j < 32 \<Longrightarrow> k < 32 \<Longrightarrow> (2 ^ j - 1 :: u32) = 2 ^ k - 1 \<longleftrightarrow> j = k"
  by (metis diff_add_cancel unat_pow2 power_inject_exp one_less_numeral_iff semiring_norm(76) len32)

lemma exp_minus_1_not_ones: "k < 32 \<Longrightarrow> (2 ^ k - 1 :: u32) \<noteq> 0xFFFFFFFF"
proof
  assume k: "k < 32" "(2 ^ k - 1 :: u32) = 0xFFFFFFFF"
  then have "(2 ^ k :: u32) = 0xFFFFFFFF + 1" by (metis diff_add_cancel)
  then have "(2 ^ k :: u32) = 0" by simp
  then show False using unat_pow2[of k, where 'a = 32] k(1) by simp
qed

lemma GetCapabilityType_iff:
  assumes "k < 32"
  shows "GetCapabilityType v = 2 ^ k - 1 \<longleftrightarrow> low_ones v k"
proof (cases "v = - 1")
  case True
  then show ?thesis using assms exp_minus_1_not_ones[OF assms] GetCapabilityType_ones by (auto simp: low_ones_def)
next
  case False
  then obtain j where "j < 32" "low_ones v j" using low_ones_ex by blast
  moreover have "low_ones v k \<Longrightarrow> j = k" using calculation(2) by (metis low_ones_def nat_neq_iff)
  ultimately show ?thesis using GetCapabilityType_low_ones exp_minus_1_inject assms by metis
qed

lemma GetFlagBitOffset_exp:
  assumes "k < 32"
  shows "unat (GetFlagBitOffset (2 ^ k - 1)) = k"
proof (cases "k = 0")
  case True
  then show ?thesis by (simp add: GetFlagBitOffset_def CountLeadingZeroes32_def)
next
  case False
  have m: "bit (2 ^ k - 1 :: u32) n \<longleftrightarrow> n < k" for n
    using assms by (auto simp: bit_mask_iff simp flip: mask_eq_exp_minus_1)
  have "builtin_clz (2 ^ k - 1 :: u32) = 32 - 1 - (k - 1)"
    unfolding builtin_clz_def len32 by (rule takeWhile_rev_upt) (use False assms m in auto)
  moreover have "(2 ^ k - 1 :: u32) \<noteq> 0" using m[of 0] False by (metis bit_0_eq gr0I bot_apply bot_bool_def)
  ultimately have "GetFlagBitOffset (2 ^ k - 1) = 32 - of_nat (32 - k)"
    using False assms by (simp add: GetFlagBitOffset_def CountLeadingZeroes32_def)
  also have "\<dots> = of_nat (32 - (32 - k))" by (simp add: of_nat_diff)
  finally show ?thesis using assms by (simp add: unat_of_nat take_bit_nat_eq_self)
qed

section \<open>The handlers\<close>

lemma bit_and_low: "bit (w AND 0xFFFFFF) n \<longleftrightarrow> n < 24 \<and> bit w n" for w :: u32
proof -
  have "(0xFFFFFF :: u32) = mask 24" by (simp add: mask_eq_exp_minus_1)
  show ?thesis unfolding \<open>0xFFFFFF = mask 24\<close> by (auto simp: bit_and_iff bit_mask_iff)
qed

lemma svc_number_unat:
  fixes index :: u32
  assumes "unat index < 8" "i < 24"
  shows "unat (index * 24 + of_nat i) = unat index * 24 + i"
proof -
  have "unat (of_nat i :: u32) = i" using assms(2) by (simp add: unat_of_nat take_bit_nat_eq_self)
  then show ?thesis using assms by (simp add: unat_word_ariths)
qed

lemma HandleSyscallFlags_loop_correct:
  assumes "unat index < 8" "\<forall>i \<in> set is. i < 24"
  shows "\<exists>r svc'. HandleSyscallFlags_loop index m is svc = Some (r, svc') \<and> length svc' = length svc \<and>
    (r = RESULT_SUCCESS \<longrightarrow>
       (\<forall>n < length svc. svc' ! n \<longleftrightarrow> svc ! n \<or> (\<exists>i \<in> set is. n = unat index * 24 + i \<and> bit m i)))"
  using assms
proof (induction "is" arbitrary: svc)
  case (Cons i "is")
  have n: "unat (index * 24 + of_nat i) = unat index * 24 + i" using Cons.prems by (intro svc_number_unat) auto
  have b: "m AND push_bit i 1 = 0 \<longleftrightarrow> \<not> bit m i" by (simp add: push_bit_eq_mult and_exp_eq_0_iff_not_bit)
  show ?case
  proof (cases "bit m i")
    case False
    then show ?thesis using Cons.IH[of svc] Cons.prems b by (auto simp: Let_def)
  next
    case True
    show ?thesis
    proof (cases "unat index * 24 + i < length svc")
      case False
      then show ?thesis using True b n by (simp add: Let_def)
    next
      case lt: True
      obtain r svc' where r: "HandleSyscallFlags_loop index m is (svc[unat index * 24 + i := True]) = Some (r, svc')"
        "length svc' = length svc"
        "r = RESULT_SUCCESS \<Longrightarrow> n < length svc \<Longrightarrow> svc' ! n \<longleftrightarrow>
           svc[unat index * 24 + i := True] ! n \<or> (\<exists>i \<in> set is. n = unat index * 24 + i \<and> bit m i)" for n
        using Cons.IH[of "svc[unat index * 24 + i := True]"] Cons.prems by auto
      have "HandleSyscallFlags_loop index m (i # is) svc = Some (r, svc')"
        using True lt b n r(1) by (simp add: Let_def)
      then show ?thesis using r(2,3) True lt by (auto simp: nth_list_update)
    qed
  qed
qed simp

text \<open>The system call that a descriptor allows.\<close>

definition grants_svc :: "u32 \<Rightarrow> nat \<Rightarrow> bool" where
  "grants_svc d n \<longleftrightarrow> low_ones d 4 \<and> n div 24 = unat (drop_bit 29 d) \<and> bit d (5 + n mod 24)"

lemma drop_bit_29_lt: "unat (drop_bit 29 d) < 8" for d :: u32
proof -
  have "unat d < 2 ^ LENGTH(32)" by (rule unsigned_less)
  then show ?thesis by (simp add: drop_bit_eq_div unat_div_distrib less_mult_imp_div_less)
qed

lemma HandleSyscallFlags_correct:
  assumes "low_ones flags 4"
  shows "\<exists>r ss' svc'. HandleSyscallFlags ss flags pc = Some (r, ss', pc\<lparr>pc_svc_capabilities := svc'\<rparr>) \<and>
    length svc' = length (pc_svc_capabilities pc) \<and>
    (r = RESULT_SUCCESS \<longrightarrow>
       (\<forall>n < length svc'. svc' ! n \<longleftrightarrow> pc_svc_capabilities pc ! n \<or> grants_svc flags n))"
proof -
  let ?i = "drop_bit 29 flags" let ?m = "drop_bit 5 flags AND 0xFFFFFF"
  obtain r svc' where r: "HandleSyscallFlags_loop ?i ?m [0..<24] (pc_svc_capabilities pc) = Some (r, svc')"
    "length svc' = length (pc_svc_capabilities pc)"
    "r = RESULT_SUCCESS \<Longrightarrow> n < length svc' \<Longrightarrow> svc' ! n \<longleftrightarrow> pc_svc_capabilities pc ! n \<or>
       (\<exists>i \<in> set [0..<24]. n = unat ?i * 24 + i \<and> bit ?m i)" for n
    using HandleSyscallFlags_loop_correct[OF drop_bit_29_lt, of "[0..<24]" flags ?m "pc_svc_capabilities pc"] by auto
  have g: "(\<exists>i \<in> set [0..<24]. n = unat ?i * 24 + i \<and> bit ?m i) \<longleftrightarrow> grants_svc flags n" for n
  proof -
    have "(\<exists>i \<in> set [0..<24]. n = unat ?i * 24 + i \<and> bit ?m i) \<longleftrightarrow> n div 24 = unat ?i \<and> bit ?m (n mod 24)"
      by (auto intro!: bexI[of _ "n mod 24"]) presburger
    then show ?thesis using assms by (simp only: bit_and_low bit_drop_bit_eq grants_svc_def) simp
  qed
  show ?thesis
  proof (cases "ss AND push_bit (unat ?i) 1 = 0")
    case True
    then have "HandleSyscallFlags ss flags pc =
        Some (r, ss OR push_bit (unat ?i) 1, pc\<lparr>pc_svc_capabilities := svc'\<rparr>)"
      using r(1) by (simp add: HandleSyscallFlags_def Let_def)
    then show ?thesis using r(2,3) g by auto
  next
    case False
    have "HandleSyscallFlags ss flags pc = Some (ERR_INVALID_COMBINATION, ss,
        pc\<lparr>pc_svc_capabilities := pc_svc_capabilities pc\<rparr>)"
      using False by (simp add: HandleSyscallFlags_def Let_def)
    then show ?thesis by blast
  qed
qed

section \<open>One descriptor\<close>

lemma type_exps:
  "CapabilityType_Unset = 2 ^ 0 - 1" "CapabilityType_PriorityAndCoreNum = 2 ^ 3 - 1"
  "CapabilityType_Syscall = 2 ^ 4 - 1" "CapabilityType_MapPhysical = 2 ^ 6 - 1"
  "CapabilityType_MapIO = 2 ^ 7 - 1" "CapabilityType_Interrupt = 2 ^ 11 - 1"
  "CapabilityType_ProgramType = 2 ^ 13 - 1" "CapabilityType_KernelVersion = 2 ^ 14 - 1"
  "CapabilityType_HandleTableSize = 2 ^ 15 - 1" "CapabilityType_Debug = 2 ^ 16 - 1"
  by (simp_all add: CapabilityType_defs)

text \<open>The types that may be given once: bits 3, 13, 14, 15 and 16 of the mask.\<close>

definition once :: "nat \<Rightarrow> bool" where
  "once k \<longleftrightarrow> k \<in> {3, 13, 14, 15, 16}"

lemma InitializeOnceMask_bit: "bit InitializeOnceMask k \<longleftrightarrow> once k"
  unfolding InitializeOnceMask_def bit_or_iff bit_push_bit_iff bit_1_iff once_def by auto

lemma once_check:
  "(push_bit k 1 AND sf AND InitializeOnceMask \<noteq> 0) \<longleftrightarrow> bit sf k \<and> once k" if "k < 32" for sf :: u32
proof -
  have "push_bit k 1 AND sf AND InitializeOnceMask = (sf AND InitializeOnceMask) AND 2 ^ k"
    by (simp add: push_bit_eq_mult ac_simps)
  then show ?thesis
    by (simp add: and_exp_eq_0_iff_not_bit bit_and_iff InitializeOnceMask_bit)
qed

lemma HandlePriorityCoreNumFlags_keeps:
  "HandlePriorityCoreNumFlags flags pc = Some (r, pc') \<Longrightarrow> pc_svc_capabilities pc' = pc_svc_capabilities pc"
  by (auto simp: HandlePriorityCoreNumFlags_def Let_def bind_eq_Some_conv split: if_splits)

lemma HandleInterruptFlags_keeps:
  "HandleInterruptFlags flags pc = Some (r, pc') \<Longrightarrow> pc_svc_capabilities pc' = pc_svc_capabilities pc"
  by (auto simp: HandleInterruptFlags_def Let_def bind_eq_Some_conv)

lemmas Handle_small_defs =
  HandleProgramTypeFlags_def HandleKernelVersionFlags_def HandleHandleTableFlags_def HandleDebugFlags_def

lemma ParseSingle_ignorable:
  "ParseSingleFlagCapability sf ss (- 1) pc = Some (RESULT_SUCCESS, sf, ss, pc)"
  by (simp add: ParseSingleFlagCapability_def GetCapabilityType_ones CapabilityType_defs Let_def)

text \<open>What one accepted descriptor does to the two sets and to the system calls.\<close>

lemma ParseSingle_success:
  assumes p: "ParseSingleFlagCapability sf ss d pc = Some (RESULT_SUCCESS, sf', ss', pc')"
    and k: "low_ones d k" "k < 32"
  shows "sf' = sf OR push_bit k 1" "once k \<Longrightarrow> \<not> bit sf k"
    "length (pc_svc_capabilities pc') = length (pc_svc_capabilities pc)"
    "n < length (pc_svc_capabilities pc) \<Longrightarrow> pc_svc_capabilities pc' ! n \<longleftrightarrow> pc_svc_capabilities pc ! n \<or> grants_svc d n"
proof -
  have t: "GetCapabilityType d = 2 ^ k - 1" using GetCapabilityType_low_ones[OF k] .
  have ni: "(2 ^ k - 1 :: u32) \<noteq> CapabilityType_Ignorable"
    using exp_minus_1_not_ones[OF k(2)] by (simp add: CapabilityType_Ignorable_def)
  have off: "unat (GetFlagBitOffset (2 ^ k - 1)) = k" "GetFlagBitOffset (2 ^ k - 1) < 32"
    using GetFlagBitOffset_exp[OF k(2)] k(2) by (simp_all add: word_less_nat_alt)
  have g: "grants_svc d n \<Longrightarrow> k = 4" for n
    using k(1) by (metis grants_svc_def low_ones_def nat_neq_iff)
  show "sf' = sf OR push_bit k 1" "once k \<Longrightarrow> \<not> bit sf k"
    using p k(2) ni off once_check[OF k(2), of sf]
    by (auto simp: ParseSingleFlagCapability_def t Let_def bind_eq_Some_conv split: if_splits prod.splits)
  have "length (pc_svc_capabilities pc') = length (pc_svc_capabilities pc) \<and>
     (\<forall>n < length (pc_svc_capabilities pc).
        pc_svc_capabilities pc' ! n \<longleftrightarrow> pc_svc_capabilities pc ! n \<or> grants_svc d n)"
  proof (cases "k = 4")
    case True
    have "HandleSyscallFlags ss d pc = Some (RESULT_SUCCESS, ss', pc')"
      using p off once_check[OF k(2), of sf] ni unfolding ParseSingleFlagCapability_def t type_exps True
      by (simp add: Let_def bind_eq_Some_conv split: if_splits)
    then show ?thesis using HandleSyscallFlags_correct[of d ss pc] k(1) True by auto
  next
    case False
    then have "pc_svc_capabilities pc' = pc_svc_capabilities pc"
      using p k(2) exp_minus_1_inject[of k 4] ni
      unfolding ParseSingleFlagCapability_def t type_exps(3)
      by (auto simp: Let_def bind_eq_Some_conv Handle_small_defs
          dest: HandlePriorityCoreNumFlags_keeps HandleInterruptFlags_keeps split: if_splits prod.splits)
    then show ?thesis using g False by auto
  qed
  then show "length (pc_svc_capabilities pc') = length (pc_svc_capabilities pc)"
    "n < length (pc_svc_capabilities pc) \<Longrightarrow> pc_svc_capabilities pc' ! n \<longleftrightarrow> pc_svc_capabilities pc ! n \<or> grants_svc d n"
    by auto
qed

section \<open>A list of descriptors\<close>

lemma low_ones_unique: "low_ones d j \<Longrightarrow> low_ones d k \<Longrightarrow> j = k"
  by (metis low_ones_def nat_neq_iff)

lemma once_lt: "once k \<Longrightarrow> k < 32"
  by (auto simp: once_def)

lemma MapPhysical_low_ones: "GetCapabilityType d = CapabilityType_MapPhysical \<longleftrightarrow> low_ones d 6"
  unfolding type_exps by (rule GetCapabilityType_iff) simp

lemma MapPhysical_neutral:
  assumes "low_ones d 6"
  shows "\<not> grants_svc d n" "once k \<Longrightarrow> \<not> low_ones d k"
  using low_ones_unique[OF assms, of 4] low_ones_unique[OF assms, of k] by (auto simp: grants_svc_def once_def)

definition svc_only :: "bool list \<Rightarrow> u32 list \<Rightarrow> bool list \<Rightarrow> bool" where
  "svc_only svc ds svc' \<longleftrightarrow> length svc' = length svc \<and>
     (\<forall>n < length svc. svc' ! n \<longleftrightarrow> svc ! n \<or> (\<exists>d \<in> set ds. grants_svc d n))"

definition once_only :: "u32 \<Rightarrow> u32 list \<Rightarrow> bool" where
  "once_only sf ds \<longleftrightarrow>
     (\<forall>k. once k \<longrightarrow> length (filter (\<lambda>d. low_ones d k) ds) \<le> (if bit sf k then 0 else 1))"

lemma ones_neutral: "\<not> grants_svc (- 1) n" "k < 32 \<Longrightarrow> \<not> low_ones (- 1) k"
  by (auto simp: grants_svc_def low_ones_def)

lemma once_only_Cons:
  assumes "once_only (sf OR push_bit k 1) ds" "low_ones d k" "k < 32" "once k \<Longrightarrow> \<not> bit sf k"
  shows "once_only sf (d # ds)"
  unfolding once_only_def
proof (intro allI impI)
  fix j assume j: "once j"
  have "bit (sf OR push_bit k 1) j \<longleftrightarrow> bit sf j \<or> j = k"
    using once_lt[OF j] unfolding bit_or_iff bit_push_bit_iff bit_1_iff by auto
  then have "length (filter (\<lambda>d. low_ones d j) ds) \<le> (if bit sf j \<or> j = k then 0 else 1)"
    using assms(1)[unfolded once_only_def, rule_format, OF j] by (simp only:)
  moreover have "low_ones d j \<longleftrightarrow> j = k" using low_ones_unique assms(2) by blast
  ultimately show "length (filter (\<lambda>d. low_ones d j) (d # ds)) \<le> (if bit sf j then 0 else 1)"
    using assms(4) j by (cases "j = k") simp_all
qed

lemma ParseCapabilities_loop_success:
  "ParseCapabilities_loop caps sf ss pc = Some (RESULT_SUCCESS, pc') \<Longrightarrow>
   svc_only (pc_svc_capabilities pc) caps (pc_svc_capabilities pc') \<and> once_only sf caps"
proof (induction caps sf ss pc rule: ParseCapabilities_loop.induct)
  case (1 sf ss pc)
  then show ?case by (auto simp: svc_only_def once_only_def)
next
  case (2 d rest sf ss pc)
  show ?case
  proof (cases "low_ones d 6")
    case True
    then obtain d' rest' where r: "rest = d' # rest'" "low_ones d' 6"
      "ParseCapabilities_loop rest' sf ss pc = Some (RESULT_SUCCESS, pc')"
      using "2.prems" by (auto simp: MapPhysical_low_ones Let_def split: list.splits if_splits)
    then have "svc_only (pc_svc_capabilities pc) rest' (pc_svc_capabilities pc') \<and> once_only sf rest'"
      using "2.IH"(1)[of d' rest' RESULT_SUCCESS] True by (simp add: MapPhysical_low_ones HandleMapPhysicalFlags_def)
    then show ?thesis
      using MapPhysical_neutral[OF True] MapPhysical_neutral[OF r(2)] r(1)
      by (auto simp: svc_only_def once_only_def)
  next
    case False
    then obtain sf' ss' pc1 where p: "ParseSingleFlagCapability sf ss d pc = Some (RESULT_SUCCESS, sf', ss', pc1)"
      "ParseCapabilities_loop rest sf' ss' pc1 = Some (RESULT_SUCCESS, pc')"
      using "2.prems" by (auto simp: MapPhysical_low_ones bind_eq_Some_conv split: if_splits)
    have IH: "svc_only (pc_svc_capabilities pc1) rest (pc_svc_capabilities pc')" "once_only sf' rest"
      using "2.IH"(2)[OF _ p(1) refl refl refl _ p(2)] False by (auto simp: MapPhysical_low_ones)
    show ?thesis
    proof (cases "d = - 1")
      case True
      then show ?thesis using IH p(1) ones_neutral once_lt
        by (auto simp: ParseSingle_ignorable svc_only_def once_only_def)
    next
      case False
      then obtain k where k: "low_ones d k" "k < 32" using low_ones_ex by blast
      note s = ParseSingle_success[OF p(1) k]
      have "svc_only (pc_svc_capabilities pc) (d # rest) (pc_svc_capabilities pc')"
        using IH(1) s(3,4) unfolding svc_only_def by auto
      moreover have "once_only sf (d # rest)" using IH(2) k s(1,2) by (intro once_only_Cons) auto
      ultimately show ?thesis by blast
    qed
  qed
qed

section \<open>Masks of a range\<close>

lemma make_mask_bits:
  assumes "unat lo \<le> unat hi" "unat hi < 64" "\<not> (unat lo = 0 \<and> unat hi = 63)"
  shows "\<exists>m. make_mask lo hi = Some m \<and> (\<forall>n. bit m n \<longleftrightarrow> unat lo \<le> n \<and> n \<le> unat hi)"
proof -
  define r where "r = hi - lo + 1"
  have d: "unat (hi - lo) = unat hi - unat lo" using assms(1) by (rule unat_diff)
  then have r: "unat r = unat hi - unat lo + 1" unfolding r_def using assms(2) by (subst unat_plus) auto
  then have "r < 64" "lo < 64" using assms by (auto simp: word_less_nat_alt)
  then have "make_mask lo hi = Some (push_bit (unat lo) (push_bit (unat r) 1 - 1))"
    by (simp add: make_mask_def Let_def flip: r_def)
  moreover have "push_bit (unat r) 1 - 1 = (mask (unat r) :: u64)"
    by (simp add: mask_eq_exp_minus_1 push_bit_eq_mult)
  then have "bit (push_bit (unat lo) (push_bit (unat r) 1 - 1 :: u64)) n \<longleftrightarrow> unat lo \<le> n \<and> n \<le> unat hi" for n
    using assms r unfolding bit_push_bit_iff by (auto simp: bit_mask_iff)
  ultimately show ?thesis by blast
qed

lemma make_mask_all: "make_mask 0 63 = None"
  by (simp add: make_mask_def)

lemma and_low_lt: "unat (w AND 0x3F) < 64" "unat (w AND 0xFF) < 256" "unat (w AND 0x3FF) < 1024" for w :: u32
proof -
  have "(0x3F :: u32) = mask 6" "(0xFF :: u32) = mask 8" "(0x3FF :: u32) = mask 10"
    by (simp_all add: mask_eq_exp_minus_1)
  note m = this
  have "unat (w AND mask k) < 2 ^ k" if "k < 32" for k
  proof -
    have "unat (w AND mask k) = take_bit k (unat w)"
      by (simp add: unsigned_take_bit_eq flip: take_bit_eq_mask)
    then show ?thesis by simp
  qed
  from this[of 6] this[of 8] this[of 10] show "unat (w AND 0x3F) < 64" "unat (w AND 0xFF) < 256" "unat (w AND 0x3FF) < 1024"
    unfolding m by simp_all
qed

lemma unat_ucast_u32: "unat (ucast w :: u64) = unat w" for w :: u32
proof -
  have "unat w < 2 ^ LENGTH(32)" by (rule unsigned_less)
  then show ?thesis by (simp add: unsigned_ucast_eq unsigned_take_bit_eq take_bit_nat_eq_self)
qed

text \<open>A descriptor of priorities 0 to 63: its mask needs a shift by 64.\<close>

definition all_priorities :: "u32 \<Rightarrow> bool" where
  "all_priorities d \<longleftrightarrow> low_ones d 3 \<and> drop_bit 10 d AND 0x3F = 0 \<and> drop_bit 4 d AND 0x3F = 0x3F"

lemma make_mask_defined:
  fixes lo hi :: u32
  assumes "\<not> hi < lo" "unat hi < 64" "\<not> (lo = 0 \<and> hi = 0x3F)"
  shows "make_mask (ucast lo) (ucast hi) \<noteq> None"
proof -
  have "\<not> (unat lo = 0 \<and> unat hi = 63)" using assms(3) by (simp add: word_unat_eq_iff)
  then show ?thesis
    using make_mask_bits[of "ucast lo" "ucast hi"] assms(1,2)
    by (auto simp: unat_ucast_u32 word_less_nat_alt)
qed

lemma HandlePriorityCoreNumFlags_defined:
  assumes "low_ones d 3" "\<not> all_priorities d"
  shows "HandlePriorityCoreNumFlags d pc \<noteq> None"
proof -
  define cl ch pl ph where f: "cl = drop_bit 16 d AND 0xFF" "ch = drop_bit 24 d AND 0xFF"
    "pl = drop_bit 10 d AND 0x3F" "ph = drop_bit 4 d AND 0x3F"
  have "make_mask (ucast cl) (ucast ch) \<noteq> None" if "\<not> ch < cl" "\<not> 4 \<le> ch"
    by (rule make_mask_defined) (use that in \<open>auto simp: word_le_nat_alt\<close>)
  moreover have "make_mask (ucast pl) (ucast ph) \<noteq> None" if "\<not> ph < pl"
    by (rule make_mask_defined) (use that assms and_low_lt(1)[of "drop_bit 4 d"] in \<open>auto simp: all_priorities_def f\<close>)
  ultimately show ?thesis
    unfolding HandlePriorityCoreNumFlags_def Let_def f[symmetric] by (auto simp: bind_eq_None_conv)
qed

lemma HandleInterruptFlags_loop_defined: "\<exists>r ints'. HandleInterruptFlags_loop is ints = Some (r, ints')"
  by (induction "is" arbitrary: ints) auto

lemma HandleInterruptFlags_defined: "HandleInterruptFlags d pc \<noteq> None"
proof -
  obtain r ints where "HandleInterruptFlags_loop [drop_bit 12 d AND 0x3FF, drop_bit 22 d AND 0x3FF]
      (pc_interrupt_capabilities pc) = Some (r, ints)"
    using HandleInterruptFlags_loop_defined by blast
  then show ?thesis unfolding HandleInterruptFlags_def Let_def by simp
qed

lemma ParseSingle_defined:
  assumes "\<not> all_priorities d"
  shows "ParseSingleFlagCapability sf ss d pc \<noteq> None"
proof (cases "d = - 1")
  case True
  then show ?thesis by (simp add: ParseSingle_ignorable)
next
  case False
  then obtain k where k: "low_ones d k" "k < 32" using low_ones_ex by blast
  have t: "GetCapabilityType d = 2 ^ k - 1" using GetCapabilityType_low_ones[OF k] .
  have off: "GetFlagBitOffset (2 ^ k - 1) < 32"
    using GetFlagBitOffset_exp[OF k(2)] k(2) by (simp add: word_less_nat_alt)
  have p: "HandlePriorityCoreNumFlags d pc \<noteq> None" if "2 ^ k - 1 = CapabilityType_PriorityAndCoreNum"
    using that k assms exp_minus_1_inject[of k 3] unfolding type_exps
    by (intro HandlePriorityCoreNumFlags_defined) auto
  have s: "HandleSyscallFlags ss d pc \<noteq> None" if "2 ^ k - 1 = CapabilityType_Syscall"
    using that k exp_minus_1_inject[of k 4] HandleSyscallFlags_correct[of d ss pc] unfolding type_exps by auto
  show ?thesis
  proof
    assume "ParseSingleFlagCapability sf ss d pc = None"
    then show False
      unfolding ParseSingleFlagCapability_def t Let_def
      using off p s HandleInterruptFlags_defined[of d pc]
      by (auto simp: bind_eq_None_conv split: prod.splits if_splits)
  qed
qed

lemma ParseCapabilities_loop_defined:
  "\<forall>d \<in> set caps. \<not> all_priorities d \<Longrightarrow> ParseCapabilities_loop caps sf ss pc \<noteq> None"
proof (induction caps sf ss pc rule: ParseCapabilities_loop.induct)
  case (2 d rest sf ss pc)
  show ?case
  proof (cases "GetCapabilityType d = CapabilityType_MapPhysical")
    case True
    then show ?thesis using 2 by (auto simp: HandleMapPhysicalFlags_def split: list.splits)
  next
    case False
    obtain r sf' ss' pc1 where p: "ParseSingleFlagCapability sf ss d pc = Some (r, sf', ss', pc1)"
      using ParseSingle_defined[of d sf ss pc] "2.prems" by auto
    show ?thesis
    proof (cases "r = RESULT_SUCCESS")
      case True
      have "ParseCapabilities_loop rest sf' ss' pc1 \<noteq> None"
        by (rule "2.IH"(2)[OF False p refl refl refl]) (use True "2.prems" in auto)
      then show ?thesis using False p True by simp
    next
      case r: False
      then show ?thesis using False p by simp
    qed
  qed
qed simp

section \<open>Properties\<close>

text \<open>
  The type of a descriptor is decoded by one arithmetic expression; it is the one the class
  comment draws as a bit pattern: \<open>2 ^ k - 1\<close> exactly for a descriptor whose low \<open>k\<close> bits are set
  and whose next bit is clear, and the bit offset recovered from the type is \<open>k\<close> again.
\<close>

lemma GetCapabilityType_pattern:
  assumes "k < 32"
  shows "(GetCapabilityType d = 2 ^ k - 1 \<longleftrightarrow> (\<forall>n < k. bit d n) \<and> \<not> bit d k) \<and>
    (GetCapabilityType d = 2 ^ k - 1 \<longrightarrow> unat (GetFlagBitOffset (GetCapabilityType d)) = k)"
  using GetCapabilityType_iff[OF assms, of d] GetFlagBitOffset_exp[OF assms] by (auto simp: low_ones_def)

text \<open>
  C38. When the descriptors of a user process are accepted, the system calls it may make are exactly
  those that some descriptor grants, and no descriptor of a type that may be given once was given
  twice.
\<close>

theorem InitializeForUserProcess_grants:
  assumes "length (pc_svc_capabilities pc) = 128"
    and "InitializeForUserProcess caps pc = Some (RESULT_SUCCESS, pc')"
  shows "length (pc_svc_capabilities pc') = 128 \<and>
    (\<forall>n < 128. pc_svc_capabilities pc' ! n \<longleftrightarrow>
       (\<exists>d \<in> set caps. GetCapabilityType d = CapabilityType_Syscall \<and>
          unat (drop_bit 29 d) = n div 24 \<and> bit d (5 + n mod 24))) \<and>
    (\<forall>t \<in> {CapabilityType_PriorityAndCoreNum, CapabilityType_ProgramType, CapabilityType_KernelVersion,
           CapabilityType_HandleTableSize, CapabilityType_Debug}.
       length (filter (\<lambda>d. GetCapabilityType d = t) caps) \<le> 1)"
proof -
  let ?pc = "Capabilities_Clear pc"
  have p: "svc_only (pc_svc_capabilities ?pc) caps (pc_svc_capabilities pc')" "once_only 0 caps"
    using ParseCapabilities_loop_success[of caps 0 0 ?pc pc'] assms(2)
    by (auto simp: InitializeForUserProcess_def ParseCapabilities_def)
  have "grants_svc d n \<longleftrightarrow> GetCapabilityType d = CapabilityType_Syscall \<and>
      unat (drop_bit 29 d) = n div 24 \<and> bit d (5 + n mod 24)" for d n
    unfolding grants_svc_def type_exps by (subst GetCapabilityType_iff) auto
  then have svc: "length (pc_svc_capabilities pc') = 128 \<and>
    (\<forall>n < 128. pc_svc_capabilities pc' ! n \<longleftrightarrow>
       (\<exists>d \<in> set caps. GetCapabilityType d = CapabilityType_Syscall \<and>
          unat (drop_bit 29 d) = n div 24 \<and> bit d (5 + n mod 24)))"
    using p(1) assms(1) by (simp add: svc_only_def Capabilities_Clear_def)
  have "length (filter (\<lambda>d. GetCapabilityType d = 2 ^ k - 1) caps) \<le> 1" if "once k" for k
    using p(2) that unfolding once_only_def GetCapabilityType_iff[OF once_lt[OF that]] by simp
  then have "length (filter (\<lambda>d. GetCapabilityType d = t) caps) \<le> 1"
    if "t \<in> {CapabilityType_PriorityAndCoreNum, CapabilityType_ProgramType, CapabilityType_KernelVersion,
           CapabilityType_HandleTableSize, CapabilityType_Debug}" for t
    using that unfolding type_exps once_def by blast
  then show ?thesis using svc by blast
qed

text \<open>Two system call descriptors and a size of the handle table.\<close>

definition example_caps :: "u32 list" where
  "example_caps = [0x0000002F, 0x2000004F, 0x00407FFF]"

lemma example_caps_parse:
  "map_option fst (InitializeForUserProcess example_caps mk_ProcessCapabilities) = Some RESULT_SUCCESS"
  by code_simp

theorem InitializeForUserProcess_grants_witness:
  "\<exists>pc'. InitializeForUserProcess example_caps mk_ProcessCapabilities = Some (RESULT_SUCCESS, pc') \<and>
     pc_svc_capabilities pc' ! 0 \<and> \<not> pc_svc_capabilities pc' ! 1"
proof -
  obtain pc' where p: "InitializeForUserProcess example_caps mk_ProcessCapabilities = Some (RESULT_SUCCESS, pc')"
    using example_caps_parse by auto
  have "length (pc_svc_capabilities mk_ProcessCapabilities) = 128" by (simp add: mk_ProcessCapabilities_def)
  note g = InitializeForUserProcess_grants[OF this p, THEN conjunct2, THEN conjunct1, rule_format]
  have "pc_svc_capabilities pc' ! 0" "\<not> pc_svc_capabilities pc' ! 1"
    by (simp_all add: g example_caps_def GetCapabilityType_def CapabilityType_defs)
  then show ?thesis using p by blast
qed

text \<open>
  Parsing reads and writes within the bit sets and makes no undefined shift, provided that no
  descriptor asks for all priorities from 0 to 63 at once; such a descriptor makes the code shift
  a 64-bit one by 64.
\<close>

lemma ParseCapabilities_defined:
  assumes "\<forall>d \<in> set caps. \<not> (GetCapabilityType d = CapabilityType_PriorityAndCoreNum \<and>
      drop_bit 10 d AND 0x3F = 0 \<and> drop_bit 4 d AND 0x3F = 0x3F)"
  shows "InitializeForUserProcess caps pc \<noteq> None \<and> InitializeForKernelProcess caps pc \<noteq> None"
proof -
  have "\<forall>d \<in> set caps. \<not> all_priorities d"
    using assms GetCapabilityType_iff[of 3] unfolding all_priorities_def type_exps by auto
  then show ?thesis
    using ParseCapabilities_loop_defined
    unfolding InitializeForUserProcess_def InitializeForKernelProcess_def ParseCapabilities_def by blast
qed

text \<open>The descriptor that allows core 0 and every priority.\<close>

lemma all_priorities_undefined: "InitializeForUserProcess [0x000003F7] mk_ProcessCapabilities = None"
  by code_simp

end
