(* ===== verification/Memory_Block.thy ===== *)
theory Memory_Block
  imports Alignment
begin

text \<open>
  \<^verbatim>\<open>core/hle/kernel/memory/memory_block.h\<close> and \<^verbatim>\<open>memory_types.h\<close>: the memory states,
  permissions and attributes as bit masks, the block record of an address space and its
  operations. The enumerators are the masks the source builds them from; the values its
  \<^verbatim>\<open>static_assert\<close>s fix are a lemma.
\<close>

section \<open>Memory types\<close>

definition PageBits :: u64 where
  "PageBits = 12"

definition PageSize :: u64 where
  "PageSize = push_bit (unat PageBits) 1"

lemma PageSize_eq [simp]: "PageSize = 4096"
  by (simp add: PageSize_def PageBits_def)

section \<open>Memory states\<close>

definition MemoryState_None :: u32 where
  "MemoryState_None = 0"

definition MemoryState_Mask :: u32 where
  "MemoryState_Mask = 0xFF"

definition MemoryState_All :: u32 where
  "MemoryState_All = NOT MemoryState_None"

definition MemoryState_FlagCanReprotect :: u32 where
  "MemoryState_FlagCanReprotect = 0x100"

definition MemoryState_FlagCanDebug :: u32 where
  "MemoryState_FlagCanDebug = 0x200"

definition MemoryState_FlagCanUseIpc :: u32 where
  "MemoryState_FlagCanUseIpc = 0x400"

definition MemoryState_FlagCanUseNonDeviceIpc :: u32 where
  "MemoryState_FlagCanUseNonDeviceIpc = 0x800"

definition MemoryState_FlagCanUseNonSecureIpc :: u32 where
  "MemoryState_FlagCanUseNonSecureIpc = 0x1000"

definition MemoryState_FlagMapped :: u32 where
  "MemoryState_FlagMapped = 0x2000"

definition MemoryState_FlagCode :: u32 where
  "MemoryState_FlagCode = 0x4000"

definition MemoryState_FlagCanAlias :: u32 where
  "MemoryState_FlagCanAlias = 0x8000"

definition MemoryState_FlagCanCodeAlias :: u32 where
  "MemoryState_FlagCanCodeAlias = 0x10000"

definition MemoryState_FlagCanTransfer :: u32 where
  "MemoryState_FlagCanTransfer = 0x20000"

definition MemoryState_FlagCanQueryPhysical :: u32 where
  "MemoryState_FlagCanQueryPhysical = 0x40000"

definition MemoryState_FlagCanDeviceMap :: u32 where
  "MemoryState_FlagCanDeviceMap = 0x80000"

definition MemoryState_FlagCanAlignedDeviceMap :: u32 where
  "MemoryState_FlagCanAlignedDeviceMap = 0x100000"

definition MemoryState_FlagCanIpcUserBuffer :: u32 where
  "MemoryState_FlagCanIpcUserBuffer = 0x200000"

definition MemoryState_FlagReferenceCounted :: u32 where
  "MemoryState_FlagReferenceCounted = 0x400000"

definition MemoryState_FlagCanMapProcess :: u32 where
  "MemoryState_FlagCanMapProcess = 0x800000"

definition MemoryState_FlagCanChangeAttribute :: u32 where
  "MemoryState_FlagCanChangeAttribute = 0x1000000"

definition MemoryState_FlagCanCodeMemory :: u32 where
  "MemoryState_FlagCanCodeMemory = 0x2000000"

definition MemoryState_FlagsData :: u32 where
  "MemoryState_FlagsData = MemoryState_FlagCanReprotect OR MemoryState_FlagCanUseIpc OR
     MemoryState_FlagCanUseNonDeviceIpc OR MemoryState_FlagCanUseNonSecureIpc OR
     MemoryState_FlagMapped OR MemoryState_FlagCanAlias OR MemoryState_FlagCanTransfer OR
     MemoryState_FlagCanQueryPhysical OR MemoryState_FlagCanDeviceMap OR
     MemoryState_FlagCanAlignedDeviceMap OR MemoryState_FlagCanIpcUserBuffer OR
     MemoryState_FlagReferenceCounted OR MemoryState_FlagCanChangeAttribute"

definition MemoryState_FlagsCode :: u32 where
  "MemoryState_FlagsCode = MemoryState_FlagCanDebug OR MemoryState_FlagCanUseIpc OR
     MemoryState_FlagCanUseNonDeviceIpc OR MemoryState_FlagCanUseNonSecureIpc OR
     MemoryState_FlagMapped OR MemoryState_FlagCode OR MemoryState_FlagCanQueryPhysical OR
     MemoryState_FlagCanDeviceMap OR MemoryState_FlagCanAlignedDeviceMap OR
     MemoryState_FlagReferenceCounted"

definition MemoryState_FlagsMisc :: u32 where
  "MemoryState_FlagsMisc = MemoryState_FlagMapped OR MemoryState_FlagReferenceCounted OR
     MemoryState_FlagCanQueryPhysical OR MemoryState_FlagCanDeviceMap"

definition MemoryState_Free :: u32 where
  "MemoryState_Free = 0x00"

definition MemoryState_Io :: u32 where
  "MemoryState_Io = 0x01 OR MemoryState_FlagMapped"

definition MemoryState_Static :: u32 where
  "MemoryState_Static = 0x02 OR MemoryState_FlagMapped OR MemoryState_FlagCanQueryPhysical"

definition MemoryState_Code :: u32 where
  "MemoryState_Code = 0x03 OR MemoryState_FlagsCode OR MemoryState_FlagCanMapProcess"

definition MemoryState_CodeData :: u32 where
  "MemoryState_CodeData = 0x04 OR MemoryState_FlagsData OR MemoryState_FlagCanMapProcess OR
     MemoryState_FlagCanCodeMemory"

definition MemoryState_Shared :: u32 where
  "MemoryState_Shared = 0x06 OR MemoryState_FlagMapped OR MemoryState_FlagReferenceCounted"

definition MemoryState_Normal :: u32 where
  "MemoryState_Normal = 0x05 OR MemoryState_FlagsData OR MemoryState_FlagCanCodeMemory"

definition MemoryState_AliasCode :: u32 where
  "MemoryState_AliasCode = 0x08 OR MemoryState_FlagsCode OR MemoryState_FlagCanMapProcess OR
     MemoryState_FlagCanCodeAlias"

definition MemoryState_AliasCodeData :: u32 where
  "MemoryState_AliasCodeData = 0x09 OR MemoryState_FlagsData OR MemoryState_FlagCanMapProcess OR
     MemoryState_FlagCanCodeAlias OR MemoryState_FlagCanCodeMemory"

definition MemoryState_Ipc :: u32 where
  "MemoryState_Ipc = 0x0A OR MemoryState_FlagsMisc OR MemoryState_FlagCanAlignedDeviceMap OR
     MemoryState_FlagCanUseIpc OR MemoryState_FlagCanUseNonSecureIpc OR
     MemoryState_FlagCanUseNonDeviceIpc"

definition MemoryState_Stack :: u32 where
  "MemoryState_Stack = 0x0B OR MemoryState_FlagsMisc OR MemoryState_FlagCanAlignedDeviceMap OR
     MemoryState_FlagCanUseIpc OR MemoryState_FlagCanUseNonSecureIpc OR
     MemoryState_FlagCanUseNonDeviceIpc"

definition MemoryState_ThreadLocal :: u32 where
  "MemoryState_ThreadLocal = 0x0C OR MemoryState_FlagMapped OR MemoryState_FlagReferenceCounted"

definition MemoryState_Transfered :: u32 where
  "MemoryState_Transfered = 0x0D OR MemoryState_FlagsMisc OR MemoryState_FlagCanAlignedDeviceMap OR
     MemoryState_FlagCanChangeAttribute OR MemoryState_FlagCanUseIpc OR
     MemoryState_FlagCanUseNonSecureIpc OR MemoryState_FlagCanUseNonDeviceIpc"

definition MemoryState_SharedTransfered :: u32 where
  "MemoryState_SharedTransfered = 0x0E OR MemoryState_FlagsMisc OR
     MemoryState_FlagCanAlignedDeviceMap OR MemoryState_FlagCanUseNonSecureIpc OR
     MemoryState_FlagCanUseNonDeviceIpc"

definition MemoryState_SharedCode :: u32 where
  "MemoryState_SharedCode = 0x0F OR MemoryState_FlagMapped OR MemoryState_FlagReferenceCounted OR
     MemoryState_FlagCanUseNonSecureIpc OR MemoryState_FlagCanUseNonDeviceIpc"

definition MemoryState_Inaccessible :: u32 where
  "MemoryState_Inaccessible = 0x10"

definition MemoryState_NonSecureIpc :: u32 where
  "MemoryState_NonSecureIpc = 0x11 OR MemoryState_FlagsMisc OR
     MemoryState_FlagCanAlignedDeviceMap OR MemoryState_FlagCanUseNonSecureIpc OR
     MemoryState_FlagCanUseNonDeviceIpc"

definition MemoryState_NonDeviceIpc :: u32 where
  "MemoryState_NonDeviceIpc = 0x12 OR MemoryState_FlagsMisc OR
     MemoryState_FlagCanUseNonDeviceIpc"

definition MemoryState_Kernel :: u32 where
  "MemoryState_Kernel = 0x13 OR MemoryState_FlagMapped"

definition MemoryState_GeneratedCode :: u32 where
  "MemoryState_GeneratedCode = 0x14 OR MemoryState_FlagMapped OR
     MemoryState_FlagReferenceCounted OR MemoryState_FlagCanDebug"

definition MemoryState_CodeOut :: u32 where
  "MemoryState_CodeOut = 0x15 OR MemoryState_FlagMapped OR MemoryState_FlagReferenceCounted"

lemmas MemoryState_defs =
  MemoryState_None_def MemoryState_Mask_def MemoryState_All_def MemoryState_FlagCanReprotect_def
  MemoryState_FlagCanDebug_def MemoryState_FlagCanUseIpc_def
  MemoryState_FlagCanUseNonDeviceIpc_def MemoryState_FlagCanUseNonSecureIpc_def
  MemoryState_FlagMapped_def MemoryState_FlagCode_def MemoryState_FlagCanAlias_def
  MemoryState_FlagCanCodeAlias_def MemoryState_FlagCanTransfer_def
  MemoryState_FlagCanQueryPhysical_def MemoryState_FlagCanDeviceMap_def
  MemoryState_FlagCanAlignedDeviceMap_def MemoryState_FlagCanIpcUserBuffer_def
  MemoryState_FlagReferenceCounted_def MemoryState_FlagCanMapProcess_def
  MemoryState_FlagCanChangeAttribute_def MemoryState_FlagCanCodeMemory_def
  MemoryState_FlagsData_def MemoryState_FlagsCode_def MemoryState_FlagsMisc_def
  MemoryState_Free_def MemoryState_Io_def MemoryState_Static_def MemoryState_Code_def
  MemoryState_CodeData_def MemoryState_Shared_def MemoryState_Normal_def
  MemoryState_AliasCode_def MemoryState_AliasCodeData_def MemoryState_Ipc_def
  MemoryState_Stack_def MemoryState_ThreadLocal_def MemoryState_Transfered_def
  MemoryState_SharedTransfered_def MemoryState_SharedCode_def MemoryState_Inaccessible_def
  MemoryState_NonSecureIpc_def MemoryState_NonDeviceIpc_def MemoryState_Kernel_def
  MemoryState_GeneratedCode_def MemoryState_CodeOut_def

text \<open>The values the source asserts at compile time.\<close>

lemma MemoryState_values:
  shows
  "MemoryState_Free = 0x00000000"
  and "MemoryState_Io = 0x00002001"
  and "MemoryState_Static = 0x00042002"
  and "MemoryState_Code = 0x00DC7E03"
  and "MemoryState_CodeData = 0x03FEBD04"
  and "MemoryState_Normal = 0x037EBD05"
  and "MemoryState_Shared = 0x00402006"
  and "MemoryState_AliasCode = 0x00DD7E08"
  and "MemoryState_AliasCodeData = 0x03FFBD09"
  and "MemoryState_Ipc = 0x005C3C0A"
  and "MemoryState_Stack = 0x005C3C0B"
  and "MemoryState_ThreadLocal = 0x0040200C"
  and "MemoryState_Transfered = 0x015C3C0D"
  and "MemoryState_SharedTransfered = 0x005C380E"
  and "MemoryState_SharedCode = 0x0040380F"
  and "MemoryState_Inaccessible = 0x00000010"
  and "MemoryState_NonSecureIpc = 0x005C3811"
  and "MemoryState_NonDeviceIpc = 0x004C2812"
  and "MemoryState_Kernel = 0x00002013"
  and "MemoryState_GeneratedCode = 0x00402214"
  and "MemoryState_CodeOut = 0x00402015"
  by (simp_all add: MemoryState_defs)

section \<open>Permissions and attributes\<close>

definition MemoryPermission_None :: u8 where
  "MemoryPermission_None = 0"

definition MemoryPermission_Mask :: u8 where
  "MemoryPermission_Mask = NOT 0"

definition MemoryPermission_Read :: u8 where
  "MemoryPermission_Read = 1"

definition MemoryPermission_Write :: u8 where
  "MemoryPermission_Write = 2"

definition MemoryPermission_Execute :: u8 where
  "MemoryPermission_Execute = 4"

definition MemoryPermission_ReadAndWrite :: u8 where
  "MemoryPermission_ReadAndWrite = MemoryPermission_Read OR MemoryPermission_Write"

definition MemoryPermission_ReadAndExecute :: u8 where
  "MemoryPermission_ReadAndExecute = MemoryPermission_Read OR MemoryPermission_Execute"

definition MemoryPermission_UserMask :: u8 where
  "MemoryPermission_UserMask = 1 OR 2 OR 4"

definition MemoryAttribute_None :: u8 where
  "MemoryAttribute_None = 0x00"

definition MemoryAttribute_Mask :: u8 where
  "MemoryAttribute_Mask = 0x7F"

definition MemoryAttribute_All :: u8 where
  "MemoryAttribute_All = MemoryAttribute_Mask"

definition MemoryAttribute_DontCareMask :: u8 where
  "MemoryAttribute_DontCareMask = 0x80"

definition MemoryAttribute_Locked :: u8 where
  "MemoryAttribute_Locked = 1"

definition MemoryAttribute_IpcLocked :: u8 where
  "MemoryAttribute_IpcLocked = 2"

definition MemoryAttribute_DeviceShared :: u8 where
  "MemoryAttribute_DeviceShared = 4"

definition MemoryAttribute_Uncached :: u8 where
  "MemoryAttribute_Uncached = 8"

definition MemoryAttribute_IpcAndDeviceMapped :: u8 where
  "MemoryAttribute_IpcAndDeviceMapped = MemoryAttribute_IpcLocked OR MemoryAttribute_DeviceShared"

definition MemoryAttribute_LockedAndIpcLocked :: u8 where
  "MemoryAttribute_LockedAndIpcLocked = MemoryAttribute_Locked OR MemoryAttribute_IpcLocked"

definition MemoryAttribute_DeviceSharedAndUncached :: u8 where
  "MemoryAttribute_DeviceSharedAndUncached = MemoryAttribute_DeviceShared OR MemoryAttribute_Uncached"

lemmas MemoryPermission_defs =
  MemoryPermission_None_def MemoryPermission_Mask_def MemoryPermission_Read_def
  MemoryPermission_Write_def MemoryPermission_Execute_def MemoryPermission_ReadAndWrite_def
  MemoryPermission_ReadAndExecute_def MemoryPermission_UserMask_def

lemmas MemoryAttribute_defs =
  MemoryAttribute_None_def MemoryAttribute_Mask_def MemoryAttribute_All_def
  MemoryAttribute_DontCareMask_def MemoryAttribute_Locked_def MemoryAttribute_IpcLocked_def
  MemoryAttribute_DeviceShared_def MemoryAttribute_Uncached_def
  MemoryAttribute_IpcAndDeviceMapped_def MemoryAttribute_LockedAndIpcLocked_def
  MemoryAttribute_DeviceSharedAndUncached_def

section \<open>Memory information\<close>

record MemoryInfo =
  mi_addr :: u64
  mi_size :: u64
  mi_state :: u32
  mi_perm :: u8
  mi_attribute :: u8
  mi_original_perm :: u8
  mi_ipc_lock_count :: u16
  mi_device_use_count :: u16

record SvcMemoryInfo =
  svc_addr :: u64
  svc_size :: u64
  svc_state :: u32
  svc_attr :: u32
  svc_perm :: u32
  svc_ipc_refcount :: u32
  svc_device_refcount :: u32

definition GetSvcMemoryInfo :: "MemoryInfo \<Rightarrow> SvcMemoryInfo" where
  "GetSvcMemoryInfo i = \<lparr>
     svc_addr = mi_addr i, svc_size = mi_size i,
     svc_state = mi_state i AND MemoryState_Mask,
     svc_attr = ucast (mi_attribute i AND MemoryAttribute_Mask),
     svc_perm = ucast (mi_perm i AND MemoryPermission_UserMask),
     svc_ipc_refcount = ucast (mi_ipc_lock_count i),
     svc_device_refcount = ucast (mi_device_use_count i)\<rparr>"

definition MemoryInfo_GetNumPages :: "MemoryInfo \<Rightarrow> u64" where
  "MemoryInfo_GetNumPages i = mi_size i div PageSize"

definition MemoryInfo_GetEndAddress :: "MemoryInfo \<Rightarrow> u64" where
  "MemoryInfo_GetEndAddress i = mi_addr i + mi_size i"

definition MemoryInfo_GetLastAddress :: "MemoryInfo \<Rightarrow> u64" where
  "MemoryInfo_GetLastAddress i = MemoryInfo_GetEndAddress i - 1"

section \<open>Memory blocks\<close>

record MemoryBlock =
  mb_addr :: u64
  mb_num_pages :: u64
  mb_state :: u32
  mb_ipc_lock_count :: u16
  mb_device_use_count :: u16
  mb_perm :: u8
  mb_original_perm :: u8
  mb_attribute :: u8

definition mk_MemoryBlock :: "u64 \<Rightarrow> u64 \<Rightarrow> u32 \<Rightarrow> u8 \<Rightarrow> u8 \<Rightarrow> MemoryBlock" where
  "mk_MemoryBlock addr num_pages st perm attribute = \<lparr>
     mb_addr = addr, mb_num_pages = num_pages, mb_state = st, mb_ipc_lock_count = 0,
     mb_device_use_count = 0, mb_perm = perm, mb_original_perm = MemoryPermission_None,
     mb_attribute = attribute\<rparr>"

definition GetSize :: "MemoryBlock \<Rightarrow> u64" where
  "GetSize b = mb_num_pages b * PageSize"

definition GetEndAddress :: "MemoryBlock \<Rightarrow> u64" where
  "GetEndAddress b = mb_addr b + GetSize b"

definition GetLastAddress :: "MemoryBlock \<Rightarrow> u64" where
  "GetLastAddress b = GetEndAddress b - 1"

definition Compare :: "MemoryBlock \<Rightarrow> MemoryBlock \<Rightarrow> int" where
  "Compare lhs rhs =
     (if mb_addr lhs < mb_addr rhs then -1
      else if mb_addr lhs \<le> GetLastAddress rhs then 0
      else 1)"

definition GetMemoryInfo :: "MemoryBlock \<Rightarrow> MemoryInfo" where
  "GetMemoryInfo b = \<lparr>
     mi_addr = mb_addr b, mi_size = GetSize b, mi_state = mb_state b, mi_perm = mb_perm b,
     mi_attribute = mb_attribute b, mi_original_perm = mb_original_perm b,
     mi_ipc_lock_count = mb_ipc_lock_count b, mi_device_use_count = mb_device_use_count b\<rparr>"

definition ShareToDevice :: "u8 \<Rightarrow> MemoryBlock \<Rightarrow> MemoryBlock" where
  "ShareToDevice new_perm b = b\<lparr>
     mb_attribute := mb_attribute b OR MemoryAttribute_DeviceShared,
     mb_device_use_count := mb_device_use_count b + 1\<rparr>"

definition UnshareToDevice :: "u8 \<Rightarrow> MemoryBlock \<Rightarrow> MemoryBlock" where
  "UnshareToDevice new_perm b =
     (let prev_use_count = mb_device_use_count b;
          b' = b\<lparr>mb_device_use_count := mb_device_use_count b - 1\<rparr>
      in if prev_use_count = 1
         then b'\<lparr>mb_attribute := mb_attribute b' AND NOT MemoryAttribute_DeviceShared\<rparr>
         else b')"

definition AttributeIgnoreMask :: u8 where
  "AttributeIgnoreMask =
     MemoryAttribute_DontCareMask OR MemoryAttribute_IpcLocked OR MemoryAttribute_DeviceShared"

definition HasProperties :: "MemoryBlock \<Rightarrow> u32 \<Rightarrow> u8 \<Rightarrow> u8 \<Rightarrow> bool" where
  "HasProperties b s p a \<longleftrightarrow>
     mb_state b = s \<and> mb_perm b = p \<and>
     mb_attribute b OR AttributeIgnoreMask = a OR AttributeIgnoreMask"

definition HasSameProperties :: "MemoryBlock \<Rightarrow> MemoryBlock \<Rightarrow> bool" where
  "HasSameProperties b rhs \<longleftrightarrow>
     mb_state b = mb_state rhs \<and> mb_perm b = mb_perm rhs \<and>
     mb_original_perm b = mb_original_perm rhs \<and> mb_attribute b = mb_attribute rhs \<and>
     mb_ipc_lock_count b = mb_ipc_lock_count rhs \<and>
     mb_device_use_count b = mb_device_use_count rhs"

definition Block_Contains :: "MemoryBlock \<Rightarrow> u64 \<Rightarrow> bool" where
  "Block_Contains b start \<longleftrightarrow> mb_addr b \<le> start \<and> start \<le> GetEndAddress b"

definition Block_Add :: "u64 \<Rightarrow> MemoryBlock \<Rightarrow> MemoryBlock" where
  "Block_Add count b = b\<lparr>mb_num_pages := mb_num_pages b + count\<rparr>"

definition Block_Update :: "u32 \<Rightarrow> u8 \<Rightarrow> u8 \<Rightarrow> MemoryBlock \<Rightarrow> MemoryBlock" where
  "Block_Update new_state new_perm new_attribute b = b\<lparr>
     mb_state := new_state,
     mb_perm := new_perm,
     mb_attribute := new_attribute OR
       (mb_attribute b AND (MemoryAttribute_IpcLocked OR MemoryAttribute_DeviceShared))\<rparr>"

text \<open>\<^verbatim>\<open>Split\<close> returns the new left block and leaves the right part in the old one.\<close>

definition Split :: "u64 \<Rightarrow> MemoryBlock \<Rightarrow> MemoryBlock \<times> MemoryBlock" where
  "Split split_addr b =
     (let block = \<lparr>
            mb_addr = mb_addr b,
            mb_num_pages = (split_addr - mb_addr b) div PageSize,
            mb_state = mb_state b,
            mb_ipc_lock_count = mb_ipc_lock_count b,
            mb_device_use_count = mb_device_use_count b,
            mb_perm = mb_perm b,
            mb_original_perm = mb_original_perm b,
            mb_attribute = mb_attribute b\<rparr>
      in (block, b\<lparr>mb_addr := split_addr, mb_num_pages := mb_num_pages b - mb_num_pages block\<rparr>))"

section \<open>Extents and properties\<close>

text \<open>
  A block read as an interval of natural numbers, and its properties: what is left of a block
  when its place is forgotten.
\<close>

definition lo :: "MemoryBlock \<Rightarrow> nat" where
  "lo b = unat (mb_addr b)"

definition hi :: "MemoryBlock \<Rightarrow> nat" where
  "hi b = lo b + unat (mb_num_pages b) * 4096"

definition block_ok :: "MemoryBlock \<Rightarrow> bool" where
  "block_ok b \<longleftrightarrow> 0 < mb_num_pages b \<and> 4096 dvd lo b \<and> hi b < 2 ^ 64"

definition props :: "MemoryBlock \<Rightarrow> MemoryBlock" where
  "props b = b\<lparr>mb_addr := 0, mb_num_pages := 0\<rparr>"

lemma HasSameProperties_iff: "HasSameProperties b c \<longleftrightarrow> props b = props c"
  by (cases b; cases c) (auto simp: HasSameProperties_def props_def)

lemma props_idem [simp]: "props (props b) = props b"
  by (simp add: props_def)

lemma props_Add [simp]: "props (Block_Add n b) = props b"
  by (simp add: props_def Block_Add_def)

lemma lo_Add [simp]: "lo (Block_Add n b) = lo b"
  by (simp add: lo_def Block_Add_def)

lemma block_ok_lo_hi: "block_ok b \<Longrightarrow> lo b < hi b"
  by (simp add: block_ok_def hi_def unat_gt_0 word_gt_0)

lemma block_ok_hi_dvd: "block_ok b \<Longrightarrow> 4096 dvd hi b"
  by (simp add: block_ok_def hi_def)

lemma block_pages_bound:
  "block_ok b \<Longrightarrow> unat (mb_num_pages b) * 4096 < 2 ^ 64"
  by (simp add: block_ok_def hi_def)

lemma unat_block_size: "block_ok b \<Longrightarrow> unat (GetSize b) = hi b - lo b"
  using block_pages_bound [of b] by (simp add: GetSize_def hi_def unat_times)

lemma unat_cur_end:
  assumes "block_ok b"
  shows "unat (mb_num_pages b * PageSize + mb_addr b) = hi b"
proof -
  have s: "unat (mb_num_pages b * PageSize) = unat (mb_num_pages b) * 4096"
    using block_pages_bound [OF assms] by (simp add: unat_times)
  then have "unat (mb_num_pages b * PageSize) + unat (mb_addr b) < 2 ^ 64"
    using assms by (simp add: block_ok_def hi_def lo_def)
  then show ?thesis
    using s by (simp only: unat_plus hi_def lo_def)
qed

lemma unat_GetEndAddress: "block_ok b \<Longrightarrow> unat (GetEndAddress b) = hi b"
  using unat_cur_end [of b] by (simp add: GetEndAddress_def GetSize_def add.commute)

lemma unat_GetLastAddress: "block_ok b \<Longrightarrow> unat (GetLastAddress b) = hi b - 1"
  using unat_GetEndAddress [of b] block_ok_lo_hi [of b]
  by (simp add: GetLastAddress_def unat_pred)

text \<open>Joining two neighbours.\<close>

lemma Add_neighbour:
  assumes "block_ok b" and "block_ok c" and "lo c = hi b"
  shows "block_ok (Block_Add (mb_num_pages c) b)"
    and "hi (Block_Add (mb_num_pages c) b) = hi c"
proof -
  have "hi c < 2 ^ 64" using assms(2) by (simp add: block_ok_def)
  then have sum: "unat (mb_num_pages b) + unat (mb_num_pages c) < 2 ^ 64"
    using assms(3) by (simp add: hi_def)
  then have n: "unat (mb_num_pages b + mb_num_pages c) =
      unat (mb_num_pages b) + unat (mb_num_pages c)"
    by (rule unat_plus)
  then show hi: "hi (Block_Add (mb_num_pages c) b) = hi c"
    using assms(3) by (simp add: hi_def Block_Add_def lo_def algebra_simps)
  have "0 < unat (mb_num_pages b + mb_num_pages c)"
    using assms(1) n by (simp add: block_ok_def word_gt_0 unat_gt_0)
  then show "block_ok (Block_Add (mb_num_pages c) b)"
    using assms(1) \<open>hi c < 2 ^ 64\<close> hi
    by (simp add: block_ok_def Block_Add_def lo_def word_gt_0 unat_gt_0)
qed

text \<open>Splitting a block inside.\<close>

lemma Split_inside:
  assumes "block_ok b" and "lo b < unat a" and "unat a < hi b" and "4096 dvd unat a"
    and "Split a b = (l, r)"
  shows "block_ok l" and "lo l = lo b" and "hi l = unat a" and "props l = props b"
    and "block_ok r" and "lo r = unat a" and "hi r = hi b" and "props r = props b"
proof -
  have l: "l = b\<lparr>mb_num_pages := (a - mb_addr b) div PageSize\<rparr>"
    and r: "r = b\<lparr>mb_addr := a, mb_num_pages := mb_num_pages b - (a - mb_addr b) div PageSize\<rparr>"
    using assms(5) by (auto simp: Split_def Let_def)
  have "4096 dvd lo b" using assms(1) by (simp add: block_ok_def)
  then obtain i where i: "lo b = 4096 * i" by (elim dvdE)
  obtain j where j: "unat a = 4096 * j" using assms(4) by (elim dvdE)
  have ij: "i < j" using assms(2) i j by simp
  have "unat (a - mb_addr b) = 4096 * (j - i)"
    using assms(2) i j by (simp add: unat_simps lo_def right_diff_distrib')
  then have nl: "unat ((a - mb_addr b) div PageSize) = j - i"
    by (simp add: unat_div_distrib)
  have np: "j - i < unat (mb_num_pages b)"
    using assms(3) i j ij by (simp add: hi_def)
  have nr: "unat (mb_num_pages b - (a - mb_addr b) div PageSize) = unat (mb_num_pages b) - (j - i)"
    using np nl by (subst unat_diff) auto
  show lol: "lo l = lo b" by (simp add: l lo_def)
  show hil: "hi l = unat a"
    using nl i j ij by (simp add: hi_def l lo_def right_diff_distrib')
  show lor: "lo r = unat a" by (simp add: r lo_def)
  show hir: "hi r = hi b"
    using nr np i j ij by (simp add: hi_def r lo_def algebra_simps)
  have hb: "hi b < 2 ^ 64" using assms(1) by (simp add: block_ok_def)
  have "0 < unat (mb_num_pages l)" using nl ij by (simp add: l)
  then show "block_ok l"
    using lol hil assms(1,3) hb by (simp add: block_ok_def word_gt_0 unat_gt_0)
  have "0 < unat (mb_num_pages r)" using nr np by (simp add: r)
  then show "block_ok r"
    using lor hir assms(4) hb by (simp add: block_ok_def word_gt_0 unat_gt_0)
  show "props l = props b" by (simp add: l props_def)
  show "props r = props b" by (simp add: r props_def)
qed

end
