(* ===== verification/Block_Manager.thy ===== *)
theory Block_Manager
  imports Memory_Block
begin

text \<open>
  \<^verbatim>\<open>core/hle/kernel/memory/memory_block_manager.cpp\<close>: the list of blocks that covers an address
  space, its lookups, and the three update loops, which split the blocks at the ends of a range,
  rewrite what lies inside and merge neighbours.

  The \<^verbatim>\<open>std::list\<close> is a list; an iterator is a position, so the loops carry the blocks before
  \<^verbatim>\<open>node\<close> and the blocks from \<^verbatim>\<open>node\<close> on. Dereferencing the end iterator is \<open>None\<close>.
\<close>

record MemoryBlockManager =
  bm_start_addr :: u64
  bm_end_addr :: u64
  bm_tree :: "MemoryBlock list"

definition mk_MemoryBlockManager :: "u64 \<Rightarrow> u64 \<Rightarrow> MemoryBlockManager" where
  "mk_MemoryBlockManager start_addr end_addr =
     (let num_pages = (end_addr - start_addr) div PageSize
      in \<lparr>bm_start_addr = start_addr, bm_end_addr = end_addr,
          bm_tree = [mk_MemoryBlock start_addr num_pages MemoryState_Free
                       MemoryPermission_None MemoryAttribute_None]\<rparr>)"

section \<open>Lookups\<close>

text \<open>\<^verbatim>\<open>FindIterator\<close> returns the blocks from the one found on; the empty list is \<^verbatim>\<open>end()\<close>.\<close>

fun FindIterator :: "u64 \<Rightarrow> MemoryBlock list \<Rightarrow> MemoryBlock list" where
  "FindIterator addr [] = []"
| "FindIterator addr (node # rest) =
     (let end_addr = mb_num_pages node * PageSize + mb_addr node
      in if mb_addr node \<le> addr \<and> end_addr - 1 \<ge> addr then node # rest
         else FindIterator addr rest)"

definition FindBlock :: "u64 \<Rightarrow> MemoryBlock list \<Rightarrow> MemoryBlock option" where
  "FindBlock addr bs = (case FindIterator addr bs of [] \<Rightarrow> None | b # _ \<Rightarrow> Some b)"

fun FindFreeArea_loop ::
  "u64 \<Rightarrow> u64 \<Rightarrow> u64 \<Rightarrow> u64 \<Rightarrow> u64 \<Rightarrow> u64 \<Rightarrow> MemoryBlock list \<Rightarrow> u64" where
  "FindFreeArea_loop region_start region_last num_pages align offset guard_pages [] = 0"
| "FindFreeArea_loop region_start region_last num_pages align offset guard_pages (it # rest) =
     (let info = GetMemoryInfo it
      in if region_last < mi_addr info then 0
         else if mi_state info \<noteq> MemoryState_Free
           then FindFreeArea_loop region_start region_last num_pages align offset guard_pages rest
         else
           (let area = (if mi_addr info \<le> region_start then region_start else mi_addr info);
                area = area + guard_pages * PageSize;
                offset_area = AlignDown area align + offset;
                area = (if area \<le> offset_area then offset_area else offset_area + align);
                area_end = area + num_pages * PageSize + guard_pages * PageSize;
                area_last = area_end - 1
            in if mi_addr info \<le> area \<and> area < area_last \<and> area_last \<le> region_last \<and>
                  area_last \<le> MemoryInfo_GetLastAddress info
               then area
               else FindFreeArea_loop region_start region_last num_pages align offset guard_pages
                      rest))"

text \<open>\<open>None\<close> is the division by an alignment of zero; address 0 is "nothing found".\<close>

definition FindFreeArea ::
  "u64 \<Rightarrow> u64 \<Rightarrow> u64 \<Rightarrow> u64 \<Rightarrow> u64 \<Rightarrow> u64 \<Rightarrow> MemoryBlock list \<Rightarrow> u64 option" where
  "FindFreeArea region_start region_num_pages num_pages align offset guard_pages bs =
     (if num_pages = 0 then Some 0
      else if align = 0 then None
      else
        (let region_end = region_start + region_num_pages * PageSize;
             region_last = region_end - 1
         in Some (FindFreeArea_loop region_start region_last num_pages align offset guard_pages
                    (FindIterator region_start bs))))"

text \<open>
  \<^verbatim>\<open>IterateForRange\<close> threads the state its callback captures. The loop visits the first block
  unconditionally, which is undefined when the lookup found none.
\<close>

fun IterateForRange_loop ::
  "u64 \<Rightarrow> (MemoryInfo \<Rightarrow> 's \<Rightarrow> 's option) \<Rightarrow> MemoryBlock list \<Rightarrow> 's \<Rightarrow> 's option" where
  "IterateForRange_loop end_addr func [] s = None"
| "IterateForRange_loop end_addr func (it # rest) s = do {
     let info = GetMemoryInfo it;
     s \<leftarrow> func info s;
     if mi_addr info + mi_size info - 1 < end_addr - 1 \<and> rest \<noteq> []
     then IterateForRange_loop end_addr func rest s
     else Some s
   }"

definition IterateForRange ::
  "u64 \<Rightarrow> u64 \<Rightarrow> (MemoryInfo \<Rightarrow> 's \<Rightarrow> 's option) \<Rightarrow> MemoryBlock list \<Rightarrow> 's \<Rightarrow> 's option" where
  "IterateForRange start end_addr func bs s =
     IterateForRange_loop end_addr func (FindIterator start bs) s"

section \<open>Updates\<close>

text \<open>
  \<^verbatim>\<open>MergeAdjacent(it, next_it)\<close> on the list \<open>pre @ block # post\<close>, where \<^verbatim>\<open>it\<close> is at \<open>block\<close>
  and \<^verbatim>\<open>next_it\<close> is \<open>next_ix\<close> places into \<open>post\<close>. The result is the list cut at the new
  \<^verbatim>\<open>next_it\<close>. The test \<^verbatim>\<open>it != cend()\<close> always holds, so \<^verbatim>\<open>*std::next(it)\<close> is read even when
  \<^verbatim>\<open>it\<close> is the last block.
\<close>

definition MergeAdjacent ::
  "MemoryBlock list \<Rightarrow> MemoryBlock \<Rightarrow> MemoryBlock list \<Rightarrow> nat \<Rightarrow>
   (MemoryBlock list \<times> MemoryBlock list) option" where
  "MergeAdjacent pre block post next_ix =
     (let (pre, block) =
            (if pre \<noteq> [] \<and> HasSameProperties block (last pre)
             then (butlast pre, Block_Add (mb_num_pages block) (last pre))
             else (pre, block))
      in case post of
           [] \<Rightarrow> None
         | next # post' \<Rightarrow>
             if HasSameProperties block next
             then Some (pre @ Block_Add (mb_num_pages next) block # take (next_ix - 1) post',
                        drop (next_ix - 1) post')
             else Some (pre @ block # take next_ix post, drop next_ix post))"

lemma MergeAdjacent_shrinks:
  "MergeAdjacent pre block post k = Some (front, onward) \<Longrightarrow> length onward \<le> length post - k"
  by (auto simp: MergeAdjacent_def Let_def split: list.splits if_splits prod.splits)

text \<open>
  The body the three loops share: cut the block at the ends of the range, apply the action to the
  middle part, merge it with its neighbours. The action and the guard are what they differ in.
\<close>

definition Update_block ::
  "(MemoryBlock \<Rightarrow> MemoryBlock) \<Rightarrow> u64 \<Rightarrow> u64 \<Rightarrow> MemoryBlock list \<Rightarrow> MemoryBlock \<Rightarrow>
   MemoryBlock list \<Rightarrow> (MemoryBlock list \<times> MemoryBlock list) option" where
  "Update_block act addr end_addr pre block rest =
     (let cur_addr = mb_addr block;
          cur_end_addr = mb_num_pages block * PageSize + cur_addr;
          (pre, block) =
            (if addr > cur_addr
             then (let (left, block) = Split addr block in (pre @ [left], block))
             else (pre, block))
      in if end_addr < cur_end_addr
         then (let (new_node, block) = Split end_addr block
               in MergeAdjacent pre (act new_node) (block # rest) 1)
         else MergeAdjacent pre (act block) rest 0)"

lemma Update_block_shrinks:
  "Update_block act addr end_addr pre block rest = Some (front, onward) \<Longrightarrow>
   length onward \<le> length rest"
  by (auto simp: Update_block_def Let_def dest: MergeAdjacent_shrinks
      split: if_splits prod.splits)

function Update_loop ::
  "(MemoryBlock \<Rightarrow> bool) \<Rightarrow> (MemoryBlock \<Rightarrow> MemoryBlock) \<Rightarrow> u64 \<Rightarrow> u64 \<Rightarrow>
   MemoryBlock list \<Rightarrow> MemoryBlock list \<Rightarrow> MemoryBlock list option" where
  "Update_loop guard act addr end_addr pre [] = Some pre"
| "Update_loop guard act addr end_addr pre (block # rest) =
     (let cur_addr = mb_addr block;
          cur_end_addr = mb_num_pages block * PageSize + cur_addr
      in if addr < cur_end_addr \<and> cur_addr < end_addr
         then
           (if \<not> guard block then Update_loop guard act addr end_addr (pre @ [block]) rest
            else
              (case Update_block act addr end_addr pre block rest of
                 None \<Rightarrow> None
               | Some (front, onward) \<Rightarrow>
                   if cur_end_addr - 1 \<ge> end_addr - 1 then Some (front @ onward)
                   else Update_loop guard act addr end_addr front onward))
         else if cur_end_addr - 1 \<ge> end_addr - 1 then Some (pre @ block # rest)
         else Update_loop guard act addr end_addr (pre @ [block]) rest)"
  by pat_completeness auto
termination
  by (relation "measure (\<lambda>(guard, act, addr, end_addr, pre, rest). length rest)")
    (auto dest: Update_block_shrinks)

declare Update_loop.simps [simp del]

text \<open>The two \<^verbatim>\<open>Update\<close> overloads and \<^verbatim>\<open>UpdateLock\<close>.\<close>

definition Update_if ::
  "u64 \<Rightarrow> u64 \<Rightarrow> u32 \<Rightarrow> u8 \<Rightarrow> u8 \<Rightarrow> u32 \<Rightarrow> u8 \<Rightarrow> u8 \<Rightarrow> MemoryBlock list \<Rightarrow>
   MemoryBlock list option" where
  "Update_if addr num_pages prev_state prev_perm prev_attribute st perm attribute bs =
     (let end_addr = addr + num_pages * PageSize;
          prev_attribute = prev_attribute OR MemoryAttribute_IpcAndDeviceMapped
      in Update_loop (\<lambda>b. HasProperties b prev_state prev_perm prev_attribute)
           (Block_Update st perm attribute) addr end_addr [] bs)"

definition Update ::
  "u64 \<Rightarrow> u64 \<Rightarrow> u32 \<Rightarrow> u8 \<Rightarrow> u8 \<Rightarrow> MemoryBlock list \<Rightarrow> MemoryBlock list option" where
  "Update addr num_pages st perm attribute bs =
     (let end_addr = addr + num_pages * PageSize
      in Update_loop (\<lambda>_. True) (Block_Update st perm attribute) addr end_addr [] bs)"

definition UpdateLock ::
  "u64 \<Rightarrow> u64 \<Rightarrow> (u8 \<Rightarrow> MemoryBlock \<Rightarrow> MemoryBlock) \<Rightarrow> u8 \<Rightarrow> MemoryBlock list \<Rightarrow>
   MemoryBlock list option" where
  "UpdateLock addr num_pages lock_func perm bs =
     (let end_addr = addr + num_pages * PageSize
      in Update_loop (\<lambda>_. True) (lock_func perm) addr end_addr [] bs)"

section \<open>Tilings\<close>

text \<open>
  The invariant of the list: its blocks are non-empty, page aligned and follow each other without
  a gap from the start to the end of the address space. \<open>lookup\<close> is the abstraction: the
  properties of the block an address lies in.
\<close>

fun tiles :: "nat \<Rightarrow> MemoryBlock list \<Rightarrow> nat \<Rightarrow> bool" where
  "tiles a [] e \<longleftrightarrow> a = e"
| "tiles a (b # bs) e \<longleftrightarrow> lo b = a \<and> block_ok b \<and> tiles (hi b) bs e"

fun lookup :: "MemoryBlock list \<Rightarrow> nat \<Rightarrow> MemoryBlock option" where
  "lookup [] x = None"
| "lookup (b # bs) x = (if lo b \<le> x \<and> x < hi b then Some (props b) else lookup bs x)"

lemma tiles_append: "tiles a (xs @ ys) e \<longleftrightarrow> (\<exists>m. tiles a xs m \<and> tiles m ys e)"
  by (induction xs arbitrary: a) auto

lemma tiles_le: "tiles a bs e \<Longrightarrow> a \<le> e"
  by (induction bs arbitrary: a) (auto dest: block_ok_lo_hi intro: less_imp_le less_le_trans)

lemma tiles_start_unique: "tiles a bs e \<Longrightarrow> tiles b bs e \<Longrightarrow> a = b"
  by (cases bs) auto

lemma tiles_end_unique: "tiles a bs e \<Longrightarrow> tiles a bs e' \<Longrightarrow> e = e'"
  by (induction bs arbitrary: a) auto

lemma tiles_block: "tiles a bs e \<Longrightarrow> b \<in> set bs \<Longrightarrow> a \<le> lo b \<and> hi b \<le> e \<and> block_ok b"
proof (induction bs arbitrary: a)
  case Nil
  then show ?case by simp
next
  case (Cons c bs)
  then show ?case
    using block_ok_lo_hi [of c] tiles_le [of "hi c" bs e] by fastforce
qed

lemma lookup_append:
  "lookup (xs @ ys) x = (case lookup xs x of None \<Rightarrow> lookup ys x | Some p \<Rightarrow> Some p)"
  by (induction xs) auto

lemma lookup_outside: "tiles a bs e \<Longrightarrow> x < a \<or> e \<le> x \<Longrightarrow> lookup bs x = None"
proof (induction bs arbitrary: a)
  case Nil
  then show ?case by simp
next
  case (Cons b bs)
  then have "lo b = a" "lo b < hi b" "hi b \<le> e" and t: "tiles (hi b) bs e"
    by (auto dest: block_ok_lo_hi tiles_le)
  moreover from this have "lookup bs x = None"
    using Cons.prems(2) by (intro Cons.IH [OF t]) auto
  ultimately show ?case using Cons.prems(2) by auto
qed

lemma lookup_inside: "tiles a bs e \<Longrightarrow> a \<le> x \<Longrightarrow> x < e \<Longrightarrow> lookup bs x \<noteq> None"
  by (induction bs arbitrary: a) (auto simp: not_less)

lemma lookup_cong_append:
  "lookup ys = lookup ys' \<Longrightarrow> lookup (xs @ ys) = lookup (xs @ ys')"
  by (auto simp: lookup_append fun_eq_iff split: option.split)

text \<open>Two neighbours with the same properties are as good as their union.\<close>

lemma join_neighbours:
  assumes "tiles a (b # c # bs) e" and "props b = props c"
  shows "tiles a (Block_Add (mb_num_pages c) b # bs) e"
    and "lookup (Block_Add (mb_num_pages c) b # bs) = lookup (b # c # bs)"
proof -
  have bc: "block_ok b" "block_ok c" "lo c = hi b" using assms(1) by auto
  note add = Add_neighbour [OF bc]
  show "tiles a (Block_Add (mb_num_pages c) b # bs) e"
    using assms(1) add by simp
  show "lookup (Block_Add (mb_num_pages c) b # bs) = lookup (b # c # bs)"
    using add bc block_ok_lo_hi [OF bc(1)] block_ok_lo_hi [OF bc(2)] assms(2)
    by (auto simp: fun_eq_iff)
qed

lemma MergeAdjacent_prev:
  assumes "tiles s (pre @ block # post) e"
  obtains pre' block' where
    "(if pre \<noteq> [] \<and> HasSameProperties block (last pre)
      then (butlast pre, Block_Add (mb_num_pages block) (last pre)) else (pre, block)) =
     (pre', block')"
    and "tiles s (pre' @ block' # post) e"
    and "lookup (pre' @ block' # post) = lookup (pre @ block # post)"
    and "props block' = props block"
proof (cases "pre \<noteq> [] \<and> HasSameProperties block (last pre)")
  case True
  then have pre: "pre = butlast pre @ [last pre]" and same: "props (last pre) = props block"
    by (simp_all add: HasSameProperties_iff)
  define p where "p = last pre"
  define q where "q = butlast pre"
  have eq: "pre @ block # post = q @ p # block # post"
    using pre by (simp add: p_def q_def flip: append_assoc)
  obtain m where m: "tiles s q m" "tiles m (p # block # post) e"
    using assms unfolding eq tiles_append by blast
  note j = join_neighbours [OF m(2) same [folded p_def]]
  show ?thesis
  proof (rule that [of q "Block_Add (mb_num_pages block) p"])
    show "tiles s (q @ Block_Add (mb_num_pages block) p # post) e"
      using m(1) j(1) unfolding tiles_append by blast
    show "lookup (q @ Block_Add (mb_num_pages block) p # post) = lookup (pre @ block # post)"
      unfolding eq using j(2) by (rule lookup_cong_append)
  qed (use True same in \<open>simp_all add: p_def q_def\<close>)
next
  case False
  then show ?thesis using assms by (intro that [of pre block]) auto
qed

lemma MergeAdjacent_correct:
  assumes "tiles s (pre @ block # post) e" and "post \<noteq> []"
  obtains front onward where
    "MergeAdjacent pre block post k = Some (front, onward)"
    and "tiles s (front @ onward) e"
    and "lookup (front @ onward) = lookup (pre @ block # post)"
    and "onward = drop k post \<or> (k = 0 \<and> (\<exists>n. post = n # onward \<and> props n = props block))"
proof -
  obtain pre' block' where pb:
    "(if pre \<noteq> [] \<and> HasSameProperties block (last pre)
      then (butlast pre, Block_Add (mb_num_pages block) (last pre)) else (pre, block)) =
     (pre', block')"
    "tiles s (pre' @ block' # post) e"
    "lookup (pre' @ block' # post) = lookup (pre @ block # post)"
    "props block' = props block"
    using assms(1) by (rule MergeAdjacent_prev)
  obtain n post' where post: "post = n # post'" using assms(2) by (cases post) auto
  show ?thesis
  proof (cases "props block' = props n")
    case False
    then have "MergeAdjacent pre block post k =
        Some (pre' @ block' # take k post, drop k post)"
      unfolding MergeAdjacent_def pb(1) by (simp add: post HasSameProperties_iff)
    then show ?thesis
      using pb(2,3) by (intro that [of "pre' @ block' # take k post" "drop k post"]) simp_all
  next
    case True
    obtain m where m: "tiles s pre' m" "tiles m (block' # n # post') e"
      using pb(2) unfolding tiles_append post by blast
    note j = join_neighbours [OF m(2) True]
    have "MergeAdjacent pre block post k =
        Some (pre' @ Block_Add (mb_num_pages n) block' # take (k - 1) post', drop (k - 1) post')"
      unfolding MergeAdjacent_def pb(1) using True by (simp add: post HasSameProperties_iff)
    moreover have "tiles s (pre' @ Block_Add (mb_num_pages n) block' # post') e"
      using m(1) j(1) unfolding tiles_append by blast
    moreover have "lookup (pre' @ Block_Add (mb_num_pages n) block' # post') =
        lookup (pre @ block # post)"
      using lookup_cong_append [OF j(2)] pb(3) by (simp add: post)
    ultimately show ?thesis
      using True pb(4) post
      by (intro that [of "pre' @ Block_Add (mb_num_pages n) block' # take (k - 1) post'"
            "drop (k - 1) post'"]) (auto simp: drop_Cons')
  qed
qed

section \<open>The contract of an update\<close>

text \<open>
  What the update loops need of the action they apply and of the guard that selects blocks: both
  look at the properties of a block only, and the action leaves its place alone. \<open>apply_if\<close> is
  what a loop promises to do to the properties of each address in its range.
\<close>

definition apply_if ::
  "(MemoryBlock \<Rightarrow> bool) \<Rightarrow> (MemoryBlock \<Rightarrow> MemoryBlock) \<Rightarrow> MemoryBlock \<Rightarrow> MemoryBlock" where
  "apply_if guard act p = (if guard p then act p else p)"

locale block_action =
  fixes act :: "MemoryBlock \<Rightarrow> MemoryBlock"
    and guard :: "MemoryBlock \<Rightarrow> bool"
  assumes addr_act: "mb_addr (act b) = mb_addr b"
    and num_pages_act: "mb_num_pages (act b) = mb_num_pages b"
    and props_act: "props (act b) = act (props b)"
    and guard_props: "guard (props b) = guard b"
begin

lemma extent_act [simp]: "lo (act b) = lo b" "hi (act b) = hi b" "block_ok (act b) = block_ok b"
  by (simp_all add: lo_def hi_def block_ok_def addr_act num_pages_act)

lemma tiles_act [simp]: "tiles a (xs @ act b # ys) e = tiles a (xs @ b # ys) e"
  by (simp add: tiles_append)

lemma lookup_act:
  assumes "tiles s (xs @ b # ys) e"
  shows "lookup (xs @ act b # ys) x =
    (if lo b \<le> x \<and> x < hi b then Some (act (props b)) else lookup (xs @ b # ys) x)"
proof -
  obtain m where m: "tiles s xs m" "tiles m (b # ys) e"
    using assms unfolding tiles_append by blast
  then have "lo b \<le> x \<Longrightarrow> lookup xs x = None"
    by (auto intro: lookup_outside)
  then show ?thesis by (auto simp: lookup_append props_act split: option.split)
qed

lemma split_left:
  assumes t: "tiles s (pre @ block # rest) e" and al: "4096 dvd unat addr" and a: "unat addr < hi block"
  obtains pre' block' where
    "(if addr > mb_addr block
      then (let (left, block) = Split addr block in (pre @ [left], block))
      else (pre, block)) = (pre', block')"
    and "tiles s (pre' @ block' # rest) e"
    and "lookup (pre' @ block' # rest) = lookup (pre @ block # rest)"
    and "lo block' = max (unat addr) (lo block)" and "hi block' = hi block"
    and "props block' = props block"
proof (cases "addr > mb_addr block")
  case False
  then show ?thesis using t
    by (intro that [of pre block]) (auto simp: lo_def word_less_nat_alt)
next
  case True
  obtain l r where lr: "Split addr block = (l, r)" by (cases "Split addr block")
  obtain m where m: "tiles s pre m" "lo block = m" "block_ok block" "tiles (hi block) rest e"
    using t unfolding tiles_append by auto
  have "lo block < unat addr" using True by (simp add: lo_def word_less_nat_alt)
  note sp = Split_inside [OF m(3) this a al lr]
  show ?thesis
  proof (rule that [of "pre @ [l]" r])
    show "tiles s ((pre @ [l]) @ r # rest) e"
      using m sp by (auto simp: tiles_append)
    have "lookup (l # r # rest) = lookup (block # rest)"
      using sp \<open>lo block < unat addr\<close> a by (auto simp: fun_eq_iff)
    from lookup_cong_append [OF this, of pre]
    show "lookup ((pre @ [l]) @ r # rest) = lookup (pre @ block # rest)" by simp
  qed (use True sp lr \<open>lo block < unat addr\<close> in simp_all)
qed

lemma Update_block_correct:
  assumes t: "tiles s (pre @ block # rest) e"
    and al: "4096 dvd unat addr" "4096 dvd unat end_addr"
    and ov: "unat addr < hi block" "lo block < unat end_addr" "unat addr < unat end_addr"
    and nl: "unat end_addr < hi block \<or> rest \<noteq> []"
  obtains front onward where
    "Update_block act addr end_addr pre block rest = Some (front, onward)"
    and "tiles s (front @ onward) e"
    and "\<And>x. lookup (front @ onward) x =
      (if max (unat addr) (lo block) \<le> x \<and> x < min (unat end_addr) (hi block)
       then Some (act (props block)) else lookup (pre @ block # rest) x)"
    and "unat end_addr < hi block \<or> onward = rest \<or>
      (\<exists>n. rest = n # onward \<and> props n = act (props block))"
proof -
  obtain pre' block' where pb:
    "(if addr > mb_addr block
      then (let (left, block) = Split addr block in (pre @ [left], block))
      else (pre, block)) = (pre', block')"
    "tiles s (pre' @ block' # rest) e"
    "lookup (pre' @ block' # rest) = lookup (pre @ block # rest)"
    "lo block' = max (unat addr) (lo block)" "hi block' = hi block"
    "props block' = props block"
    using t al(1) ov(1) by (rule split_left)
  have ok: "block_ok block" and ok': "block_ok block'"
    using t pb(2) by (auto simp: tiles_append)
  have ce: "end_addr < mb_num_pages block * PageSize + mb_addr block \<longleftrightarrow> unat end_addr < hi block"
    using unat_cur_end [OF ok] by (simp add: word_less_nat_alt)
  show ?thesis
  proof (cases "unat end_addr < hi block")
    case True
    obtain l r where lr: "Split end_addr block' = (l, r)" by (cases "Split end_addr block'")
    have "lo block' < unat end_addr" using pb(4) ov by simp
    note sp = Split_inside [OF ok' this _ al(2) lr]
    have tlr: "tiles s (pre' @ l # r # rest) e"
      using pb(2,5) sp True by (auto simp: tiles_append)
    have "lookup (l # r # rest) = lookup (block' # rest)"
      using sp True pb(4,5) ov by (auto simp: fun_eq_iff)
    from lookup_cong_append [OF this, of pre'] pb(3)
    have llr: "lookup (pre' @ l # r # rest) = lookup (pre @ block # rest)" by simp
    have "tiles s (pre' @ act l # r # rest) e" using tlr by simp
    then obtain front onward where fo: "MergeAdjacent pre' (act l) (r # rest) 1 = Some (front, onward)"
      "tiles s (front @ onward) e"
      "lookup (front @ onward) = lookup (pre' @ act l # r # rest)"
      by (rule MergeAdjacent_correct) auto
    show ?thesis
    proof (rule that [of front onward])
      show "Update_block act addr end_addr pre block rest = Some (front, onward)"
        using True fo(1) lr unfolding Update_block_def Let_def ce pb(1) [unfolded Let_def]
        by simp
      show "lookup (front @ onward) x =
        (if max (unat addr) (lo block) \<le> x \<and> x < min (unat end_addr) (hi block)
         then Some (act (props block)) else lookup (pre @ block # rest) x)" for x
        using lookup_act [OF tlr, of x] sp True pb fo(3) llr by simp
    qed (use True fo in simp_all)
  next
    case False
    have "tiles s (pre' @ act block' # rest) e" using pb(2) by simp
    moreover have "rest \<noteq> []" using nl False by simp
    ultimately obtain front onward where fo:
      "MergeAdjacent pre' (act block') rest 0 = Some (front, onward)"
      "tiles s (front @ onward) e"
      "lookup (front @ onward) = lookup (pre' @ act block' # rest)"
      "onward = drop 0 rest \<or> (0 = (0::nat) \<and> (\<exists>n. rest = n # onward \<and> props n = props (act block')))"
      by (rule MergeAdjacent_correct)
    show ?thesis
    proof (rule that [of front onward])
      show "Update_block act addr end_addr pre block rest = Some (front, onward)"
        using False fo(1) unfolding Update_block_def Let_def ce pb(1) [unfolded Let_def]
        by simp
      show "lookup (front @ onward) x =
        (if max (unat addr) (lo block) \<le> x \<and> x < min (unat end_addr) (hi block)
         then Some (act (props block)) else lookup (pre @ block # rest) x)" for x
        using lookup_act [OF pb(2), of x] False pb fo(3) by (simp add: not_less)
    qed (use fo pb(6) in \<open>auto simp: props_act\<close>)
  qed
qed

end

lemma lookup_at:
  assumes "tiles s (pre @ block # rest) e" and "lo block \<le> x" and "x < hi block"
  shows "lookup (pre @ block # rest) x = Some (props block)"
proof -
  obtain m where "tiles s pre m" "m = lo block"
    using assms(1) unfolding tiles_append by auto
  then have "lookup pre x = None" using assms(2) by (auto intro: lookup_outside)
  then show ?thesis using assms(2,3) by (simp add: lookup_append)
qed

text \<open>One round of the loop, with the comparisons read as natural numbers.\<close>

lemma Update_loop_Cons:
  assumes "block_ok block" and "0 < unat end_addr"
  shows "Update_loop guard act addr end_addr pre (block # rest) =
    (if unat addr < hi block \<and> lo block < unat end_addr
     then
       (if \<not> guard block then Update_loop guard act addr end_addr (pre @ [block]) rest
        else
          (case Update_block act addr end_addr pre block rest of
             None \<Rightarrow> None
           | Some (front, onward) \<Rightarrow>
               if unat end_addr \<le> hi block then Some (front @ onward)
               else Update_loop guard act addr end_addr front onward))
     else if unat end_addr \<le> hi block then Some (pre @ block # rest)
     else Update_loop guard act addr end_addr (pre @ [block]) rest)"
proof -
  let ?ce = "mb_num_pages block * PageSize + mb_addr block"
  have ce: "unat ?ce = hi block" by (rule unat_cur_end [OF assms(1)])
  then have "0 < unat ?ce" using block_ok_lo_hi [OF assms(1)] by simp
  then have last: "end_addr - 1 \<le> ?ce - 1 \<longleftrightarrow> unat end_addr \<le> hi block"
    using assms(2) ce by (simp add: last_le_iff del: PageSize_eq)
  have "addr < ?ce \<longleftrightarrow> unat addr < hi block" "mb_addr block < end_addr \<longleftrightarrow> lo block < unat end_addr"
    using ce by (simp_all add: word_less_nat_alt lo_def del: PageSize_eq)
  with last show ?thesis
    by (subst Update_loop.simps) (simp only: Let_def)
qed

text \<open>
  The outcome of the loop from position \<open>c\<close> of the address space on: the list still tiles it, and
  the addresses of the range have their properties rewritten, all others keep theirs.
\<close>

definition rewritten ::
  "nat \<Rightarrow> nat \<Rightarrow> (MemoryBlock \<Rightarrow> MemoryBlock) \<Rightarrow> MemoryBlock list \<Rightarrow> MemoryBlock list \<Rightarrow> bool" where
  "rewritten from_addr to_addr f bs bs' \<longleftrightarrow>
     (\<forall>x. lookup bs' x =
        (if from_addr \<le> x \<and> x < to_addr then map_option f (lookup bs x) else lookup bs x))"

context block_action
begin

lemma rewritten_skip:
  assumes t: "tiles s (pre @ block # rest) e"
    and r: "rewritten (max a (hi block)) b (apply_if guard act) (pre @ block # rest) bs'"
    and same: "a < hi block \<Longrightarrow> lo block < b \<Longrightarrow> \<not> guard block"
  shows "rewritten (max a (lo block)) b (apply_if guard act) (pre @ block # rest) bs'"
  unfolding rewritten_def
proof
  fix x
  have r': "lookup bs' x = (if max a (hi block) \<le> x \<and> x < b
      then map_option (apply_if guard act) (lookup (pre @ block # rest) x)
      else lookup (pre @ block # rest) x)"
    using r by (simp add: rewritten_def)
  have lh: "lo block < hi block"
    using t by (auto simp: tiles_append dest: block_ok_lo_hi)
  show "lookup bs' x = (if max a (lo block) \<le> x \<and> x < b
      then map_option (apply_if guard act) (lookup (pre @ block # rest) x)
      else lookup (pre @ block # rest) x)"
  proof (cases "max a (lo block) \<le> x \<and> x < b \<and> x < hi block")
    case True
    then have "lookup (pre @ block # rest) x = Some (props block)"
      using t by (intro lookup_at) auto
    moreover have "\<not> guard (props block)" using True same by (simp add: guard_props)
    ultimately show ?thesis using r' True by (simp add: apply_if_def)
  next
    case False
    then show ?thesis using r' lh by auto
  qed
qed

lemma rewritten_step:
  assumes t: "tiles s (pre @ block # rest) e" and g: "guard block"
    and lk: "\<And>x. lookup (front @ onward) x =
      (if max a (lo block) \<le> x \<and> x < min b (hi block)
       then Some (act (props block)) else lookup (pre @ block # rest) x)"
    and r: "rewritten (max a c') b (apply_if guard act) (front @ onward) bs'"
    and le: "hi block \<le> c'"
    and mid: "\<And>x. hi block \<le> x \<Longrightarrow> x < c' \<Longrightarrow> a \<le> x \<Longrightarrow> x < b \<Longrightarrow>
      map_option (apply_if guard act) (lookup (pre @ block # rest) x) =
      lookup (pre @ block # rest) x"
  shows "rewritten (max a (lo block)) b (apply_if guard act) (pre @ block # rest) bs'"
  unfolding rewritten_def
proof
  fix x
  have r': "lookup bs' x = (if max a c' \<le> x \<and> x < b
      then map_option (apply_if guard act) (lookup (front @ onward) x)
      else lookup (front @ onward) x)"
    using r by (simp add: rewritten_def)
  have at: "lo block \<le> x \<Longrightarrow> x < hi block \<Longrightarrow> lookup (pre @ block # rest) x = Some (props block)"
    using t by (rule lookup_at)
  have gp: "guard (props block)" using g by (simp add: guard_props)
  have lh: "lo block < hi block"
    using t by (auto simp: tiles_append dest: block_ok_lo_hi)
  consider "max a (lo block) \<le> x" "x < min b (hi block)" | "hi block \<le> x" "x < c'" "a \<le> x" "x < b"
    | "c' \<le> x" | "\<not> (max a (lo block) \<le> x \<and> x < b)" by linarith
  then show "lookup bs' x = (if max a (lo block) \<le> x \<and> x < b
      then map_option (apply_if guard act) (lookup (pre @ block # rest) x)
      else lookup (pre @ block # rest) x)"
  proof cases
    case 1
    then show ?thesis using r' lk [of x] at gp le by (simp add: apply_if_def)
  next
    case 2
    then show ?thesis using r' lk [of x] mid [of x] by auto
  next
    case 3
    then show ?thesis using r' lk [of x] le lh by auto
  next
    case 4
    then show ?thesis using r' lk [of x] le lh by auto
  qed
qed

lemma skipped_unchanged:
  assumes t: "tiles s (pre @ block # n # rest) e"
    and same: "apply_if guard act (props n) = props n"
    and x: "hi block \<le> x" "x < hi n"
  shows "map_option (apply_if guard act) (lookup (pre @ block # n # rest) x) =
    lookup (pre @ block # n # rest) x"
proof -
  have "lo n = hi block" using t by (auto simp: tiles_append)
  then have "lookup ((pre @ [block]) @ n # rest) x = Some (props n)"
    using t x by (intro lookup_at) auto
  then show ?thesis using same by simp
qed

text \<open>
  A block the loop merges into the one it has just rewritten is not visited itself. That is
  harmless when rewriting it would have changed nothing, the hypothesis \<open>skip\<close> below, where \<open>S\<close>
  holds the properties of the blocks that meet the range.
\<close>

lemma rewritten_continue:
  assumes t: "tiles s (pre @ block # rest) e" and g: "guard block"
    and lk: "\<And>x. lookup (front @ onward) x =
      (if max a (lo block) \<le> x \<and> x < min b (hi block)
       then Some (act (props block)) else lookup (pre @ block # rest) x)"
    and r: "rewritten (max a c') b (apply_if guard act) (front @ onward) bs'"
    and c': "tiles c' onward e"
    and on: "onward = rest \<or> (\<exists>n. rest = n # onward \<and> props n = act (props block))"
    and ov: "a < hi block" "lo block < b" "hi block < b"
    and skip: "\<And>p q. p \<in> S \<Longrightarrow> q \<in> S \<Longrightarrow> guard p \<Longrightarrow> act p = q \<Longrightarrow> apply_if guard act q = q"
    and S: "\<And>d. d \<in> set (block # rest) \<Longrightarrow> a < hi d \<Longrightarrow> lo d < b \<Longrightarrow> props d \<in> S"
  shows "rewritten (max a (lo block)) b (apply_if guard act) (pre @ block # rest) bs'"
proof -
  have tr: "tiles (hi block) rest e" using t by (auto simp: tiles_append)
  show ?thesis
  proof (cases "onward = rest")
    case True
    then have "c' = hi block" using c' tr by (auto dest: tiles_start_unique)
    with rewritten_step [OF t g lk r] show ?thesis by simp
  next
    case False
    then obtain n where n: "rest = n # onward" "props n = act (props block)"
      using on by auto
    have nn: "lo n = hi block" "block_ok n" "c' = hi n"
      using tr c' n(1) by (auto dest: tiles_start_unique)
    have SS: "props block \<in> S" "props n \<in> S"
      using S [of block] S [of n] n(1) nn ov block_ok_lo_hi [OF nn(2)] by auto
    have "guard (props block)" using g by (simp add: guard_props)
    from skip [OF SS this n(2) [symmetric]]
    have same: "apply_if guard act (props n) = props n" .
    show ?thesis
      using rewritten_step [OF t g lk r] nn block_ok_lo_hi [OF nn(2)]
        skipped_unchanged [OF t [unfolded n(1)] same] by (simp add: n(1))
  qed
qed

lemma Update_loop_hit:
  assumes al: "4096 dvd unat addr" "4096 dvd unat end_addr"
    and range: "unat addr < unat end_addr" "unat end_addr < e"
    and skip: "\<And>p q. p \<in> S \<Longrightarrow> q \<in> S \<Longrightarrow> guard p \<Longrightarrow> act p = q \<Longrightarrow> apply_if guard act q = q"
    and t: "tiles s (pre @ block # rest) e"
    and S: "\<And>d. d \<in> set (block # rest) \<Longrightarrow> unat addr < hi d \<Longrightarrow> lo d < unat end_addr \<Longrightarrow> props d \<in> S"
    and hit: "unat addr < hi block" "lo block < unat end_addr" "guard block"
    and IH: "\<And>front onward c'. length onward \<le> length rest \<Longrightarrow> tiles s (front @ onward) e \<Longrightarrow>
      tiles c' onward e \<Longrightarrow> set onward \<subseteq> set rest \<Longrightarrow>
      \<exists>bs'. Update_loop guard act addr end_addr front onward = Some bs' \<and> tiles s bs' e \<and>
        rewritten (max (unat addr) c') (unat end_addr) (apply_if guard act) (front @ onward) bs'"
  shows "\<exists>bs'. Update_loop guard act addr end_addr pre (block # rest) = Some bs' \<and> tiles s bs' e \<and>
    rewritten (max (unat addr) (lo block)) (unat end_addr) (apply_if guard act) (pre @ block # rest) bs'"
proof -
  let ?A = "unat addr" and ?E = "unat end_addr"
  have tr: "block_ok block" "tiles (hi block) rest e" using t by (auto simp: tiles_append)
  have "0 < ?E" using range by simp
  note unf = Update_loop_Cons [OF tr(1) this, of guard act addr pre rest]
  have "?E < hi block \<or> rest \<noteq> []" using tr range by auto
  then obtain front onward where fo:
    "Update_block act addr end_addr pre block rest = Some (front, onward)"
    "tiles s (front @ onward) e"
    "\<And>x. lookup (front @ onward) x =
      (if max ?A (lo block) \<le> x \<and> x < min ?E (hi block)
       then Some (act (props block)) else lookup (pre @ block # rest) x)"
    "?E < hi block \<or> onward = rest \<or> (\<exists>n. rest = n # onward \<and> props n = act (props block))"
    using Update_block_correct [OF t al hit(1,2) range(1)] by metis
  show ?thesis
  proof (cases "?E \<le> hi block")
    case True
    have "rewritten (max ?A (hi block)) ?E (apply_if guard act) (front @ onward) (front @ onward)"
      using True by (auto simp: rewritten_def)
    from rewritten_step [OF t hit(3) fo(3) this] True show ?thesis
      using unf hit fo(1,2) by auto
  next
    case False
    then have on: "onward = rest \<or> (\<exists>n. rest = n # onward \<and> props n = act (props block))"
      using fo(4) by auto
    obtain c' where c': "tiles c' onward e" using fo(2) unfolding tiles_append by blast
    have "set onward \<subseteq> set rest" using on by auto
    with IH [OF Update_block_shrinks [OF fo(1)] fo(2) c'] obtain bs' where
      bs': "Update_loop guard act addr end_addr front onward = Some bs'" "tiles s bs' e"
        "rewritten (max ?A c') ?E (apply_if guard act) (front @ onward) bs'" by blast
    from rewritten_continue [OF t hit(3) fo(3) bs'(3) c' on hit(1,2) _ skip S] False
    show ?thesis using unf hit fo(1) bs' by auto
  qed
qed

lemma Update_loop_rewrites:
  assumes al: "4096 dvd unat addr" "4096 dvd unat end_addr"
    and range: "unat addr < unat end_addr" "unat end_addr < e"
    and skip: "\<And>p q. p \<in> S \<Longrightarrow> q \<in> S \<Longrightarrow> guard p \<Longrightarrow> act p = q \<Longrightarrow> apply_if guard act q = q"
    and t: "tiles s (pre @ rest) e" and c: "tiles c rest e"
    and S: "\<And>b. b \<in> set rest \<Longrightarrow> unat addr < hi b \<Longrightarrow> lo b < unat end_addr \<Longrightarrow> props b \<in> S"
  shows "\<exists>bs'. Update_loop guard act addr end_addr pre rest = Some bs' \<and> tiles s bs' e \<and>
    rewritten (max (unat addr) c) (unat end_addr) (apply_if guard act) (pre @ rest) bs'"
  using t c S
proof (induction "length rest" arbitrary: pre rest c rule: less_induct)
  case less
  let ?A = "unat addr" and ?E = "unat end_addr"
  show ?case
  proof (cases rest)
    case Nil
    then show ?thesis
      using less.prems(1,2) range(2) by (auto simp: rewritten_def Update_loop.simps)
  next
    case (Cons block rest')
    note t = less.prems(1) [unfolded Cons]
    have ok: "block_ok block" "lo block = c" and tr: "tiles (hi block) rest' e"
      using less.prems(2) Cons by auto
    have "0 < ?E" using range by simp
    note unf = Update_loop_Cons [OF ok(1) this, of guard act addr pre rest']
    have step: "\<exists>bs'. Update_loop guard act addr end_addr (pre @ [block]) rest' = Some bs' \<and>
        tiles s bs' e \<and> rewritten (max ?A (hi block)) ?E (apply_if guard act) (pre @ block # rest') bs'"
      using less.hyps [of rest' "pre @ [block]" "hi block"] t tr less.prems(3) Cons by simp
    have IH: "\<exists>bs'. Update_loop guard act addr end_addr front onward = Some bs' \<and> tiles s bs' e \<and>
        rewritten (max ?A c') ?E (apply_if guard act) (front @ onward) bs'"
      if "length onward \<le> length rest'" "tiles s (front @ onward) e" "tiles c' onward e"
        "set onward \<subseteq> set rest'" for front onward c'
    proof (rule less.hyps [OF _ that(2,3)])
      show "length onward < length rest" using that(1) Cons by simp
      show "props b \<in> S" if "b \<in> set onward" "?A < hi b" "lo b < ?E" for b
        using less.prems(3) [of b] that \<open>set onward \<subseteq> set rest'\<close> Cons by auto
    qed
    consider (stop) "\<not> (?A < hi block \<and> lo block < ?E)" "?E \<le> hi block"
      | (go) "\<not> (?A < hi block \<and> lo block < ?E)" "\<not> ?E \<le> hi block"
      | (no_guard) "?A < hi block" "lo block < ?E" "\<not> guard block"
      | (hit) "?A < hi block" "lo block < ?E" "guard block" by blast
    then show ?thesis
    proof cases
      case stop
      then show ?thesis using t unf range ok(2) by (auto simp: Cons rewritten_def)
    next
      case go
      then show ?thesis using step unf rewritten_skip [OF t] ok(2) Cons by auto
    next
      case no_guard
      then show ?thesis using step unf rewritten_skip [OF t] ok(2) Cons by auto
    next
      case hit
      from Update_loop_hit [OF al range skip t less.prems(3) [unfolded Cons] hit IH]
      show ?thesis unfolding Cons ok(2) .
    qed
  qed
qed

end

section \<open>The update operations\<close>

text \<open>A range of whole pages that ends below the end of the address space.\<close>

definition range_ok :: "nat \<Rightarrow> u64 \<Rightarrow> u64 \<Rightarrow> bool" where
  "range_ok e addr num_pages \<longleftrightarrow>
     4096 dvd unat addr \<and> 0 < num_pages \<and> unat addr + unat num_pages * 4096 < e \<and> e < 2 ^ 64"

definition range_end :: "u64 \<Rightarrow> u64 \<Rightarrow> nat" where
  "range_end addr num_pages = unat addr + unat num_pages * 4096"

lemma range_end_word:
  assumes "range_ok e addr num_pages"
  shows "unat (addr + num_pages * PageSize) = range_end addr num_pages"
    and "unat addr < range_end addr num_pages" and "4096 dvd range_end addr num_pages"
    and "range_end addr num_pages < e" and "4096 dvd unat addr"
proof -
  have b: "unat addr + unat num_pages * 4096 < 2 ^ 64"
    using assms by (auto simp: range_ok_def)
  then have "unat (num_pages * PageSize) = unat num_pages * 4096"
    by (simp add: unat_times)
  then show "unat (addr + num_pages * PageSize) = range_end addr num_pages"
    using b by (simp only: range_end_def unat_plus)
  show "unat addr < range_end addr num_pages" "4096 dvd range_end addr num_pages"
    "range_end addr num_pages < e" "4096 dvd unat addr"
    using assms by (auto simp: range_ok_def range_end_def word_gt_0 unat_gt_0)
qed

lemma rewritten_max:
  assumes "tiles s bs e" and "rewritten (max a s) b f bs bs'"
  shows "rewritten a b f bs bs'"
  unfolding rewritten_def
proof
  fix x
  show "lookup bs' x = (if a \<le> x \<and> x < b then map_option f (lookup bs x) else lookup bs x)"
    using assms(2) lookup_outside [OF assms(1), of x]
    by (cases "s \<le> x") (auto simp: rewritten_def)
qed

context block_action
begin

lemma Update_range:
  assumes t: "tiles s bs e" and r: "range_ok e addr num_pages"
    and skip: "\<And>p q. p \<in> S \<Longrightarrow> q \<in> S \<Longrightarrow> guard p \<Longrightarrow> act p = q \<Longrightarrow> apply_if guard act q = q"
    and S: "\<And>b. b \<in> set bs \<Longrightarrow> unat addr < hi b \<Longrightarrow> lo b < range_end addr num_pages \<Longrightarrow> props b \<in> S"
  shows "\<exists>bs'. Update_loop guard act addr (addr + num_pages * PageSize) [] bs = Some bs' \<and>
    tiles s bs' e \<and>
    rewritten (unat addr) (range_end addr num_pages) (apply_if guard act) bs bs'"
proof -
  note re = range_end_word [OF r]
  have "\<exists>bs'. Update_loop guard act addr (addr + num_pages * PageSize) [] bs = Some bs' \<and>
      tiles s bs' e \<and>
      rewritten (max (unat addr) s) (unat (addr + num_pages * PageSize)) (apply_if guard act)
        ([] @ bs) bs'"
  proof (rule Update_loop_rewrites [where S = S])
    show "apply_if guard act q = q" if "p \<in> S" "q \<in> S" "guard p" "act p = q" for p q
      using that by (rule skip)
    show "props b \<in> S" if "b \<in> set bs" "unat addr < hi b"
      "lo b < unat (addr + num_pages * PageSize)" for b
      using S that unfolding re(1) by blast
  qed (use t re in simp_all)
  then show ?thesis unfolding re(1) using rewritten_max [OF t] by auto
qed

end

interpretation upd: block_action "Block_Update st perm attribute" "\<lambda>_. True"
  for st perm attribute
  by unfold_locales (simp_all add: Block_Update_def props_def)

interpretation upd_if: block_action "Block_Update st perm attribute"
  "\<lambda>b. HasProperties b prev_state prev_perm prev_attribute"
  for st perm attribute prev_state prev_perm prev_attribute
  by unfold_locales (simp_all add: Block_Update_def props_def HasProperties_def)

interpretation share: block_action "ShareToDevice perm" "\<lambda>_. True" for perm
  by unfold_locales (simp_all add: ShareToDevice_def props_def)

interpretation unshare: block_action "UnshareToDevice perm" "\<lambda>_. True" for perm
  by unfold_locales (simp_all add: UnshareToDevice_def Let_def props_def)

lemma Block_Update_idem [simp]:
  "Block_Update st perm attribute (Block_Update st perm attribute b) =
   Block_Update st perm attribute b"
proof -
  have "a OR ((a OR (x AND m)) AND m) = a OR (x AND m)" for a x m :: u8
    by (rule bit_eqI) (auto simp: bit_simps)
  then show ?thesis by (simp add: Block_Update_def)
qed

lemma apply_always [simp]: "apply_if (\<lambda>_. True) f = f"
  by (simp add: apply_if_def fun_eq_iff)

text \<open>
  C2. \<open>Update\<close> on a range of whole pages that ends below the end of the address space: it is
  defined, the blocks still cover the address space without gap or overlap, every address of the
  range gets the new state, permission and attribute (its IPC and device bits kept), and no other
  address changes.
\<close>

theorem Update_correct:
  assumes "tiles s bs e" and "range_ok e addr num_pages"
  shows "\<exists>bs'. Update addr num_pages st perm attribute bs = Some bs' \<and> tiles s bs' e \<and>
    rewritten (unat addr) (range_end addr num_pages) (Block_Update st perm attribute) bs bs'"
  using upd.Update_range [OF assms, of UNIV st perm attribute]
  by (auto simp: Update_def)

text \<open>
  The conditional \<open>Update_if\<close> does the same to exactly the addresses of the range whose block
  has the expected state, permission and attribute (the IPC, device and don't-care bits ignored),
  and leaves every other address alone.
\<close>

lemma Update_if_correct:
  assumes "tiles s bs e" and "range_ok e addr num_pages"
  shows "\<exists>bs'. Update_if addr num_pages prev_state prev_perm prev_attribute st perm attribute bs =
      Some bs' \<and> tiles s bs' e \<and>
    rewritten (unat addr) (range_end addr num_pages)
      (\<lambda>p. if HasProperties p prev_state prev_perm prev_attribute
           then Block_Update st perm attribute p else p) bs bs'"
proof -
  have m: "HasProperties p prev_state prev_perm
      (prev_attribute OR MemoryAttribute_IpcAndDeviceMapped) =
    HasProperties p prev_state prev_perm prev_attribute" for p
    by (simp add: HasProperties_def AttributeIgnoreMask_def MemoryAttribute_defs ac_simps
        or.assoc)
  let ?g = "\<lambda>b. HasProperties b prev_state prev_perm prev_attribute"
  let ?f = "Block_Update st perm attribute"
  have "\<exists>bs'. Update_loop ?g ?f addr (addr + num_pages * PageSize) [] bs = Some bs' \<and>
      tiles s bs' e \<and> rewritten (unat addr) (range_end addr num_pages) (apply_if ?g ?f) bs bs'"
    by (rule upd_if.Update_range [OF assms, where S = UNIV]) (auto simp: apply_if_def)
  then show ?thesis
    unfolding Update_if_def Let_def m apply_if_def [abs_def] .
qed


text \<open>A small address space for the witnesses: 128 MiB, free.\<close>

definition example_space :: "MemoryBlock list" where
  "example_space = bm_tree (mk_MemoryBlockManager 0 0x8000000)"

lemma example_space_tiles: "tiles 0 example_space 0x8000000"
  by (simp add: example_space_def mk_MemoryBlockManager_def mk_MemoryBlock_def block_ok_def
      lo_def hi_def)

lemma example_range: "range_ok 0x8000000 0x1000 2"
  by (simp add: range_ok_def)

theorem Update_correct_witness:
  "tiles 0 example_space 0x8000000 \<and> range_ok 0x8000000 0x1000 2 \<and>
   (\<exists>bs'. Update 0x1000 2 MemoryState_Normal MemoryPermission_ReadAndWrite MemoryAttribute_None
        example_space = Some bs' \<and> tiles 0 bs' 0x8000000 \<and>
      rewritten 0x1000 0x3000
        (Block_Update MemoryState_Normal MemoryPermission_ReadAndWrite MemoryAttribute_None)
        example_space bs')"
  using Update_correct [OF example_space_tiles example_range,
      of MemoryState_Normal MemoryPermission_ReadAndWrite MemoryAttribute_None]
    example_space_tiles example_range by (simp add: range_end_def)

section \<open>Device locks\<close>

lemma lookup_block:
  "tiles s bs e \<Longrightarrow> b \<in> set bs \<Longrightarrow> lo b \<le> x \<Longrightarrow> x < hi b \<Longrightarrow> lookup bs x = Some (props b)"
  by (auto simp: in_set_conv_decomp intro: lookup_at)

text \<open>The blocks that meet a range all have the device use count \<open>k\<close>.\<close>

definition uniform_use :: "nat \<Rightarrow> nat \<Rightarrow> u16 \<Rightarrow> MemoryBlock list \<Rightarrow> bool" where
  "uniform_use a b k bs \<longleftrightarrow>
     (\<forall>x p. a \<le> x \<longrightarrow> x < b \<longrightarrow> lookup bs x = Some p \<longrightarrow> mb_device_use_count p = k)"

lemma uniform_use_blocks:
  assumes "tiles s bs e" and "uniform_use a b k bs" and "d \<in> set bs" and "a < hi d" and "lo d < b"
    and "a < b"
  shows "mb_device_use_count (props d) = k"
proof -
  have "block_ok d" using assms(1,3) by (blast dest: tiles_block)
  then have "lookup bs (max a (lo d)) = Some (props d)"
    using assms by (intro lookup_block) (auto dest: block_ok_lo_hi)
  then show ?thesis using assms unfolding uniform_use_def
    by (metis max.cobounded1 max_less_iff_conj)
qed

lemma UpdateLock_share:
  assumes "tiles s bs e" and "range_ok e addr num_pages"
    and "uniform_use (unat addr) (range_end addr num_pages) k bs"
  shows "\<exists>bs'. UpdateLock addr num_pages ShareToDevice perm bs = Some bs' \<and> tiles s bs' e \<and>
    rewritten (unat addr) (range_end addr num_pages) (ShareToDevice perm) bs bs'"
proof -
  let ?S = "{p. mb_device_use_count p = k}"
  have skip: "apply_if (\<lambda>_. True) (ShareToDevice perm) q = q"
    if "p \<in> ?S" "q \<in> ?S" "ShareToDevice perm p = q" for p q
    using that by (auto simp: ShareToDevice_def)
  have "\<exists>bs'. Update_loop (\<lambda>_. True) (ShareToDevice perm) addr (addr + num_pages * PageSize) [] bs = Some bs' \<and>
      tiles s bs' e \<and> rewritten (unat addr) (range_end addr num_pages)
        (apply_if (\<lambda>_. True) (ShareToDevice perm)) bs bs'"
  proof (rule share.Update_range [OF assms(1,2), where S = ?S])
    show "props b \<in> ?S"
      if "b \<in> set bs" "unat addr < hi b" "lo b < range_end addr num_pages" for b
      using uniform_use_blocks [OF assms(1,3) that range_end_word(2) [OF assms(2)]] by simp
  qed (rule skip)
  then show ?thesis unfolding UpdateLock_def Let_def apply_always .
qed

lemma UpdateLock_unshare:
  assumes "tiles s bs e" and "range_ok e addr num_pages"
    and "uniform_use (unat addr) (range_end addr num_pages) k bs"
  shows "\<exists>bs'. UpdateLock addr num_pages UnshareToDevice perm bs = Some bs' \<and> tiles s bs' e \<and>
    rewritten (unat addr) (range_end addr num_pages) (UnshareToDevice perm) bs bs'"
proof -
  let ?S = "{p. mb_device_use_count p = k}"
  have skip: "apply_if (\<lambda>_. True) (UnshareToDevice perm) q = q"
    if "p \<in> ?S" "q \<in> ?S" "UnshareToDevice perm p = q" for p q
    using that by (auto simp: UnshareToDevice_def Let_def split: if_splits)
  have "\<exists>bs'. Update_loop (\<lambda>_. True) (UnshareToDevice perm) addr (addr + num_pages * PageSize) [] bs = Some bs' \<and>
      tiles s bs' e \<and> rewritten (unat addr) (range_end addr num_pages)
        (apply_if (\<lambda>_. True) (UnshareToDevice perm)) bs bs'"
  proof (rule unshare.Update_range [OF assms(1,2), where S = ?S])
    show "props b \<in> ?S"
      if "b \<in> set bs" "unat addr < hi b" "lo b < range_end addr num_pages" for b
      using uniform_use_blocks [OF assms(1,3) that range_end_word(2) [OF assms(2)]] by simp
  qed (rule skip)
  then show ?thesis unfolding UpdateLock_def Let_def apply_always .
qed

text \<open>The device bit of the attribute goes with the use count.\<close>

definition device_consistent :: "MemoryBlock \<Rightarrow> bool" where
  "device_consistent p \<longleftrightarrow>
     (mb_attribute p AND MemoryAttribute_DeviceShared = 0 \<longleftrightarrow> mb_device_use_count p = 0)"

lemma Unshare_Share:
  assumes "device_consistent p" and "mb_device_use_count p \<noteq> - 1"
  shows "UnshareToDevice perm (ShareToDevice perm' p) = p"
proof -
  have bit2: "bit (mb_attribute p) 2 \<longleftrightarrow> mb_attribute p AND 4 \<noteq> 0"
    using and_exp_eq_0_iff_not_bit [of "mb_attribute p" 2] by simp
  have a: "(mb_attribute p OR 4) AND NOT 4 = mb_attribute p" if "mb_attribute p AND 4 = 0"
    using or_exp_and_not_exp [of "mb_attribute p" 2] bit2 that by simp
  have b: "mb_attribute p OR 4 = mb_attribute p" if "mb_attribute p AND 4 \<noteq> 0"
    using or_exp_bit [of "mb_attribute p" 2] bit2 that by simp
  show ?thesis
  proof (cases "mb_device_use_count p = 0")
    case True
    then show ?thesis
      using assms a
      by (simp add: UnshareToDevice_def ShareToDevice_def device_consistent_def Let_def
          MemoryAttribute_defs)
  next
    case False
    then show ?thesis
      using assms b
      by (simp add: UnshareToDevice_def ShareToDevice_def device_consistent_def Let_def
          MemoryAttribute_defs)
  qed
qed

text \<open>
  Locking a range of pages for device use and unlocking it again restores every address of
  the space, provided the range had one use count (below the 16-bit maximum) throughout and its
  device bits agreed with that count.
\<close>

lemma UpdateLock_roundtrip:
  assumes t: "tiles s bs e" and r: "range_ok e addr num_pages"
    and u: "uniform_use (unat addr) (range_end addr num_pages) k bs" and k: "k \<noteq> - 1"
    and c: "\<And>x p. unat addr \<le> x \<Longrightarrow> x < range_end addr num_pages \<Longrightarrow> lookup bs x = Some p \<Longrightarrow>
      device_consistent p"
  shows "\<exists>bs1 bs2. UpdateLock addr num_pages ShareToDevice perm bs = Some bs1 \<and>
    UpdateLock addr num_pages UnshareToDevice perm' bs1 = Some bs2 \<and> tiles s bs2 e \<and>
    lookup bs2 = lookup bs"
proof -
  let ?a = "unat addr" and ?b = "range_end addr num_pages"
  obtain bs1 where b1: "UpdateLock addr num_pages ShareToDevice perm bs = Some bs1" "tiles s bs1 e"
    "rewritten ?a ?b (ShareToDevice perm) bs bs1"
    using UpdateLock_share [OF t r u] by blast
  have "uniform_use ?a ?b (k + 1) bs1"
    using b1(3) u by (auto simp: uniform_use_def rewritten_def ShareToDevice_def)
  from UpdateLock_unshare [OF b1(2) r this] obtain bs2 where
    b2: "UpdateLock addr num_pages UnshareToDevice perm' bs1 = Some bs2" "tiles s bs2 e"
      "rewritten ?a ?b (UnshareToDevice perm') bs1 bs2" by blast
  have "lookup bs2 x = lookup bs x" for x
  proof (cases "?a \<le> x \<and> x < ?b")
    case True
    then show ?thesis
      using b1(3) b2(3) u c [of x] k Unshare_Share
      by (cases "lookup bs x") (auto simp: rewritten_def uniform_use_def)
  next
    case False
    then show ?thesis using b1(3) b2(3) by (auto simp: rewritten_def)
  qed
  with b1 b2 show ?thesis by blast
qed

text \<open>
  The hypothesis of one use count cannot be dropped: when the rewritten block becomes equal to the
  next one, the loop merges the two and never visits the second. Here the second page of a
  two-page buffer is locked, then the whole buffer: the second page is locked twice but its count
  stays at one, so unlocking the buffer once releases it.
\<close>

definition lock_lost :: "MemoryBlock list option" where
  "lock_lost = do {
     bs \<leftarrow> Update 0x1000 2 MemoryState_Normal MemoryPermission_ReadAndWrite MemoryAttribute_None
       example_space;
     bs \<leftarrow> UpdateLock 0x2000 1 ShareToDevice 3 bs;
     UpdateLock 0x1000 2 ShareToDevice 3 bs
   }"

lemma UpdateLock_skips_neighbour:
  "map_option (map (\<lambda>b. (mb_addr b, mb_num_pages b, mb_device_use_count b))) lock_lost =
   Some [(0, 1, 0), (0x1000, 2, 1), (0x3000, 0x7FFD, 0)]"
  by code_simp

lemma Update_loop_last_undefined:
  assumes "tiles c (pre @ [block]) e" and "lo block \<le> unat addr"
    and "unat addr < unat end_addr" and "unat end_addr = e"
  shows "Update_loop (\<lambda>_. True) act addr end_addr acc (pre @ [block]) = None"
  using assms(1)
proof (induction pre arbitrary: acc c)
  case Nil
  then have ok: "block_ok block" "hi block = e" by auto
  have "MergeAdjacent p q [] k = None" for p q k
    by (simp add: MergeAdjacent_def split: prod.split)
  moreover have "\<not> end_addr < mb_num_pages block * PageSize + mb_addr block"
    using unat_cur_end [OF ok(1)] ok(2) assms(4) by (simp add: word_less_nat_alt)
  ultimately have "Update_block act addr end_addr acc block [] = None"
    by (simp add: Update_block_def Let_def split: prod.split)
  then show ?case
    using assms(2-4) ok by (simp add: Update_loop_Cons)
next
  case (Cons b pre)
  then have ok: "block_ok b" "tiles (hi b) (pre @ [block]) e" by auto
  then have "hi b \<le> unat addr"
    using tiles_block [OF ok(2), of block] assms(2) by simp
  then show ?case
    using Cons.IH [OF ok(2)] assms(3,4) by (simp add: Update_loop_Cons [OF ok(1)])
qed

text \<open>
  When the range of an \<open>Update\<close> lies in the last block and reaches the end of the address
  space, the execution is undefined: \<open>MergeAdjacent\<close> dereferences the end iterator of the list.
\<close>

lemma Update_last_undefined:
  assumes t: "tiles s (pre @ [block]) e" and e: "e < 2 ^ 64" and np: "0 < num_pages"
    and in_last: "lo block \<le> unat addr" and re: "range_end addr num_pages = e"
  shows "Update addr num_pages st perm attribute (pre @ [block]) = None"
proof -
  have b: "unat addr + unat num_pages * 4096 < 2 ^ 64"
    using e re by (simp add: range_end_def)
  then have "unat (num_pages * PageSize) = unat num_pages * 4096"
    by (simp add: unat_times)
  then have ue: "unat (addr + num_pages * PageSize) = e"
    using b re by (simp only: range_end_def unat_plus)
  have "unat addr < e"
    using re np by (simp add: range_end_def word_gt_0 unat_gt_0 flip: re)
  with Update_loop_last_undefined [OF t in_last, of "addr + num_pages * PageSize"] ue
  show ?thesis by (simp add: Update_def Let_def)
qed

section \<open>Lookups\<close>

lemma FindIterator_correct:
  assumes "tiles s bs e" and "s \<le> unat addr" and "unat addr < e"
  obtains pre b post where "bs = pre @ b # post" and "FindIterator addr bs = b # post"
    and "lo b \<le> unat addr" and "unat addr < hi b"
proof -
  have "\<exists>pre b post. bs = pre @ b # post \<and> FindIterator addr bs = b # post \<and>
      lo b \<le> unat addr \<and> unat addr < hi b"
    using assms
  proof (induction bs arbitrary: s)
    case Nil
    then show ?case by simp
  next
    case (Cons b bs)
    then have ok: "block_ok b" "lo b = s" "tiles (hi b) bs e" by auto
    have "mb_num_pages b * PageSize + mb_addr b - 1 \<ge> addr \<longleftrightarrow> unat addr < hi b"
      using unat_cur_end [OF ok(1)] block_ok_lo_hi [OF ok(1)]
      by (auto simp: word_le_nat_alt unat_pred)
    then have eq: "FindIterator addr (b # bs) =
        (if unat addr < hi b then b # bs else FindIterator addr bs)"
      using Cons.prems(2) ok(2) by (simp add: word_le_nat_alt lo_def)
    show ?case
    proof (cases "unat addr < hi b")
      case True
      then show ?thesis using eq ok(2) Cons.prems(2) by (metis append_Nil)
    next
      case False
      then obtain pre b' post where "bs = pre @ b' # post" "FindIterator addr bs = b' # post"
        "lo b' \<le> unat addr" "unat addr < hi b'"
        using Cons.IH [OF ok(3)] Cons.prems(3) by auto
      then have "b # bs = (b # pre) @ b' # post \<and> FindIterator addr (b # bs) = b' # post \<and>
          lo b' \<le> unat addr \<and> unat addr < hi b'"
        using False eq by simp
      then show ?thesis by blast
    qed
  qed
  then show ?thesis using that by blast
qed

lemma FindBlock_correct:
  assumes "tiles s bs e" and "s \<le> unat addr" and "unat addr < e"
  shows "\<exists>b. FindBlock addr bs = Some b \<and> b \<in> set bs \<and> lo b \<le> unat addr \<and> unat addr < hi b \<and>
    lookup bs (unat addr) = Some (props b)"
proof -
  obtain pre b post where "bs = pre @ b # post" "FindIterator addr bs = b # post"
    "lo b \<le> unat addr" "unat addr < hi b"
    using assms by (rule FindIterator_correct)
  then show ?thesis
    using lookup_at [of s pre b post e "unat addr"] assms(1) by (auto simp: FindBlock_def)
qed

text \<open>The first candidate in a free block, aligned.\<close>

definition free_candidate :: "u64 \<Rightarrow> u64 \<Rightarrow> u64 \<Rightarrow> u64 \<Rightarrow> u64 \<Rightarrow> u64" where
  "free_candidate region_start block_start align offset guard_size =
     (let area = (if block_start \<le> region_start then region_start else block_start) + guard_size;
          offset_area = AlignDown area align + offset
      in if area \<le> offset_area then offset_area else offset_area + align)"

lemma free_candidate_props:
  assumes "align \<noteq> 0"
    and "max (unat region_start) (unat block_start) + unat guard_size + unat align + unat offset < 2 ^ 64"
  shows "max (unat region_start) (unat block_start) + unat guard_size \<le>
      unat (free_candidate region_start block_start align offset guard_size)"
    and "unat (free_candidate region_start block_start align offset guard_size) mod unat align =
      unat offset mod unat align"
proof -
  define m where "m = (if block_start \<le> region_start then region_start else block_start)"
  have m: "unat m = max (unat region_start) (unat block_start)"
    by (simp add: m_def word_le_nat_alt)
  define area where "area = m + guard_size"
  have ua: "unat area = unat m + unat guard_size"
    using assms(2) by (simp add: area_def m unat_plus)
  define d where "d = AlignDown area align"
  have d: "unat d \<le> unat area" "unat align dvd unat d" "unat area < unat d + unat align"
  proof -
    have "0 < unat align" using assms(1) by (simp add: unat_gt_0)
    then show "unat area < unat d + unat align"
      using mod_less_divisor [of "unat align" "unat area"] mod_less_eq_dividend [of "unat area" "unat align"]
      unfolding d_def unat_AlignDown by linarith
  qed (simp_all add: d_def AlignDown_le AlignDown_dvd)
  have uo: "unat (d + offset) = unat d + unat offset"
    using assms(2) d(1) ua m by (intro unat_plus) simp
  have uoa: "unat (d + offset + align) = unat d + unat offset + unat align"
    using assms(2) d(1) ua m uo by (subst unat_plus) auto
  obtain k where k: "unat d = unat align * k" using d(2) by (elim dvdE)
  have fc: "free_candidate region_start block_start align offset guard_size =
      (if area \<le> d + offset then d + offset else d + offset + align)"
    by (simp add: free_candidate_def Let_def d_def area_def m_def)
  show "max (unat region_start) (unat block_start) + unat guard_size \<le>
      unat (free_candidate region_start block_start align offset guard_size)"
    using d(3) ua uo uoa m by (auto simp: fc word_le_nat_alt)
  show "unat (free_candidate region_start block_start align offset guard_size) mod unat align =
      unat offset mod unat align"
    by (simp add: fc uo uoa k)
qed

lemma span_fits:
  fixes a x :: u64
  assumes "unat a < unat (a + x - 1)" and "unat (a + x - 1) \<le> l" and "l < 2 ^ 64 - 1" and "x \<noteq> 0"
  shows "unat a + unat x - 1 \<le> l"
proof -
  have x: "0 < unat x" using assms(4) by (simp add: unat_gt_0)
  then have x1: "unat (x - 1) = unat x - 1" by (simp add: unat_pred)
  have eq: "a + x - 1 = a + (x - 1)" by simp
  have "unat a + unat (x - 1) < 2 ^ 64"
  proof (rule ccontr)
    assume "\<not> ?thesis"
    then have "unat (a + (x - 1)) = unat a + unat (x - 1) - 2 ^ 64"
      using unat_lt64 [of a] unat_lt64 [of "x - 1"] by (simp add: unat_word_ariths le_mod_geq)
    then show False
      using assms(1) eq unat_lt64 [of "x - 1"] by simp
  qed
  then have "unat (a + (x - 1)) = unat a + (unat x - 1)"
    using x1 by (simp add: unat_plus)
  then show ?thesis using assms(2) x by (simp add: eq)
qed

lemma FindFreeArea_loop_eq:
  "FindFreeArea_loop region_start region_last num_pages align offset guard_pages (it # rest) =
     (if region_last < mb_addr it then 0
      else if mb_state it \<noteq> MemoryState_Free
        then FindFreeArea_loop region_start region_last num_pages align offset guard_pages rest
      else
        (let area = free_candidate region_start (mb_addr it) align offset (guard_pages * PageSize);
             area_last = area + (num_pages * PageSize + guard_pages * PageSize) - 1
         in if mb_addr it \<le> area \<and> area < area_last \<and> area_last \<le> region_last \<and>
               area_last \<le> GetLastAddress it
            then area
            else FindFreeArea_loop region_start region_last num_pages align offset guard_pages rest))"
  by (simp add: free_candidate_def GetMemoryInfo_def MemoryInfo_GetLastAddress_def
      MemoryInfo_GetEndAddress_def GetLastAddress_def GetEndAddress_def Let_def GetSize_def algebra_simps
      del: PageSize_eq)

text \<open>What a search found: a position with the alignment asked for, in a free block, with
  the guard pages on both sides.\<close>

definition free_area :: "u64 \<Rightarrow> nat \<Rightarrow> nat \<Rightarrow> u64 \<Rightarrow> u64 \<Rightarrow> nat \<Rightarrow> MemoryBlock \<Rightarrow> u64 \<Rightarrow> bool" where
  "free_area region_start region_last sz align offset guard b a \<longleftrightarrow>
     mb_state b = MemoryState_Free \<and> unat a mod unat align = unat offset mod unat align \<and>
     max (unat region_start) (lo b) + guard \<le> unat a \<and> unat a + sz + guard \<le> hi b \<and>
     unat a + sz + guard \<le> region_last + 1"

lemma FindFreeArea_loop_sound:
  assumes "tiles c bs e" and "align \<noteq> 0" and "num_pages \<noteq> 0"
    and "unat (num_pages) * 4096 + unat guard_pages * 4096 < 2 ^ 64"
    and "e + unat guard_pages * 4096 + unat align + unat offset < 2 ^ 64"
    and "unat region_start \<le> e" and "unat region_last < e"
    and "FindFreeArea_loop region_start region_last num_pages align offset guard_pages bs = a"
    and "a \<noteq> 0"
  shows "\<exists>b\<in>set bs. free_area region_start (unat region_last) (unat num_pages * 4096) align offset
           (unat guard_pages * 4096) b a"
  using assms(1,8)
proof (induction bs arbitrary: c)
  case Nil
  then show ?case using assms(9) by simp
next
  case (Cons b bs)
  let ?a = "free_candidate region_start (mb_addr b) align offset (guard_pages * PageSize)"
  let ?x = "num_pages * PageSize + guard_pages * PageSize"
  have ok: "block_ok b" and t: "tiles (hi b) bs e" using Cons.prems(1) by auto
  have hie: "hi b \<le> e" using t by (rule tiles_le)
  have lh: "lo b < hi b" using ok by (rule block_ok_lo_hi)
  have ug: "unat (guard_pages * PageSize) = unat guard_pages * 4096"
    using assms(4) by (simp add: unat_times)
  have un: "unat (num_pages * PageSize) = unat num_pages * 4096"
    using assms(4) by (simp add: unat_times)
  have ux: "unat ?x = unat num_pages * 4096 + unat guard_pages * 4096"
    using assms(4) ug un by (subst unat_plus) simp_all
  have np: "0 < unat num_pages" using assms(3) by (simp add: unat_gt_0)
  then have x0: "?x \<noteq> 0" using ux by (metis add_is_0 mult_is_0 neq0_conv unat_0 zero_neq_numeral)
  have cand: "max (unat region_start) (lo b) + unat guard_pages * 4096 \<le> unat ?a"
    "unat ?a mod unat align = unat offset mod unat align"
    using free_candidate_props [of align region_start "mb_addr b" "guard_pages * PageSize" offset]
      assms(2,5,6) lh hie ug by (simp_all add: lo_def)
  show ?case
  proof (cases "FindFreeArea_loop region_start region_last num_pages align offset guard_pages bs = a")
    case True
    then show ?thesis using Cons.IH [OF t] by auto
  next
    case False
    then have h: "mb_state b = MemoryState_Free" "a = ?a" "?a < ?a + ?x - 1" "?a + ?x - 1 \<le> region_last"
      "?a + ?x - 1 \<le> GetLastAddress b"
      using Cons.prems(2) assms(9)
      by (auto simp: FindFreeArea_loop_eq Let_def split: if_splits simp del: FindFreeArea_loop.simps PageSize_eq)
    have "unat ?a + unat ?x - 1 \<le> unat region_last"
      using h(3,4) x0 assms(5,7) by (intro span_fits) (auto simp: word_le_nat_alt word_less_nat_alt)
    moreover have "unat ?a + unat ?x - 1 \<le> hi b - 1"
      using h(3,5) x0 assms(5) hie lh ok unat_GetLastAddress [OF ok]
      by (intro span_fits) (auto simp: word_le_nat_alt word_less_nat_alt)
    ultimately show ?thesis
      using h(1,2) cand ux np lh by (auto simp: free_area_def)
  qed
qed

text \<open>
  C7. \<open>FindFreeArea\<close> is sound. An address other than 0 that it returns has the alignment and the
  offset asked for; the area and its guard pages on both sides lie inside the region searched, and
  every address of them is free. The bounds say that the arithmetic on addresses does not wrap.
\<close>
theorem FindFreeArea_sound:
  assumes "tiles s bs e" and "s \<le> unat region_start" and "region_num_pages \<noteq> 0"
    and "unat region_start + unat region_num_pages * 4096 \<le> e"
    and "unat num_pages * 4096 + unat guard_pages * 4096 < 2 ^ 64"
    and "e + unat guard_pages * 4096 + unat align + unat offset < 2 ^ 64"
    and "FindFreeArea region_start region_num_pages num_pages align offset guard_pages bs = Some a"
    and "a \<noteq> 0"
  shows "unat a mod unat align = unat offset mod unat align \<and>
    unat region_start + unat guard_pages * 4096 \<le> unat a \<and>
    unat a + unat num_pages * 4096 + unat guard_pages * 4096
      \<le> unat region_start + unat region_num_pages * 4096 \<and>
    (\<forall>x. unat a - unat guard_pages * 4096 \<le> x \<longrightarrow>
       x < unat a + unat num_pages * 4096 + unat guard_pages * 4096 \<longrightarrow>
       (\<exists>p. lookup bs x = Some p \<and> mb_state p = MemoryState_Free))"
proof -
  have np: "num_pages \<noteq> 0" and al: "align \<noteq> 0" using assms(7,8)
    by (auto simp: FindFreeArea_def split: if_splits)
  have rp: "0 < unat region_num_pages" using assms(3) by (simp add: unat_gt_0)
  have rl: "unat (region_start + region_num_pages * PageSize - 1) =
      unat region_start + unat region_num_pages * 4096 - 1"
    using assms(4,6) rp by (simp add: unat_pred unat_plus unat_times)
  obtain pre b post where bs: "bs = pre @ b # post" "FindIterator region_start bs = b # post"
    using FindIterator_correct [OF assms(1,2)] assms(4) rp by (metis less_add_same_cancel1 le_less_trans
        less_le_trans mult_pos_pos zero_less_numeral)
  then obtain m where t: "tiles m (b # post) e" using assms(1) by (auto simp: tiles_append)
  let ?last = "region_start + region_num_pages * PageSize - 1"
  have "FindFreeArea_loop region_start ?last num_pages align offset guard_pages (b # post) = a"
    using assms(7) np al bs(2) by (simp add: FindFreeArea_def Let_def del: FindFreeArea_loop.simps)
  then have "\<exists>b'\<in>set (b # post). free_area region_start (unat ?last) (unat num_pages * 4096) align
      offset (unat guard_pages * 4096) b' a"
    using assms(4) rl rp by (intro FindFreeArea_loop_sound [OF t al np assms(5,6) _ _ _ assms(8)]) linarith+
  then obtain b' where b': "b' \<in> set bs"
    "free_area region_start (unat region_start + unat region_num_pages * 4096 - 1)
       (unat num_pages * 4096) align offset (unat guard_pages * 4096) b' a"
    using bs(1) unfolding rl by auto
  have "\<exists>p. lookup bs x = Some p \<and> mb_state p = MemoryState_Free"
    if "unat a - unat guard_pages * 4096 \<le> x"
      "x < unat a + unat num_pages * 4096 + unat guard_pages * 4096" for x
    using that b'(2) lookup_block [OF assms(1) b'(1), of x]
    by (auto simp: free_area_def props_def)
  then show ?thesis using b'(2) rp by (auto simp: free_area_def)
qed

theorem FindFreeArea_sound_witness:
  "FindFreeArea 0x200000 0x1000 16 0x200000 0 4 example_space = Some 0x400000 \<and>
   unat (0x400000 :: u64) mod unat (0x200000 :: u64) = 0 \<and>
   (\<exists>p. lookup example_space 0x400000 = Some p \<and> mb_state p = MemoryState_Free)"
proof -
  have "FindFreeArea 0x200000 0x1000 16 0x200000 0 4 example_space = Some 0x400000"
    by code_simp
  then show ?thesis
    using FindFreeArea_sound [OF example_space_tiles, where region_start = "0x200000"
        and region_num_pages = "0x1000" and num_pages = 16 and align = "0x200000" and offset = 0
        and guard_pages = 4 and a = "0x400000"]
    by simp
qed

end
