(* ===== verification/Bitmap.thy ===== *)
theory Bitmap
  imports Alignment
begin

text \<open>
  The bitmap of free blocks of \<^verbatim>\<open>core/hle/kernel/memory/page_heap.h\<close>
  (\<^verbatim>\<open>PageHeap::Block::Bitmap\<close>): up to four levels of 64-bit words in one shared array of
  metadata, where a bit of a level says whether the word below it has any bit set.

  The pointers \<^verbatim>\<open>bit_storages\<close> are positions in the metadata vector (\<open>None\<close> for a null
  pointer), so that the operations really write to the shared vector and an access outside of it
  is undefined. The private \<^verbatim>\<open>SetBit\<close> and \<^verbatim>\<open>ClearBit\<close> count \<^verbatim>\<open>depth\<close> down to
  -1; their models take \<open>depth + 1\<close>.

  The lemmas show that the bitmap is a finite set of offsets: \<open>bitmap_repr\<close> relates the words to
  the set, \<^verbatim>\<open>SetBit\<close> inserts, \<^verbatim>\<open>ClearBit\<close> and \<^verbatim>\<open>ClearRange\<close> remove, and
  \<^verbatim>\<open>FindFreeBlock\<close> returns the least element.
\<close>

section \<open>The code\<close>

definition MaxDepth :: nat where
  "MaxDepth = 4"

record Bitmap =
  bit_storages :: "nat option list"
  num_bits :: u64
  used_depths :: nat

definition mk_Bitmap :: Bitmap where
  "mk_Bitmap = \<lparr>bit_storages = replicate MaxDepth None, num_bits = 0, used_depths = 0\<rparr>"

function GetRequiredDepth :: "u64 \<Rightarrow> nat" where
  "GetRequiredDepth region_size =
     (let region_size = region_size div 64
      in if region_size = 0 then 1 else Suc (GetRequiredDepth region_size))"
  by auto
termination
proof (relation "measure unat", simp)
  fix r x :: u64
  assume "x = r div 64" and "x \<noteq> 0"
  then have "unat x = unat r div 64" "unat x \<noteq> 0" by (auto simp: u64_eq_iff)
  then show "(x, r) \<in> measure unat" by simp
qed

declare GetRequiredDepth.simps [simp del]

fun Bitmap_Initialize_loop ::
  "nat \<Rightarrow> nat \<Rightarrow> u64 \<Rightarrow> nat option list \<Rightarrow> (nat \<times> nat option list) option" where
  "Bitmap_Initialize_loop 0 storage sz storages = Some (storage, storages)"
| "Bitmap_Initialize_loop (Suc depth) storage sz storages =
     (if depth < length storages
      then
        (let storages = storages[depth := Some storage];
             sz = AlignUp sz 64 div 64
         in Bitmap_Initialize_loop depth (storage + unat sz) sz storages)
      else None)"

definition Bitmap_Initialize :: "nat \<Rightarrow> u64 \<Rightarrow> Bitmap \<Rightarrow> (nat \<times> Bitmap) option" where
  "Bitmap_Initialize storage sz bm = do {
     let depths = GetRequiredDepth sz;
     (storage, storages) \<leftarrow> Bitmap_Initialize_loop depths storage sz (bit_storages bm);
     Some (storage, bm\<lparr>num_bits := 0, used_depths := depths, bit_storages := storages\<rparr>)
   }"

text \<open>The word \<^verbatim>\<open>bit_storages[depth][ind]\<close>: its position in the metadata.\<close>

definition bit_addr :: "Bitmap \<Rightarrow> nat \<Rightarrow> u64 \<Rightarrow> nat option" where
  "bit_addr bm depth ind = do {
     storage \<leftarrow> nth_opt (bit_storages bm) depth;
     base \<leftarrow> storage;
     Some (base + unat ind)
   }"

function FindFreeBlock_loop :: "Bitmap \<Rightarrow> u64 list \<Rightarrow> nat \<Rightarrow> u64 \<Rightarrow> u64 option" where
  "FindFreeBlock_loop bm md depth offset = do {
     p \<leftarrow> bit_addr bm depth offset;
     v \<leftarrow> nth_opt md p;
     if v = 0 then Some (- 1)
     else
       (let offset = offset * 64 + ucast (CountTrailingZeroes64 v);
            depth = depth + 1
        in if depth < used_depths bm then FindFreeBlock_loop bm md depth offset else Some offset)
   }"
  by auto
termination by (relation "measure (\<lambda>(bm, md, depth, offset). used_depths bm - depth)") auto

declare FindFreeBlock_loop.simps [simp del]

text \<open>The result is the \<^verbatim>\<open>s64\<close> in two's complement.\<close>

definition FindFreeBlock :: "Bitmap \<Rightarrow> u64 list \<Rightarrow> u64 option" where
  "FindFreeBlock bm md = FindFreeBlock_loop bm md 0 0"

fun SetBit_at :: "nat \<Rightarrow> u64 \<Rightarrow> Bitmap \<Rightarrow> u64 list \<Rightarrow> u64 list option" where
  "SetBit_at 0 offset bm md = Some md"
| "SetBit_at (Suc depth) offset bm md = do {
     let ind = offset div 64;
     let which = offset mod 64;
     let mask = push_bit (unat which) 1;
     p \<leftarrow> bit_addr bm depth ind;
     v \<leftarrow> nth_opt md p;
     let md = md[p := v OR mask];
     if v \<noteq> 0 then Some md else SetBit_at depth ind bm md
   }"

fun ClearBit_at :: "nat \<Rightarrow> u64 \<Rightarrow> Bitmap \<Rightarrow> u64 list \<Rightarrow> u64 list option" where
  "ClearBit_at 0 offset bm md = Some md"
| "ClearBit_at (Suc depth) offset bm md = do {
     let ind = offset div 64;
     let which = offset mod 64;
     let mask = push_bit (unat which) 1;
     p \<leftarrow> bit_addr bm depth ind;
     v \<leftarrow> nth_opt md p;
     let v = v AND NOT mask;
     let md = md[p := v];
     if v \<noteq> 0 then Some md else ClearBit_at depth ind bm md
   }"

definition SetBit :: "u64 \<Rightarrow> Bitmap \<Rightarrow> u64 list \<Rightarrow> (Bitmap \<times> u64 list) option" where
  "SetBit offset bm md = do {
     md \<leftarrow> SetBit_at (used_depths bm) offset bm md;
     Some (bm\<lparr>num_bits := num_bits bm + 1\<rparr>, md)
   }"

definition ClearBit :: "u64 \<Rightarrow> Bitmap \<Rightarrow> u64 list \<Rightarrow> (Bitmap \<times> u64 list) option" where
  "ClearBit offset bm md = do {
     md \<leftarrow> ClearBit_at (used_depths bm) offset bm md;
     Some (bm\<lparr>num_bits := num_bits bm - 1\<rparr>, md)
   }"

text \<open>The two loops of \<^verbatim>\<open>ClearRange\<close> over whole words; \<open>p\<close> is the position of the word
  \<^verbatim>\<open>bits[bit_ind + i]\<close>.\<close>

function ClearRange_check :: "u64 list \<Rightarrow> nat \<Rightarrow> u64 \<Rightarrow> bool option" where
  "ClearRange_check md p remaining = do {
     v \<leftarrow> nth_opt md p;
     if v \<noteq> NOT 0 then Some False
     else
       (let remaining = remaining - 64
        in if remaining > 0 then ClearRange_check md (p + 1) remaining else Some True)
   }"
  by auto
termination
  by (relation "measure (\<lambda>(md, p, r). length md - p)") (auto simp: nth_opt_eq_Some)

declare ClearRange_check.simps [simp del]

partial_function (option) ClearRange_clear ::
  "nat \<Rightarrow> Bitmap \<Rightarrow> u64 list \<Rightarrow> nat \<Rightarrow> u64 \<Rightarrow> u64 \<Rightarrow> u64 list option" where
  "ClearRange_clear depth bm md p ind remaining = do {
     v \<leftarrow> nth_opt md p;
     md \<leftarrow> ClearBit_at depth ind bm (md[p := 0]);
     let remaining = remaining - 64;
     if remaining > 0 then ClearRange_clear depth bm md (p + 1) (ind + 1) remaining else Some md
   }"

definition ClearRange :: "u64 \<Rightarrow> u64 \<Rightarrow> Bitmap \<Rightarrow> u64 list \<Rightarrow> (bool \<times> Bitmap \<times> u64 list) option" where
  "ClearRange offset count bm md =
     (if used_depths bm = 0 then None
      else do {
        let depth = used_depths bm - 1;
        let bit_ind = offset div 64;
        p \<leftarrow> bit_addr bm depth bit_ind;
        if count < 64 then do {
          let shift = offset mod 64;
          let mask = push_bit (unat shift) (push_bit (unat count) 1 - 1);
          v \<leftarrow> nth_opt md p;
          if v AND mask \<noteq> mask then Some (False, bm, md)
          else do {
            let v = v AND NOT mask;
            let md = md[p := v];
            md \<leftarrow> (if v = 0 then ClearBit_at depth bit_ind bm md else Some md);
            Some (True, bm\<lparr>num_bits := num_bits bm - count\<rparr>, md)
          }
        } else do {
          ok \<leftarrow> ClearRange_check md p count;
          if \<not> ok then Some (False, bm, md)
          else do {
            md \<leftarrow> ClearRange_clear depth bm md p bit_ind count;
            Some (True, bm\<lparr>num_bits := num_bits bm - count\<rparr>, md)
          }
        }
      })"

fun Bitmap_overhead_loop :: "nat \<Rightarrow> u64 \<Rightarrow> u64 \<Rightarrow> u64" where
  "Bitmap_overhead_loop 0 region_size overhead_bits = overhead_bits"
| "Bitmap_overhead_loop (Suc depth) region_size overhead_bits =
     (let region_size = AlignUp region_size 64 div 64
      in Bitmap_overhead_loop depth region_size (overhead_bits + region_size))"

definition Bitmap_CalculateMetadataOverheadSize :: "u64 \<Rightarrow> u64" where
  "Bitmap_CalculateMetadataOverheadSize region_size =
     Bitmap_overhead_loop (GetRequiredDepth region_size) region_size 0 * 8"

section \<open>Sizes of the levels\<close>

text \<open>
  Level \<open>k\<close> is counted from the leaves: \<open>hsize k n\<close> is its number of bits in a bitmap of \<open>n\<close>
  bits, so \<open>hsize (Suc k) n\<close> is its number of words, and \<open>depth_of n\<close> the number of levels.
\<close>

definition ceil64 :: "nat \<Rightarrow> nat" where
  "ceil64 n = (n + 63) div 64"

primrec hsize :: "nat \<Rightarrow> nat \<Rightarrow> nat" where
  "hsize 0 n = n"
| "hsize (Suc k) n = ceil64 (hsize k n)"

definition hbase :: "nat \<Rightarrow> nat \<Rightarrow> nat \<Rightarrow> nat" where
  "hbase b n k = b + (\<Sum>i<k. hsize (Suc i) n)"

abbreviation depth_of :: "u64 \<Rightarrow> nat" where
  "depth_of n \<equiv> GetRequiredDepth n"

lemma ceil64_gt: "x < n \<Longrightarrow> x div 64 < ceil64 n"
  by (simp add: ceil64_def less_mult_imp_div_less div_less_iff_less_mult)

lemma ceil64_le: "n \<le> 64 * m \<Longrightarrow> ceil64 n \<le> m"
  by (simp add: ceil64_def)

lemma ceil64_pos: "0 < n \<Longrightarrow> 0 < ceil64 n"
  by (simp add: ceil64_def)

lemma hsize_pos: "0 < n \<Longrightarrow> 0 < hsize k n"
  by (induction k) (auto simp: ceil64_pos)

lemma div_pow64_Suc: "x div 64 ^ Suc k = x div 64 ^ k div 64" for x :: nat
  by (metis div_mult2_eq power_Suc2)

lemma hsize_gt: "x < n \<Longrightarrow> x div 64 ^ k < hsize k n"
  by (induction k) (auto simp: div_pow64_Suc ceil64_gt simp del: power_Suc)

lemma hsize_le_pow: "n \<le> 64 ^ (j + k) \<Longrightarrow> hsize k n \<le> 64 ^ j"
proof (induction k arbitrary: j)
  case (Suc k)
  then have "hsize k n \<le> 64 ^ Suc j" by (metis add_Suc add_Suc_right)
  then show ?case by (simp add: ceil64_le)
qed simp

lemma hbase_0 [simp]: "hbase b n 0 = b"
  by (simp add: hbase_def)

lemma hbase_Suc: "hbase b n (Suc k) = hbase b n k + hsize (Suc k) n"
  by (simp add: hbase_def)

lemma hbase_mono: "j \<le> k \<Longrightarrow> hbase b n j \<le> hbase b n k"
  by (induction rule: dec_induct) (auto simp: hbase_Suc)

section \<open>The set a bitmap stands for\<close>

text \<open>Bit \<open>j\<close> of level \<open>k\<close> is set when some free offset lies below it.\<close>

definition hbit :: "nat set \<Rightarrow> nat \<Rightarrow> nat \<Rightarrow> bool" where
  "hbit F k j \<longleftrightarrow> (\<exists>x\<in>F. x div 64 ^ k = j)"

definition level_repr :: "nat \<Rightarrow> nat \<Rightarrow> u64 list \<Rightarrow> nat set \<Rightarrow> nat \<Rightarrow> bool" where
  "level_repr b n md F k \<longleftrightarrow>
     hbase b n (Suc k) \<le> length md \<and>
     (\<forall>w<hsize (Suc k) n. \<forall>i<64. bit (md ! (hbase b n k + w)) i = hbit F k (64 * w + i))"

definition layout :: "nat \<Rightarrow> nat \<Rightarrow> Bitmap \<Rightarrow> bool" where
  "layout b n bm \<longleftrightarrow> 0 < n \<and> 0 < used_depths bm \<and> n < 64 ^ used_depths bm \<and>
     (\<forall>k<used_depths bm. nth_opt (bit_storages bm) (used_depths bm - Suc k) = Some (Some (hbase b n k)))"

definition bitmap_repr :: "nat \<Rightarrow> nat \<Rightarrow> Bitmap \<Rightarrow> u64 list \<Rightarrow> nat set \<Rightarrow> bool" where
  "bitmap_repr b n bm md F \<longleftrightarrow> layout b n bm \<and> F \<subseteq> {..<n} \<and>
     (\<forall>k<used_depths bm. level_repr b n md F k) \<and> num_bits bm = of_nat (card F)"

text \<open>The words that belong to a bitmap, and that an operation leaves the others alone.\<close>

definition storage_end :: "nat \<Rightarrow> nat \<Rightarrow> Bitmap \<Rightarrow> nat" where
  "storage_end b n bm = hbase b n (used_depths bm)"

definition same_outside :: "nat \<Rightarrow> nat \<Rightarrow> u64 list \<Rightarrow> u64 list \<Rightarrow> bool" where
  "same_outside a e md md' \<longleftrightarrow>
     length md' = length md \<and> (\<forall>i. i < a \<or> e \<le> i \<longrightarrow> md' ! i = md ! i)"

lemma same_outside_refl [simp]: "same_outside a e md md"
  by (simp add: same_outside_def)

lemma same_outside_trans: "same_outside a e md md' \<Longrightarrow> same_outside a e md' md'' \<Longrightarrow> same_outside a e md md''"
  by (auto simp: same_outside_def)

lemma same_outside_update: "a \<le> p \<Longrightarrow> p < e \<Longrightarrow> same_outside a e md (md[p := v])"
  by (auto simp: same_outside_def nth_list_update)

lemma level_repr_same:
  "level_repr b n md F k \<Longrightarrow> same_outside a e md md' \<Longrightarrow>
     e \<le> hbase b n k \<or> hbase b n (Suc k) \<le> a \<Longrightarrow> level_repr b n md' F k"
  by (auto simp: level_repr_def same_outside_def hbase_Suc)

text \<open>Storing a word in a level: the other levels keep their meaning.\<close>

lemma level_repr_other:
  assumes "level_repr b n md F i" and "i \<noteq> k" and "w < hsize (Suc k) n"
  shows "level_repr b n (md[hbase b n k + w := v]) F i"
proof -
  have "same_outside (hbase b n k) (hbase b n (Suc k)) md (md[hbase b n k + w := v])"
    using assms(3) by (intro same_outside_update) (auto simp: hbase_Suc)
  moreover have "hbase b n (Suc k) \<le> hbase b n i \<or> hbase b n (Suc i) \<le> hbase b n k"
    using assms(2) by (cases "i < k") (auto intro: hbase_mono)
  ultimately show ?thesis using level_repr_same [OF assms(1)] by blast
qed

lemma level_repr_store:
  assumes "level_repr b n md F k" and "w < hsize (Suc k) n"
    and "\<And>i. i < 64 \<Longrightarrow> bit v i = hbit F' k (64 * w + i)"
    and "\<And>j. j div 64 \<noteq> w \<Longrightarrow> hbit F' k j = hbit F k j"
  shows "level_repr b n (md[hbase b n k + w := v]) F' k"
  unfolding level_repr_def
proof (intro conjI allI impI)
  show "hbase b n (Suc k) \<le> length (md[hbase b n k + w := v])"
    using assms(1) by (simp add: level_repr_def)
  fix w' i :: nat
  assume "w' < hsize (Suc k) n" and "i < 64"
  moreover have "hbase b n k + w < length md"
    using assms(1,2) by (simp add: level_repr_def hbase_Suc)
  ultimately show "bit (md[hbase b n k + w := v] ! (hbase b n k + w')) i = hbit F' k (64 * w' + i)"
    using assms by (cases "w' = w") (auto simp: level_repr_def)
qed

lemma layout_addr:
  "layout b n bm \<Longrightarrow> k < used_depths bm \<Longrightarrow>
     bit_addr bm (used_depths bm - Suc k) ind = Some (hbase b n k + unat ind)"
  by (simp add: layout_def bit_addr_def)

lemma level_repr_nth:
  "level_repr b n md F k \<Longrightarrow> w < hsize (Suc k) n \<Longrightarrow> nth_opt md (hbase b n k + w) = Some (md ! (hbase b n k + w))"
  by (simp add: level_repr_def hbase_Suc)

text \<open>A word is zero exactly when nothing below it is free, which is the bit of the level above.\<close>

lemma hbit_Suc: "hbit F (Suc k) w \<longleftrightarrow> (\<exists>i<64. hbit F k (64 * w + i))"
proof
  assume "hbit F (Suc k) w"
  then obtain x where "x \<in> F" "x div 64 ^ k div 64 = w" by (auto simp: hbit_def div_pow64_Suc simp del: power_Suc)
  then have "x div 64 ^ k mod 64 < 64 \<and> hbit F k (64 * w + x div 64 ^ k mod 64)"
    by (auto simp: hbit_def)
  then show "\<exists>i<64. hbit F k (64 * w + i)" by blast
next
  assume "\<exists>i<64. hbit F k (64 * w + i)"
  then obtain i x where "i < 64" "x \<in> F" "x div 64 ^ k = 64 * w + i" by (auto simp: hbit_def)
  then have "x div 64 ^ Suc k = w" unfolding div_pow64_Suc by simp
  then show "hbit F (Suc k) w" using \<open>x \<in> F\<close> unfolding hbit_def by blast
qed

lemma word_zero_iff_bits: "v = 0 \<longleftrightarrow> (\<forall>i<64. \<not> bit v i)" for v :: u64
proof
  assume "\<forall>i<64. \<not> bit v i"
  then show "v = 0" by (intro bit_eqI) (auto dest: bit_imp_le_length)
qed simp

lemma level_word_zero:
  "level_repr b n md F k \<Longrightarrow> w < hsize (Suc k) n \<Longrightarrow> md ! (hbase b n k + w) = 0 \<longleftrightarrow> \<not> hbit F (Suc k) w"
  by (auto simp: word_zero_iff_bits hbit_Suc level_repr_def)

lemma bit_mask64: "bit (push_bit a (1 :: u64)) i \<longleftrightarrow> i = a \<and> a < 64"
  by (auto simp: bit_exp_iff dest: bit_imp_le_length)

section \<open>Setting and clearing a bit\<close>

lemma hbit_insert: "hbit (insert x F) k j \<longleftrightarrow> j = x div 64 ^ k \<or> hbit F k j"
  by (auto simp: hbit_def)

lemma hbit_mono: "F \<subseteq> G \<Longrightarrow> hbit F k j \<Longrightarrow> hbit G k j"
  by (auto simp: hbit_def)

lemma hbit_up: "hbit F k (x div 64 ^ k) \<Longrightarrow> k \<le> i \<Longrightarrow> hbit F i (x div 64 ^ i)"
proof (induction i)
  case (Suc i)
  show ?case
  proof (cases "k = Suc i")
    case False
    then obtain y where "y \<in> F" "y div 64 ^ i = x div 64 ^ i"
      using Suc by (auto simp: hbit_def)
    then have "y \<in> F \<and> y div 64 ^ Suc i = x div 64 ^ Suc i" by (simp only: div_pow64_Suc)
    then show ?thesis unfolding hbit_def by blast
  qed (use Suc.prems in simp)
qed simp

text \<open>Once the bit of an ancestor is right for both sets, all levels above agree.\<close>

lemma level_repr_agree:
  assumes "level_repr b n md F i" and "\<And>j. hbit G i j \<longleftrightarrow> hbit F i j"
  shows "level_repr b n md G i"
  using assms by (simp add: level_repr_def)

lemma SetBit_at_correct:
  assumes "layout b n bm" and "x < n" and "k \<le> used_depths bm"
    and "unat offset = x div 64 ^ k"
    and "\<And>i. i < k \<Longrightarrow> level_repr b n md (insert x F) i"
    and "\<And>i. k \<le> i \<Longrightarrow> i < used_depths bm \<Longrightarrow> level_repr b n md F i"
  shows "\<exists>md'. SetBit_at (used_depths bm - k) offset bm md = Some md' \<and>
    (\<forall>i<used_depths bm. level_repr b n md' (insert x F) i) \<and>
    same_outside (hbase b n k) (storage_end b n bm) md md'"
  using assms
proof (induction "used_depths bm - k" arbitrary: k offset md)
  case 0
  then show ?case by simp
next
  case (Suc d)
  let ?w = "x div 64 ^ Suc k" and ?G = "insert x F"
  have k: "k < used_depths bm" and d: "d = used_depths bm - Suc k" using Suc.hyps(2) by auto
  have lk: "level_repr b n md F k" using Suc.prems(6) k by simp
  have w: "?w < hsize (Suc k) n" using hsize_gt [OF Suc.prems(2)] .
  have ind: "unat (offset div 64) = ?w" using Suc.prems(4) by (simp add: div_pow64_Suc del: power_Suc)
  have off: "x div 64 ^ k = 64 * ?w + unat offset mod 64"
    using Suc.prems(4) by (simp add: div_pow64_Suc del: power_Suc)
  define v where "v = md ! (hbase b n k + ?w)"
  define md1 where "md1 = md[hbase b n k + ?w := v OR push_bit (unat offset mod 64) 1]"
  have step: "SetBit_at (Suc d) offset bm md =
      (if v \<noteq> 0 then Some md1 else SetBit_at d (offset div 64) bm md1)"
    using layout_addr [OF Suc.prems(1) k] level_repr_nth [OF lk w] ind
    by (simp add: d v_def md1_def Let_def)
  have "bit (v OR push_bit (unat offset mod 64) 1) i = hbit ?G k (64 * ?w + i)" if "i < 64" for i
    using that lk w off unfolding level_repr_def v_def
    by (auto simp: bit_or_iff bit_mask64 hbit_insert simp del: push_bit_of_1 hsize.simps)
  then have l1: "level_repr b n md1 ?G k"
    unfolding md1_def using lk w off
    by (intro level_repr_store [where F = F]) (auto simp: hbit_insert)
  have other: "level_repr b n md1 H i" if "level_repr b n md H i" "i \<noteq> k" for H i
    unfolding md1_def using that w by (intro level_repr_other)
  have low: "level_repr b n md1 ?G i" if "i < Suc k" for i
    using that l1 other Suc.prems(5) by (cases "i = k") auto
  have high: "level_repr b n md1 F i" if "Suc k \<le> i" "i < used_depths bm" for i
    using that other Suc.prems(6) by auto
  have outside: "same_outside (hbase b n k) (storage_end b n bm) md md1"
    unfolding md1_def storage_end_def using w k hbase_mono [of "Suc k" "used_depths bm" b n]
    by (intro same_outside_update) (auto simp: hbase_Suc)
  show ?case
  proof (cases "v = 0")
    case True
    have "\<exists>md'. SetBit_at (used_depths bm - Suc k) (offset div 64) bm md1 = Some md' \<and>
        (\<forall>i<used_depths bm. level_repr b n md' ?G i) \<and>
        same_outside (hbase b n (Suc k)) (storage_end b n bm) md1 md'"
      using Suc.hyps(1) [OF d Suc.prems(1,2) _ ind low high] k by auto
    then obtain md' where "SetBit_at d (offset div 64) bm md1 = Some md'"
      "\<forall>i<used_depths bm. level_repr b n md' ?G i"
      "same_outside (hbase b n (Suc k)) (storage_end b n bm) md1 md'" unfolding d by blast
    moreover from this(3) have "same_outside (hbase b n k) (storage_end b n bm) md1 md'"
      using hbase_mono [of k "Suc k" b n] by (auto simp: same_outside_def)
    ultimately show ?thesis
      using step True outside Suc.hyps(2) by (metis same_outside_trans)
  next
    case False
    then have "hbit F (Suc k) ?w" using level_word_zero [OF lk w] by (simp add: v_def)
    then have "level_repr b n md1 ?G i" if "Suc k \<le> i" "i < used_depths bm" for i
      using hbit_up [of F "Suc k" x i] that
      by (intro level_repr_agree [OF high [OF that]]) (metis hbit_insert)
    then have "\<forall>i<used_depths bm. level_repr b n md1 ?G i" using low by (meson not_less)
    then show ?thesis using step False outside Suc.hyps(2) by auto
  qed
qed

text \<open>
  Clearing works for any set \<open>G\<close> that is \<open>F\<close> without everything below position \<open>x div 64 ^ k\<close> of
  level \<open>k\<close>; a single bit is the case \<open>k = 0\<close>, and \<open>ClearRange\<close> uses it from level 1.
\<close>

definition without_group :: "nat \<Rightarrow> nat \<Rightarrow> nat set \<Rightarrow> nat set \<Rightarrow> bool" where
  "without_group k g F G \<longleftrightarrow> G \<subseteq> F \<and> (\<forall>y\<in>F - G. y div 64 ^ k = g) \<and> \<not> hbit G k g"

lemma without_group_hbit:
  assumes "without_group k g F G"
  shows "hbit G k j \<longleftrightarrow> j \<noteq> g \<and> hbit F k j"
  using assms unfolding without_group_def hbit_def by blast

lemma hbit_group_agree:
  assumes "G \<subseteq> F" and "\<And>y. y \<in> F - G \<Longrightarrow> y div 64 ^ k = x div 64 ^ k"
    and "hbit G k (x div 64 ^ k)" and "k \<le> i"
  shows "hbit G i j \<longleftrightarrow> hbit F i j"
proof
  assume "hbit F i j"
  then obtain y where y: "y \<in> F" "y div 64 ^ i = j" by (auto simp: hbit_def)
  show "hbit G i j"
  proof (cases "y \<in> G")
    case True
    then show ?thesis using y by (auto simp: hbit_def)
  next
    case False
    then have "y div 64 ^ k = x div 64 ^ k" using assms(2) y by blast
    moreover have "z div 64 ^ i = z div 64 ^ k div 64 ^ (i - k)" for z :: nat
      using assms(4) by (simp add: div_mult2_eq [symmetric] power_add [symmetric])
    ultimately show ?thesis
      using hbit_up [OF assms(3,4)] y(2) by metis
  qed
qed (use assms(1) in \<open>auto intro: hbit_mono\<close>)

lemma ClearBit_at_correct:
  assumes "layout b n bm" and "x < n" and "k \<le> used_depths bm"
    and "unat offset = x div 64 ^ k" and "without_group k (x div 64 ^ k) F G"
    and "\<And>i. i < k \<Longrightarrow> level_repr b n md G i"
    and "\<And>i. k \<le> i \<Longrightarrow> i < used_depths bm \<Longrightarrow> level_repr b n md F i"
  shows "\<exists>md'. ClearBit_at (used_depths bm - k) offset bm md = Some md' \<and>
    (\<forall>i<used_depths bm. level_repr b n md' G i) \<and>
    same_outside (hbase b n k) (storage_end b n bm) md md'"
  using assms
proof (induction "used_depths bm - k" arbitrary: k offset md)
  case 0
  then show ?case by simp
next
  case (Suc d)
  let ?w = "x div 64 ^ Suc k"
  have k: "k < used_depths bm" and d: "d = used_depths bm - Suc k" using Suc.hyps(2) by auto
  have lk: "level_repr b n md F k" using Suc.prems(7) k by simp
  have w: "?w < hsize (Suc k) n" using hsize_gt [OF Suc.prems(2)] .
  have ind: "unat (offset div 64) = ?w" using Suc.prems(4) by (simp add: div_pow64_Suc del: power_Suc)
  have off: "x div 64 ^ k = 64 * ?w + unat offset mod 64"
    using Suc.prems(4) by (simp add: div_pow64_Suc del: power_Suc)
  note G = without_group_hbit [OF Suc.prems(5)]
  define v where "v = md ! (hbase b n k + ?w) AND NOT (push_bit (unat offset mod 64) 1)"
  define md1 where "md1 = md[hbase b n k + ?w := v]"
  have step: "ClearBit_at (Suc d) offset bm md =
      (if v \<noteq> 0 then Some md1 else ClearBit_at d (offset div 64) bm md1)"
    using layout_addr [OF Suc.prems(1) k] level_repr_nth [OF lk w] ind
    by (simp add: d v_def md1_def Let_def)
  have "bit v i = hbit G k (64 * ?w + i)" if "i < 64" for i
    using that lk w off unfolding level_repr_def v_def
    by (auto simp: bit_and_iff bit_not_iff bit_mask64 G simp del: push_bit_of_1 hsize.simps)
  then have l1: "level_repr b n md1 G k"
    unfolding md1_def using lk w off
    by (intro level_repr_store [where F = F]) (auto simp: G)
  have other: "level_repr b n md1 H i" if "level_repr b n md H i" "i \<noteq> k" for H i
    unfolding md1_def using that w by (intro level_repr_other)
  have low: "level_repr b n md1 G i" if "i < Suc k" for i
    using that l1 other Suc.prems(6) by (cases "i = k") auto
  have high: "level_repr b n md1 F i" if "Suc k \<le> i" "i < used_depths bm" for i
    using that other Suc.prems(7) by auto
  have outside: "same_outside (hbase b n k) (storage_end b n bm) md md1"
    unfolding md1_def storage_end_def using w k hbase_mono [of "Suc k" "used_depths bm" b n]
    by (intro same_outside_update) (auto simp: hbase_Suc)
  have v0: "v = 0 \<longleftrightarrow> \<not> hbit G (Suc k) ?w"
    using level_word_zero [OF l1 w] lk w by (simp add: md1_def level_repr_def hbase_Suc)
  have sub: "G \<subseteq> F" and diff: "\<And>y. y \<in> F - G \<Longrightarrow> y div 64 ^ Suc k = ?w"
    using Suc.prems(5) by (auto simp: without_group_def div_pow64_Suc simp del: power_Suc)
  show ?case
  proof (cases "v = 0")
    case True
    have wg: "without_group (Suc k) ?w F G"
      using sub diff True v0 by (simp add: without_group_def del: power_Suc)
    have "\<exists>md'. ClearBit_at (used_depths bm - Suc k) (offset div 64) bm md1 = Some md' \<and>
        (\<forall>i<used_depths bm. level_repr b n md' G i) \<and>
        same_outside (hbase b n (Suc k)) (storage_end b n bm) md1 md'"
      using Suc.hyps(1) [OF d Suc.prems(1,2) _ ind wg low high] k by auto
    then obtain md' where "ClearBit_at d (offset div 64) bm md1 = Some md'"
      "\<forall>i<used_depths bm. level_repr b n md' G i"
      "same_outside (hbase b n (Suc k)) (storage_end b n bm) md1 md'" unfolding d by blast
    moreover from this(3) have "same_outside (hbase b n k) (storage_end b n bm) md1 md'"
      using hbase_mono [of k "Suc k" b n] by (auto simp: same_outside_def)
    ultimately show ?thesis
      using step True outside Suc.hyps(2) by (metis same_outside_trans)
  next
    case False
    then have "level_repr b n md1 G i" if "Suc k \<le> i" "i < used_depths bm" for i
      using hbit_group_agree [OF sub diff] v0 that
      by (intro level_repr_agree [OF high [OF that]]) blast
    then have "\<forall>i<used_depths bm. level_repr b n md1 G i" using low by (meson not_less)
    then show ?thesis using step False outside Suc.hyps(2) by auto
  qed
qed

text \<open>The public operations insert and remove.\<close>

lemma layout_num_bits [simp]: "layout b n (bm\<lparr>num_bits := c\<rparr>) \<longleftrightarrow> layout b n bm"
  by (simp add: layout_def)

lemma storage_end_num_bits [simp]: "storage_end b n (bm\<lparr>num_bits := c\<rparr>) = storage_end b n bm"
  by (simp add: storage_end_def)

lemma SetBit_correct:
  assumes "bitmap_repr b n bm md F" and "unat offset < n" and "unat offset \<notin> F"
  obtains md' where "SetBit offset bm md = Some (bm\<lparr>num_bits := num_bits bm + 1\<rparr>, md')"
    and "bitmap_repr b n (bm\<lparr>num_bits := num_bits bm + 1\<rparr>) md' (insert (unat offset) F)"
    and "same_outside b (storage_end b n bm) md md'"
proof -
  have r: "layout b n bm" "F \<subseteq> {..<n}" "\<forall>k<used_depths bm. level_repr b n md F k"
    "num_bits bm = of_nat (card F)" using assms(1) by (auto simp: bitmap_repr_def)
  have "finite F" using r(2) by (rule finite_subset) simp
  then have "num_bits bm + 1 = of_nat (card (insert (unat offset) F))"
    using r(4) assms(3) by simp
  then show ?thesis
    using SetBit_at_correct [of b n bm "unat offset" 0 offset md F] r assms(2) that
    by (auto simp: SetBit_def bitmap_repr_def)
qed

lemma ClearBit_correct:
  assumes "bitmap_repr b n bm md F" and "unat offset \<in> F"
  obtains md' where "ClearBit offset bm md = Some (bm\<lparr>num_bits := num_bits bm - 1\<rparr>, md')"
    and "bitmap_repr b n (bm\<lparr>num_bits := num_bits bm - 1\<rparr>) md' (F - {unat offset})"
    and "same_outside b (storage_end b n bm) md md'"
proof -
  have r: "layout b n bm" "F \<subseteq> {..<n}" "\<forall>k<used_depths bm. level_repr b n md F k"
    "num_bits bm = of_nat (card F)" using assms(1) by (auto simp: bitmap_repr_def)
  have "finite F" using r(2) by (rule finite_subset) simp
  then have "card F = Suc (card (F - {unat offset}))" using assms(2) by (rule card.remove)
  then have "num_bits bm - 1 = of_nat (card (F - {unat offset}))" using r(4) by simp
  moreover have "without_group 0 (unat offset div 64 ^ 0) F (F - {unat offset})"
    by (auto simp: without_group_def hbit_def)
  moreover have "unat offset < n" "F - {unat offset} \<subseteq> {..<n}" using r(2) assms(2) by auto
  ultimately show ?thesis
    using ClearBit_at_correct [of b n bm "unat offset" 0 offset F "F - {unat offset}" md] r assms(2) that
    by (auto simp: ClearBit_def bitmap_repr_def)
qed

lemma of_nat_unat64: "of_nat (unat a) = a" for a :: u64
  by simp

section \<open>Searching and clearing ranges\<close>

lemma unat_ctz64: "v \<noteq> 0 \<Longrightarrow> unat (ucast (CountTrailingZeroes64 v) :: u64) = builtin_ctz v"
  using builtin_ctz_props(2) [of v] by (simp add: CountTrailingZeroes64_def unsigned_ucast_eq
      unsigned_of_nat take_bit_nat_eq_self)

lemma first_word_bit:
  assumes "level_repr b n md F k" and "F \<noteq> {}" and "finite F"
    and "w = Min F div 64 ^ Suc k" and "w < hsize (Suc k) n"
  shows "md ! (hbase b n k + w) \<noteq> 0"
    and "64 * w + builtin_ctz (md ! (hbase b n k + w)) = Min F div 64 ^ k"
proof -
  let ?v = "md ! (hbase b n k + w)" and ?m = "Min F div 64 ^ k"
  have m: "Min F \<in> F" using assms(2,3) by simp
  then have "hbit F (Suc k) w" using assms(4) by (auto simp: hbit_def)
  then show nz: "?v \<noteq> 0" using level_word_zero [OF assms(1,5)] by simp
  have bits: "bit ?v i \<longleftrightarrow> hbit F k (64 * w + i)" if "i < 64" for i
    using assms(1,5) that by (simp add: level_repr_def)
  have mw: "?m = 64 * w + ?m mod 64" using assms(4) by (simp add: div_pow64_Suc del: power_Suc)
  then have "hbit F k (64 * w + ?m mod 64)" using m unfolding hbit_def by metis
  then have "bit ?v (?m mod 64)" using bits by simp
  then have "builtin_ctz ?v \<le> ?m mod 64"
    using builtin_ctz_props(3) [OF nz] by (meson not_less)
  moreover obtain x where "x \<in> F" "x div 64 ^ k = 64 * w + builtin_ctz ?v"
    using bits [of "builtin_ctz ?v"] builtin_ctz_props(1,2) [OF nz] by (auto simp: hbit_def)
  then have "?m \<le> 64 * w + builtin_ctz ?v"
    using Min_le [OF assms(3)] div_le_mono by metis
  ultimately show "64 * w + builtin_ctz ?v = ?m" using mw by linarith
qed

lemma FindFreeBlock_step:
  assumes "layout b n bm" and "F \<noteq> {}" and "F \<subseteq> {..<n}" and "n \<le> 2 ^ 63" and "k < used_depths bm"
    and "level_repr b n md F k" and "unat offset = Min F div 64 ^ Suc k"
  shows "\<exists>off. unat off = Min F div 64 ^ k \<and>
    FindFreeBlock_loop bm md (used_depths bm - Suc k) offset =
      (if k = 0 then Some off else FindFreeBlock_loop bm md (used_depths bm - k) off)"
proof -
  have fin: "finite F" using assms(3) by (rule finite_subset) simp
  have m: "Min F < n" using Min_in [OF fin assms(2)] assms(3) by auto
  have w: "unat offset < hsize (Suc k) n" using hsize_gt [OF m, of "Suc k"] assms(7) by simp
  note first = first_word_bit [OF assms(6,2) fin assms(7) w]
  define v where "v = md ! (hbase b n k + unat offset)"
  define off where "off = offset * 64 + ucast (CountTrailingZeroes64 v)"
  have "Min F div 64 ^ k \<le> Min F" by (rule div_le_dividend)
  also have "\<dots> < 2 ^ 64" using m assms(4) by simp
  finally have "Min F div 64 ^ k < 2 ^ 64" .
  then have lt: "64 * unat offset + builtin_ctz v < 2 ^ 64" using first(2) by (simp add: v_def)
  then have "unat (offset * 64) = 64 * unat offset" by (subst unat_times) auto
  then have "unat off = 64 * unat offset + builtin_ctz v"
    using lt unat_ctz64 [of v] first(1) unfolding off_def by (subst unat_plus) (auto simp: v_def)
  then have "unat off = Min F div 64 ^ k" using first(2) by (simp add: v_def)
  moreover have "FindFreeBlock_loop bm md (used_depths bm - Suc k) offset =
      (if k = 0 then Some off else FindFreeBlock_loop bm md (used_depths bm - k) off)"
    using assms(5) layout_addr [OF assms(1,5)] level_repr_nth [OF assms(6) w] first(1)
    by (subst FindFreeBlock_loop.simps) (auto simp: Let_def off_def v_def Suc_diff_Suc)
  ultimately show ?thesis by blast
qed

lemma FindFreeBlock_loop_correct:
  assumes "layout b n bm" and "F \<noteq> {}" and "F \<subseteq> {..<n}" and "n \<le> 2 ^ 63"
    and "\<forall>k<used_depths bm. level_repr b n md F k"
    and "k < used_depths bm" and "unat offset = Min F div 64 ^ Suc k"
  shows "FindFreeBlock_loop bm md (used_depths bm - Suc k) offset = Some (of_nat (Min F))"
  using assms(6,7)
proof (induction k arbitrary: offset)
  case 0
  then obtain off where "unat off = Min F"
    "FindFreeBlock_loop bm md (used_depths bm - Suc 0) offset = Some off"
    using FindFreeBlock_step [OF assms(1-4), of 0 md offset] assms(5) by auto
  then show ?case by (metis of_nat_unat64)
next
  case (Suc k)
  then obtain off where "unat off = Min F div 64 ^ Suc k"
    "FindFreeBlock_loop bm md (used_depths bm - Suc (Suc k)) offset =
       FindFreeBlock_loop bm md (used_depths bm - Suc k) off"
    using FindFreeBlock_step [OF assms(1-4) Suc.prems(1) _ Suc.prems(2), of md] assms(5) by auto
  then show ?case using Suc.IH [of off] Suc.prems(1) by simp
qed

lemma layout_top: "layout b n bm \<Longrightarrow> hsize (used_depths bm) n = 1"
  using hsize_le_pow [of n 0 "used_depths bm"] hsize_pos [of n "used_depths bm"]
  by (auto simp: layout_def)

text \<open>\<open>FindFreeBlock\<close> is the least free offset, and -1 when there is none.\<close>

lemma FindFreeBlock_correct:
  assumes "bitmap_repr b n bm md F" and "n \<le> 2 ^ 63"
  shows "FindFreeBlock bm md = Some (if F = {} then - 1 else of_nat (Min F))"
proof -
  have r: "layout b n bm" "F \<subseteq> {..<n}" "\<forall>k<used_depths bm. level_repr b n md F k"
    using assms(1) by (auto simp: bitmap_repr_def)
  have D: "0 < used_depths bm" "n < 64 ^ used_depths bm" using r(1) by (auto simp: layout_def)
  define k where "k = used_depths bm - 1"
  have k: "used_depths bm = Suc k" using D by (simp add: k_def)
  show ?thesis
  proof (cases "F = {}")
    case True
    have lk: "level_repr b n md F k" and one: "0 < hsize (Suc k) n"
      using r(3) k layout_top [OF r(1)] by auto
    have "md ! hbase b n k = 0"
      using level_word_zero [OF lk one] True by (simp add: hbit_def)
    then show ?thesis
      using True layout_addr [OF r(1), of k 0] level_repr_nth [OF lk one] k
      by (simp add: FindFreeBlock_def FindFreeBlock_loop.simps)
  next
    case False
    have "finite F" using r(2) by (rule finite_subset) simp
    then have "Min F < 64 ^ Suc k" using Min_in [OF _ False] r(2) D(2) k by force
    then have "FindFreeBlock_loop bm md (used_depths bm - Suc k) 0 = Some (of_nat (Min F))"
      using k by (intro FindFreeBlock_loop_correct [OF r(1) False r(2) assms(2) r(3)]) auto
    then show ?thesis using False k by (simp add: FindFreeBlock_def)
  qed
qed

lemma bit_range_mask:
  "s + c \<le> 64 \<Longrightarrow> bit (push_bit s (push_bit c 1 - 1) :: u64) i \<longleftrightarrow> s \<le> i \<and> i < s + c"
  by (auto simp: bit_push_bit_iff mask_eq_exp_minus_1 [symmetric] bit_mask_iff simp del: push_bit_of_1 simp add: push_bit_of_1)

text \<open>\<open>ClearRange\<close> of fewer than 64 bits within a word: it succeeds exactly when all of them are
  free, and then removes them; otherwise nothing changes.\<close>

lemma and_mask_eq_iff: "v AND m = m \<longleftrightarrow> (\<forall>i. bit m i \<longrightarrow> bit v i)" for v m :: u64
proof
  assume eq: "v AND m = m"
  show "\<forall>i. bit m i \<longrightarrow> bit v i" by (subst eq [symmetric]) (simp add: bit_and_iff)
next
  assume "\<forall>i. bit m i \<longrightarrow> bit v i"
  then show "v AND m = m" by (intro bit_eqI) (auto simp: bit_and_iff)
qed

lemma clear_leaf_range:
  assumes "layout b n bm" and "\<forall>k<used_depths bm. level_repr b n md F k" and "x < n"
    and "\<And>y. y \<in> R \<Longrightarrow> y div 64 = x div 64"
    and "\<And>i. bit msk i \<longleftrightarrow> 64 * (x div 64) + i \<in> R"
    and "unat ind = x div 64" and "v = md ! (b + x div 64) AND NOT msk" and "md1 = md[b + x div 64 := v]"
  shows "\<exists>md'. (if v = 0 then ClearBit_at (used_depths bm - 1) ind bm md1 else Some md1) = Some md' \<and>
    (\<forall>i<used_depths bm. level_repr b n md' (F - R) i) \<and>
    same_outside b (storage_end b n bm) md md'"
proof -
  let ?w = "x div 64" and ?G = "F - R"
  have D: "0 < used_depths bm" using assms(1) by (simp add: layout_def)
  have l0: "level_repr b n md F 0" using assms(2) D by simp
  have w: "?w < hsize 1 n" using hsize_gt [OF assms(3), of 1] by simp
  have "bit v i = hbit ?G 0 (64 * ?w + i)" if "i < 64" for i
    using l0 w that assms(5) [of i] by (auto simp: assms(7) level_repr_def hbit_def bit_and_iff bit_not_iff)
  then have "level_repr b n (md[hbase b n 0 + ?w := v]) ?G 0"
    using l0 w assms(4) by (intro level_repr_store [where F = F]) (auto simp: hbit_def)
  then have l1: "level_repr b n md1 ?G 0" by (simp add: assms(8))
  have high: "level_repr b n md1 F i" if "1 \<le> i" "i < used_depths bm" for i
    using level_repr_other [of b n md F i 0 ?w v] assms(2) that w by (simp add: assms(8))
  have out1: "same_outside b (storage_end b n bm) md md1"
    unfolding assms(8) storage_end_def using w D hbase_mono [of 1 "used_depths bm" b n]
    by (intro same_outside_update) (auto simp: hbase_Suc)
  have v0: "v = 0 \<longleftrightarrow> \<not> hbit ?G (Suc 0) ?w"
    using level_word_zero [OF l1, of ?w] l0 w by (simp add: assms(8) level_repr_def hbase_Suc)
  have diff: "y div 64 ^ Suc 0 = x div 64 ^ Suc 0" if "y \<in> F - ?G" for y
    using assms(4) that by auto
  show ?thesis
  proof (cases "v = 0")
    case True
    then have "without_group 1 (x div 64 ^ 1) F ?G"
      using v0 diff by (auto simp: without_group_def)
    then obtain md' where "ClearBit_at (used_depths bm - 1) ind bm md1 = Some md'"
      "\<forall>i<used_depths bm. level_repr b n md' ?G i"
      "same_outside (hbase b n 1) (storage_end b n bm) md1 md'"
      using ClearBit_at_correct [OF assms(1,3), of 1 ind F ?G md1] D l1 high assms(6) by auto
    moreover from this(3) have "same_outside b (storage_end b n bm) md1 md'"
      by (auto simp: same_outside_def hbase_Suc)
    ultimately show ?thesis using True out1 by (auto intro: same_outside_trans)
  next
    case False
    then have "level_repr b n md1 ?G i" if "1 \<le> i" "i < used_depths bm" for i
      using hbit_group_agree [of ?G F "Suc 0" x, OF _ diff] v0 that
      by (intro level_repr_agree [OF high [OF that]]) auto
    then have "\<forall>i<used_depths bm. level_repr b n md1 ?G i" using l1 by (metis less_one not_less)
    then show ?thesis using False out1 by auto
  qed
qed

lemma ClearRange_correct:
  assumes "bitmap_repr b n bm md F" and "unat offset < n" and "0 < unat count"
    and "unat offset mod 64 + unat count \<le> 64" and "unat count < 64"
    and "R = {unat offset..<unat offset + unat count}"
  shows "\<exists>c md'. ClearRange offset count bm md = Some (R \<subseteq> F, bm\<lparr>num_bits := c\<rparr>, md') \<and>
     bitmap_repr b n (bm\<lparr>num_bits := c\<rparr>) md' (if R \<subseteq> F then F - R else F) \<and>
     same_outside b (storage_end b n bm) md md'"
proof -
  have r: "layout b n bm" "F \<subseteq> {..<n}" "\<forall>k<used_depths bm. level_repr b n md F k"
    "num_bits bm = of_nat (card F)" using assms(1) by (auto simp: bitmap_repr_def)
  have D: "0 < used_depths bm" using r(1) by (simp add: layout_def)
  have l0: "level_repr b n md F 0" using r(3) D by simp
  let ?w = "unat offset div 64"
  have w: "?w < hsize 1 n" using hsize_gt [OF assms(2), of 1] by simp
  define msk :: u64 where "msk = push_bit (unat offset mod 64) (push_bit (unat count) 1 - 1)"
  have inR: "bit msk i \<longleftrightarrow> 64 * ?w + i \<in> R" for i
    using bit_range_mask [OF assms(4), of i] div_mult_mod_eq [of "unat offset" 64]
    unfolding msk_def assms(6) atLeastLessThan_iff by linarith
  have wR: "y div 64 = ?w" if "y \<in> R" for y
  proof (rule div_nat_eqI)
    show "64 * ?w \<le> y" "y < 64 * Suc ?w"
      using that assms(4) div_mult_mod_eq [of "unat offset" 64]
      unfolding assms(6) atLeastLessThan_iff mult_Suc_right by linarith+
  qed
  let ?v = "md ! (b + ?w)"
  have v: "bit ?v i \<longleftrightarrow> 64 * ?w + i \<in> F" if "i < 64" for i
  proof -
    have "bit ?v i \<longleftrightarrow> hbit F 0 (64 * ?w + i)"
      using l0 w that unfolding level_repr_def One_nat_def hbase_0 by blast
    then show ?thesis by (simp add: hbit_def)
  qed
  have ok: "?v AND msk = msk \<longleftrightarrow> R \<subseteq> F"
  proof -
    have y: "y = 64 * ?w + y mod 64" if "y \<in> R" for y
      using wR [OF that] div_mult_mod_eq [of y 64] by (metis mult.commute)
    have lt: "i < 64" if "bit msk i" for i using bit_imp_le_length [OF that] by simp
    show ?thesis
    proof
      assume "?v AND msk = msk"
      then have sub: "bit ?v i" if "bit msk i" for i using that by (simp add: and_mask_eq_iff)
      show "R \<subseteq> F"
      proof
        fix y assume "y \<in> R"
        then have "bit msk (y mod 64)" using inR y by metis
        then show "y \<in> F" using sub v lt y [OF \<open>y \<in> R\<close>] by metis
      qed
    next
      assume "R \<subseteq> F"
      then show "?v AND msk = msk" using inR v lt by (auto simp: and_mask_eq_iff)
    qed
  qed
  have eq: "ClearRange offset count bm md =
      (if \<not> R \<subseteq> F then Some (False, bm, md)
       else do {
         md \<leftarrow> (if ?v AND NOT msk = 0
               then ClearBit_at (used_depths bm - 1) (offset div 64) bm (md[b + ?w := ?v AND NOT msk])
               else Some (md[b + ?w := ?v AND NOT msk]));
         Some (True, bm\<lparr>num_bits := num_bits bm - count\<rparr>, md)
       })"
    using D layout_addr [OF r(1) D, of "offset div 64"] level_repr_nth [OF l0, of ?w] w assms(5) ok
    by (simp add: ClearRange_def word_less_nat_alt msk_def Let_def del: push_bit_of_1)
  show ?thesis
  proof (cases "R \<subseteq> F")
    case True
    obtain md' where md': "(if ?v AND NOT msk = 0
         then ClearBit_at (used_depths bm - 1) (offset div 64) bm (md[b + ?w := ?v AND NOT msk])
         else Some (md[b + ?w := ?v AND NOT msk])) = Some md'"
      "\<forall>i<used_depths bm. level_repr b n md' (F - R) i" "same_outside b (storage_end b n bm) md md'"
      using clear_leaf_range [OF r(1,3) assms(2) wR inR _ refl refl, of "offset div 64"] by auto
    have "finite F" using r(2) by (rule finite_subset) simp
    then have "card (F - R) = card F - unat count" "unat count \<le> card F"
      using True assms(6) by (auto simp: card_Diff_subset dest: card_mono)
    then have "num_bits bm - count = of_nat (card (F - R))" using r(4) by (simp add: of_nat_diff)
    then have "bitmap_repr b n (bm\<lparr>num_bits := num_bits bm - count\<rparr>) md' (F - R)"
      using md' r by (auto simp: bitmap_repr_def)
    then show ?thesis using eq md' True by (intro exI [of _ "num_bits bm - count"] exI [of _ md']) simp
  next
    case False
    then show ?thesis using eq assms(1) by (intro exI [of _ "num_bits bm"] exI [of _ md]) simp
  qed
qed

section \<open>Initialisation\<close>

lemma GetRequiredDepth_pos [simp]: "0 < GetRequiredDepth n"
  by (subst GetRequiredDepth.simps) (simp add: Let_def)

lemma GetRequiredDepth_gt: "unat n < 64 ^ GetRequiredDepth n"
proof (induction n rule: GetRequiredDepth.induct)
  case (1 n)
  show ?case
  proof (cases "n div 64 = 0")
    case True
    then have "unat n div 64 = 0" by (simp add: u64_eq_iff)
    then show ?thesis using True by (subst GetRequiredDepth.simps) (simp add: Let_def)
  next
    case False
    then have "unat n div 64 < 64 ^ GetRequiredDepth (n div 64)" using 1 by simp
    then show ?thesis using False
      by (subst GetRequiredDepth.simps) (simp add: Let_def div_less_iff_less_mult mult.commute)
  qed
qed

lemma GetRequiredDepth_le: "unat n < 64 ^ k \<Longrightarrow> 0 < k \<Longrightarrow> GetRequiredDepth n \<le> k"
proof (induction n arbitrary: k rule: GetRequiredDepth.induct)
  case (1 n)
  show ?case
  proof (cases "n div 64 = 0")
    case True
    then show ?thesis using "1.prems" by (subst GetRequiredDepth.simps) (simp add: Let_def)
  next
    case False
    then have "unat n div 64 \<noteq> 0" by (auto simp: u64_eq_iff)
    then obtain j where k: "k = Suc j" "0 < j"
      using "1.prems" by (cases k; cases "k - 1") auto
    then have "unat (n div 64) < 64 ^ j" using "1.prems"(1)
      by (simp add: div_less_iff_less_mult mult.commute)
    then have "GetRequiredDepth (n div 64) \<le> j" using 1(1) False k(2) by simp
    then show ?thesis using False k(1) by (subst GetRequiredDepth.simps) (simp add: Let_def)
  qed
qed

lemma unat_words:
  assumes "unat sz \<le> 2 ^ 63"
  shows "unat (AlignUp sz 64) div 64 = ceil64 (unat sz)"
proof -
  obtain q r where qr: "unat sz = 64 * q + r" "r < 64"
    using div_mult_mod_eq [of "unat sz" 64] by (metis mod_less_divisor mult.commute zero_less_numeral)
  have "unat (AlignUp sz 64) = (if r = 0 then 64 * q else 64 * q + 64)"
    using assms qr by (subst unat_AlignUp) auto
  moreover have "ceil64 (unat sz) = (if r = 0 then q else Suc q)"
    unfolding ceil64_def qr(1) using qr(2) by (auto intro!: div_nat_eqI)
  ultimately show ?thesis by simp
qed

lemma ceil64_bound: "n \<le> 2 ^ 63 \<Longrightarrow> ceil64 n \<le> 2 ^ 63"
  by (simp add: ceil64_def)

lemma hsize_shift: "hsize k (ceil64 n) = hsize (Suc k) n"
  by (induction k) auto

lemma hbase_shift: "hbase (b + ceil64 n) (ceil64 n) k = hbase b n (Suc k)"
  by (induction k) (auto simp: hbase_Suc hsize_shift)

lemma Bitmap_Initialize_loop_correct:
  assumes "unat sz \<le> 2 ^ 63" and "d \<le> length storages"
  shows "\<exists>st. Bitmap_Initialize_loop d b sz storages = Some (hbase b (unat sz) d, st) \<and>
    length st = length storages \<and>
    (\<forall>k<d. nth_opt st (d - Suc k) = Some (Some (hbase b (unat sz) k))) \<and>
    (\<forall>i\<ge>d. st ! i = storages ! i)"
  using assms
proof (induction d arbitrary: b sz storages)
  case 0
  then show ?case by simp
next
  case (Suc d)
  let ?sz = "AlignUp sz 64 div 64" and ?st = "storages[d := Some b]"
  have sz: "unat (AlignUp sz 64) div 64 = ceil64 (unat sz)" using Suc.prems(1) by (rule unat_words)
  obtain st where st: "Bitmap_Initialize_loop d (b + unat ?sz) ?sz ?st =
      Some (hbase (b + unat ?sz) (unat ?sz) d, st)" "length st = length storages"
    "\<forall>k<d. nth_opt st (d - Suc k) = Some (Some (hbase (b + unat ?sz) (unat ?sz) k))"
    "\<forall>i\<ge>d. st ! i = ?st ! i"
    using Suc.IH [of ?sz ?st "b + unat ?sz"] Suc.prems ceil64_bound by (auto simp: sz)
  have "nth_opt st (Suc d - Suc k) = Some (Some (hbase b (unat sz) k))" if "k < Suc d" for k
  proof (cases k)
    case 0
    then show ?thesis using st(2,4) Suc.prems(2) by simp
  next
    case (Suc j)
    then show ?thesis using st(3) that by (simp add: sz hbase_shift)
  qed
  moreover have "\<forall>i\<ge>Suc d. st ! i = storages ! i" using st(4) by (auto simp: nth_list_update)
  ultimately show ?case
    using st(1,2) Suc.prems(2) by (simp add: Let_def sz hbase_shift)
qed

lemma Bitmap_Initialize_correct:
  assumes "0 < unat sz" and "unat sz < 64 ^ MaxDepth" and "length (bit_storages bm) = MaxDepth"
  obtains bm' where "Bitmap_Initialize b sz bm = Some (storage_end b (unat sz) bm', bm')"
    and "layout b (unat sz) bm'" and "num_bits bm' = 0" and "used_depths bm' = GetRequiredDepth sz"
    and "length (bit_storages bm') = MaxDepth"
proof -
  have "GetRequiredDepth sz \<le> length (bit_storages bm)"
    using GetRequiredDepth_le [OF assms(2)] assms(3) by (simp add: MaxDepth_def)
  moreover have "unat sz \<le> 2 ^ 63" using assms(2) by (simp add: MaxDepth_def)
  ultimately obtain st where "Bitmap_Initialize_loop (GetRequiredDepth sz) b sz (bit_storages bm) =
      Some (hbase b (unat sz) (GetRequiredDepth sz), st)" "length st = length (bit_storages bm)"
    "\<forall>k<GetRequiredDepth sz.
       nth_opt st (GetRequiredDepth sz - Suc k) = Some (Some (hbase b (unat sz) k))"
    using Bitmap_Initialize_loop_correct [of sz "GetRequiredDepth sz" "bit_storages bm" b] by auto
  then show ?thesis
    using that [of "bm\<lparr>num_bits := 0, used_depths := GetRequiredDepth sz, bit_storages := st\<rparr>"]
      assms GetRequiredDepth_gt [of sz]
    by (simp add: Bitmap_Initialize_def Let_def layout_def storage_end_def)
qed

lemma bitmap_repr_empty:
  assumes "layout b n bm" and "num_bits bm = 0" and "storage_end b n bm \<le> length md"
    and "\<And>i. b \<le> i \<Longrightarrow> i < storage_end b n bm \<Longrightarrow> md ! i = 0"
  shows "bitmap_repr b n bm md {}"
proof -
  have "level_repr b n md {} k" if "k < used_depths bm" for k
  proof -
    have "hbase b n (Suc k) \<le> storage_end b n bm" "b \<le> hbase b n k"
      using hbase_mono [of "Suc k" "used_depths bm" b n] hbase_mono [of 0 k b n] that
      by (auto simp: storage_end_def)
    then show ?thesis using assms(3,4) by (auto simp: level_repr_def hbit_def hbase_Suc)
  qed
  then show ?thesis using assms(1,2) by (simp add: bitmap_repr_def)
qed

text \<open>The words counted by \<open>CalculateMetadataOverheadSize\<close> are those that \<open>Initialize\<close> uses.\<close>

lemma Bitmap_overhead_loop_correct:
  assumes "unat sz \<le> 2 ^ 63" and "hbase (unat acc) (unat sz) d < 2 ^ 64"
  shows "unat (Bitmap_overhead_loop d sz acc) = hbase (unat acc) (unat sz) d"
  using assms
proof (induction d arbitrary: sz acc)
  case (Suc d)
  have sz: "unat (AlignUp sz 64) div 64 = ceil64 (unat sz)" using Suc.prems(1) by (rule unat_words)
  have "unat acc + ceil64 (unat sz) \<le> hbase (unat acc) (unat sz) (Suc d)"
    using hbase_mono [of 1 "Suc d" "unat acc" "unat sz"] by (simp add: hbase_Suc)
  then have acc: "unat (acc + AlignUp sz 64 div 64) = unat acc + ceil64 (unat sz)"
    using Suc.prems(2) sz by (simp add: unat_plus)
  show ?case
    using Suc.IH [of "AlignUp sz 64 div 64" "acc + AlignUp sz 64 div 64"] Suc.prems ceil64_bound
    by (simp add: Let_def sz acc hbase_shift)
qed simp

section \<open>Every history of a bitmap\<close>

text \<open>
  The states a bitmap of \<open>sz\<close> bits goes through when its clients respect the assertions of the
  code: a bit is set only when clear, cleared only when set, and ranges stay within a word. The
  last argument is the set of offsets the history put in.
\<close>

inductive bitmap_reach :: "u64 \<Rightarrow> Bitmap \<Rightarrow> u64 list \<Rightarrow> nat set \<Rightarrow> bool" for sz where
  initialize: "Bitmap_Initialize 0 sz mk_Bitmap = Some (e, bm) \<Longrightarrow>
    bitmap_reach sz bm (replicate e 0) {}"
| set_bit: "bitmap_reach sz bm md F \<Longrightarrow> offset < sz \<Longrightarrow> unat offset \<notin> F \<Longrightarrow>
    SetBit offset bm md = Some (bm', md') \<Longrightarrow> bitmap_reach sz bm' md' (insert (unat offset) F)"
| clear_bit: "bitmap_reach sz bm md F \<Longrightarrow> unat offset \<in> F \<Longrightarrow>
    ClearBit offset bm md = Some (bm', md') \<Longrightarrow> bitmap_reach sz bm' md' (F - {unat offset})"
| clear_range: "bitmap_reach sz bm md F \<Longrightarrow> offset < sz \<Longrightarrow> 0 < count \<Longrightarrow> count < 64 \<Longrightarrow>
    unat offset mod 64 + unat count \<le> 64 \<Longrightarrow>
    ClearRange offset count bm md = Some (ok, bm', md') \<Longrightarrow>
    bitmap_reach sz bm' md'
      (if ok then F - {unat offset..<unat offset + unat count} else F)"

lemma bitmap_reach_repr:
  assumes "bitmap_reach sz bm md F" and "0 < unat sz" and "unat sz < 64 ^ MaxDepth"
  shows "bitmap_repr 0 (unat sz) bm md F"
  using assms(1)
proof induction
  case (initialize e bm)
  obtain bm' where bm': "Bitmap_Initialize 0 sz mk_Bitmap = Some (storage_end 0 (unat sz) bm', bm')"
    "layout 0 (unat sz) bm'" "num_bits bm' = 0"
    by (rule Bitmap_Initialize_correct [OF assms(2,3), of mk_Bitmap 0]) (auto simp: mk_Bitmap_def)
  then show ?case using initialize by (auto intro!: bitmap_repr_empty)
next
  case (set_bit bm md F offset bm' md')
  then show ?case using SetBit_correct [OF set_bit.IH, of offset] by (auto simp: word_less_nat_alt)
next
  case (clear_bit bm md F offset bm' md')
  then show ?case using ClearBit_correct [OF clear_bit.IH, of offset] by auto
next
  case (clear_range bm md F offset count ok bm' md')
  let ?R = "{unat offset..<unat offset + unat count}"
  have "\<exists>c md1. ClearRange offset count bm md = Some (?R \<subseteq> F, bm\<lparr>num_bits := c\<rparr>, md1) \<and>
    bitmap_repr 0 (unat sz) (bm\<lparr>num_bits := c\<rparr>) md1 (if ?R \<subseteq> F then F - ?R else F) \<and>
    same_outside 0 (storage_end 0 (unat sz) bm) md md1"
    using clear_range by (intro ClearRange_correct) (auto simp: word_less_nat_alt)
  then obtain c md1 where "ClearRange offset count bm md = Some (?R \<subseteq> F, bm\<lparr>num_bits := c\<rparr>, md1)"
    "bitmap_repr 0 (unat sz) (bm\<lparr>num_bits := c\<rparr>) md1 (if ?R \<subseteq> F then F - ?R else F)" by blast
  then show ?case using clear_range.hyps(6) by simp
qed

text \<open>
  C5. The free-block bitmap implements a set. In every state reached from \<open>Initialize\<close> by setting
  and clearing bits, \<open>FindFreeBlock\<close> returns the least offset put in and not yet removed, or -1 when
  there is none; \<open>num_bits\<close> counts the set; and setting a bit that is clear, or clearing one that is
  set, never accesses a word outside the metadata. The bound on the size is the four levels the
  code has room for.
\<close>
theorem Bitmap_implements_set:
  assumes "bitmap_reach sz bm md F" and "0 < unat sz" and "unat sz < 64 ^ MaxDepth"
  shows "FindFreeBlock bm md = Some (if F = {} then - 1 else of_nat (Min F)) \<and>
    num_bits bm = of_nat (card F) \<and>
    (\<forall>offset. offset < sz \<longrightarrow> unat offset \<notin> F \<longrightarrow> SetBit offset bm md \<noteq> None) \<and>
    (\<forall>offset. unat offset \<in> F \<longrightarrow> ClearBit offset bm md \<noteq> None)"
proof -
  have r: "bitmap_repr 0 (unat sz) bm md F" using assms by (rule bitmap_reach_repr)
  have "unat sz \<le> 2 ^ 63" using assms(3) by (simp add: MaxDepth_def)
  then have "FindFreeBlock bm md = Some (if F = {} then - 1 else of_nat (Min F))"
    using r by (intro FindFreeBlock_correct)
  moreover have "SetBit offset bm md \<noteq> None" if "offset < sz" "unat offset \<notin> F" for offset
    using SetBit_correct [OF r] that by (metis option.distinct(1) word_less_nat_alt)
  moreover have "ClearBit offset bm md \<noteq> None" if "unat offset \<in> F" for offset
    using ClearBit_correct [OF r that] by (metis option.distinct(1))
  ultimately show ?thesis using r by (simp add: bitmap_repr_def)
qed

text \<open>A bitmap of 70 bits in two levels, with bits 65 and 66 set and 65 cleared again.\<close>

definition example_bitmap :: "(Bitmap \<times> u64 list) option" where
  "example_bitmap = do {
     (e, bm) \<leftarrow> Bitmap_Initialize 0 70 mk_Bitmap;
     (bm, md) \<leftarrow> SetBit 65 bm (replicate e 0);
     (bm, md) \<leftarrow> SetBit 66 bm md;
     ClearBit 65 bm md
   }"

lemma example_bitmap_reach:
  "\<exists>bm md. example_bitmap = Some (bm, md) \<and> bitmap_reach 70 bm md {66}"
proof -
  have i: "bitmap_reach 70 bm (replicate e 0) {}" if "Bitmap_Initialize 0 70 mk_Bitmap = Some (e, bm)" for e bm
    using that by (rule bitmap_reach.initialize)
  have s: "bitmap_reach 70 bm' md' (insert (unat x) F)"
    if "bitmap_reach 70 bm md F" "SetBit x bm md = Some (bm', md')" "x < 70" "unat x \<notin> F"
    for bm md F x bm' md' using that by (blast intro: bitmap_reach.set_bit)
  have "example_bitmap \<noteq> None" by code_simp
  then obtain e bm0 bm1 md1 bm2 md2 bm3 md3 where h: "Bitmap_Initialize 0 70 mk_Bitmap = Some (e, bm0)"
    "SetBit 65 bm0 (replicate e 0) = Some (bm1, md1)" "SetBit 66 bm1 md1 = Some (bm2, md2)"
    "ClearBit 65 bm2 md2 = Some (bm3, md3)" "example_bitmap = Some (bm3, md3)"
    by (auto simp: example_bitmap_def bind_eq_Some_conv)
  have "bitmap_reach 70 bm2 md2 {65, 66}"
    using s [OF s [OF i [OF h(1)] h(2)] h(3)] by (simp add: insert_commute)
  then have "bitmap_reach 70 bm3 md3 ({65, 66} - {unat (65 :: u64)})"
    using h(4) by (intro bitmap_reach.clear_bit) auto
  moreover have "({65, 66} :: nat set) - {unat (65 :: u64)} = {66}" by auto
  ultimately show ?thesis using h(5) by metis
qed

theorem Bitmap_implements_set_witness:
  "\<exists>bm md. example_bitmap = Some (bm, md) \<and> bitmap_reach 70 bm md {66} \<and>
     FindFreeBlock bm md = Some 66 \<and> num_bits bm = 1"
proof -
  obtain bm md where h: "example_bitmap = Some (bm, md)" "bitmap_reach 70 bm md {66}"
    using example_bitmap_reach by blast
  then show ?thesis
    using Bitmap_implements_set [OF h(2)] by (auto simp: MaxDepth_def)
qed

end
