(* ===== verification/Page_Heap.thy ===== *)
theory Page_Heap
  imports Bitmap Memory_Block "HOL-Library.Disjoint_Sets"
begin

text \<open>
  The physical page heap: \<^verbatim>\<open>core/hle/kernel/memory/page_heap.h\<close> and
  \<^verbatim>\<open>page_heap.cpp\<close>. Seven lists of free blocks, of 4 KiB to 1 GiB, each with its bitmap; all
  bitmaps share the metadata vector of the heap. Freeing a block that completes the group of a
  larger block moves the group to the next list.

  \<open>heap_repr\<close> relates a heap to the set of free physical addresses. The lemmas show that
  \<^verbatim>\<open>FreeBlock\<close> and \<^verbatim>\<open>Free\<close> add exactly the range they are given, that \<^verbatim>\<open>AllocateBlock\<close>
  takes exactly the block it returns, and that \<^verbatim>\<open>Initialize\<close> fits into the metadata that
  \<^verbatim>\<open>CalculateMetadataOverheadSize\<close> reserves.
\<close>

section \<open>Block sizes\<close>

definition NumMemoryBlockPageShifts :: nat where
  "NumMemoryBlockPageShifts = 7"

definition MemoryBlockPageShifts :: "nat list" where
  "MemoryBlockPageShifts = [0xC, 0x10, 0x15, 0x16, 0x19, 0x1D, 0x1E]"

definition GetAlignedBlockIndex :: "u64 \<Rightarrow> u64 \<Rightarrow> int" where
  "GetAlignedBlockIndex num_pages align_pages =
     (let target_pages = max num_pages align_pages
      in case find (\<lambda>i. target_pages \<le> push_bit (MemoryBlockPageShifts ! i) 1 div PageSize)
                [0..<NumMemoryBlockPageShifts] of
           Some i \<Rightarrow> int i
         | None \<Rightarrow> - 1)"

definition GetBlockIndex :: "u64 \<Rightarrow> int" where
  "GetBlockIndex num_pages =
     (case find (\<lambda>i. num_pages \<ge> push_bit (MemoryBlockPageShifts ! i) 1 div PageSize)
             (rev [0..<NumMemoryBlockPageShifts]) of
        Some i \<Rightarrow> int i
      | None \<Rightarrow> - 1)"

definition GetBlockSize :: "nat \<Rightarrow> u64 option" where
  "GetBlockSize index = do {
     shift \<leftarrow> nth_opt MemoryBlockPageShifts index;
     Some (push_bit shift 1)
   }"

definition GetBlockNumPages :: "nat \<Rightarrow> u64 option" where
  "GetBlockNumPages index = do {
     sz \<leftarrow> GetBlockSize index;
     Some (sz div PageSize)
   }"

section \<open>The list of one size\<close>

record Block =
  blk_bitmap :: Bitmap
  blk_heap_address :: u64
  blk_end_offset :: u64
  blk_shift :: nat
  blk_next_shift :: nat

definition mk_Block :: Block where
  "mk_Block = \<lparr>blk_bitmap = mk_Bitmap, blk_heap_address = 0, blk_end_offset = 0, blk_shift = 0,
     blk_next_shift = 0\<rparr>"

definition Block_GetSize :: "Block \<Rightarrow> u64" where
  "Block_GetSize blk = push_bit (blk_shift blk) 1"

definition Block_GetNumPages :: "Block \<Rightarrow> u64" where
  "Block_GetNumPages blk = Block_GetSize blk div PageSize"

definition Block_GetNumFreePages :: "Block \<Rightarrow> u64" where
  "Block_GetNumFreePages blk = num_bits (blk_bitmap blk) * Block_GetNumPages blk"

definition Block_Initialize ::
  "u64 \<Rightarrow> u64 \<Rightarrow> nat \<Rightarrow> nat \<Rightarrow> nat \<Rightarrow> Block \<Rightarrow> (nat \<times> Block) option" where
  "Block_Initialize addr sz bs nbs bit_storage blk = do {
     let end = addr + sz;
     let align = (if nbs \<noteq> 0 then push_bit nbs 1 else push_bit bs 1);
     let addr = AlignDown addr align;
     let end = AlignUp end align;
     let end_offset = (end - addr) div push_bit bs 1;
     (storage, bm) \<leftarrow> Bitmap_Initialize bit_storage end_offset (blk_bitmap blk);
     Some (storage, blk\<lparr>blk_bitmap := bm, blk_heap_address := addr, blk_end_offset := end_offset,
       blk_shift := bs, blk_next_shift := nbs\<rparr>)
   }"

definition PushBlock :: "u64 \<Rightarrow> Block \<Rightarrow> u64 list \<Rightarrow> (u64 \<times> Block \<times> u64 list) option" where
  "PushBlock address blk md = do {
     let offset = drop_bit (blk_shift blk) (address - blk_heap_address blk);
     (bm, md) \<leftarrow> SetBit offset (blk_bitmap blk) md;
     let blk = blk\<lparr>blk_bitmap := bm\<rparr>;
     if blk_next_shift blk \<noteq> 0 then
       if blk_next_shift blk < blk_shift blk then None
       else do {
         let diff = push_bit (blk_next_shift blk - blk_shift blk) 1;
         let offset = AlignDown offset diff;
         (ok, bm, md) \<leftarrow> ClearRange offset diff (blk_bitmap blk) md;
         let blk = blk\<lparr>blk_bitmap := bm\<rparr>;
         if ok then Some (blk_heap_address blk + push_bit (blk_shift blk) offset, blk, md)
         else Some (0, blk, md)
       }
     else Some (0, blk, md)
   }"

definition PopBlock :: "Block \<Rightarrow> u64 list \<Rightarrow> (u64 \<times> Block \<times> u64 list) option" where
  "PopBlock blk md = do {
     soffset \<leftarrow> FindFreeBlock (blk_bitmap blk) md;
     if sint soffset < 0 then Some (0, blk, md)
     else do {
       (bm, md) \<leftarrow> ClearBit soffset (blk_bitmap blk) md;
       Some (blk_heap_address blk + push_bit (blk_shift blk) soffset, blk\<lparr>blk_bitmap := bm\<rparr>, md)
     }
   }"

definition Block_CalculateMetadataOverheadSize :: "u64 \<Rightarrow> nat \<Rightarrow> nat \<Rightarrow> u64" where
  "Block_CalculateMetadataOverheadSize region_size cur_block_shift next_block_shift =
     (let cur_block_size = push_bit cur_block_shift 1;
          next_block_size = push_bit next_block_shift 1;
          align = (if next_block_shift \<noteq> 0 then next_block_size else cur_block_size)
      in Bitmap_CalculateMetadataOverheadSize
           ((align * 2 + AlignUp region_size align) div cur_block_size))"

section \<open>The heap\<close>

record PageHeap =
  ph_heap_address :: u64
  ph_heap_size :: u64
  ph_used_size :: u64
  ph_blocks :: "Block list"
  ph_metadata :: "u64 list"

definition mk_PageHeap :: PageHeap where
  "mk_PageHeap = \<lparr>ph_heap_address = 0, ph_heap_size = 0, ph_used_size = 0,
     ph_blocks = replicate NumMemoryBlockPageShifts mk_Block, ph_metadata = []\<rparr>"

definition PageHeap_GetEndAddress :: "PageHeap \<Rightarrow> u64" where
  "PageHeap_GetEndAddress h = ph_heap_address h + ph_heap_size h"

definition GetPageOffset :: "u64 \<Rightarrow> PageHeap \<Rightarrow> u64" where
  "GetPageOffset block h = (block - ph_heap_address h) div PageSize"

definition PageHeap_GetNumFreePages :: "PageHeap \<Rightarrow> u64" where
  "PageHeap_GetNumFreePages h = fold (\<lambda>blk num_free. num_free + Block_GetNumFreePages blk) (ph_blocks h) 0"

definition UpdateUsedSize :: "PageHeap \<Rightarrow> PageHeap" where
  "UpdateUsedSize h = h\<lparr>ph_used_size := ph_heap_size h - PageHeap_GetNumFreePages h * PageSize\<rparr>"

text \<open>The shift of the next larger blocks, 0 at the last.\<close>

definition next_shift :: "nat \<Rightarrow> nat" where
  "next_shift i =
     (if i \<noteq> length MemoryBlockPageShifts - 1 then MemoryBlockPageShifts ! (i + 1) else 0)"

fun PageHeap_Initialize_loop :: "nat list \<Rightarrow> nat \<Rightarrow> PageHeap \<Rightarrow> PageHeap option" where
  "PageHeap_Initialize_loop [] cur_bitmap_storage h = Some h"
| "PageHeap_Initialize_loop (i # is) cur_bitmap_storage h = do {
     blk \<leftarrow> nth_opt (ph_blocks h) i;
     (cur_bitmap_storage, blk) \<leftarrow> Block_Initialize (ph_heap_address h) (ph_heap_size h)
       (MemoryBlockPageShifts ! i) (next_shift i) cur_bitmap_storage blk;
     PageHeap_Initialize_loop is cur_bitmap_storage (h\<lparr>ph_blocks := (ph_blocks h)[i := blk]\<rparr>)
   }"

definition PageHeap_Initialize :: "u64 \<Rightarrow> u64 \<Rightarrow> u64 \<Rightarrow> PageHeap \<Rightarrow> PageHeap option" where
  "PageHeap_Initialize address sz metadata_size h = do {
     let n = unat (metadata_size div 8);
     let h = h\<lparr>ph_heap_address := address, ph_heap_size := sz,
       ph_metadata := take n (ph_metadata h @ replicate n 0)\<rparr>;
     PageHeap_Initialize_loop [0..<length MemoryBlockPageShifts] 0 h
   }"

function FreeBlock :: "u64 \<Rightarrow> nat \<Rightarrow> PageHeap \<Rightarrow> PageHeap option" where
  "FreeBlock block index h = do {
     blk \<leftarrow> nth_opt (ph_blocks h) index;
     (block, blk, md) \<leftarrow> PushBlock block blk (ph_metadata h);
     let h = h\<lparr>ph_blocks := (ph_blocks h)[index := blk], ph_metadata := md\<rparr>;
     if block \<noteq> 0 then FreeBlock block (index + 1) h else Some h
   }"
  by auto
termination
  by (relation "measure (\<lambda>(block, index, h). length (ph_blocks h) - index)")
     (auto simp: nth_opt_eq_Some)

declare FreeBlock.simps [simp del]

text \<open>
  The loops of \<^verbatim>\<open>PageHeap::Free\<close>: the big blocks, then the space before and after them.
  \<open>Free_big\<close>, \<open>Free_before\<close> and \<open>Free_after\<close> count the index down; they take the index plus one.
  The inner loops would run forever on a block size of zero, hence the partial functions.
\<close>

partial_function (option) Free_big_loop ::
  "nat \<Rightarrow> u64 \<Rightarrow> u64 \<Rightarrow> u64 \<Rightarrow> PageHeap \<Rightarrow> PageHeap option" where
  "Free_big_loop index block_size big_end block h =
     (if block < big_end
      then do {
        h \<leftarrow> FreeBlock block index h;
        Free_big_loop index block_size big_end (block + block_size) h
      }
      else Some h)"

fun Free_big :: "nat \<Rightarrow> u64 \<Rightarrow> u64 \<Rightarrow> PageHeap \<Rightarrow> (nat \<times> u64 \<times> u64 \<times> PageHeap) option" where
  "Free_big 0 start end h = Some (0, start, end, h)"
| "Free_big (Suc big_index) start end h = do {
     blk \<leftarrow> nth_opt (ph_blocks h) big_index;
     let block_size = Block_GetSize blk;
     let big_start = AlignUp start block_size;
     let big_end = AlignDown end block_size;
     if big_start < big_end
     then do {
       h \<leftarrow> Free_big_loop big_index block_size big_end big_start h;
       Some (Suc big_index, big_start, big_end, h)
     }
     else Free_big big_index start end h
   }"

partial_function (option) Free_before_loop ::
  "nat \<Rightarrow> u64 \<Rightarrow> u64 \<Rightarrow> u64 \<Rightarrow> PageHeap \<Rightarrow> (u64 \<times> PageHeap) option" where
  "Free_before_loop i block_size before_start before_end h =
     (if before_start + block_size \<le> before_end
      then do {
        let before_end = before_end - block_size;
        h \<leftarrow> FreeBlock before_end i h;
        Free_before_loop i block_size before_start before_end h
      }
      else Some (before_end, h))"

fun Free_before :: "nat \<Rightarrow> u64 \<Rightarrow> u64 \<Rightarrow> PageHeap \<Rightarrow> PageHeap option" where
  "Free_before 0 before_start before_end h = Some h"
| "Free_before (Suc i) before_start before_end h = do {
     blk \<leftarrow> nth_opt (ph_blocks h) i;
     (before_end, h) \<leftarrow> Free_before_loop i (Block_GetSize blk) before_start before_end h;
     Free_before i before_start before_end h
   }"

partial_function (option) Free_after_loop ::
  "nat \<Rightarrow> u64 \<Rightarrow> u64 \<Rightarrow> u64 \<Rightarrow> PageHeap \<Rightarrow> (u64 \<times> PageHeap) option" where
  "Free_after_loop i block_size after_start after_end h =
     (if after_start + block_size \<le> after_end
      then do {
        h \<leftarrow> FreeBlock after_start i h;
        let after_start = after_start + block_size;
        Free_after_loop i block_size after_start after_end h
      }
      else Some (after_start, h))"

fun Free_after :: "nat \<Rightarrow> u64 \<Rightarrow> u64 \<Rightarrow> PageHeap \<Rightarrow> PageHeap option" where
  "Free_after 0 after_start after_end h = Some h"
| "Free_after (Suc i) after_start after_end h = do {
     blk \<leftarrow> nth_opt (ph_blocks h) i;
     (after_start, h) \<leftarrow> Free_after_loop i (Block_GetSize blk) after_start after_end h;
     Free_after i after_start after_end h
   }"

definition Free :: "u64 \<Rightarrow> u64 \<Rightarrow> PageHeap \<Rightarrow> PageHeap option" where
  "Free addr num_pages h =
     (if num_pages = 0 then Some h
      else do {
        let start = addr;
        let end = num_pages * PageSize + addr;
        (n, before_end, after_start, h) \<leftarrow> Free_big (length MemoryBlockPageShifts) start end h;
        h \<leftarrow> Free_before (n - 1) start before_end h;
        Free_after (n - 1) after_start end h
      })"

text \<open>A negative index is an access before the array.\<close>

fun AllocateBlock_loop :: "u64 \<Rightarrow> nat list \<Rightarrow> PageHeap \<Rightarrow> (u64 \<times> PageHeap) option" where
  "AllocateBlock_loop needed_size [] h = Some (0, h)"
| "AllocateBlock_loop needed_size (i # is) h = do {
     blk \<leftarrow> nth_opt (ph_blocks h) i;
     (addr, blk, md) \<leftarrow> PopBlock blk (ph_metadata h);
     let h = h\<lparr>ph_blocks := (ph_blocks h)[i := blk], ph_metadata := md\<rparr>;
     if addr \<noteq> 0 then do {
       let allocated_size = Block_GetSize blk;
       h \<leftarrow> (if allocated_size > needed_size
             then Free (addr + needed_size) ((allocated_size - needed_size) div PageSize) h
             else Some h);
       Some (addr, h)
     }
     else AllocateBlock_loop needed_size is h
   }"

definition AllocateBlock :: "int \<Rightarrow> PageHeap \<Rightarrow> (u64 \<times> PageHeap) option" where
  "AllocateBlock index h =
     (if index < 0 then None
      else do {
        blk \<leftarrow> nth_opt (ph_blocks h) (nat index);
        AllocateBlock_loop (Block_GetSize blk) [nat index..<length MemoryBlockPageShifts] h
      })"

definition PageHeap_CalculateMetadataOverheadSize :: "u64 \<Rightarrow> u64" where
  "PageHeap_CalculateMetadataOverheadSize region_size =
     (let overhead_size = fold (\<lambda>i overhead_size.
            overhead_size +
            Block_CalculateMetadataOverheadSize region_size (MemoryBlockPageShifts ! i) (next_shift i))
          [0..<length MemoryBlockPageShifts] 0
      in AlignUp overhead_size PageSize)"

section \<open>Shifts\<close>

abbreviation sh :: "nat \<Rightarrow> nat" where
  "sh i \<equiv> MemoryBlockPageShifts ! i"

lemma length_shifts [simp]: "length MemoryBlockPageShifts = 7"
  by (simp add: MemoryBlockPageShifts_def)

lemma less7_cases: "i < 7 \<Longrightarrow> i = 0 \<or> i = 1 \<or> i = 2 \<or> i = 3 \<or> i = 4 \<or> i = 5 \<or> i = 6" for i :: nat
  by linarith

lemma sh_bounds: "i < 7 \<Longrightarrow> 12 \<le> sh i" "i < 7 \<Longrightarrow> sh i \<le> 30"
  using less7_cases [of i] by (auto simp: MemoryBlockPageShifts_def)

lemma next_shift_props:
  assumes "i < 6"
  shows "next_shift i = sh (Suc i)" and "sh i < next_shift i" and "next_shift i - sh i \<le> 5"
    and "next_shift i \<noteq> 0"
  using less7_cases [of i] assms by (auto simp: next_shift_def MemoryBlockPageShifts_def)

lemma next_shift_last [simp]: "next_shift 6 = 0"
  by (simp add: next_shift_def)

lemma sh_mono: "i \<le> j \<Longrightarrow> j < 7 \<Longrightarrow> sh i \<le> sh j"
proof (induction rule: dec_induct)
  case (step k)
  then show ?case using next_shift_props(1,2) [of k] by auto
qed simp

lemma sh_0 [simp]: "sh 0 = 12"
  by (simp add: MemoryBlockPageShifts_def)

lemma push_bit_exp: "push_bit n (1 :: u64) = 2 ^ n"
  by simp

lemma unat_push_bit64: "unat a * 2 ^ n < 2 ^ 64 \<Longrightarrow> n < 64 \<Longrightarrow> unat (push_bit n a) = unat a * 2 ^ n" for a :: u64
  by (simp add: push_bit_eq_mult unat_times unat_pow2)

lemma unat_drop_bit64: "unat (drop_bit n a) = unat a div 2 ^ n" for a :: u64
  unfolding unsigned_drop_bit_eq using take_bit_nat_eq_self [OF unat_lt64 [of a]]
  by (simp add: drop_bit_eq_div)

lemma Block_GetSize_eq: "blk_shift blk = sh i \<Longrightarrow> i < 7 \<Longrightarrow> unat (Block_GetSize blk) = 2 ^ sh i"
  using sh_bounds [of i] by (simp add: Block_GetSize_def unat_pow2)

section \<open>One list as a set of areas\<close>

definition blk_lo :: "Block \<Rightarrow> nat" where
  "blk_lo blk = unat (blk_heap_address blk)"

definition blk_hi :: "Block \<Rightarrow> nat" where
  "blk_hi blk = blk_lo blk + unat (blk_end_offset blk) * 2 ^ blk_shift blk"

definition area :: "Block \<Rightarrow> nat \<Rightarrow> nat set" where
  "area blk x = {blk_lo blk + x * 2 ^ blk_shift blk..<blk_lo blk + Suc x * 2 ^ blk_shift blk}"

text \<open>The fixed part of a list: its size, its place and its alignment.\<close>

definition block_shape :: "nat \<Rightarrow> Block \<Rightarrow> bool" where
  "block_shape i blk \<longleftrightarrow> i < 7 \<and> blk_shift blk = sh i \<and> blk_next_shift blk = next_shift i \<and>
     0 < blk_lo blk \<and> 2 ^ sh (min 6 (Suc i)) dvd blk_lo blk \<and> blk_hi blk + 2 ^ 30 < 2 ^ 64"

definition block_repr :: "nat \<Rightarrow> Block \<Rightarrow> u64 list \<Rightarrow> nat set \<Rightarrow> bool" where
  "block_repr b blk md F \<longleftrightarrow> bitmap_repr b (unat (blk_end_offset blk)) (blk_bitmap blk) md F"

definition blk_storage_end :: "nat \<Rightarrow> Block \<Rightarrow> nat" where
  "blk_storage_end b blk = storage_end b (unat (blk_end_offset blk)) (blk_bitmap blk)"

text \<open>Only the count of free blocks of a list ever changes.\<close>

definition with_count :: "u64 \<Rightarrow> Block \<Rightarrow> Block" where
  "with_count c blk = blk\<lparr>blk_bitmap := (blk_bitmap blk)\<lparr>num_bits := c\<rparr>\<rparr>"

lemma with_count_simps [simp]:
  "blk_lo (with_count c blk) = blk_lo blk" "blk_hi (with_count c blk) = blk_hi blk"
  "area (with_count c blk) = area blk" "block_shape i (with_count c blk) = block_shape i blk"
  "blk_storage_end b (with_count c blk) = blk_storage_end b blk"
  "blk_shift (with_count c blk) = blk_shift blk" "blk_end_offset (with_count c blk) = blk_end_offset blk"
  "Block_GetSize (with_count c blk) = Block_GetSize blk"
  "with_count c (with_count d blk) = with_count c blk"
  "blk_bitmap (with_count c blk) = (blk_bitmap blk)\<lparr>num_bits := c\<rparr>"
  by (auto simp: with_count_def blk_lo_def blk_hi_def area_def block_shape_def blk_storage_end_def
      Block_GetSize_def)

lemma area_in_block: "x < unat (blk_end_offset blk) \<Longrightarrow> area blk x \<subseteq> {blk_lo blk..<blk_hi blk}"
proof -
  assume "x < unat (blk_end_offset blk)"
  then have "Suc x * 2 ^ blk_shift blk \<le> unat (blk_end_offset blk) * 2 ^ blk_shift blk"
    by (intro mult_le_mono1) simp
  then show ?thesis by (auto simp: area_def blk_hi_def)
qed

lemma area_index: "y \<in> area blk x \<longleftrightarrow> blk_lo blk \<le> y \<and> (y - blk_lo blk) div 2 ^ blk_shift blk = x"
proof -
  let ?p = "2 ^ blk_shift blk :: nat"
  have "z div ?p = x \<longleftrightarrow> x * ?p \<le> z \<and> z < Suc x * ?p" for z
    using dividend_less_times_div [of ?p z] times_div_less_eq_dividend [of ?p z]
    by (auto simp: mult.commute intro: div_nat_eqI)
  then have "blk_lo blk \<le> y \<and> (y - blk_lo blk) div ?p = x \<longleftrightarrow>
      blk_lo blk \<le> y \<and> x * ?p \<le> y - blk_lo blk \<and> y - blk_lo blk < Suc x * ?p" by blast
  also have "\<dots> \<longleftrightarrow> y \<in> area blk x"
    unfolding area_def atLeastLessThan_iff by linarith
  finally show ?thesis by simp
qed

text \<open>A group of areas is one area of the next size.\<close>

lemma Union_areas:
  "\<Union> (area blk ` {g..<g + d}) =
     {blk_lo blk + g * 2 ^ blk_shift blk..<blk_lo blk + (g + d) * 2 ^ blk_shift blk}"
proof (induction d)
  case (Suc d)
  have "{g..<g + Suc d} = insert (g + d) {g..<g + d}" by auto
  then show ?case using Suc by (auto simp: area_def algebra_simps)
qed simp

text \<open>
  \<open>PushBlock\<close> either adds the block to the list, or finds the group complete, removes it and
  returns the address of the group.
\<close>

lemma group_in_word:
  assumes "d \<le> 5" and "2 ^ d dvd g"
  shows "g mod 64 + 2 ^ d \<le> (64 :: nat)"
proof -
  have "(2 :: nat) ^ d dvd 64"
    using assms(1) le_imp_power_dvd [of d 6 "2 :: nat"] by simp
  moreover from this have "2 ^ d dvd g mod 64" using assms(2) by (simp add: dvd_mod)
  ultimately show ?thesis using mult_dvd_gap [of "2 ^ d" "g mod 64" 64] by simp
qed

lemma unat_block_address:
  assumes "block_shape i blk" and "unat off < unat (blk_end_offset blk)"
  shows "unat (blk_heap_address blk + push_bit (sh i) off) = blk_lo blk + unat off * 2 ^ sh i"
proof -
  have "i < 7" "blk_lo blk + unat (blk_end_offset blk) * 2 ^ sh i < 2 ^ 64"
    using assms(1) by (auto simp: block_shape_def blk_hi_def)
  moreover have "unat off * 2 ^ sh i \<le> unat (blk_end_offset blk) * 2 ^ sh i"
    using assms(2) by simp
  ultimately have "blk_lo blk + unat off * 2 ^ sh i < 2 ^ 64" "sh i < 64"
    using sh_bounds(2) [of i] by linarith+
  moreover from this have "unat (push_bit (sh i) off) = unat off * 2 ^ sh i"
    by (intro unat_push_bit64) auto
  ultimately show ?thesis by (simp add: unat_plus blk_lo_def)
qed

lemma PushBlock_coalesce:
  assumes "SetBit off bm md = Some (bm1, md1)"
    and "ClearRange (AlignDown off (2 ^ d)) (2 ^ d) bm1 md1 = Some (ok, bm2, md2)"
    and "blk_bitmap blk = bm" and "blk_shift blk = s" and "blk_next_shift blk = n" and "s < n"
    and "d = n - s" and "off = drop_bit s (a - blk_heap_address blk)"
  shows "PushBlock a blk md = Some (if ok
       then blk_heap_address blk + push_bit s (AlignDown off (2 ^ d)) else 0, blk\<lparr>blk_bitmap := bm2\<rparr>, md2)"
  using assms by (auto simp: PushBlock_def Let_def)

lemma PushBlock_correct:
  assumes "block_shape i blk" and "block_repr b blk md F" and "x < unat (blk_end_offset blk)"
    and "x \<notin> F" and "unat a = blk_lo blk + x * 2 ^ sh i"
  shows "\<exists>r c md'. PushBlock a blk md = Some (r, with_count c blk, md') \<and>
    same_outside b (blk_storage_end b blk) md md' \<and>
    (if r = 0 then block_repr b (with_count c blk) md' (insert x F)
     else i < 6 \<and> (\<exists>g. {g..<g + 2 ^ (next_shift i - sh i)} \<subseteq> insert x F \<and>
       unat r = blk_lo blk + g * 2 ^ sh i \<and> 2 ^ sh (Suc i) dvd unat r \<and>
       block_repr b (with_count c blk) md' (insert x F - {g..<g + 2 ^ (next_shift i - sh i)})))"
proof -
  let ?bm = "blk_bitmap blk" and ?n = "unat (blk_end_offset blk)"
  have s: "i < 7" "blk_shift blk = sh i" "blk_next_shift blk = next_shift i" "blk_hi blk < 2 ^ 64"
    using assms(1) by (auto simp: block_shape_def)
  have r: "bitmap_repr b ?n ?bm md F" using assms(2) by (simp add: block_repr_def)
  define off where "off = drop_bit (sh i) (a - blk_heap_address blk)"
  have off: "unat off = x"
    using assms(5) by (simp add: off_def unat_drop_bit64 unat_diff blk_lo_def)
  obtain md1 where md1: "SetBit off ?bm md = Some (?bm\<lparr>num_bits := num_bits ?bm + 1\<rparr>, md1)"
    "bitmap_repr b ?n (?bm\<lparr>num_bits := num_bits ?bm + 1\<rparr>) md1 (insert x F)"
    "same_outside b (storage_end b ?n ?bm) md md1"
    using SetBit_correct [OF r, of off] assms(3,4) off by metis
  show ?thesis
  proof (cases "i < 6")
    case False
    then have "next_shift i = 0" using s(1) by (simp add: next_shift_def)
    then show ?thesis
      using md1 s False
      by (intro exI [of _ 0] exI [of _ "num_bits ?bm + 1"] exI [of _ md1])
         (simp add: PushBlock_def off_def [symmetric] with_count_def block_repr_def
           blk_storage_end_def Let_def)
  next
    case True
    note nx = next_shift_props [OF True]
    define d where "d = next_shift i - sh i"
    define g where "g = x - x mod 2 ^ d"
    have d: "unat (2 ^ d :: u64) = 2 ^ d" "d \<le> 5" "(2 :: nat) ^ d < 64"
      using nx(3) power_increasing [of d 5 "2 :: nat"] by (auto simp: d_def unat_pow2)
    have og: "unat (AlignDown off (2 ^ d)) = g" using off d(1) by (simp add: unat_AlignDown g_def)
    have gd: "2 ^ d dvd g" by (simp add: g_def dvd_minus_mod)
    have gn: "g < ?n" using assms(3) by (simp add: g_def)
    obtain c md2 where md2: "ClearRange (AlignDown off (2 ^ d)) (2 ^ d)
        (?bm\<lparr>num_bits := num_bits ?bm + 1\<rparr>) md1 =
        Some ({g..<g + 2 ^ d} \<subseteq> insert x F, ?bm\<lparr>num_bits := c\<rparr>, md2)"
      "bitmap_repr b ?n (?bm\<lparr>num_bits := c\<rparr>) md2
        (if {g..<g + 2 ^ d} \<subseteq> insert x F then insert x F - {g..<g + 2 ^ d} else insert x F)"
      "same_outside b (storage_end b ?n ?bm) md1 md2"
      using ClearRange_correct [OF md1(2), of "AlignDown off (2 ^ d)" "2 ^ d" "{g..<g + 2 ^ d}"] d og gn
        group_in_word [OF d(2) gd] by auto
    have out: "same_outside b (storage_end b ?n ?bm) md md2"
      using md1(3) md2(3) by (rule same_outside_trans)
    define ok where "ok \<longleftrightarrow> {g..<g + 2 ^ d} \<subseteq> insert x F"
    define res where "res = (if ok
       then blk_heap_address blk + push_bit (sh i) (AlignDown off (2 ^ d)) else 0)"
    have "unat (blk_heap_address blk + push_bit (sh i) (AlignDown off (2 ^ d))) =
        blk_lo blk + g * 2 ^ sh i"
      using unat_block_address [OF assms(1)] og gn by simp
    moreover have "2 ^ sh (Suc i) dvd g * 2 ^ sh i"
      using gd nx(1,2) mult_dvd_mono [OF gd dvd_refl, of "2 ^ sh i"]
      by (simp add: d_def power_add [symmetric])
    moreover have "2 ^ sh (Suc i) dvd blk_lo blk" "0 < blk_lo blk"
      using assms(1) True by (auto simp: block_shape_def)
    ultimately have res: "res \<noteq> 0 \<Longrightarrow> unat res = blk_lo blk + g * 2 ^ sh i \<and> 2 ^ sh (Suc i) dvd unat res"
      "ok \<Longrightarrow> res \<noteq> 0"
      by (cases ok; simp add: res_def u64_eq_iff)+
    have "PushBlock a blk md = Some (res, with_count c blk, md2)"
      using PushBlock_coalesce [OF md1(1) md2(1) refl s(2,3) nx(2) d_def off_def]
      by (simp add: res_def ok_def with_count_def)
    moreover have "if res = 0 then block_repr b (with_count c blk) md2 (insert x F)
      else block_repr b (with_count c blk) md2 (insert x F - {g..<g + 2 ^ d}) \<and>
        {g..<g + 2 ^ d} \<subseteq> insert x F"
      using md2(2) res(2) unfolding ok_def [symmetric] by (auto simp: block_repr_def res_def)
    ultimately show ?thesis
      using out res True unfolding d_def [symmetric] blk_storage_end_def by metis
  qed
qed

lemma PopBlock_correct:
  assumes "block_shape i blk" and "block_repr b blk md F" and "unat (blk_end_offset blk) \<le> 2 ^ 63"
  shows "if F = {} then PopBlock blk md = Some (0, blk, md)
    else \<exists>r c md'. PopBlock blk md = Some (r, with_count c blk, md') \<and> r \<noteq> 0 \<and>
      same_outside b (blk_storage_end b blk) md md' \<and>
      unat r = blk_lo blk + Min F * 2 ^ sh i \<and> Min F \<in> F \<and>
      block_repr b (with_count c blk) md' (F - {Min F})"
proof -
  let ?bm = "blk_bitmap blk" and ?n = "unat (blk_end_offset blk)"
  have s: "i < 7" "blk_shift blk = sh i" "0 < blk_lo blk" using assms(1) by (auto simp: block_shape_def)
  have r: "bitmap_repr b ?n ?bm md F" "F \<subseteq> {..<?n}"
    using assms(2) by (auto simp: block_repr_def bitmap_repr_def)
  note find = FindFreeBlock_correct [OF r(1) assms(3)]
  show ?thesis
  proof (cases "F = {}")
    case True
    then show ?thesis using find by (simp add: PopBlock_def)
  next
    case False
    define m where "m = Min F"
    have m: "m \<in> F" using False finite_subset [OF r(2)] by (simp add: m_def)
    then have mn: "m < ?n" using r(2) by auto
    define off :: u64 where "off = of_nat m"
    have off: "unat off = m" using mn unat_lt64 [of "blk_end_offset blk"]
      unfolding off_def by (intro unat_of_nat64) simp
    have nn: "\<not> sint off < 0" using mn assms(3) off by (simp add: sint_small)
    obtain md' where md': "ClearBit off ?bm md = Some (?bm\<lparr>num_bits := num_bits ?bm - 1\<rparr>, md')"
      "bitmap_repr b ?n (?bm\<lparr>num_bits := num_bits ?bm - 1\<rparr>) md' (F - {m})"
      "same_outside b (storage_end b ?n ?bm) md md'"
      using ClearBit_correct [OF r(1), of off] m off by metis
    define res where "res = blk_heap_address blk + push_bit (sh i) off"
    have res: "unat res = blk_lo blk + m * 2 ^ sh i"
      using unat_block_address [OF assms(1), of off] off mn by (simp add: res_def)
    then have "res \<noteq> 0" using s(3) by (auto simp: u64_eq_iff)
    moreover have "PopBlock blk md = Some (res, with_count (num_bits ?bm - 1) blk, md')"
      using find False nn md'(1) s(2)
      by (simp add: PopBlock_def off_def [symmetric] m_def [symmetric] res_def with_count_def)
    ultimately show ?thesis
      using False md' res m by (auto simp: block_repr_def blk_storage_end_def m_def [symmetric])
  qed
qed

section \<open>The heap as a set of free addresses\<close>

text \<open>Families of areas, one set of offsets per list.\<close>

definition areas :: "(nat \<Rightarrow> nat \<Rightarrow> nat set) \<Rightarrow> (nat \<Rightarrow> nat set) \<Rightarrow> nat set" where
  "areas A F = (\<Union>i<7. \<Union>x\<in>F i. A i x)"

definition areas_disjoint :: "(nat \<Rightarrow> nat \<Rightarrow> nat set) \<Rightarrow> (nat \<Rightarrow> nat set) \<Rightarrow> bool" where
  "areas_disjoint A F \<longleftrightarrow>
     (\<forall>i<7. \<forall>j<7. \<forall>x\<in>F i. \<forall>y\<in>F j. (i, x) \<noteq> (j, y) \<longrightarrow> A i x \<inter> A j y = {})"

lemma areas_iff: "z \<in> areas A F \<longleftrightarrow> (\<exists>i<7. \<exists>x\<in>F i. z \<in> A i x)"
  by (auto simp: areas_def)

lemma areas_mem: "i < 7 \<Longrightarrow> x \<in> F i \<Longrightarrow> A i x \<subseteq> areas A F"
  unfolding areas_def by blast

lemma areas_insert:
  assumes "i < 7"
  shows "areas A (F(i := insert x (F i))) = areas A F \<union> A i x"
proof -
  let ?G = "F(i := insert x (F i))"
  have "y \<in> ?G j \<longleftrightarrow> y \<in> F j \<or> j = i \<and> y = x" for j y by auto
  then show ?thesis using assms unfolding set_eq_iff Un_iff areas_iff by blast
qed

lemma areas_disjoint_insert:
  assumes "areas_disjoint A F" and "i < 7" and "A i x \<inter> areas A F = {}"
  shows "areas_disjoint A (F(i := insert x (F i)))"
proof -
  have new: "A i x \<inter> A j y = {}" if "j < 7" "y \<in> F j" for j y
    using assms(3) that unfolding areas_def by blast
  show ?thesis
    unfolding areas_disjoint_def
  proof (intro allI impI ballI)
    fix j k y z
    assume h: "j < 7" "k < 7" "y \<in> (F(i := insert x (F i))) j" "z \<in> (F(i := insert x (F i))) k"
      "(j, y) \<noteq> (k, z)"
    then consider "j = i" "y = x" "z \<in> F k" | "k = i" "z = x" "y \<in> F j" | "y \<in> F j" "z \<in> F k"
      by (auto split: if_splits)
    then show "A j y \<inter> A k z = {}"
    proof cases
      case 3
      then show ?thesis using assms(1) h unfolding areas_disjoint_def by blast
    qed (use new h in blast)+
  qed
qed

lemma areas_remove:
  assumes "areas_disjoint A F" and "i < 7" and "G \<subseteq> F i"
  shows "areas A (F(i := F i - G)) = areas A F - \<Union> (A i ` G)"
    and "areas_disjoint A (F(i := F i - G))"
proof -
  have sub: "(F(i := F i - G)) j \<subseteq> F j" for j by auto
  have other: "A j y \<inter> A i x = {}" if "j < 7" "x \<in> G" "y \<in> (F(i := F i - G)) j" for j x y
  proof -
    have "x \<in> F i" "y \<in> F j" "(j, y) \<noteq> (i, x)" using that assms(3) sub by (auto split: if_splits)
    then show ?thesis using assms(1,2) that(1) unfolding areas_disjoint_def by blast
  qed
  show "areas_disjoint A (F(i := F i - G))"
    using assms(1) sub unfolding areas_disjoint_def by blast
  show "areas A (F(i := F i - G)) = areas A F - \<Union> (A i ` G)"
  proof
    show "areas A (F(i := F i - G)) \<subseteq> areas A F - \<Union> (A i ` G)"
      using sub other unfolding areas_def by blast
    show "areas A F - \<Union> (A i ` G) \<subseteq> areas A (F(i := F i - G))"
    proof
      fix z assume "z \<in> areas A F - \<Union> (A i ` G)"
      then obtain j y where h: "j < 7" "y \<in> F j" "z \<in> A j y" "\<forall>x\<in>G. z \<notin> A i x"
        by (auto simp: areas_def)
      then have "y \<in> (F(i := F i - G)) j" by auto
      then show "z \<in> areas A (F(i := F i - G))" using h unfolding areas_def by blast
    qed
  qed
qed

text \<open>
  The shape of a heap: every list has its place, the storage of the bitmaps is laid out one
  after the other, the places grow with the block size, and each covers the heap.
\<close>

definition heap_shape :: "PageHeap \<Rightarrow> (nat \<Rightarrow> nat) \<Rightarrow> bool" where
  "heap_shape h b \<longleftrightarrow> length (ph_blocks h) = 7 \<and>
     (\<forall>i<7. block_shape i (ph_blocks h ! i) \<and> blk_lo (ph_blocks h ! i) \<le> unat (ph_heap_address h) \<and>
        unat (ph_heap_address h) + unat (ph_heap_size h) \<le> blk_hi (ph_blocks h ! i)) \<and>
     (\<forall>i<6. blk_storage_end (b i) (ph_blocks h ! i) \<le> b (Suc i) \<and>
        blk_lo (ph_blocks h ! Suc i) \<le> blk_lo (ph_blocks h ! i) \<and>
        blk_hi (ph_blocks h ! i) \<le> blk_hi (ph_blocks h ! Suc i))"

definition heap_area :: "PageHeap \<Rightarrow> nat \<Rightarrow> nat \<Rightarrow> nat set" where
  "heap_area h i = area (ph_blocks h ! i)"

definition heap_repr :: "PageHeap \<Rightarrow> (nat \<Rightarrow> nat) \<Rightarrow> (nat \<Rightarrow> nat set) \<Rightarrow> nat set \<Rightarrow> bool" where
  "heap_repr h b F S \<longleftrightarrow> heap_shape h b \<and>
     (\<forall>i<7. block_repr (b i) (ph_blocks h ! i) (ph_metadata h) (F i)) \<and>
     areas_disjoint (heap_area h) F \<and> S = areas (heap_area h) F"

definition same_place :: "PageHeap \<Rightarrow> PageHeap \<Rightarrow> bool" where
  "same_place h h' \<longleftrightarrow> ph_heap_address h' = ph_heap_address h \<and> ph_heap_size h' = ph_heap_size h \<and>
     length (ph_blocks h') = length (ph_blocks h) \<and>
     (\<forall>i<length (ph_blocks h). \<exists>c. ph_blocks h' ! i = with_count c (ph_blocks h ! i))"

lemma with_count_same [simp]: "with_count (num_bits (blk_bitmap blk)) blk = blk"
  by (simp add: with_count_def)

lemma same_place_refl [simp]: "same_place h h"
  unfolding same_place_def by (metis with_count_same)

lemma same_place_trans: "same_place h h' \<Longrightarrow> same_place h' h'' \<Longrightarrow> same_place h h''"
  unfolding same_place_def by (metis with_count_simps(9))

lemma same_place_simps:
  assumes "same_place h h'" and "i < length (ph_blocks h)"
  shows "blk_lo (ph_blocks h' ! i) = blk_lo (ph_blocks h ! i)"
    and "blk_hi (ph_blocks h' ! i) = blk_hi (ph_blocks h ! i)"
    and "Block_GetSize (ph_blocks h' ! i) = Block_GetSize (ph_blocks h ! i)"
  using assms unfolding same_place_def by (metis with_count_simps)+

lemma bitmap_repr_outside:
  assumes "bitmap_repr b n bm md F" and "same_outside a e md md'"
    and "e \<le> b \<or> storage_end b n bm \<le> a"
  shows "bitmap_repr b n bm md' F"
proof -
  have "level_repr b n md' F k" if k: "k < used_depths bm" for k
  proof -
    have "b \<le> hbase b n k" "hbase b n (Suc k) \<le> storage_end b n bm"
      using hbase_mono [of 0 k b n] hbase_mono [of "Suc k" "used_depths bm" b n] k
      by (auto simp: storage_end_def)
    then show ?thesis
      using assms k by (intro level_repr_same [OF _ assms(2)]) (auto simp: bitmap_repr_def)
  qed
  then show ?thesis using assms(1) by (simp add: bitmap_repr_def)
qed

lemma storage_order:
  assumes "heap_shape h b" and "j < i" and "i < 7"
  shows "blk_storage_end (b j) (ph_blocks h ! j) \<le> b i"
  using assms(2,3)
proof (induction i rule: less_Suc_induct [consumes 1, case_names Suc trans])
  case (Suc i)
  then show ?case using assms(1) by (simp add: heap_shape_def)
next
  case (trans i j k)
  moreover have "b j \<le> blk_storage_end (b j) (ph_blocks h ! j)"
    using hbase_mono [of 0] by (simp add: blk_storage_end_def storage_end_def)
  ultimately show ?case by linarith
qed

lemma heap_shape_same_place:
  assumes "same_place h h'" and "heap_shape h b"
  shows "heap_shape h' b"
proof -
  have len: "length (ph_blocks h) = 7" using assms(2) by (simp add: heap_shape_def)
  have "\<exists>c. ph_blocks h' ! i = with_count c (ph_blocks h ! i)" if "i < 7" for i
    using assms(1) that len by (simp add: same_place_def)
  then have "block_shape j (ph_blocks h' ! i) = block_shape j (ph_blocks h ! i)"
    "blk_storage_end a (ph_blocks h' ! i) = blk_storage_end a (ph_blocks h ! i)"
    "blk_lo (ph_blocks h' ! i) = blk_lo (ph_blocks h ! i)"
    "blk_hi (ph_blocks h' ! i) = blk_hi (ph_blocks h ! i)" if "i < 7" for i j a
    using that by (metis with_count_simps)+
  then show ?thesis
    using assms unfolding heap_shape_def same_place_def by (simp add: Suc_lessI)
qed

text \<open>Replacing one list and its words.\<close>

lemma heap_update:
  assumes "heap_repr h b F S" and "i < 7"
    and "block_repr (b i) (with_count c (ph_blocks h ! i)) md' (F' i)"
    and "same_outside (b i) (blk_storage_end (b i) (ph_blocks h ! i)) (ph_metadata h) md'"
    and "\<And>j. j \<noteq> i \<Longrightarrow> F' j = F j"
    and "areas_disjoint (heap_area h) F'" and "S' = areas (heap_area h) F'"
    and "h' = h\<lparr>ph_blocks := (ph_blocks h)[i := with_count c (ph_blocks h ! i)], ph_metadata := md'\<rparr>"
  shows "heap_repr h' b F' S'" and "same_place h h'"
proof -
  have s: "heap_shape h b" and len: "length (ph_blocks h) = 7"
    using assms(1) by (auto simp: heap_repr_def heap_shape_def)
  have nth: "ph_blocks h' ! j = (if j = i then with_count c (ph_blocks h ! i) else ph_blocks h ! j)"
    if "j < 7" for j using that assms(2,8) len by simp
  have ha: "heap_area h' j x = heap_area h j x" if "j < 7" for j x
    using nth [OF that] by (simp add: heap_area_def)
  show place: "same_place h h'"
    unfolding same_place_def
  proof (intro conjI allI impI)
    fix j assume "j < length (ph_blocks h)"
    then show "\<exists>c. ph_blocks h' ! j = with_count c (ph_blocks h ! j)"
      using nth [of j] len by (cases "j = i") (auto intro: exI [of _ "num_bits (blk_bitmap (ph_blocks h ! j))"])
  qed (use assms(8) in auto)
  have "heap_shape h' b" using place s by (rule heap_shape_same_place)
  moreover have "block_repr (b j) (ph_blocks h' ! j) md' (F' j)" if j: "j < 7" for j
  proof (cases "j = i")
    case True
    then show ?thesis using assms(3) nth [OF j] by simp
  next
    case False
    have "blk_storage_end (b i) (ph_blocks h ! i) \<le> b j \<or> blk_storage_end (b j) (ph_blocks h ! j) \<le> b i"
      using storage_order [OF s] False j assms(2) by (metis nat_neq_iff)
    then have "block_repr (b j) (ph_blocks h ! j) md' (F j)"
      using assms(1,4) j unfolding block_repr_def blk_storage_end_def heap_repr_def
      by (metis bitmap_repr_outside)
    then show ?thesis using False nth [OF j] assms(5) by simp
  qed
  moreover have "areas (heap_area h') F' = areas (heap_area h) F'"
    "areas_disjoint (heap_area h') F' = areas_disjoint (heap_area h) F'"
    by (auto simp: areas_def areas_disjoint_def ha)
  ultimately show "heap_repr h' b F' S'"
    using assms(6,7,8) by (simp add: heap_repr_def)
qed

text \<open>An aligned range in the place of list \<open>i\<close> is one of its areas.\<close>

definition block_range :: "nat \<Rightarrow> u64 \<Rightarrow> nat set" where
  "block_range i a = {unat a..<unat a + 2 ^ sh i}"

lemma block_offset:
  assumes "block_shape i blk" and "2 ^ sh i dvd unat a" and "blk_lo blk \<le> unat a"
    and "unat a + 2 ^ sh i \<le> blk_hi blk"
  obtains x where "x < unat (blk_end_offset blk)" and "unat a = blk_lo blk + x * 2 ^ sh i"
    and "area blk x = block_range i a"
proof -
  have s: "i < 7" "blk_shift blk = sh i" "2 ^ sh (min 6 (Suc i)) dvd blk_lo blk"
    using assms(1) by (auto simp: block_shape_def)
  have "sh i \<le> sh (min 6 (Suc i))" using s(1) by (intro sh_mono) auto
  then have "2 ^ sh i dvd blk_lo blk" using s(3) by (metis dvd_trans le_imp_power_dvd)
  then have "2 ^ sh i dvd unat a - blk_lo blk" using assms(2) by (simp add: dvd_diff_nat)
  then obtain x where x: "unat a - blk_lo blk = 2 ^ sh i * x" by (elim dvdE)
  have a: "unat a = blk_lo blk + x * 2 ^ sh i" using x assms(3) by (simp add: mult.commute)
  then have "Suc x * 2 ^ sh i \<le> unat (blk_end_offset blk) * 2 ^ sh i"
    using assms(4) s(2) by (simp add: blk_hi_def)
  then have "Suc x \<le> unat (blk_end_offset blk)" unfolding mult_le_cancel2 by simp
  then have "x < unat (blk_end_offset blk)" by simp
  moreover have "area blk x = block_range i a"
    using s(2) a by (simp add: area_def block_range_def algebra_simps)
  ultimately show ?thesis using a that by blast
qed

text \<open>Freeing a block adds its range to the free addresses, whatever it merges with.\<close>

lemma FreeBlock_correct:
  assumes "heap_repr h b F S" and "i < 7" and "2 ^ sh i dvd unat a"
    and "blk_lo (ph_blocks h ! i) \<le> unat a" and "unat a + 2 ^ sh i \<le> blk_hi (ph_blocks h ! i)"
    and "block_range i a \<inter> S = {}"
  shows "\<exists>h' F'. FreeBlock a i h = Some h' \<and> heap_repr h' b F' (S \<union> block_range i a) \<and> same_place h h'"
  using assms
proof (induction "7 - i" arbitrary: i a h F S)
  case 0
  then show ?case by simp
next
  case (Suc n)
  let ?blk = "ph_blocks h ! i"
  have sh: "heap_shape h b" and br: "block_repr (b i) ?blk (ph_metadata h) (F i)"
    and dj: "areas_disjoint (heap_area h) F" and S: "S = areas (heap_area h) F"
    using Suc.prems(1,2) by (auto simp: heap_repr_def)
  have len: "length (ph_blocks h) = 7" and bs: "block_shape i ?blk"
    using sh Suc.prems(2) by (auto simp: heap_shape_def)
  obtain x where x: "x < unat (blk_end_offset ?blk)" "unat a = blk_lo ?blk + x * 2 ^ sh i"
    "area ?blk x = block_range i a"
    using block_offset [OF bs Suc.prems(3-5)] by blast
  have ax: "heap_area h i x = block_range i a" using x(3) by (simp add: heap_area_def)
  have "block_range i a \<noteq> {}" by (simp add: block_range_def)
  then have xF: "x \<notin> F i" using ax Suc.prems(2,6) unfolding S areas_def by blast
  define F1 where "F1 = F(i := insert x (F i))"
  have dj1: "areas_disjoint (heap_area h) F1" and ar1: "areas (heap_area h) F1 = S \<union> block_range i a"
    unfolding F1_def using areas_disjoint_insert [OF dj Suc.prems(2), of x] areas_insert [OF Suc.prems(2)]
      ax Suc.prems(6) S by auto
  obtain r c md' where p: "PushBlock a ?blk (ph_metadata h) = Some (r, with_count c ?blk, md')"
    "same_outside (b i) (blk_storage_end (b i) ?blk) (ph_metadata h) md'"
    "if r = 0 then block_repr (b i) (with_count c ?blk) md' (insert x (F i))
     else i < 6 \<and> (\<exists>g. {g..<g + 2 ^ (next_shift i - sh i)} \<subseteq> insert x (F i) \<and>
       unat r = blk_lo ?blk + g * 2 ^ sh i \<and> 2 ^ sh (Suc i) dvd unat r \<and>
       block_repr (b i) (with_count c ?blk) md' (insert x (F i) - {g..<g + 2 ^ (next_shift i - sh i)}))"
    using PushBlock_correct [OF bs br x(1) xF x(2)] by blast
  define h1 where "h1 = h\<lparr>ph_blocks := (ph_blocks h)[i := with_count c ?blk], ph_metadata := md'\<rparr>"
  have eq: "FreeBlock a i h = (if r \<noteq> 0 then FreeBlock r (Suc i) h1 else Some h1)"
    using p(1) len Suc.prems(2) by (subst FreeBlock.simps) (simp add: h1_def)
  show ?case
  proof (cases "r = 0")
    case True
    then have "heap_repr h1 b F1 (S \<union> block_range i a)" "same_place h h1"
      using heap_update [OF Suc.prems(1,2), of c md' F1] p(2,3) dj1 ar1 by (auto simp: F1_def h1_def)
    then show ?thesis using eq True by auto
  next
    case False
    let ?d = "2 ^ (next_shift i - sh i) :: nat"
    obtain g where g: "i < 6" "{g..<g + ?d} \<subseteq> insert x (F i)"
      "unat r = blk_lo ?blk + g * 2 ^ sh i" "2 ^ sh (Suc i) dvd unat r"
      "block_repr (b i) (with_count c ?blk) md' (insert x (F i) - {g..<g + ?d})"
      using p(3) False by auto
    note nx = next_shift_props [OF g(1)]
    have pw: "?d * 2 ^ sh i = 2 ^ sh (Suc i)" using nx(1,2) by (simp add: power_add [symmetric])
    have big: "\<Union> (heap_area h i ` {g..<g + ?d}) = block_range (Suc i) r"
      using Union_areas [of ?blk g ?d] bs g(3) pw
      by (simp add: heap_area_def block_range_def block_shape_def add_mult_distrib add.assoc)
    define F2 where "F2 = F1(i := F1 i - {g..<g + ?d})"
    have F1i: "F1 i = insert x (F i)" by (simp add: F1_def)
    have dj2: "areas_disjoint (heap_area h) F2"
      and ar2: "areas (heap_area h) F2 = S \<union> block_range i a - block_range (Suc i) r"
      unfolding F2_def using areas_remove [OF dj1 Suc.prems(2), of "{g..<g + ?d}"] g(2) ar1 big F1i by auto
    have h1: "heap_repr h1 b F2 (S \<union> block_range i a - block_range (Suc i) r)" "same_place h h1"
      using heap_update [OF Suc.prems(1,2), of c md' F2] p(2) g(5) dj2 ar2
      by (auto simp: F2_def F1_def h1_def)
    have "heap_area h i y \<subseteq> S \<union> block_range i a" if "y \<in> insert x (F i)" for y
      using areas_mem [of i y F1 "heap_area h"] that F1i Suc.prems(2) ar1 by simp
    then have sub: "block_range (Suc i) r \<subseteq> S \<union> block_range i a"
      using g(2) unfolding big [symmetric] by blast
    have Fn: "F i \<subseteq> {..<unat (blk_end_offset ?blk)}"
      using br by (simp add: block_repr_def bitmap_repr_def)
    have "0 < ?d" by simp
    then have "g + ?d - 1 \<in> {g..<g + ?d}" unfolding atLeastLessThan_iff by linarith
    then have "g + ?d - 1 \<in> insert x (F i)" using g(2) by blast
    then have "g + ?d - 1 < unat (blk_end_offset ?blk)" using Fn x(1) by blast
    then have "(g + ?d) * 2 ^ sh i \<le> unat (blk_end_offset ?blk) * 2 ^ sh i" by (intro mult_le_mono1) simp
    then have hi: "unat r + 2 ^ sh (Suc i) \<le> blk_hi ?blk"
      using g(3) bs pw by (simp add: blk_hi_def block_shape_def algebra_simps)
    have "blk_lo (ph_blocks h1 ! Suc i) \<le> unat r" "unat r + 2 ^ sh (Suc i) \<le> blk_hi (ph_blocks h1 ! Suc i)"
      using same_place_simps [OF h1(2), of "Suc i"] sh g(1,3) hi len by (force simp: heap_shape_def)+
    moreover have "n = 7 - Suc i" using Suc.hyps(2) by linarith
    ultimately obtain h' F' where "FreeBlock r (Suc i) h1 = Some h'" "same_place h1 h'"
      "heap_repr h' b F' (S \<union> block_range i a - block_range (Suc i) r \<union> block_range (Suc i) r)"
      using Suc.hyps(1) [of "Suc i" h1 F2 "S \<union> block_range i a - block_range (Suc i) r" r]
        h1(1) g(1,4) by auto
    then show ?thesis using eq False sub same_place_trans [OF h1(2)]
      by (simp add: Un_absorb2) (metis Un_commute)
  qed
qed

section \<open>Freeing a range\<close>

definition heap_lo :: "PageHeap \<Rightarrow> nat" where
  "heap_lo h = unat (ph_heap_address h)"

definition heap_hi :: "PageHeap \<Rightarrow> nat" where
  "heap_hi h = unat (ph_heap_address h) + unat (ph_heap_size h)"

text \<open>\<open>h'\<close> is \<open>h\<close> with the addresses from \<open>a\<close> to \<open>e\<close> made free.\<close>

definition freed :: "(nat \<Rightarrow> nat) \<Rightarrow> nat set \<Rightarrow> nat \<Rightarrow> nat \<Rightarrow> PageHeap \<Rightarrow> PageHeap \<Rightarrow> bool" where
  "freed b S a e h h' \<longleftrightarrow> (\<exists>F. heap_repr h' b F (S \<union> {a..<e})) \<and> same_place h h'"

lemma same_place_lo_hi: "same_place h h' \<Longrightarrow> heap_lo h' = heap_lo h \<and> heap_hi h' = heap_hi h"
  by (simp add: same_place_def heap_lo_def heap_hi_def)

lemma heap_block:
  assumes "heap_repr h b F S" and "i < 7"
  shows "nth_opt (ph_blocks h) i = Some (ph_blocks h ! i)" and "unat (Block_GetSize (ph_blocks h ! i)) = 2 ^ sh i"
    and "blk_lo (ph_blocks h ! i) \<le> heap_lo h" and "heap_hi h \<le> blk_hi (ph_blocks h ! i)"
proof -
  have "block_shape i (ph_blocks h ! i)" "length (ph_blocks h) = 7"
    "blk_lo (ph_blocks h ! i) \<le> heap_lo h" "heap_hi h \<le> blk_hi (ph_blocks h ! i)"
    using assms by (auto simp: heap_repr_def heap_shape_def heap_lo_def heap_hi_def)
  then show "nth_opt (ph_blocks h) i = Some (ph_blocks h ! i)" "unat (Block_GetSize (ph_blocks h ! i)) = 2 ^ sh i"
    "blk_lo (ph_blocks h ! i) \<le> heap_lo h" "heap_hi h \<le> blk_hi (ph_blocks h ! i)"
    using assms(2) by (auto simp: block_shape_def Block_GetSize_eq)
qed

lemma heap_top:
  assumes "heap_repr h b F S" and "i < 7"
  shows "heap_hi h + 2 ^ sh i < 2 ^ 64"
proof -
  have "block_shape i (ph_blocks h ! i)" using assms by (simp add: heap_repr_def heap_shape_def)
  then have "blk_hi (ph_blocks h ! i) + 2 ^ 30 < 2 ^ 64" by (simp add: block_shape_def)
  moreover have "(2 :: nat) ^ sh i \<le> 2 ^ 30" using sh_bounds(2) [OF assms(2)] by (intro power_increasing) auto
  ultimately show ?thesis using heap_block(4) [OF assms] by linarith
qed

lemma FreeBlock_range:
  assumes "heap_repr h b F S" and "i < 7" and "2 ^ sh i dvd unat a" and "heap_lo h \<le> unat a"
    and "unat a + 2 ^ sh i \<le> heap_hi h" and "{unat a..<unat a + 2 ^ sh i} \<inter> S = {}"
  obtains h' where "FreeBlock a i h = Some h'" and "freed b S (unat a) (unat a + 2 ^ sh i) h h'"
  using FreeBlock_correct [OF assms(1-3)] heap_block(3,4) [OF assms(1,2)] assms(4-6)
  unfolding freed_def block_range_def by fastforce

lemma freed_heap_repr: "freed b S a e h h' \<Longrightarrow> \<exists>F. heap_repr h' b F (S \<union> {a..<e})"
  by (simp add: freed_def)

lemma freed_lo_hi: "freed b S a e h h' \<Longrightarrow> heap_lo h' = heap_lo h \<and> heap_hi h' = heap_hi h"
  by (simp add: freed_def same_place_lo_hi)

lemma freed_trans:
  assumes "freed b S a e h h'" and "freed b (S \<union> {a..<e}) a' e' h' h''"
    and "{a..<e} \<union> {a'..<e'} = {a''..<e''}"
  shows "freed b S a'' e'' h h''"
  using assms same_place_trans unfolding freed_def by (metis Un_assoc)

lemma disjoint_subrange: "{a..<e} \<inter> S = {} \<Longrightarrow> a \<le> c \<Longrightarrow> d \<le> e \<Longrightarrow> {c..<d} \<inter> S = {}" for a :: nat
  by (auto simp: disjoint_iff)

lemma Free_big_loop_correct:
  assumes "heap_repr h b F S" and "i < 7" and "unat sz = 2 ^ sh i"
    and "2 ^ sh i dvd unat block" and "2 ^ sh i dvd unat big_end" and "unat block \<le> unat big_end"
    and "heap_lo h \<le> unat block" and "unat big_end \<le> heap_hi h"
    and "{unat block..<unat big_end} \<inter> S = {}"
  shows "\<exists>h'. Free_big_loop i sz big_end block h = Some h' \<and> freed b S (unat block) (unat big_end) h h'"
  using assms
proof (induction "unat big_end - unat block" arbitrary: block h F S rule: less_induct)
  case less
  show ?case
  proof (cases "block < big_end")
    case False
    then have "unat big_end = unat block" using less.prems(6) by (simp add: word_less_nat_alt)
    then show ?thesis
      using False less.prems(1) by (subst Free_big_loop.simps) (auto simp: freed_def)
  next
    case True
    then have gap: "unat block + 2 ^ sh i \<le> unat big_end"
      using less.prems(4,5) by (intro mult_dvd_gap) (auto simp: word_less_nat_alt)
    then have nxt: "unat (block + sz) = unat block + 2 ^ sh i"
      using less.prems(3) unat_lt64 [of big_end] by (subst unat_plus) auto
    have dj: "{unat block..<unat block + 2 ^ sh i} \<inter> S = {}"
      "{unat block + 2 ^ sh i..<unat big_end} \<inter> (S \<union> {unat block..<unat block + 2 ^ sh i}) = {}"
      using disjoint_subrange [OF less.prems(9)] gap by (auto simp: Int_Un_distrib)
    have e: "unat block + 2 ^ sh i \<le> heap_hi h" using gap less.prems(8) by linarith
    obtain h1 where h1: "FreeBlock block i h = Some h1" "freed b S (unat block) (unat block + 2 ^ sh i) h h1"
      using FreeBlock_range [OF less.prems(1,2,4,7) e dj(1)] by blast
    obtain F1 where F1: "heap_repr h1 b F1 (S \<union> {unat block..<unat block + 2 ^ sh i})"
      using freed_heap_repr [OF h1(2)] by blast
    have "0 < (2 :: nat) ^ sh i" by simp
    then have dec: "unat big_end - unat (block + sz) < unat big_end - unat block"
      unfolding nxt using gap by linarith
    have "\<exists>h'. Free_big_loop i sz big_end (block + sz) h1 = Some h' \<and>
        freed b (S \<union> {unat block..<unat block + 2 ^ sh i}) (unat (block + sz)) (unat big_end) h1 h'"
      using less.prems gap dj(2) freed_lo_hi [OF h1(2)]
      by (intro less.hyps [OF dec F1]) (auto simp: nxt)
    then obtain h' where "Free_big_loop i sz big_end (block + sz) h1 = Some h'"
      "freed b (S \<union> {unat block..<unat block + 2 ^ sh i}) (unat block + 2 ^ sh i) (unat big_end) h1 h'"
      unfolding nxt by blast
    moreover from this(2) have "freed b S (unat block) (unat big_end) h h'"
      using gap by (intro freed_trans [OF h1(2)]) auto
    ultimately show ?thesis
      using True h1(1) by (subst Free_big_loop.simps) simp
  qed
qed

lemma Free_before_loop_correct:
  assumes "heap_repr h b F S" and "i < 7" and "unat sz = 2 ^ sh i" and "2 ^ sh i dvd unat before_end"
    and "unat before_start \<le> unat before_end" and "heap_lo h \<le> unat before_start"
    and "unat before_end \<le> heap_hi h"
    and "{unat before_start..<unat before_end} \<inter> S = {}"
  shows "\<exists>e h'. Free_before_loop i sz before_start before_end h = Some (e, h') \<and>
    freed b S (unat e) (unat before_end) h h' \<and> 2 ^ sh i dvd unat e \<and>
    unat before_start \<le> unat e \<and> unat e \<le> unat before_end \<and> unat e < unat before_start + 2 ^ sh i"
  using assms
proof (induction "unat before_end" arbitrary: before_end h F S rule: less_induct)
  case less
  let ?p = "2 ^ sh i :: nat"
  have "unat before_start + ?p < 2 ^ 64"
    using heap_top [OF less.prems(1,2)] less.prems(5,7) by linarith
  then have sum: "unat (before_start + sz) = unat before_start + ?p"
    using less.prems(3) by (subst unat_plus) auto
  show ?case
  proof (cases "before_start + sz \<le> before_end")
    case False
    then show ?thesis
      using less.prems(1,4,5) sum by (subst Free_before_loop.simps)
        (auto simp: freed_def word_le_nat_alt intro!: exI [of _ before_end])
  next
    case True
    then have gap: "unat before_start + ?p \<le> unat before_end" using sum by (simp add: word_le_nat_alt)
    define m where "m = before_end - sz"
    have m: "unat m = unat before_end - ?p" "unat m + ?p = unat before_end"
      using gap less.prems(3) by (auto simp: m_def unat_diff)
    have dj: "{unat m..<unat m + ?p} \<inter> S = {}"
      "{unat before_start..<unat m} \<inter> (S \<union> {unat m..<unat m + ?p}) = {}"
      using disjoint_subrange [OF less.prems(8)] gap m by (auto simp: Int_Un_distrib)
    have dv: "?p dvd unat m" using less.prems(4) m(1) by (simp add: dvd_diff_nat)
    have lo: "heap_lo h \<le> unat m" "unat m + ?p \<le> heap_hi h" "unat before_start \<le> unat m"
      using gap m less.prems(6,7) by linarith+
    obtain h1 where h1: "FreeBlock m i h = Some h1" "freed b S (unat m) (unat m + ?p) h h1"
      using FreeBlock_range [OF less.prems(1,2) dv lo(1,2) dj(1)] by blast
    obtain F1 where F1: "heap_repr h1 b F1 (S \<union> {unat m..<unat m + ?p})"
      using freed_heap_repr [OF h1(2)] by blast
    have "0 < ?p" by simp
    then have dec: "unat m < unat before_end" using m(2) by linarith
    obtain e h' where r: "Free_before_loop i sz before_start m h1 = Some (e, h')"
      "freed b (S \<union> {unat m..<unat m + ?p}) (unat e) (unat m) h1 h'" "?p dvd unat e"
      "unat before_start \<le> unat e" "unat e \<le> unat m" "unat e < unat before_start + ?p"
      using less.hyps [OF dec F1 less.prems(2,3) dv lo(3)] less.prems(6) lo m dj(2) freed_lo_hi [OF h1(2)]
      by auto
    have "freed b S (unat e) (unat before_end) h h'"
      using m(2) r(5) by (intro freed_trans [OF h1(2) r(2)]) auto
    then show ?thesis
      using True h1(1) r m(2)
      by (subst Free_before_loop.simps) (auto simp: m_def [symmetric] intro!: exI [of _ e])
  qed
qed

lemma Free_after_loop_correct:
  assumes "heap_repr h b F S" and "i < 7" and "unat sz = 2 ^ sh i" and "2 ^ sh i dvd unat after_start"
    and "unat after_start \<le> unat after_end" and "heap_lo h \<le> unat after_start"
    and "unat after_end \<le> heap_hi h"
    and "{unat after_start..<unat after_end} \<inter> S = {}"
  shows "\<exists>a h'. Free_after_loop i sz after_start after_end h = Some (a, h') \<and>
    freed b S (unat after_start) (unat a) h h' \<and> 2 ^ sh i dvd unat a \<and>
    unat after_start \<le> unat a \<and> unat a \<le> unat after_end \<and> unat after_end < unat a + 2 ^ sh i"
  using assms
proof (induction "unat after_end - unat after_start" arbitrary: after_start h F S rule: less_induct)
  case less
  let ?p = "2 ^ sh i :: nat"
  have "unat after_start + ?p < 2 ^ 64"
    using heap_top [OF less.prems(1,2)] less.prems(5,7) by linarith
  then have sum: "unat (after_start + sz) = unat after_start + ?p"
    using less.prems(3) by (subst unat_plus) auto
  show ?case
  proof (cases "after_start + sz \<le> after_end")
    case False
    then show ?thesis
      using less.prems(1,4,5) sum by (subst Free_after_loop.simps)
        (auto simp: freed_def word_le_nat_alt intro!: exI [of _ after_start])
  next
    case True
    define a where "a = after_start + sz"
    have a: "unat a = unat after_start + ?p" "unat a \<le> unat after_end"
      using True sum by (auto simp: a_def word_le_nat_alt)
    have dj: "{unat after_start..<unat after_start + ?p} \<inter> S = {}"
      "{unat a..<unat after_end} \<inter> (S \<union> {unat after_start..<unat after_start + ?p}) = {}"
      using disjoint_subrange [OF less.prems(8)] a by (auto simp: Int_Un_distrib)
    have dv: "?p dvd unat a" using less.prems(4) a(1) by simp
    have e: "unat after_start + ?p \<le> heap_hi h" using a less.prems(7) by linarith
    obtain h1 where h1: "FreeBlock after_start i h = Some h1"
      "freed b S (unat after_start) (unat after_start + ?p) h h1"
      using FreeBlock_range [OF less.prems(1,2,4,6) e dj(1)] by blast
    obtain F1 where F1: "heap_repr h1 b F1 (S \<union> {unat after_start..<unat after_start + ?p})"
      using freed_heap_repr [OF h1(2)] by blast
    have "0 < ?p" by simp
    then have dec: "unat after_end - unat a < unat after_end - unat after_start" using a by linarith
    obtain e h' where r: "Free_after_loop i sz a after_end h1 = Some (e, h')"
      "freed b (S \<union> {unat after_start..<unat after_start + ?p}) (unat a) (unat e) h1 h'" "?p dvd unat e"
      "unat a \<le> unat e" "unat e \<le> unat after_end" "unat after_end < unat e + ?p"
      using less.hyps [OF dec F1 less.prems(2,3) dv a(2)] less.prems(6,7) a dj(2) freed_lo_hi [OF h1(2)]
      by auto
    have "freed b S (unat after_start) (unat e) h h'"
      using a(1) r(4) by (intro freed_trans [OF h1(2) r(2)]) auto
    then show ?thesis
      using True h1(1) r a(1)
      by (subst Free_after_loop.simps) (auto simp: a_def [symmetric] intro!: exI [of _ e])
  qed
qed

lemma page_multiples_close:
  assumes "2 ^ 12 dvd a" and "2 ^ 12 dvd c" and "a \<le> c" and "c < a + 2 ^ 12"
  shows "c = (a :: nat)"
  using assms mult_dvd_gap [of "2 ^ 12" a c] by (metis leD le_neq_implies_less)

lemma Free_before_correct:
  assumes "heap_repr h b F S" and "n < 7" and "2 ^ 12 dvd unat start" and "2 ^ 12 dvd unat before_end"
    and "if n = 0 then before_end = start else 2 ^ sh (n - 1) dvd unat before_end"
    and "unat start \<le> unat before_end" and "heap_lo h \<le> unat start"
    and "unat before_end \<le> heap_hi h" and "{unat start..<unat before_end} \<inter> S = {}"
  shows "\<exists>h'. Free_before n start before_end h = Some h' \<and> freed b S (unat start) (unat before_end) h h'"
  using assms
proof (induction n arbitrary: before_end h F S)
  case 0
  then show ?case by (auto simp: freed_def)
next
  case (Suc i)
  let ?p = "2 ^ sh i :: nat"
  have i: "i < 7" using Suc.prems(2) by simp
  note blk = heap_block [OF Suc.prems(1) i]
  have dv: "?p dvd unat before_end" using Suc.prems(5) by simp
  obtain e h1 where r: "Free_before_loop i (Block_GetSize (ph_blocks h ! i)) start before_end h = Some (e, h1)"
    "freed b S (unat e) (unat before_end) h h1" "?p dvd unat e" "unat start \<le> unat e"
    "unat e \<le> unat before_end" "unat e < unat start + ?p"
    using Free_before_loop_correct [OF Suc.prems(1) i blk(2) dv Suc.prems(6-9)] by blast
  obtain F1 where F1: "heap_repr h1 b F1 (S \<union> {unat e..<unat before_end})"
    using freed_heap_repr [OF r(2)] by blast
  have pe: "2 ^ 12 dvd unat e" using r(3) sh_bounds(1) [OF i] by (metis dvd_trans le_imp_power_dvd)
  have ie: "if i = 0 then e = start else 2 ^ sh (i - 1) dvd unat e"
  proof (cases "i = 0")
    case True
    then have "unat e = unat start" using r pe Suc.prems(3) by (intro page_multiples_close) auto
    then show ?thesis using True by (simp add: u64_eq_iff)
  next
    case False
    have "sh (i - 1) \<le> sh i" using i by (intro sh_mono) auto
    then show ?thesis using r(3) False by (metis dvd_trans le_imp_power_dvd)
  qed
  have dj: "{unat start..<unat e} \<inter> (S \<union> {unat e..<unat before_end}) = {}"
    using disjoint_subrange [OF Suc.prems(9)] r(5) by (auto simp: Int_Un_distrib)
  obtain h' where h': "Free_before i start e h1 = Some h'"
    "freed b (S \<union> {unat e..<unat before_end}) (unat start) (unat e) h1 h'"
    using Suc.IH [OF F1 _ Suc.prems(3) pe ie r(4)] i Suc.prems(7,8) r(5) dj freed_lo_hi [OF r(2)] by auto
  have "freed b S (unat start) (unat before_end) h h'"
    using r(4,5) by (intro freed_trans [OF r(2) h'(2)]) auto
  then show ?case using blk(1) r(1) h'(1) by simp
qed

lemma Free_after_correct:
  assumes "heap_repr h b F S" and "n < 7" and "2 ^ 12 dvd unat stop" and "2 ^ 12 dvd unat after_start"
    and "if n = 0 then after_start = stop else 2 ^ sh (n - 1) dvd unat after_start"
    and "unat after_start \<le> unat stop" and "heap_lo h \<le> unat after_start"
    and "unat stop \<le> heap_hi h" and "{unat after_start..<unat stop} \<inter> S = {}"
  shows "\<exists>h'. Free_after n after_start stop h = Some h' \<and> freed b S (unat after_start) (unat stop) h h'"
  using assms
proof (induction n arbitrary: after_start h F S)
  case 0
  then show ?case by (auto simp: freed_def)
next
  case (Suc i)
  let ?p = "2 ^ sh i :: nat"
  have i: "i < 7" using Suc.prems(2) by simp
  note blk = heap_block [OF Suc.prems(1) i]
  have dv: "?p dvd unat after_start" using Suc.prems(5) by simp
  obtain e h1 where r: "Free_after_loop i (Block_GetSize (ph_blocks h ! i)) after_start stop h = Some (e, h1)"
    "freed b S (unat after_start) (unat e) h h1" "?p dvd unat e" "unat after_start \<le> unat e"
    "unat e \<le> unat stop" "unat stop < unat e + ?p"
    using Free_after_loop_correct [OF Suc.prems(1) i blk(2) dv Suc.prems(6-9)] by blast
  obtain F1 where F1: "heap_repr h1 b F1 (S \<union> {unat after_start..<unat e})"
    using freed_heap_repr [OF r(2)] by blast
  have pe: "2 ^ 12 dvd unat e" using r(3) sh_bounds(1) [OF i] by (metis dvd_trans le_imp_power_dvd)
  have ie: "if i = 0 then e = stop else 2 ^ sh (i - 1) dvd unat e"
  proof (cases "i = 0")
    case True
    then have "unat stop = unat e" using r pe Suc.prems(3) by (intro page_multiples_close) auto
    then show ?thesis using True by (simp add: u64_eq_iff)
  next
    case False
    have "sh (i - 1) \<le> sh i" using i by (intro sh_mono) auto
    then show ?thesis using r(3) False by (metis dvd_trans le_imp_power_dvd)
  qed
  have dj: "{unat e..<unat stop} \<inter> (S \<union> {unat after_start..<unat e}) = {}"
    using disjoint_subrange [OF Suc.prems(9)] r(4) by (auto simp: Int_Un_distrib)
  obtain h' where h': "Free_after i e stop h1 = Some h'"
    "freed b (S \<union> {unat after_start..<unat e}) (unat e) (unat stop) h1 h'"
    using Suc.IH [OF F1 _ Suc.prems(3) pe ie r(5)] i Suc.prems(7,8) r(4) dj freed_lo_hi [OF r(2)] by auto
  have "freed b S (unat after_start) (unat stop) h h'"
    using r(4,5) by (intro freed_trans [OF r(2) h'(2)]) auto
  then show ?case using blk(1) r(1) h'(1) by simp
qed

text \<open>One size of the search for big blocks: it frees what it can, or passes to a smaller size.\<close>

definition big_freed ::
  "(nat \<Rightarrow> nat) \<Rightarrow> nat set \<Rightarrow> u64 \<Rightarrow> u64 \<Rightarrow> nat \<Rightarrow> u64 \<Rightarrow> u64 \<Rightarrow> PageHeap \<Rightarrow> PageHeap \<Rightarrow> bool" where
  "big_freed b S start stop i s e h h' \<longleftrightarrow> i < 7 \<and> freed b S (unat s) (unat e) h h' \<and>
     unat start \<le> unat s \<and> unat s < unat e \<and> unat e \<le> unat stop \<and>
     2 ^ sh i dvd unat s \<and> 2 ^ sh i dvd unat e \<and> (i = 0 \<longrightarrow> s = start \<and> e = stop)"

lemma Free_big_step:
  assumes "heap_repr h b F S" and "i < 7" and "2 ^ 12 dvd unat start" and "2 ^ 12 dvd unat stop"
    and "unat start < unat stop" and "heap_lo h \<le> unat start" and "unat stop \<le> heap_hi h"
    and "{unat start..<unat stop} \<inter> S = {}"
  shows "(\<exists>s e h'. Free_big (Suc i) start stop h = Some (Suc i, s, e, h') \<and> big_freed b S start stop i s e h h') \<or>
    0 < i \<and> Free_big (Suc i) start stop h = Free_big i start stop h"
proof -
  note blk = heap_block [OF assms(1,2)]
  define sz where "sz = Block_GetSize (ph_blocks h ! i)"
  have sz: "unat sz = 2 ^ sh i" "sz \<noteq> 0" using blk(2) by (auto simp: sz_def u64_eq_iff)
  define s where "s = AlignUp start sz"
  define e where "e = AlignDown stop sz"
  have "unat start + unat sz \<le> 2 ^ 64"
    using heap_top [OF assms(1,2)] assms(5,7) sz(1) by linarith
  note up = AlignUp_ge [OF this sz(2), folded s_def, unfolded sz(1)]
  have down: "unat e \<le> unat stop" "2 ^ sh i dvd unat e"
    using AlignDown_le [of stop sz] AlignDown_dvd [of sz stop] sz by (auto simp: e_def)
  have pages: "s = start \<and> e = stop" if "i = 0"
    using that up down assms(3,4) sz(1) dvd_imp_mod_0
    by (auto simp: s_def e_def u64_eq_iff unat_AlignDown unat_AlignUp AlignUp_def Let_def unat_diff)
  have eq: "Free_big (Suc i) start stop h =
      (if s < e then do { h \<leftarrow> Free_big_loop i sz e s h; Some (Suc i, s, e, h) }
       else Free_big i start stop h)"
    using blk(1) by (simp add: sz_def s_def e_def Let_def)
  show ?thesis
  proof (cases "s < e")
    case True
    then have lt: "unat s < unat e" by (simp add: word_less_nat_alt)
    obtain h' where h': "Free_big_loop i sz e s h = Some h'" "freed b S (unat s) (unat e) h h'"
      using Free_big_loop_correct [OF assms(1,2) sz(1) up(3) down(2)] lt up(1) down(1) assms(6,7)
        disjoint_subrange [OF assms(8)] by force
    have "big_freed b S start stop i s e h h'"
      using pages h'(2) up down lt assms(2) by (simp add: big_freed_def)
    then show ?thesis using eq True h'(1) by auto
  next
    case False
    have "i \<noteq> 0" using False pages assms(5) by (auto simp: word_less_nat_alt)
    then show ?thesis using eq False by auto
  qed
qed

lemma Free_big_correct:
  assumes "heap_repr h b F S" and "n < 7" and "2 ^ 12 dvd unat start" and "2 ^ 12 dvd unat stop"
    and "unat start < unat stop" and "heap_lo h \<le> unat start" and "unat stop \<le> heap_hi h"
    and "{unat start..<unat stop} \<inter> S = {}"
  shows "\<exists>m s e h'. Free_big (Suc n) start stop h = Some (Suc m, s, e, h') \<and> big_freed b S start stop m s e h h'"
  using assms(2)
proof (induction n)
  case 0
  then show ?case using Free_big_step [OF assms(1) _ assms(3-8), of 0] by blast
next
  case (Suc n)
  then show ?case using Free_big_step [OF assms(1) Suc.prems assms(3-8)] by auto
qed

lemma Free_correct:
  assumes "heap_repr h b F S" and "2 ^ 12 dvd unat addr" and "heap_lo h \<le> unat addr"
    and "unat addr + unat num_pages * 4096 \<le> heap_hi h"
    and "{unat addr..<unat addr + unat num_pages * 4096} \<inter> S = {}"
  shows "\<exists>h'. Free addr num_pages h = Some h' \<and>
    freed b S (unat addr) (unat addr + unat num_pages * 4096) h h'"
proof (cases "num_pages = 0")
  case True
  then show ?thesis using assms(1) by (auto simp: Free_def freed_def)
next
  case False
  then have np: "0 < unat num_pages" by (simp add: unat_gt_0)
  define stop where "stop = num_pages * PageSize + addr"
  have "unat addr + unat num_pages * 4096 < 2 ^ 64"
    using heap_top [OF assms(1), of 0] assms(4) by simp
  then have stop: "unat stop = unat addr + unat num_pages * 4096"
    by (simp add: stop_def unat_plus unat_times)
  have ps: "2 ^ 12 dvd unat stop" unfolding stop using assms(2) by (intro dvd_add dvd_mult) auto
  obtain m s e h1 where big: "Free_big (Suc 6) addr stop h = Some (Suc m, s, e, h1)"
    "big_freed b S addr stop m s e h h1"
    using Free_big_correct [OF assms(1) _ assms(2) ps _ assms(3), of 6] assms(4,5) np stop by auto
  have m: "m < 7" "freed b S (unat s) (unat e) h h1" "unat addr \<le> unat s" "unat s < unat e"
    "unat e \<le> unat stop" "2 ^ sh m dvd unat s" "2 ^ sh m dvd unat e" "m = 0 \<longrightarrow> s = addr \<and> e = stop"
    using big(2) by (auto simp: big_freed_def)
  obtain F1 where F1: "heap_repr h1 b F1 (S \<union> {unat s..<unat e})"
    using freed_heap_repr [OF m(2)] by blast
  have al: "2 ^ 12 dvd unat s" "2 ^ 12 dvd unat e"
    using m(6,7) sh_bounds(1) [OF m(1)] by (metis dvd_trans le_imp_power_dvd)+
  have al': "if m = 0 then x = y else 2 ^ sh (m - 1) dvd unat x"
    if "2 ^ sh m dvd unat x" "m = 0 \<longrightarrow> x = y" for x y :: u64
    using that sh_mono [of "m - 1" m] m(1) by (auto intro: dvd_trans le_imp_power_dvd)
  have dj: "{unat addr..<unat s} \<inter> (S \<union> {unat s..<unat e}) = {}"
    "{unat e..<unat stop} \<inter> (S \<union> {unat addr..<unat e}) = {}"
    using disjoint_subrange [OF assms(5)] m(3-5) stop by (auto simp: Int_Un_distrib)
  obtain h2 where h2: "Free_before m addr s h1 = Some h2"
    "freed b (S \<union> {unat s..<unat e}) (unat addr) (unat s) h1 h2"
    using Free_before_correct [OF F1 m(1) assms(2) al(1) al' [OF m(6), of addr]] m assms(3,4) dj(1) stop
      freed_lo_hi [OF m(2)] by auto
  have f2: "freed b S (unat addr) (unat e) h h2"
    using m(3,4) by (intro freed_trans [OF m(2) h2(2)]) auto
  obtain F2 where F2: "heap_repr h2 b F2 (S \<union> {unat addr..<unat e})"
    using freed_heap_repr [OF f2] by blast
  obtain h3 where h3: "Free_after m e stop h2 = Some h3"
    "freed b (S \<union> {unat addr..<unat e}) (unat e) (unat stop) h2 h3"
    using Free_after_correct [OF F2 m(1) ps al(2) al' [OF m(7), of stop]] m assms(3,4) dj(2) stop
      freed_lo_hi [OF f2] by auto
  have "freed b S (unat addr) (unat stop) h h3"
    using m(3-5) by (intro freed_trans [OF f2 h3(2)]) auto
  then show ?thesis
    using False big(1) h2(1) h3(1) stop
    by (simp add: Free_def Let_def del: Free_big.simps PageSize_eq flip: stop_def)
qed

section \<open>Allocating a block\<close>

text \<open>The size of the larger block that is not needed, in pages.\<close>

lemma split_pages:
  assumes "i \<le> j" and "j < 7" and "unat big = 2 ^ sh j" and "unat small = 2 ^ sh i"
  shows "small < big \<longleftrightarrow> sh i < sh j"
    and "small \<le> big \<Longrightarrow> unat ((big - small) div PageSize) * 4096 = 2 ^ sh j - 2 ^ sh i"
proof -
  show "small < big \<longleftrightarrow> sh i < sh j" using assms(3,4) by (simp add: word_less_nat_alt)
  assume le: "small \<le> big"
  have "12 \<le> sh i" "12 \<le> sh j" using sh_bounds(1) assms(1,2) by auto
  then have "(2 :: nat) ^ 12 dvd 2 ^ sh j - 2 ^ sh i"
    by (intro dvd_diff_nat le_imp_power_dvd)
  then show "unat ((big - small) div PageSize) * 4096 = 2 ^ sh j - 2 ^ sh i"
    using le assms(3,4) by (simp add: unat_diff word_le_nat_alt)
qed

lemma block_shape_aligned: "block_shape j blk \<Longrightarrow> 2 ^ sh j dvd blk_lo blk"
proof -
  assume s: "block_shape j blk"
  then have "sh j \<le> sh (min 6 (Suc j))" by (intro sh_mono) (auto simp: block_shape_def)
  then show ?thesis using s by (auto simp: block_shape_def intro: dvd_trans [OF le_imp_power_dvd])
qed

lemma block_count_le:
  assumes "block_shape j blk"
  shows "unat (blk_end_offset blk) \<le> 2 ^ 63"
proof -
  have s: "j < 7" "blk_lo blk + unat (blk_end_offset blk) * 2 ^ sh j + 2 ^ 30 < 2 ^ 64"
    using assms by (auto simp: block_shape_def blk_hi_def)
  have "(2 :: nat) ^ 1 \<le> 2 ^ sh j" using sh_bounds(1) [OF s(1)] by (intro power_increasing) auto
  then have "unat (blk_end_offset blk) * 2 \<le> unat (blk_end_offset blk) * 2 ^ sh j"
    by (intro mult_le_mono2) simp
  then have "unat (blk_end_offset blk) * 2 < 2 ^ 64" using s(2) by linarith
  then show ?thesis by simp
qed

lemma block_range_bounds: "block_range j r \<subseteq> {a..<e} \<Longrightarrow> a \<le> unat r \<and> unat r + 2 ^ sh j \<le> e"
proof -
  assume "block_range j r \<subseteq> {a..<e}"
  then have "{unat r..<unat r + 2 ^ sh j} \<subseteq> {a..<e}" "unat r < unat r + 2 ^ sh j"
    by (simp_all add: block_range_def)
  then show ?thesis by (simp add: ivl_subset)
qed

lemma range_split:
  "{r..<r + q} \<subseteq> S \<Longrightarrow> p \<le> q \<Longrightarrow> S - {r..<r + q} \<union> {r + p..<r + q} = S - {r..<r + p}" for r :: nat
  by auto

lemma AllocateBlock_loop_correct:
  assumes "heap_repr h b F S" and "S \<subseteq> {heap_lo h..<heap_hi h}" and "i < 7" and "i \<le> j" and "j \<le> 7"
    and "unat needed = 2 ^ sh i"
  shows "if \<forall>k\<in>{j..<7}. F k = {} then AllocateBlock_loop needed [j..<7] h = Some (0, h)
    else \<exists>a h' F'. AllocateBlock_loop needed [j..<7] h = Some (a, h') \<and> a \<noteq> 0 \<and>
      2 ^ sh i dvd unat a \<and> block_range i a \<subseteq> S \<and> heap_repr h' b F' (S - block_range i a) \<and>
      same_place h h'"
  using assms(4,5)
proof (induction "7 - j" arbitrary: j)
  case 0
  then show ?case by simp
next
  case (Suc n)
  then have j: "j < 7" by simp
  let ?blk = "ph_blocks h ! j"
  have upt: "[j..<7] = j # [Suc j..<7]" using j by (simp add: upt_conv_Cons)
  have sh: "heap_shape h b" "block_shape j ?blk" "length (ph_blocks h) = 7"
    and br: "block_repr (b j) ?blk (ph_metadata h) (F j)"
    and dj: "areas_disjoint (heap_area h) F" and S: "S = areas (heap_area h) F"
    using assms(1) j by (auto simp: heap_repr_def heap_shape_def)
  have nle: "unat (blk_end_offset ?blk) \<le> 2 ^ 63"
    using sh(2) by (rule block_count_le)
  note pop = PopBlock_correct [OF sh(2) br nle]
  show ?case
  proof (cases "F j = {}")
    case True
    then have eq: "AllocateBlock_loop needed [j..<7] h = AllocateBlock_loop needed [Suc j..<7] h"
      using pop sh(3) j by (simp add: upt)
    have iff: "(\<forall>k\<in>{j..<7}. F k = {}) \<longleftrightarrow> (\<forall>k\<in>{Suc j..<7}. F k = {})"
      using True by (metis atLeastLessThan_iff le_eq_less_or_eq Suc_le_eq)
    have "n = 7 - Suc j" "i \<le> Suc j" "Suc j \<le> 7" using Suc.hyps(2) Suc.prems j by auto
    then show ?thesis unfolding eq iff by (rule Suc.hyps(1))
  next
    case False
    define m where "m = Min (F j)"
    obtain r c md' where p: "PopBlock ?blk (ph_metadata h) = Some (r, with_count c ?blk, md')" "r \<noteq> 0"
      "same_outside (b j) (blk_storage_end (b j) ?blk) (ph_metadata h) md'"
      "unat r = blk_lo ?blk + m * 2 ^ sh j" "m \<in> F j" "block_repr (b j) (with_count c ?blk) md' (F j - {m})"
      using pop False by (auto simp: m_def)
    have am: "heap_area h j m = block_range j r"
      using p(4) sh(2) by (simp add: heap_area_def area_def block_range_def block_shape_def ac_simps)
    define F1 where "F1 = F(j := F j - {m})"
    have rm: "areas (heap_area h) F1 = S - block_range j r" "areas_disjoint (heap_area h) F1"
      unfolding F1_def using areas_remove [OF dj j, of "{m}"] p(5) am S by auto
    define h1 where "h1 = h\<lparr>ph_blocks := (ph_blocks h)[j := with_count c ?blk], ph_metadata := md'\<rparr>"
    have h1: "heap_repr h1 b F1 (S - block_range j r)" "same_place h h1"
      using heap_update [OF assms(1) j, of c md' F1] p(3,6) rm by (auto simp: F1_def h1_def)
    have sub: "block_range j r \<subseteq> S" using areas_mem [of j m F "heap_area h"] j p(5) am S by simp
    have rj: "2 ^ sh j dvd unat r" using p(4) block_shape_aligned [OF sh(2)] by simp
    have le: "sh i \<le> sh j" using sh_mono [OF Suc.prems(1) j] .
    have pages: "2 ^ 12 dvd unat r" "2 ^ sh i dvd unat r" "(2 :: nat) ^ 12 dvd 2 ^ sh i"
      by (rule dvd_trans [OF le_imp_power_dvd rj], rule sh_bounds(1) [OF j])
         (rule dvd_trans [OF le_imp_power_dvd rj], rule le, rule le_imp_power_dvd, rule sh_bounds(1) [OF assms(3)])
    have hr: "heap_lo h \<le> unat r" "unat r + 2 ^ sh j \<le> heap_hi h"
      using sub assms(2) block_range_bounds [of j r] by blast+
    define np where "np = (Block_GetSize ?blk - needed) div PageSize"
    have gs: "unat (Block_GetSize ?blk) = 2 ^ sh j" using heap_block(2) [OF assms(1) j] .
    have le': "needed \<le> Block_GetSize ?blk" using gs assms(6) le by (simp add: word_le_nat_alt)
    have np: "unat np * 4096 = 2 ^ sh j - 2 ^ sh i"
      unfolding np_def by (rule split_pages(2) [OF Suc.prems(1) j gs assms(6) le'])
    have pw: "(2 :: nat) ^ sh i \<le> 2 ^ sh j" using le by simp
    have "unat r + 2 ^ sh i < 2 ^ 64" using heap_top [OF assms(1) j] hr(2) pw by linarith
    then have un: "unat (r + needed) = unat r + 2 ^ sh i" using assms(6) by (simp add: unat_plus)
    have "\<exists>h' F'. (if Block_GetSize ?blk > needed then Free (r + needed) np h1 else Some h1) = Some h' \<and>
        heap_repr h' b F' (S - block_range i r) \<and> same_place h1 h'"
    proof (cases "Block_GetSize ?blk > needed")
      case True
      have "{unat r + 2 ^ sh i..<unat r + 2 ^ sh j} \<subseteq> block_range j r" by (auto simp: block_range_def)
      then have "\<exists>h'. Free (r + needed) np h1 = Some h' \<and>
          freed b (S - block_range j r) (unat r + 2 ^ sh i) (unat r + 2 ^ sh i + unat np * 4096) h1 h'"
        using same_place_lo_hi [OF h1(2)] hr pw pages np un
        by (intro Free_correct [OF h1(1), of "r + needed" np, unfolded un]) auto
      moreover have "S - block_range j r \<union> {unat r + 2 ^ sh i..<unat r + 2 ^ sh i + unat np * 4096} =
          S - block_range i r"
        using range_split [OF sub [unfolded block_range_def] pw] np pw by (simp add: block_range_def)
      ultimately show ?thesis using True by (auto simp: freed_def)
    next
      case False
      then have "sh i = sh j" using le gs assms(6) by (auto simp: word_less_nat_alt)
      then show ?thesis using False h1(1) by (auto simp: block_range_def)
    qed
    then obtain h' F' where h': "(if Block_GetSize ?blk > needed then Free (r + needed) np h1 else Some h1) = Some h'"
      "heap_repr h' b F' (S - block_range i r)" "same_place h1 h'" by blast
    have "AllocateBlock_loop needed [j..<7] h = Some (r, h')"
      using p(1,2) h'(1) sh(3) j by (simp add: upt h1_def np_def Let_def split: if_splits)
    moreover have "block_range i r \<subseteq> block_range j r"
      unfolding block_range_def using pw by (intro ivl_subset [THEN iffD2] disjI2) simp
    then have "block_range i r \<subseteq> S" using sub by simp
    moreover have "\<not> (\<forall>k\<in>{j..<7}. F k = {})" using False j by auto
    ultimately show ?thesis using p(2) pages(2) h'(2) same_place_trans [OF h1(2) h'(3)] by auto
  qed
qed

lemma AllocateBlock_correct:
  assumes "heap_repr h b F S" and "S \<subseteq> {heap_lo h..<heap_hi h}" and "i < 7"
  shows "if \<forall>k\<in>{i..<7}. F k = {} then AllocateBlock (int i) h = Some (0, h)
    else \<exists>a h' F'. AllocateBlock (int i) h = Some (a, h') \<and> a \<noteq> 0 \<and>
      2 ^ sh i dvd unat a \<and> block_range i a \<subseteq> S \<and> heap_repr h' b F' (S - block_range i a) \<and>
      same_place h h'"
proof -
  have eq: "AllocateBlock (int i) h = AllocateBlock_loop (Block_GetSize (ph_blocks h ! i)) [i..<7] h"
    using heap_block(1) [OF assms(1,3)] by (simp add: AllocateBlock_def)
  show ?thesis
    unfolding eq using assms by (intro AllocateBlock_loop_correct heap_block(2)) auto
qed

section \<open>Initialisation\<close>

lemma AlignDown_greatest: "unat sz dvd c \<Longrightarrow> c \<le> unat v \<Longrightarrow> c \<le> unat (AlignDown v sz)"
  unfolding unat_AlignDown_div
  by (cases "unat sz = 0") (auto elim!: dvdE simp: mult.commute less_eq_div_iff_mult_less_eq)

lemma AlignUp_least:
  assumes "unat v + unat sz \<le> 2 ^ 64" and "sz \<noteq> 0" and "unat sz dvd c" and "unat v \<le> c"
  shows "unat (AlignUp v sz) \<le> c"
proof (rule ccontr)
  assume "\<not> ?thesis"
  then have "c + unat sz \<le> unat (AlignUp v sz)"
    using AlignUp_ge(3) [OF assms(1,2)] assms(3) by (intro mult_dvd_gap) auto
  then show False using AlignUp_ge(2) [OF assms(1,2)] assms(4) by linarith
qed

text \<open>The alignment, the place and the number of blocks of list \<open>k\<close>, as \<open>Initialize\<close> computes them.\<close>

definition init_align :: "nat \<Rightarrow> u64" where
  "init_align k = (if next_shift k \<noteq> 0 then push_bit (next_shift k) 1 else push_bit (sh k) 1)"

definition init_lo :: "u64 \<Rightarrow> nat \<Rightarrow> u64" where
  "init_lo addr k = AlignDown addr (init_align k)"

definition init_count :: "u64 \<Rightarrow> u64 \<Rightarrow> nat \<Rightarrow> u64" where
  "init_count addr sz k = (AlignUp (addr + sz) (init_align k) - init_lo addr k) div push_bit (sh k) 1"

definition bitmap_words :: "u64 \<Rightarrow> nat" where
  "bitmap_words n = hbase 0 (unat n) (GetRequiredDepth n)"

primrec init_storage :: "u64 \<Rightarrow> u64 \<Rightarrow> nat \<Rightarrow> nat" where
  "init_storage addr sz 0 = 0"
| "init_storage addr sz (Suc k) = init_storage addr sz k + bitmap_words (init_count addr sz k)"

lemma unat_init_align: "k < 7 \<Longrightarrow> unat (init_align k) = 2 ^ sh (min 6 (Suc k))"
  using less7_cases [of k] by (auto simp: init_align_def next_shift_def MemoryBlockPageShifts_def)

text \<open>A region that the heap accepts: pages between 1 GiB and 2^63, at most 32 GiB of them.\<close>

definition heap_region :: "u64 \<Rightarrow> u64 \<Rightarrow> bool" where
  "heap_region addr sz \<longleftrightarrow> 2 ^ 30 \<le> unat addr \<and> unat addr + unat sz \<le> 2 ^ 63 \<and> 0 < unat sz \<and>
     unat sz \<le> 2 ^ 35 \<and> 2 ^ 12 dvd unat addr \<and> 2 ^ 12 dvd unat sz"

lemma init_place:
  assumes "heap_region addr sz" and "k < 7"
  defines "q \<equiv> sh (min 6 (Suc k))"
  shows "2 ^ q dvd unat (init_lo addr k)" and "2 ^ 30 \<le> unat (init_lo addr k)"
    and "unat (init_lo addr k) \<le> unat addr" and "unat addr < unat (init_lo addr k) + 2 ^ q"
    and "unat (init_lo addr k) + unat (init_count addr sz k) * 2 ^ sh k =
      unat (AlignUp (addr + sz) (init_align k))"
    and "unat addr + unat sz \<le> unat (AlignUp (addr + sz) (init_align k))"
    and "unat (AlignUp (addr + sz) (init_align k)) < unat addr + unat sz + 2 ^ q"
    and "2 ^ q dvd unat (AlignUp (addr + sz) (init_align k))"
proof -
  have q: "q \<le> 30" "unat (init_align k) = 2 ^ q" "init_align k \<noteq> 0" "sh k \<le> q"
    using sh_bounds(2) [of "min 6 (Suc k)"] unat_init_align [OF assms(2)] sh_mono [of k "min 6 (Suc k)"] assms(2)
    by (auto simp: q_def u64_eq_iff)
  have r: "2 ^ 30 \<le> unat addr" "unat addr + unat sz \<le> 2 ^ 63" using assms(1) by (auto simp: heap_region_def)
  have e: "unat (addr + sz) = unat addr + unat sz" using r(2) by (intro unat_plus) simp
  have "(2 :: nat) ^ q \<le> 2 ^ 30" using q(1) by (intro power_increasing) auto
  then have le: "unat (addr + sz) + unat (init_align k) \<le> 2 ^ 64" using r(2) q(2) e by simp
  note up = AlignUp_ge [OF le q(3), unfolded q(2) e]
  show lo: "2 ^ q dvd unat (init_lo addr k)" "unat (init_lo addr k) \<le> unat addr"
    using AlignDown_dvd [of "init_align k" addr] AlignDown_le [of addr "init_align k"] q
    by (auto simp: init_lo_def)
  show "2 ^ 30 \<le> unat (init_lo addr k)"
    unfolding init_lo_def by (intro AlignDown_greatest r(1)) (unfold q(2), rule le_imp_power_dvd [OF q(1)])
  show "unat addr < unat (init_lo addr k) + 2 ^ q"
    unfolding init_lo_def unat_AlignDown q(2)
    using mod_less_divisor [of "2 ^ q" "unat addr"] by (simp add: less_diff_conv2 del: mod_less_divisor)
  show "unat addr + unat sz \<le> unat (AlignUp (addr + sz) (init_align k))"
    "unat (AlignUp (addr + sz) (init_align k)) < unat addr + unat sz + 2 ^ q"
    "2 ^ q dvd unat (AlignUp (addr + sz) (init_align k))"
    using up by auto
  have "2 ^ sh k dvd unat (AlignUp (addr + sz) (init_align k)) - unat (init_lo addr k)"
    using up(3) lo(1) q(4) by (intro dvd_diff_nat) (auto intro: dvd_trans le_imp_power_dvd)
  moreover have "unat (push_bit (sh k) 1 :: u64) = 2 ^ sh k"
    using sh_bounds(2) [OF assms(2)] by (simp add: unat_pow2)
  ultimately show "unat (init_lo addr k) + unat (init_count addr sz k) * 2 ^ sh k =
      unat (AlignUp (addr + sz) (init_align k))"
    using up(1) lo(2) unfolding init_count_def by (simp add: unat_diff del: push_bit_of_1)
qed

lemma init_count_bounds:
  assumes "heap_region addr sz" and "k < 7"
  shows "0 < unat (init_count addr sz k)" and "unat (init_count addr sz k) < 64 ^ MaxDepth"
proof -
  note p = init_place [OF assms]
  let ?q = "sh (min 6 (Suc k))" and ?n = "unat (init_count addr sz k)"
  have r: "0 < unat sz" "unat sz \<le> 2 ^ 35" using assms(1) by (auto simp: heap_region_def)
  have "unat (init_lo addr k) < unat (init_lo addr k) + ?n * 2 ^ sh k"
    using p(3,5,6) r(1) by linarith
  then show "0 < ?n" by (simp add: zero_less_mult_iff)
  have "?q \<le> 30" using sh_bounds(2) [of "min 6 (Suc k)"] by simp
  then have "(2 :: nat) ^ ?q \<le> 2 ^ 30" by (intro power_increasing) auto
  then have "?n * 2 ^ sh k < 2 ^ 35 + 2 ^ 30 + 2 ^ 30" using p(4,5,7) r(2) by linarith
  moreover have "?n * 2 ^ 12 \<le> ?n * 2 ^ sh k"
    using sh_bounds(1) [OF assms(2)] by (intro mult_le_mono2 power_increasing) auto
  ultimately have "?n * 2 ^ 12 < 2 ^ 35 + 2 ^ 30 + 2 ^ 30" by linarith
  then show "?n < 64 ^ MaxDepth" by (simp add: MaxDepth_def)
qed

lemma hbase_offset: "hbase b n k = b + hbase 0 n k"
  by (simp add: hbase_def)

definition init_block :: "u64 \<Rightarrow> u64 \<Rightarrow> nat \<Rightarrow> Block \<Rightarrow> bool" where
  "init_block addr sz k blk \<longleftrightarrow> blk_shift blk = sh k \<and> blk_next_shift blk = next_shift k \<and>
     blk_heap_address blk = init_lo addr k \<and> blk_end_offset blk = init_count addr sz k \<and>
     layout (init_storage addr sz k) (unat (init_count addr sz k)) (blk_bitmap blk) \<and>
     num_bits (blk_bitmap blk) = 0 \<and>
     blk_storage_end (init_storage addr sz k) blk = init_storage addr sz (Suc k)"

lemma Block_Initialize_correct:
  assumes "heap_region addr sz" and "k < 7" and "length (bit_storages (blk_bitmap blk)) = MaxDepth"
  shows "\<exists>blk'. Block_Initialize addr sz (sh k) (next_shift k) (init_storage addr sz k) blk =
    Some (init_storage addr sz (Suc k), blk') \<and> init_block addr sz k blk'"
proof -
  let ?n = "init_count addr sz k" and ?b = "init_storage addr sz k"
  obtain bm where bm: "Bitmap_Initialize ?b ?n (blk_bitmap blk) = Some (storage_end ?b (unat ?n) bm, bm)"
    "layout ?b (unat ?n) bm" "num_bits bm = 0" "used_depths bm = GetRequiredDepth ?n"
    using Bitmap_Initialize_correct [OF init_count_bounds [OF assms(1,2)] assms(3)] by metis
  have "storage_end ?b (unat ?n) bm = init_storage addr sz (Suc k)"
    using bm(4) hbase_offset [of ?b] by (simp add: storage_end_def bitmap_words_def)
  moreover have "Block_Initialize addr sz (sh k) (next_shift k) ?b blk = do {
      (storage, bm) \<leftarrow> Bitmap_Initialize ?b ?n (blk_bitmap blk);
      Some (storage, blk\<lparr>blk_bitmap := bm, blk_heap_address := init_lo addr k, blk_end_offset := ?n,
       blk_shift := sh k, blk_next_shift := next_shift k\<rparr>) }"
    unfolding Block_Initialize_def init_count_def init_lo_def init_align_def Let_def ..
  ultimately show ?thesis
    using bm by (simp add: init_block_def blk_storage_end_def)
qed

lemma Initialize_loop_correct:
  assumes "heap_region addr sz" and "i \<le> 7" and "length (ph_blocks h) = 7"
    and "ph_heap_address h = addr" and "ph_heap_size h = sz"
    and "\<forall>k. i \<le> k \<longrightarrow> k < 7 \<longrightarrow> length (bit_storages (blk_bitmap (ph_blocks h ! k))) = MaxDepth"
    and "\<forall>k<i. init_block addr sz k (ph_blocks h ! k)"
  shows "\<exists>bs. PageHeap_Initialize_loop [i..<7] (init_storage addr sz i) h = Some (h\<lparr>ph_blocks := bs\<rparr>) \<and>
    length bs = 7 \<and> (\<forall>k<7. init_block addr sz k (bs ! k))"
  using assms(2-)
proof (induction "7 - i" arbitrary: i h)
  case 0
  then show ?case by (intro exI [of _ "ph_blocks h"]) simp
next
  case (Suc n)
  then have i: "i < 7" by simp
  have upt: "[i..<7] = i # [Suc i..<7]" using i by (simp add: upt_conv_Cons)
  obtain blk where blk: "Block_Initialize addr sz (sh i) (next_shift i) (init_storage addr sz i)
      (ph_blocks h ! i) = Some (init_storage addr sz (Suc i), blk)" "init_block addr sz i blk"
    using Block_Initialize_correct [OF assms(1) i] Suc.prems(5) i by blast
  define h1 where "h1 = h\<lparr>ph_blocks := (ph_blocks h)[i := blk]\<rparr>"
  have "\<exists>bs. PageHeap_Initialize_loop [Suc i..<7] (init_storage addr sz (Suc i)) h1 =
      Some (h1\<lparr>ph_blocks := bs\<rparr>) \<and> length bs = 7 \<and> (\<forall>k<7. init_block addr sz k (bs ! k))"
    using Suc.hyps(2) Suc.prems i blk(2)
    by (intro Suc.hyps(1)) (auto simp: h1_def nth_list_update less_Suc_eq)
  moreover have "PageHeap_Initialize_loop [i..<7] (init_storage addr sz i) h =
      PageHeap_Initialize_loop [Suc i..<7] (init_storage addr sz (Suc i)) h1"
    using blk(1) Suc.prems(2-4) i by (simp add: upt h1_def del: init_storage.simps)
  ultimately show ?case by (simp add: h1_def)
qed

lemma hsize_mono: "m \<le> n \<Longrightarrow> hsize k m \<le> hsize k n"
  by (induction k) (auto simp: ceil64_def intro!: div_le_mono)

lemma bitmap_words_mono:
  assumes "unat m \<le> unat n"
  shows "bitmap_words m \<le> bitmap_words n"
proof -
  have "GetRequiredDepth m \<le> GetRequiredDepth n"
    using GetRequiredDepth_gt [of n] assms by (intro GetRequiredDepth_le) auto
  then have "hbase 0 (unat m) (GetRequiredDepth m) \<le> hbase 0 (unat m) (GetRequiredDepth n)"
    by (rule hbase_mono)
  also have "\<dots> \<le> hbase 0 (unat n) (GetRequiredDepth n)"
    unfolding hbase_def using hsize_mono [OF assms] by (intro add_left_mono sum_mono)
  finally show ?thesis by (simp add: bitmap_words_def)
qed

text \<open>The metadata that \<open>CalculateMetadataOverheadSize\<close> reserves is enough for every bitmap.\<close>

definition overhead_bits :: "u64 \<Rightarrow> nat \<Rightarrow> u64" where
  "overhead_bits sz k = (init_align k * 2 + AlignUp sz (init_align k)) div push_bit (sh k) 1"

lemma overhead_bits_bounds:
  assumes "heap_region addr sz" and "k < 7"
  shows "unat (init_count addr sz k) \<le> unat (overhead_bits sz k)" and "unat (overhead_bits sz k) < 2 ^ 24"
proof -
  note p = init_place [OF assms]
  let ?q = "sh (min 6 (Suc k))" and ?x = "init_align k * 2 + AlignUp sz (init_align k)"
  have al: "unat (init_align k) = 2 ^ ?q" "init_align k \<noteq> 0"
    using unat_init_align [OF assms(2)] by (auto simp: u64_eq_iff)
  have "?q \<le> 30" using sh_bounds(2) [of "min 6 (Suc k)"] by simp
  then have q: "(2 :: nat) ^ ?q \<le> 2 ^ 30" by (intro power_increasing) auto
  have sz: "unat sz \<le> 2 ^ 35" using assms(1) by (simp add: heap_region_def)
  have "unat sz + unat (init_align k) \<le> 2 ^ 64" using sz q al(1) by simp
  note up = AlignUp_ge [OF this al(2), unfolded al(1)]
  have "unat (init_align k * 2) = 2 ^ ?q * 2" using q al(1) by (subst unat_times) auto
  then have x: "unat ?x = 2 ^ ?q * 2 + unat (AlignUp sz (init_align k))"
    using up(2) q sz by (subst unat_plus) auto
  have pw: "unat (push_bit (sh k) 1 :: u64) = 2 ^ sh k"
    using sh_bounds(2) [OF assms(2)] by (simp add: unat_pow2)
  have ob: "unat (overhead_bits sz k) = unat ?x div 2 ^ sh k"
    by (simp add: overhead_bits_def pw del: push_bit_of_1)
  have "unat (init_count addr sz k) * 2 ^ sh k \<le> unat ?x" using p(4,5,7) up(1) x by linarith
  then have "unat (init_count addr sz k) * 2 ^ sh k div 2 ^ sh k \<le> unat ?x div 2 ^ sh k"
    by (rule div_le_mono)
  then show "unat (init_count addr sz k) \<le> unat (overhead_bits sz k)" using ob by simp
  have "unat ?x < 2 ^ 24 * 2 ^ 12" using x up(2) q sz by simp
  moreover have "(2 :: nat) ^ 24 * 2 ^ 12 \<le> 2 ^ 24 * 2 ^ sh k"
    using sh_bounds(1) [OF assms(2)] by (intro mult_le_mono2 power_increasing) auto
  ultimately show "unat (overhead_bits sz k) < 2 ^ 24"
    unfolding ob by (intro less_mult_imp_div_less) linarith
qed

lemma ceil64_le_self: "ceil64 n \<le> n"
  unfolding ceil64_def by (cases n) (auto simp: div_le_dividend)

lemma hsize_le_self: "hsize k n \<le> n"
  by (induction k) (auto intro: order_trans [OF ceil64_le_self])

lemma bitmap_words_bound:
  assumes "unat n < 2 ^ 24"
  shows "bitmap_words n \<le> 2 ^ 26"
proof -
  have "GetRequiredDepth n \<le> 4" using assms by (intro GetRequiredDepth_le) auto
  moreover have "hbase 0 (unat n) d \<le> d * unat n" for d
    unfolding hbase_def using sum_bounded_above [of "{..<d}" "\<lambda>i. hsize (Suc i) (unat n)" "unat n"] hsize_le_self
    by (simp del: hsize.simps)
  ultimately have "bitmap_words n \<le> 4 * unat n"
    unfolding bitmap_words_def by (meson mult_le_mono1 order_trans)
  then show ?thesis using assms by simp
qed

lemma overhead_size:
  assumes "unat n < 2 ^ 24"
  shows "unat (Bitmap_CalculateMetadataOverheadSize n) = 8 * bitmap_words n"
proof -
  have "hbase (unat (0 :: u64)) (unat n) (GetRequiredDepth n) < 2 ^ 64"
    using bitmap_words_bound [OF assms] by (simp add: bitmap_words_def)
  then have "unat (Bitmap_overhead_loop (GetRequiredDepth n) n 0) = bitmap_words n"
    using assms by (subst Bitmap_overhead_loop_correct) (auto simp: bitmap_words_def)
  then show ?thesis
    using bitmap_words_bound [OF assms]
    by (simp add: Bitmap_CalculateMetadataOverheadSize_def unat_times)
qed

lemma unat_fold_add:
  fixes f :: "'a \<Rightarrow> u64"
  assumes "unat acc + sum_list (map (\<lambda>i. unat (f i)) xs) < 2 ^ 64"
  shows "unat (fold (\<lambda>i acc. acc + f i) xs acc) = unat acc + sum_list (map (\<lambda>i. unat (f i)) xs)"
  using assms
proof (induction xs arbitrary: acc)
  case (Cons x xs)
  have "unat (acc + f x) = unat acc + unat (f x)" using Cons.prems by (intro unat_plus) simp
  then show ?case using Cons by simp
qed simp

lemma metadata_enough:
  assumes "heap_region addr sz"
  shows "init_storage addr sz 7 \<le> unat (PageHeap_CalculateMetadataOverheadSize sz div 8)"
proof -
  let ?f = "\<lambda>k. Block_CalculateMetadataOverheadSize sz (sh k) (next_shift k)"
  have f: "unat (?f k) = 8 * bitmap_words (overhead_bits sz k)" if "k < 7" for k
    using overhead_size [OF overhead_bits_bounds(2) [OF assms that]]
    by (simp add: Block_CalculateMetadataOverheadSize_def overhead_bits_def init_align_def Let_def
        del: push_bit_of_1)
  let ?W = "sum_list (map (\<lambda>k. bitmap_words (overhead_bits sz k)) [0..<7])"
  have sum: "sum_list (map (\<lambda>k. unat (?f k)) [0..<7]) = 8 * ?W"
    using f by (subst sum_list_const_mult [symmetric]) (intro arg_cong [of _ _ sum_list] map_cong, auto)
  have "bitmap_words (overhead_bits sz k) \<le> 2 ^ 26" if "k < 7" for k
    using bitmap_words_bound [OF overhead_bits_bounds(2) [OF assms that]] .
  then have W: "?W \<le> 7 * 2 ^ 26"
    using sum_list_mono [of "[0..<7]" "\<lambda>k. bitmap_words (overhead_bits sz k)" "\<lambda>_. 2 ^ 26"]
    by (simp add: sum_list_triv)
  define tot where "tot = fold (\<lambda>k acc. acc + ?f k) [0..<7] 0"
  have tot: "unat tot = 8 * ?W"
    using unat_fold_add [of 0 ?f "[0..<7]"] W unfolding sum tot_def by simp
  have "unat tot \<le> unat (AlignUp tot PageSize)"
    using tot W by (intro AlignUp_ge(1)) auto
  then have "?W \<le> unat (PageHeap_CalculateMetadataOverheadSize sz div 8)"
    using tot by (simp add: PageHeap_CalculateMetadataOverheadSize_def tot_def)
  moreover have "init_storage addr sz k = sum_list (map (\<lambda>k. bitmap_words (init_count addr sz k)) [0..<k])" for k
    by (induction k) auto
  moreover have "sum_list (map (\<lambda>k. bitmap_words (init_count addr sz k)) [0..<7]) \<le> ?W"
    using overhead_bits_bounds(1) [OF assms] by (intro sum_list_mono bitmap_words_mono) auto
  ultimately show ?thesis by simp
qed

lemma init_nested:
  assumes "heap_region addr sz" and "k < 6"
  shows "unat (init_lo addr (Suc k)) \<le> unat (init_lo addr k)"
    and "unat (AlignUp (addr + sz) (init_align k)) \<le> unat (AlignUp (addr + sz) (init_align (Suc k)))"
proof -
  let ?q = "sh (min 6 (Suc k))" and ?r = "sh (min 6 (Suc (Suc k)))"
  have k: "k < 7" "Suc k < 7" using assms(2) by auto
  note p = init_place [OF assms(1) k(1)] and p' = init_place [OF assms(1) k(2)]
  have le': "?q \<le> ?r" "?q \<le> 30" using assms(2) sh_bounds(2) [of "min 6 (Suc k)"] by (auto intro: sh_mono)
  have qr: "(2 :: nat) ^ ?q dvd 2 ^ ?r" "(2 :: nat) ^ ?q \<le> 2 ^ 30"
    using le_imp_power_dvd [OF le'(1), of "2 :: nat"] power_increasing [OF le'(2), of "2 :: nat"] by simp_all
  have al: "unat (init_align k) = 2 ^ ?q" "init_align k \<noteq> 0"
    using unat_init_align [OF k(1)] by (auto simp: u64_eq_iff)
  have le: "unat addr + unat sz \<le> 2 ^ 63" using assms(1) by (simp add: heap_region_def)
  then have e: "unat (addr + sz) = unat addr + unat sz" by (intro unat_plus) simp
  show "unat (init_lo addr (Suc k)) \<le> unat (init_lo addr k)"
    unfolding init_lo_def [of addr k] using p'(1,3) qr(1) al(1)
    by (intro AlignDown_greatest) (auto intro: dvd_trans)
  show "unat (AlignUp (addr + sz) (init_align k)) \<le> unat (AlignUp (addr + sz) (init_align (Suc k)))"
    using p'(6,8) qr al le e by (intro AlignUp_least) (auto intro: dvd_trans)
qed

text \<open>
  After \<open>Initialize\<close> on a fresh heap nothing is free, every list is in place, and all accesses
  that follow stay inside the metadata.
\<close>

lemma PageHeap_Initialize_correct:
  assumes "heap_region addr sz"
  shows "\<exists>h'. PageHeap_Initialize addr sz (PageHeap_CalculateMetadataOverheadSize sz) mk_PageHeap = Some h' \<and>
    heap_repr h' (init_storage addr sz) (\<lambda>_. {}) {} \<and> heap_lo h' = unat addr \<and>
    heap_hi h' = unat addr + unat sz"
proof -
  define n where "n = unat (PageHeap_CalculateMetadataOverheadSize sz div 8)"
  define h where "h = mk_PageHeap\<lparr>ph_heap_address := addr, ph_heap_size := sz, ph_metadata := replicate n 0\<rparr>"
  obtain bs where bs: "PageHeap_Initialize_loop [0..<7] (init_storage addr sz 0) h = Some (h\<lparr>ph_blocks := bs\<rparr>)"
    "length bs = 7" "\<forall>k<7. init_block addr sz k (bs ! k)"
    using Initialize_loop_correct [OF assms, of 0 h]
    by (auto simp: h_def mk_PageHeap_def NumMemoryBlockPageShifts_def mk_Block_def mk_Bitmap_def)
  define h' where "h' = h\<lparr>ph_blocks := bs\<rparr>"
  have eq: "PageHeap_Initialize addr sz (PageHeap_CalculateMetadataOverheadSize sz) mk_PageHeap = Some h'"
    using bs(1) by (simp add: PageHeap_Initialize_def h'_def h_def n_def mk_PageHeap_def Let_def)
  have place: "block_shape k (bs ! k)" "blk_lo (bs ! k) = unat (init_lo addr k)"
    "blk_hi (bs ! k) = unat (AlignUp (addr + sz) (init_align k))" if "k < 7" for k
  proof -
    have i: "init_block addr sz k (bs ! k)" using bs(3) that by simp
    note p = init_place [OF assms that]
    have q: "(2 :: nat) ^ sh (min 6 (Suc k)) \<le> 2 ^ 30"
      using sh_bounds(2) [of "min 6 (Suc k)"] by (intro power_increasing) auto
    show lo: "blk_lo (bs ! k) = unat (init_lo addr k)" using i by (simp add: blk_lo_def init_block_def)
    show hi: "blk_hi (bs ! k) = unat (AlignUp (addr + sz) (init_align k))"
      using i p(5) lo by (simp add: blk_hi_def init_block_def)
    have "blk_hi (bs ! k) + 2 ^ 30 < 2 ^ 64" "0 < blk_lo (bs ! k)"
      using p(2,7) q assms hi lo by (auto simp: heap_region_def)
    then show "block_shape k (bs ! k)"
      using i p(1) lo that by (simp add: block_shape_def init_block_def)
  qed
  have "init_lo addr (Suc k) \<le> init_lo addr k \<and>
      AlignUp (addr + sz) (init_align k) \<le> AlignUp (addr + sz) (init_align (Suc k))" if k: "k < 6" for k
    using init_nested [OF assms k] by (simp add: word_le_nat_alt)
  then have "heap_shape h' (init_storage addr sz)"
    using place init_place [OF assms] bs(2,3)
    by (auto simp: heap_shape_def h'_def h_def word_le_nat_alt init_block_def simp del: init_storage.simps)
  moreover have "block_repr (init_storage addr sz k) (bs ! k) (replicate n 0) {}" if k: "k < 7" for k
  proof -
    have "init_storage addr sz (Suc k) \<le> init_storage addr sz 7"
      using lift_Suc_mono_le [of "init_storage addr sz" "Suc k" 7] k by simp
    then have "init_storage addr sz (Suc k) \<le> n" using metadata_enough [OF assms] by (simp add: n_def)
    then show ?thesis
      using bs(3) k unfolding block_repr_def
      by (intro bitmap_repr_empty) (auto simp: init_block_def blk_storage_end_def simp del: init_storage.simps)
  qed
  ultimately have "heap_repr h' (init_storage addr sz) (\<lambda>_. {}) {}"
    by (simp add: heap_repr_def h'_def h_def areas_def areas_disjoint_def)
  then show ?thesis using eq by (simp add: heap_lo_def heap_hi_def h'_def h_def)
qed


section \<open>The contract of the heap\<close>

text \<open>\<open>heap_free h S\<close>: the heap is well formed and exactly the addresses \<open>S\<close> are free.\<close>

definition heap_free :: "PageHeap \<Rightarrow> nat set \<Rightarrow> bool" where
  "heap_free h S \<longleftrightarrow> (\<exists>b F. heap_repr h b F S) \<and> S \<subseteq> {heap_lo h..<heap_hi h}"

lemma heap_free_Initialize:
  assumes "heap_region addr sz"
  shows "\<exists>h'. PageHeap_Initialize addr sz (PageHeap_CalculateMetadataOverheadSize sz) mk_PageHeap = Some h' \<and>
    heap_free h' {} \<and> heap_lo h' = unat addr \<and> heap_hi h' = unat addr + unat sz"
  using PageHeap_Initialize_correct [OF assms] by (auto simp: heap_free_def)

text \<open>The heaps of the witnesses: 64 pages at 0x80000000, none free and all free.\<close>

lemma example_region: "heap_region 0x80000000 0x40000"
  by (simp add: heap_region_def)

lemma example_heap:
  "\<exists>h. heap_free h {} \<and> heap_lo h = 0x80000000 \<and> heap_hi h = 0x80040000"
  using heap_free_Initialize [OF example_region] by auto

lemma example_heap_full:
  "\<exists>h. heap_free h {0x80000000..<0x80040000} \<and> heap_lo h = 0x80000000 \<and> heap_hi h = 0x80040000"
proof -
  obtain h where h: "heap_free h {}" "heap_lo h = 0x80000000" "heap_hi h = 0x80040000"
    using example_heap by blast
  then obtain b F where r: "heap_repr h b F {}" by (auto simp: heap_free_def)
  obtain h' where "freed b {} 0x80000000 0x80040000 h h'"
    using Free_correct [OF r, of "0x80000000" 64] h by auto
  then show ?thesis
    using h freed_heap_repr freed_lo_hi unfolding heap_free_def by fastforce
qed

lemma heap_free_Free:
  assumes "heap_free h S" and "2 ^ 12 dvd unat addr" and "heap_lo h \<le> unat addr"
    and "unat addr + unat num_pages * 4096 \<le> heap_hi h"
    and "{unat addr..<unat addr + unat num_pages * 4096} \<inter> S = {}"
  shows "\<exists>h'. Free addr num_pages h = Some h' \<and>
    heap_free h' (S \<union> {unat addr..<unat addr + unat num_pages * 4096}) \<and>
    heap_lo h' = heap_lo h \<and> heap_hi h' = heap_hi h"
proof -
  obtain b F where r: "heap_repr h b F S" using assms(1) by (auto simp: heap_free_def)
  obtain h' where h': "Free addr num_pages h = Some h'"
    "freed b S (unat addr) (unat addr + unat num_pages * 4096) h h'"
    using Free_correct [OF r assms(2-5)] by blast
  have "S \<union> {unat addr..<unat addr + unat num_pages * 4096} \<subseteq> {heap_lo h..<heap_hi h}"
    using assms(1,3,4) by (auto simp: heap_free_def)
  then show ?thesis
    using h' freed_heap_repr [OF h'(2)] freed_lo_hi [OF h'(2)] unfolding heap_free_def by auto
qed

text \<open>
  C3. \<open>Free\<close> gives back a range. Freeing pages of the heap that are not free never leaves the
  metadata, returns, and makes exactly the addresses of the range free in addition; merging blocks
  into larger ones neither loses nor invents memory.
\<close>
theorem Free_adds_range:
  assumes "heap_free h S" and "2 ^ 12 dvd unat addr" and "heap_lo h \<le> unat addr"
    and "unat addr + unat num_pages * 4096 \<le> heap_hi h"
    and "{unat addr..<unat addr + unat num_pages * 4096} \<inter> S = {}"
  shows "\<exists>h'. Free addr num_pages h = Some h' \<and>
    heap_free h' (S \<union> {unat addr..<unat addr + unat num_pages * 4096}) \<and>
    heap_lo h' = heap_lo h \<and> heap_hi h' = heap_hi h"
  using assms by (rule heap_free_Free)

lemma areas_empty_iff: "heap_repr h b F S \<Longrightarrow> S = {} \<longleftrightarrow> (\<forall>i<7. F i = {})"
  by (auto simp: heap_repr_def areas_def heap_area_def area_def)

lemma heap_free_AllocateBlock:
  assumes "heap_free h S" and "i < 7"
  shows "\<exists>a h'. AllocateBlock (int i) h = Some (a, h') \<and>
    (if a = 0 then h' = h \<and> (i = 0 \<longrightarrow> S = {})
     else 2 ^ (MemoryBlockPageShifts ! i) dvd unat a \<and>
       {unat a..<unat a + 2 ^ (MemoryBlockPageShifts ! i)} \<subseteq> S \<and>
       heap_free h' (S - {unat a..<unat a + 2 ^ (MemoryBlockPageShifts ! i)}) \<and>
       heap_lo h' = heap_lo h \<and> heap_hi h' = heap_hi h)"
proof -
  obtain b F where r: "heap_repr h b F S" and sub: "S \<subseteq> {heap_lo h..<heap_hi h}"
    using assms(1) by (auto simp: heap_free_def)
  note alloc = AllocateBlock_correct [OF r sub assms(2)]
  show ?thesis
  proof (cases "\<forall>k\<in>{i..<7}. F k = {}")
    case True
    then have "i = 0 \<longrightarrow> S = {}" using areas_empty_iff [OF r] by auto
    then show ?thesis using alloc True by auto
  next
    case False
    then obtain a h' F' where "AllocateBlock (int i) h = Some (a, h')" "a \<noteq> 0" "2 ^ sh i dvd unat a"
      "block_range i a \<subseteq> S" "heap_repr h' b F' (S - block_range i a)" "same_place h h'"
      using alloc unfolding if_not_P [OF False] by blast
    then show ?thesis
      using sub same_place_lo_hi [of h h'] unfolding heap_free_def block_range_def
      by (intro exI [of _ a] exI [of _ h']) auto
  qed
qed

text \<open>
  C4. \<open>AllocateBlock\<close> takes one block of the size asked for: it is aligned to that size, it was
  free, and afterwards exactly its addresses are no longer free, however large the block it was
  split from. Address 0 means failure and changes nothing; for single pages it means that nothing
  at all is free.
\<close>
theorem AllocateBlock_takes_block:
  assumes "heap_free h S" and "i < 7"
  shows "\<exists>a h'. AllocateBlock (int i) h = Some (a, h') \<and>
    (if a = 0 then h' = h \<and> (i = 0 \<longrightarrow> S = {})
     else 2 ^ (MemoryBlockPageShifts ! i) dvd unat a \<and>
       {unat a..<unat a + 2 ^ (MemoryBlockPageShifts ! i)} \<subseteq> S \<and>
       heap_free h' (S - {unat a..<unat a + 2 ^ (MemoryBlockPageShifts ! i)}) \<and>
       heap_lo h' = heap_lo h \<and> heap_hi h' = heap_hi h)"
  using assms by (rule heap_free_AllocateBlock)

lemma card_areas:
  assumes "heap_repr h b F S"
  shows "card S = (\<Sum>i<7. card (F i) * 2 ^ sh i)"
proof -
  have dj: "areas_disjoint (heap_area h) F" and S: "S = areas (heap_area h) F"
    and br: "\<And>i. i < 7 \<Longrightarrow> block_repr (b i) (ph_blocks h ! i) (ph_metadata h) (F i)"
    and bs: "\<And>i. i < 7 \<Longrightarrow> block_shape i (ph_blocks h ! i)"
    using assms by (auto simp: heap_repr_def heap_shape_def)
  have fin: "finite (F i)" if "i < 7" for i
    using br [OF that] finite_subset by (auto simp: block_repr_def bitmap_repr_def)
  have card1: "card (heap_area h i x) = 2 ^ sh i" "finite (heap_area h i x)" if "i < 7" for i x
    using bs [OF that] by (auto simp: heap_area_def area_def block_shape_def)
  have "card (\<Union>x\<in>F i. heap_area h i x) = (\<Sum>x\<in>F i. card (heap_area h i x))" if "i < 7" for i
    using fin [OF that] card1 [OF that] dj that unfolding areas_disjoint_def
    by (intro card_UN_disjoint) (simp, blast, blast)
  then have inner: "card (\<Union>x\<in>F i. heap_area h i x) = card (F i) * 2 ^ sh i" if "i < 7" for i
    using that card1 by simp
  have "card S = (\<Sum>i<7. card (\<Union>x\<in>F i. heap_area h i x))"
    unfolding S areas_def using fin card1 dj unfolding areas_disjoint_def
    by (intro card_UN_disjoint) (simp, blast, blast)
  then show ?thesis using inner by simp
qed

lemma heap_free_UpdateUsedSize:
  assumes "heap_free h S"
  shows "unat (ph_used_size (UpdateUsedSize h)) = unat (ph_heap_size h) - card S \<and>
    heap_free (UpdateUsedSize h) S"
proof -
  obtain b F where r: "heap_repr h b F S" and sub: "S \<subseteq> {heap_lo h..<heap_hi h}"
    using assms by (auto simp: heap_free_def)
  have len: "length (ph_blocks h) = 7" using r by (simp add: heap_repr_def heap_shape_def)
  have le: "card S \<le> unat (ph_heap_size h)"
    using card_mono [OF _ sub] by (simp add: heap_lo_def heap_hi_def)
  have pages: "unat (Block_GetNumFreePages (ph_blocks h ! i)) * 4096 = card (F i) * 2 ^ sh i"
    if i: "i < 7" for i
  proof -
    let ?blk = "ph_blocks h ! i"
    have "block_repr (b i) ?blk (ph_metadata h) (F i)" using r i by (simp add: heap_repr_def)
    then have "num_bits (blk_bitmap ?blk) = of_nat (card (F i))" "F i \<subseteq> {..<unat (blk_end_offset ?blk)}"
      by (auto simp: block_repr_def bitmap_repr_def)
    moreover from this have "card (F i) < 2 ^ 64"
      using card_mono [of "{..<unat (blk_end_offset ?blk)}" "F i"] unat_lt64 [of "blk_end_offset ?blk"] by simp
    ultimately have nb: "unat (num_bits (blk_bitmap ?blk)) = card (F i)" by (metis unat_of_nat64)
    have "(2 :: nat) ^ sh i = 2 ^ (sh i - 12) * 4096"
      using sh_bounds(1) [OF i] power_add [of "2 :: nat" "sh i - 12" 12] by simp
    moreover from this have np: "unat (Block_GetNumPages ?blk) = 2 ^ (sh i - 12)"
      using heap_block(2) [OF r i] by (simp add: Block_GetNumPages_def)
    moreover have "card (F i) * 2 ^ sh i \<le> card S"
      unfolding card_areas [OF r] using i member_le_sum [of i "{..<7}" "\<lambda>i. card (F i) * 2 ^ sh i"] by simp
    then have "card (F i) * 2 ^ sh i < 2 ^ 64" using le unat_lt64 [of "ph_heap_size h"] by linarith
    ultimately show ?thesis
      using nb unfolding Block_GetNumFreePages_def by (subst unat_times) auto
  qed
  let ?N = "sum_list (map (\<lambda>blk. unat (Block_GetNumFreePages blk)) (ph_blocks h))"
  have "?N = (\<Sum>i<7. unat (Block_GetNumFreePages (ph_blocks h ! i)))"
    by (simp add: sum_list_sum_nth len atLeast0LessThan)
  then have N: "?N * 4096 = card S"
    unfolding card_areas [OF r] using pages by (simp add: sum_distrib_right)
  then have lt: "?N * 4096 < 2 ^ 64" using le unat_lt64 [of "ph_heap_size h"] by linarith
  then have "unat (PageHeap_GetNumFreePages h) = ?N"
    unfolding PageHeap_GetNumFreePages_def by (subst unat_fold_add) auto
  then have "unat (PageHeap_GetNumFreePages h * PageSize) = card S"
    using N lt by (simp add: unat_times)
  moreover have fields: "ph_blocks (UpdateUsedSize h) = ph_blocks h" "ph_metadata (UpdateUsedSize h) = ph_metadata h"
    "ph_heap_address (UpdateUsedSize h) = ph_heap_address h" "ph_heap_size (UpdateUsedSize h) = ph_heap_size h"
    by (simp_all add: UpdateUsedSize_def)
  then have "heap_area (UpdateUsedSize h) = heap_area h" by (intro ext) (simp add: heap_area_def)
  then have "heap_free (UpdateUsedSize h) S"
    using assms by (simp add: heap_free_def heap_repr_def heap_shape_def heap_lo_def heap_hi_def fields)
  ultimately show ?thesis using le by (simp add: UpdateUsedSize_def unat_diff del: PageSize_eq)
qed

text \<open>
  \<open>UpdateUsedSize\<close> accounts for every byte: the used size is the size of the heap less the
  free addresses, although it is computed from the bit counts of seven bitmaps.
\<close>
lemma UpdateUsedSize_correct:
  assumes "heap_free h S"
  shows "unat (ph_used_size (UpdateUsedSize h)) = unat (ph_heap_size h) - card S \<and>
    heap_free (UpdateUsedSize h) S"
  using assms by (rule heap_free_UpdateUsedSize)

theorem Free_adds_range_witness:
  "\<exists>h h'. heap_free h {} \<and> Free 0x80001000 20 h = Some h' \<and> heap_free h' {0x80001000..<0x80015000}"
proof -
  obtain h where "heap_free h {}" "heap_lo h = 0x80000000" "heap_hi h = 0x80040000"
    using example_heap by blast
  then show ?thesis using Free_adds_range [of h "{}" "0x80001000" 20] by auto
qed

theorem AllocateBlock_takes_block_witness:
  "\<exists>h a h'. heap_free h {0x80000000..<0x80040000} \<and> AllocateBlock (int 0) h = Some (a, h') \<and> a \<noteq> 0 \<and>
     heap_free h' ({0x80000000..<0x80040000} - {unat a..<unat a + 4096})"
proof -
  obtain h where h: "heap_free h {0x80000000..<0x80040000}" using example_heap_full by blast
  obtain a h' where a: "AllocateBlock (int 0) h = Some (a, h')"
    "if a = 0 then False else heap_free h' ({0x80000000..<0x80040000} - {unat a..<unat a + 4096})"
    using AllocateBlock_takes_block [OF h, of 0] by (auto split: if_splits)
  then show ?thesis using h by (metis (full_types))
qed

end
