(* ===== verification/Page_List.thy ===== *)
theory Page_List
  imports Memory_Block
begin

text \<open>
  \<^verbatim>\<open>core/hle/kernel/memory/page_linked_list.h\<close>: the list of physical blocks that backs a
  mapping. A list is its \<^verbatim>\<open>std::list<Node>\<close>. \<open>list_pages\<close> is the set of addresses it covers;
  \<^verbatim>\<open>AddBlock\<close> adds a block to it, joining it to the last node when it follows on.
\<close>

record Node =
  node_addr :: u64
  node_num_pages :: u64

type_synonym PageLinkedList = "Node list"

definition GetNumPages :: "PageLinkedList \<Rightarrow> u64" where
  "GetNumPages nodes = fold (\<lambda>node num_pages. num_pages + node_num_pages node) nodes 0"

fun IsEqual :: "PageLinkedList \<Rightarrow> PageLinkedList \<Rightarrow> bool" where
  "IsEqual (this_node # this_rest) (other_node # other_rest) =
     (if node_addr this_node \<noteq> node_addr other_node \<or>
         node_num_pages this_node \<noteq> node_num_pages other_node
      then False
      else IsEqual this_rest other_rest)"
| "IsEqual this_nodes other_nodes = (this_nodes = [] \<and> other_nodes = [])"

definition AddBlock :: "u64 \<Rightarrow> u64 \<Rightarrow> PageLinkedList \<Rightarrow> ResultCode \<times> PageLinkedList" where
  "AddBlock address num_pages nodes =
     (if num_pages = 0 then (RESULT_SUCCESS, nodes)
      else
        (let (address, num_pages, nodes) =
           (if nodes \<noteq> [] \<and>
               node_addr (last nodes) + node_num_pages (last nodes) * PageSize = address
            then (node_addr (last nodes), num_pages + node_num_pages (last nodes), butlast nodes)
            else (address, num_pages, nodes))
         in (RESULT_SUCCESS, nodes @ [\<lparr>node_addr = address, node_num_pages = num_pages\<rparr>])))"

definition mk_PageLinkedList :: "u64 \<Rightarrow> u64 \<Rightarrow> PageLinkedList" where
  "mk_PageLinkedList address num_pages = snd (AddBlock address num_pages [])"

section \<open>The pages of a list\<close>

definition node_pages :: "Node \<Rightarrow> nat set" where
  "node_pages n = {unat (node_addr n)..<unat (node_addr n) + unat (node_num_pages n) * 4096}"

definition list_pages :: "PageLinkedList \<Rightarrow> nat set" where
  "list_pages nodes = \<Union> (node_pages ` set nodes)"

definition total_pages :: "PageLinkedList \<Rightarrow> nat" where
  "total_pages nodes = sum_list (map (\<lambda>n. unat (node_num_pages n)) nodes)"

text \<open>A well-formed node: page-aligned, not empty, and ending below the top of the address space.\<close>

definition node_ok :: "Node \<Rightarrow> bool" where
  "node_ok n \<longleftrightarrow> 4096 dvd unat (node_addr n) \<and> 0 < unat (node_num_pages n) \<and>
     unat (node_addr n) + unat (node_num_pages n) * 4096 < 2 ^ 64"

lemma IsEqual_iff: "IsEqual xs ys \<longleftrightarrow> xs = ys"
  by (induction xs ys rule: IsEqual.induct) auto

lemma list_pages_simps [simp]:
  "list_pages [] = {}" "list_pages (n # ns) = node_pages n \<union> list_pages ns"
  "list_pages (xs @ ys) = list_pages xs \<union> list_pages ys"
  by (auto simp: list_pages_def)

lemma total_pages_simps [simp]:
  "total_pages [] = 0" "total_pages (n # ns) = unat (node_num_pages n) + total_pages ns"
  "total_pages (xs @ ys) = total_pages xs + total_pages ys"
  by (auto simp: total_pages_def)

lemma GetNumPages_fold:
  "unat acc + total_pages nodes < 2 ^ 64 \<Longrightarrow>
     unat (fold (\<lambda>node num_pages. num_pages + node_num_pages node) nodes acc) = unat acc + total_pages nodes"
proof (induction nodes arbitrary: acc)
  case (Cons n ns)
  have "unat (acc + node_num_pages n) = unat acc + unat (node_num_pages n)"
    using Cons.prems by (intro unat_plus) simp
  then show ?case using Cons by simp
qed simp

lemma GetNumPages_total: "total_pages nodes < 2 ^ 64 \<Longrightarrow> unat (GetNumPages nodes) = total_pages nodes"
  using GetNumPages_fold [of 0 nodes] by (simp add: GetNumPages_def)

lemma AddBlock_success [simp]: "fst (AddBlock a n nodes) = RESULT_SUCCESS"
  by (simp add: AddBlock_def Let_def)

lemma join_nodes:
  assumes "node_ok n" and "unat a + unat k * 4096 < 2 ^ 64"
    and "node_addr n + node_num_pages n * PageSize = a"
  shows "node_ok \<lparr>node_addr = node_addr n, node_num_pages = k + node_num_pages n\<rparr>"
    and "node_pages \<lparr>node_addr = node_addr n, node_num_pages = k + node_num_pages n\<rparr> =
      node_pages n \<union> {unat a..<unat a + unat k * 4096}"
    and "unat (k + node_num_pages n) = unat k + unat (node_num_pages n)"
proof -
  have n: "unat (node_addr n) + unat (node_num_pages n) * 4096 < 2 ^ 64" "4096 dvd unat (node_addr n)"
    using assms(1) by (auto simp: node_ok_def)
  then have a: "unat a = unat (node_addr n) + unat (node_num_pages n) * 4096"
    using assms(3) by (auto simp: unat_plus unat_times)
  show s: "unat (k + node_num_pages n) = unat k + unat (node_num_pages n)"
    using a assms(2) by (intro unat_plus) simp
  show "node_ok \<lparr>node_addr = node_addr n, node_num_pages = k + node_num_pages n\<rparr>"
    using n a s assms(1,2) by (simp add: node_ok_def algebra_simps)
  show "node_pages \<lparr>node_addr = node_addr n, node_num_pages = k + node_num_pages n\<rparr> =
      node_pages n \<union> {unat a..<unat a + unat k * 4096}"
    using a s by (auto simp: node_pages_def algebra_simps)
qed

lemma AddBlock_correct:
  assumes "\<forall>n\<in>set nodes. node_ok n" and "4096 dvd unat a" and "unat a + unat k * 4096 < 2 ^ 64"
    and "AddBlock a k nodes = (r, nodes')"
  shows "r = RESULT_SUCCESS" and "\<forall>n\<in>set nodes'. node_ok n"
    and "list_pages nodes' = list_pages nodes \<union> {unat a..<unat a + unat k * 4096}"
    and "total_pages nodes' = total_pages nodes + unat k"
proof -
  show "r = RESULT_SUCCESS" using assms(4) AddBlock_success [of a k nodes] by simp
  have "(\<forall>n\<in>set nodes'. node_ok n) \<and>
    list_pages nodes' = list_pages nodes \<union> {unat a..<unat a + unat k * 4096} \<and>
    total_pages nodes' = total_pages nodes + unat k"
  proof (cases "k = 0 \<or> nodes = [] \<or> node_addr (last nodes) + node_num_pages (last nodes) * PageSize \<noteq> a")
    case True
    then show ?thesis
      using assms by (auto simp: AddBlock_def node_ok_def node_pages_def unat_gt_0 split: if_splits)
  next
    case False
    then have split: "nodes = butlast nodes @ [last nodes]" and last: "last nodes \<in> set nodes" by auto
    note join = join_nodes [of "last nodes" a k]
    have "nodes' = butlast nodes @ [\<lparr>node_addr = node_addr (last nodes),
        node_num_pages = k + node_num_pages (last nodes)\<rparr>]"
      using False assms(4) by (simp add: AddBlock_def split: if_splits)
    moreover have "list_pages nodes = list_pages (butlast nodes) \<union> node_pages (last nodes)"
      "total_pages nodes = total_pages (butlast nodes) + unat (node_num_pages (last nodes))"
      by (subst split, simp)+
    ultimately show ?thesis
      using join assms last False by (auto dest: in_set_butlastD)
  qed
  then show "\<forall>n\<in>set nodes'. node_ok n"
    "list_pages nodes' = list_pages nodes \<union> {unat a..<unat a + unat k * 4096}"
    "total_pages nodes' = total_pages nodes + unat k" by auto
qed

end
