(* ===== verification/Memory_Manager.thy ===== *)
theory Memory_Manager
  imports Page_Heap Page_List
begin

text \<open>
  The physical memory manager: \<^verbatim>\<open>core/hle/kernel/memory/memory_manager.h\<close> and
  \<^verbatim>\<open>memory_manager.cpp\<close>. A manager (\<^verbatim>\<open>Impl\<close>) wraps a page heap; the loops of
  \<^verbatim>\<open>Allocate\<close> and \<^verbatim>\<open>Free\<close> use only its two operations, so their models take the operations
  of the chosen manager as arguments and the lemmas about them are proved once, in the locale
  \<open>page_source\<close>, from the laws of the heap. \<^verbatim>\<open>Direction\<close> is not used by the code. The
  pool locks are taken for the whole of each operation, so an operation is one step.
\<close>

section \<open>The code\<close>

datatype Pool = Application | Applet | System | SystemNonSecure

fun pool_index :: "Pool \<Rightarrow> nat" where
  "pool_index Application = 0"
| "pool_index Applet = 1"
| "pool_index System = 2"
| "pool_index SystemNonSecure = 3"

record Impl =
  im_heap :: PageHeap
  im_pool :: Pool

definition MaxManagerCount :: nat where
  "MaxManagerCount = 10"

record MemoryManager =
  mm_managers :: "Impl list"

definition mk_MemoryManager :: MemoryManager where
  "mk_MemoryManager =
     \<lparr>mm_managers = replicate MaxManagerCount \<lparr>im_heap = mk_PageHeap, im_pool = Application\<rparr>\<rparr>"

definition Impl_AllocateBlock :: "int \<Rightarrow> Impl \<Rightarrow> (u64 \<times> Impl) option" where
  "Impl_AllocateBlock index im = do {
     (addr, h) \<leftarrow> AllocateBlock index (im_heap im);
     Some (addr, im\<lparr>im_heap := h\<rparr>)
   }"

definition Impl_Free :: "u64 \<Rightarrow> u64 \<Rightarrow> Impl \<Rightarrow> Impl option" where
  "Impl_Free addr num_pages im = do {
     h \<leftarrow> Free addr num_pages (im_heap im);
     Some (im\<lparr>im_heap := h\<rparr>)
   }"

definition Impl_GetEndAddress :: "Impl \<Rightarrow> u64" where
  "Impl_GetEndAddress im = PageHeap_GetEndAddress (im_heap im)"

definition Impl_Initialize :: "Pool \<Rightarrow> u64 \<Rightarrow> u64 \<Rightarrow> Impl \<Rightarrow> (u64 \<times> Impl) option" where
  "Impl_Initialize new_pool start_address end_address im = do {
     let sz = end_address - start_address;
     let ref_count_size = (sz div PageSize) * 2;
     let optimize_map_size = (AlignUp (sz div PageSize) 64 div 64) * 8;
     let manager_size = AlignUp (optimize_map_size + ref_count_size) PageSize;
     let page_heap_size = PageHeap_CalculateMetadataOverheadSize sz;
     let total_metadata_size = manager_size + page_heap_size;
     h \<leftarrow> PageHeap_Initialize start_address sz page_heap_size (im_heap im);
     h \<leftarrow> Free start_address (sz div PageSize) h;
     Some (total_metadata_size, im\<lparr>im_pool := new_pool, im_heap := UpdateUsedSize h\<rparr>)
   }"

definition InitializeManager :: "Pool \<Rightarrow> u64 \<Rightarrow> u64 \<Rightarrow> MemoryManager \<Rightarrow> MemoryManager option" where
  "InitializeManager pool start_address end_address mm = do {
     im \<leftarrow> nth_opt (mm_managers mm) (pool_index pool);
     (_, im) \<leftarrow> Impl_Initialize pool start_address end_address im;
     Some (mm\<lparr>mm_managers := (mm_managers mm)[pool_index pool := im]\<rparr>)
   }"

definition AllocateContinuous :: "u64 \<Rightarrow> u64 \<Rightarrow> Pool \<Rightarrow> MemoryManager \<Rightarrow> (u64 \<times> MemoryManager) option" where
  "AllocateContinuous num_pages align_pages pool mm =
     (if num_pages = 0 then Some (0, mm)
      else do {
        let heap_index = GetAlignedBlockIndex num_pages align_pages;
        im \<leftarrow> nth_opt (mm_managers mm) (pool_index pool);
        (allocated_block, im) \<leftarrow> Impl_AllocateBlock heap_index im;
        if allocated_block = 0
        then Some (0, mm\<lparr>mm_managers := (mm_managers mm)[pool_index pool := im]\<rparr>)
        else do {
          allocated_pages \<leftarrow> GetBlockNumPages (nat heap_index);
          im \<leftarrow> (if allocated_pages > num_pages
                then Impl_Free (allocated_block + num_pages * PageSize) (allocated_pages - num_pages) im
                else Some im);
          Some (allocated_block, mm\<lparr>mm_managers := (mm_managers mm)[pool_index pool := im]\<rparr>)
        }
      })"

text \<open>
  The inner loop of \<^verbatim>\<open>Allocate\<close> at one block size. \<open>Inl\<close> is the early return of an error of
  \<^verbatim>\<open>AddBlock\<close>, where the block guard has freed the block; \<open>Inr\<close> carries the pages still
  wanted.
\<close>

partial_function (option) Allocate_while ::
  "(int \<Rightarrow> 'h \<Rightarrow> (u64 \<times> 'h) option) \<Rightarrow> (u64 \<Rightarrow> u64 \<Rightarrow> 'h \<Rightarrow> 'h option) \<Rightarrow> int \<Rightarrow> u64 \<Rightarrow> u64 \<Rightarrow>
     PageLinkedList \<Rightarrow> 'h \<Rightarrow> ((ResultCode + u64) \<times> PageLinkedList \<times> 'h) option" where
  "Allocate_while alloc free index pages_per_alloc num_pages page_list h =
     (if num_pages \<ge> pages_per_alloc
      then do {
        (allocated_block, h) \<leftarrow> alloc index h;
        if allocated_block = 0 then Some (Inr num_pages, page_list, h)
        else (let (result, page_list) = AddBlock allocated_block pages_per_alloc page_list
              in if IsError result
                 then do {
                   h \<leftarrow> free allocated_block pages_per_alloc h;
                   Some (Inl result, page_list, h)
                 }
                 else Allocate_while alloc free index pages_per_alloc (num_pages - pages_per_alloc)
                        page_list h)
      }
      else Some (Inr num_pages, page_list, h))"

text \<open>The outer loop counts the index down; the first argument is the index plus one.\<close>

fun Allocate_for ::
  "(int \<Rightarrow> 'h \<Rightarrow> (u64 \<times> 'h) option) \<Rightarrow> (u64 \<Rightarrow> u64 \<Rightarrow> 'h \<Rightarrow> 'h option) \<Rightarrow> nat \<Rightarrow> u64 \<Rightarrow>
     PageLinkedList \<Rightarrow> 'h \<Rightarrow> ((ResultCode + u64) \<times> PageLinkedList \<times> 'h) option" where
  "Allocate_for alloc free 0 num_pages page_list h = Some (Inr num_pages, page_list, h)"
| "Allocate_for alloc free (Suc index) num_pages page_list h =
     (if num_pages > 0
      then do {
        pages_per_alloc \<leftarrow> GetBlockNumPages index;
        (result, page_list, h) \<leftarrow>
          Allocate_while alloc free (int index) pages_per_alloc num_pages page_list h;
        case result of
          Inl err \<Rightarrow> Some (Inl err, page_list, h)
        | Inr num_pages \<Rightarrow> Allocate_for alloc free index num_pages page_list h
      }
      else Some (Inr num_pages, page_list, h))"

text \<open>The loop of the group guard and of \<^verbatim>\<open>MemoryManager::Free\<close>.\<close>

fun Free_nodes :: "(u64 \<Rightarrow> u64 \<Rightarrow> 'h \<Rightarrow> 'h option) \<Rightarrow> ('h \<Rightarrow> u64) \<Rightarrow> PageLinkedList \<Rightarrow> 'h \<Rightarrow> 'h option" where
  "Free_nodes free end_address [] h = Some h"
| "Free_nodes free end_address (it # rest) h = do {
     let min_num_pages = min (node_num_pages it) ((end_address h - node_addr it) div PageSize);
     h \<leftarrow> free (node_addr it) min_num_pages h;
     Free_nodes free end_address rest h
   }"

definition Allocate_from ::
  "(int \<Rightarrow> 'h \<Rightarrow> (u64 \<times> 'h) option) \<Rightarrow> (u64 \<Rightarrow> u64 \<Rightarrow> 'h \<Rightarrow> 'h option) \<Rightarrow> ('h \<Rightarrow> u64) \<Rightarrow>
     PageLinkedList \<Rightarrow> u64 \<Rightarrow> 'h \<Rightarrow> (ResultCode \<times> PageLinkedList \<times> 'h) option" where
  "Allocate_from alloc free end_address page_list num_pages h =
     (let heap_index = GetBlockIndex num_pages
      in if heap_index < 0 then Some (ERR_OUT_OF_MEMORY, page_list, h)
         else do {
           (result, page_list, h) \<leftarrow>
             Allocate_for alloc free (Suc (nat heap_index)) num_pages page_list h;
           case result of
             Inl err \<Rightarrow> do {
               h \<leftarrow> Free_nodes free end_address page_list h;
               Some (err, page_list, h)
             }
           | Inr num_pages \<Rightarrow>
               if num_pages \<noteq> 0
               then do {
                 h \<leftarrow> Free_nodes free end_address page_list h;
                 Some (ERR_OUT_OF_MEMORY, page_list, h)
               }
               else Some (RESULT_SUCCESS, page_list, h)
         })"

definition MemoryManager_Allocate ::
  "PageLinkedList \<Rightarrow> u64 \<Rightarrow> Pool \<Rightarrow> MemoryManager \<Rightarrow> (ResultCode \<times> PageLinkedList \<times> MemoryManager) option" where
  "MemoryManager_Allocate page_list num_pages pool mm =
     (if num_pages = 0 then Some (RESULT_SUCCESS, page_list, mm)
      else do {
        im \<leftarrow> nth_opt (mm_managers mm) (pool_index pool);
        (result, page_list, im) \<leftarrow>
          Allocate_from Impl_AllocateBlock Impl_Free Impl_GetEndAddress page_list num_pages im;
        Some (result, page_list, mm\<lparr>mm_managers := (mm_managers mm)[pool_index pool := im]\<rparr>)
      })"

definition MemoryManager_Free ::
  "PageLinkedList \<Rightarrow> u64 \<Rightarrow> Pool \<Rightarrow> MemoryManager \<Rightarrow> (ResultCode \<times> MemoryManager) option" where
  "MemoryManager_Free page_list num_pages pool mm =
     (if num_pages = 0 then Some (RESULT_SUCCESS, mm)
      else do {
        im \<leftarrow> nth_opt (mm_managers mm) (pool_index pool);
        im \<leftarrow> Free_nodes Impl_Free Impl_GetEndAddress page_list im;
        Some (RESULT_SUCCESS, mm\<lparr>mm_managers := (mm_managers mm)[pool_index pool := im]\<rparr>)
      })"

section \<open>Clients of a source of pages\<close>

lemma GetBlockNumPages_eq:
  "i < 7 \<Longrightarrow> GetBlockNumPages i = Some (push_bit (sh i) 1 div PageSize)"
  by (simp add: GetBlockNumPages_def GetBlockSize_def)

lemma unat_block_pages: "i < 7 \<Longrightarrow> unat (push_bit (sh i) 1 div PageSize :: u64) * 4096 = 2 ^ sh i"
  using less7_cases [of i] by (auto simp: MemoryBlockPageShifts_def)

text \<open>
  What \<^verbatim>\<open>Allocate\<close> needs of a manager. \<open>holds h S\<close> says that exactly the addresses \<open>S\<close> are
  free in \<open>h\<close>; \<open>bounds h\<close> is the memory the manager looks after.
\<close>

locale page_source =
  fixes alloc :: "int \<Rightarrow> 'h \<Rightarrow> (u64 \<times> 'h) option"
    and free :: "u64 \<Rightarrow> u64 \<Rightarrow> 'h \<Rightarrow> 'h option"
    and end_address :: "'h \<Rightarrow> u64"
    and holds :: "'h \<Rightarrow> nat set \<Rightarrow> bool"
    and bounds :: "'h \<Rightarrow> nat \<times> nat"
  assumes alloc_block: "holds h S \<Longrightarrow> i < 7 \<Longrightarrow> \<exists>a h'. alloc (int i) h = Some (a, h') \<and>
      (if a = 0 then h' = h \<and> (i = 0 \<longrightarrow> S = {})
       else 2 ^ sh i dvd unat a \<and> {unat a..<unat a + 2 ^ sh i} \<subseteq> S \<and>
         holds h' (S - {unat a..<unat a + 2 ^ sh i}) \<and> bounds h' = bounds h)"
    and free_range: "holds h S \<Longrightarrow> 4096 dvd unat a \<Longrightarrow> fst (bounds h) \<le> unat a \<Longrightarrow>
      unat a + unat n * 4096 \<le> snd (bounds h) \<Longrightarrow> {unat a..<unat a + unat n * 4096} \<inter> S = {} \<Longrightarrow>
      \<exists>h'. free a n h = Some h' \<and> holds h' (S \<union> {unat a..<unat a + unat n * 4096}) \<and>
        bounds h' = bounds h"
    and holds_bounds: "holds h S \<Longrightarrow> S \<subseteq> {fst (bounds h)..<snd (bounds h)}"
    and end_bounds: "holds h S \<Longrightarrow> unat (end_address h) = snd (bounds h)"
begin

text \<open>A list taken out of a source: its pages were free and are no longer, without overlap.\<close>

definition taken :: "'h \<Rightarrow> nat set \<Rightarrow> PageLinkedList \<Rightarrow> 'h \<Rightarrow> bool" where
  "taken h S nodes h' \<longleftrightarrow> (\<forall>n\<in>set nodes. node_ok n) \<and> list_pages nodes \<subseteq> S \<and>
     holds h' (S - list_pages nodes) \<and> bounds h' = bounds h \<and>
     card (list_pages nodes) = total_pages nodes * 4096"

lemma taken_Nil: "holds h S \<Longrightarrow> taken h S [] h"
  by (simp add: taken_def)

lemma finite_holds: "holds h S \<Longrightarrow> finite S"
  using holds_bounds finite_subset by blast

lemma card_le_bounds: "holds h S \<Longrightarrow> card S < 2 ^ 64"
proof -
  assume h: "holds h S"
  then have "card S \<le> card {fst (bounds h)..<snd (bounds h)}" by (intro card_mono holds_bounds) auto
  then show ?thesis using end_bounds [OF h] unat_lt64 [of "end_address h"] by simp
qed

text \<open>One more block.\<close>

lemma taken_AddBlock:
  assumes "taken h S nodes h1" and "holds h S" and "i < 7" and "unat k * 4096 = 2 ^ sh i"
    and "2 ^ sh i dvd unat a" and "{unat a..<unat a + 2 ^ sh i} \<subseteq> S - list_pages nodes"
    and "holds h2 (S - list_pages nodes - {unat a..<unat a + 2 ^ sh i})" and "bounds h2 = bounds h1"
    and "AddBlock a k nodes = (r, nodes')"
  shows "r = RESULT_SUCCESS" and "taken h S nodes' h2" and "total_pages nodes' = total_pages nodes + unat k"
proof -
  have t: "\<forall>n\<in>set nodes. node_ok n" "list_pages nodes \<subseteq> S" "bounds h1 = bounds h"
    "card (list_pages nodes) = total_pages nodes * 4096"
    using assms(1) by (auto simp: taken_def)
  have "2 ^ 12 dvd unat a" using dvd_trans [OF le_imp_power_dvd assms(5)] sh_bounds(1) [OF assms(3)] by blast
  then have al: "4096 dvd unat a" by simp
  have "{unat a..<unat a + 2 ^ sh i} \<subseteq> {fst (bounds h)..<snd (bounds h)}"
    using assms(6) holds_bounds [OF assms(2)] by blast
  then have "unat a + 2 ^ sh i \<le> snd (bounds h)" by (simp add: ivl_subset)
  then have lt: "unat a + unat k * 4096 < 2 ^ 64"
    using end_bounds [OF assms(2)] unat_lt64 [of "end_address h"] assms(4) by linarith
  note add = AddBlock_correct [OF t(1) al lt assms(9)]
  show "r = RESULT_SUCCESS" "total_pages nodes' = total_pages nodes + unat k" using add by auto
  have fin: "finite (list_pages nodes)" using finite_subset [OF t(2) finite_holds [OF assms(2)]] .
  have "list_pages nodes \<inter> {unat a..<unat a + unat k * 4096} = {}" using assms(4,6) by auto
  then have "card (list_pages nodes') = total_pages nodes' * 4096"
    using fin t(4) add(3,4) by (simp add: card_Un_disjoint)
  moreover have "S - list_pages nodes' = S - list_pages nodes - {unat a..<unat a + 2 ^ sh i}"
    using add(3) assms(4) by auto
  ultimately show "taken h S nodes' h2"
    using add assms(4,6,7,8) t by (auto simp: taken_def)
qed

end

context page_source
begin

lemma Allocate_while_correct:
  assumes "holds h S" and "i < 7" and "unat k * 4096 = 2 ^ sh i" and "taken h S nodes h1"
  shows "\<exists>np' nodes' h'. Allocate_while alloc free (int i) k np nodes h1 = Some (Inr np', nodes', h') \<and>
    taken h S nodes' h' \<and> total_pages nodes' + unat np' = total_pages nodes + unat np \<and>
    (i = 0 \<longrightarrow> np' \<noteq> 0 \<longrightarrow> S - list_pages nodes' = {})"
  using assms(4)
proof (induction "unat np" arbitrary: np nodes h1 rule: less_induct)
  case less
  have k: "0 < unat k" "i = 0 \<longrightarrow> k = 1"
  proof -
    show "0 < unat k" using assms(3) by (cases "unat k = 0") auto
    show "i = 0 \<longrightarrow> k = 1" using assms(3) by (auto simp: u64_eq_iff)
  qed
  show ?case
  proof (cases "np \<ge> k")
    case False
    then have "i = 0 \<longrightarrow> np = 0" using k(2) by (auto simp: word_less_nat_alt not_le u64_eq_iff)
    then show ?thesis using False less.prems by (subst Allocate_while.simps) auto
  next
    case True
    have h1: "holds h1 (S - list_pages nodes)" "bounds h1 = bounds h" using less.prems by (auto simp: taken_def)
    obtain a h2 where a: "alloc (int i) h1 = Some (a, h2)"
      "if a = 0 then h2 = h1 \<and> (i = 0 \<longrightarrow> S - list_pages nodes = {})
       else 2 ^ sh i dvd unat a \<and> {unat a..<unat a + 2 ^ sh i} \<subseteq> S - list_pages nodes \<and>
         holds h2 (S - list_pages nodes - {unat a..<unat a + 2 ^ sh i}) \<and> bounds h2 = bounds h1"
      using alloc_block [OF h1(1) assms(2)] by blast
    show ?thesis
    proof (cases "a = 0")
      case True
      then show ?thesis using a less.prems \<open>np \<ge> k\<close> by (subst Allocate_while.simps) auto
    next
      case False
      obtain r nodes2 where ab: "AddBlock a k nodes = (r, nodes2)" by (cases "AddBlock a k nodes")
      have b: "2 ^ sh i dvd unat a" "{unat a..<unat a + 2 ^ sh i} \<subseteq> S - list_pages nodes"
        "holds h2 (S - list_pages nodes - {unat a..<unat a + 2 ^ sh i})" "bounds h2 = bounds h1"
        using a(2) False by auto
      note add = taken_AddBlock [OF less.prems assms(1-3) b ab]
      have np: "unat (np - k) = unat np - unat k" "unat k \<le> unat np"
        using True by (auto simp: unat_diff word_le_nat_alt)
      have "Allocate_while alloc free (int i) k np nodes h1 = Allocate_while alloc free (int i) k (np - k) nodes2 h2"
        using True False a(1) ab add(1) by (subst Allocate_while.simps) simp
      moreover have "unat (np - k) < unat np" using np k(1) by linarith
      ultimately show ?thesis using less.hyps [OF _ add(2), of "np - k"] np add(3) by auto
    qed
  qed
qed

lemma Allocate_for_correct:
  assumes "holds h S" and "n \<le> 7" and "taken h S nodes h1"
  shows "\<exists>np' nodes' h'. Allocate_for alloc free n np nodes h1 = Some (Inr np', nodes', h') \<and>
    taken h S nodes' h' \<and> total_pages nodes' + unat np' = total_pages nodes + unat np \<and>
    (0 < n \<longrightarrow> np' \<noteq> 0 \<longrightarrow> S - list_pages nodes' = {})"
  using assms(2,3)
proof (induction n arbitrary: np nodes h1)
  case (Suc i)
  show ?case
  proof (cases "np = 0")
    case True
    then show ?thesis using Suc.prems by auto
  next
    case False
    have i: "i < 7" using Suc.prems(1) by simp
    let ?k = "push_bit (sh i) 1 div PageSize :: u64"
    obtain np1 nodes1 h2 where w: "Allocate_while alloc free (int i) ?k np nodes h1 = Some (Inr np1, nodes1, h2)"
      "taken h S nodes1 h2" "total_pages nodes1 + unat np1 = total_pages nodes + unat np"
      "i = 0 \<longrightarrow> np1 \<noteq> 0 \<longrightarrow> S - list_pages nodes1 = {}"
      using Allocate_while_correct [OF assms(1) i unat_block_pages [OF i] Suc.prems(2)] by blast
    have "Allocate_for alloc free (Suc i) np nodes h1 = Allocate_for alloc free i np1 nodes1 h2"
      using False w(1) by (simp add: GetBlockNumPages_eq [OF i] word_neq_0_conv del: push_bit_of_1 PageSize_eq)
    then show ?thesis using Suc.IH [OF _ w(2), of np1] i w by (cases "i = 0") auto
  qed
qed auto

lemma card_node: "card (node_pages n) = unat (node_num_pages n) * 4096"
  by (simp add: node_pages_def)

lemma card_list_pages_le: "card (list_pages ns) \<le> total_pages ns * 4096"
proof (induction ns)
  case (Cons n ns)
  have "card (list_pages (n # ns)) \<le> card (node_pages n) + card (list_pages ns)"
    by (simp add: card_Un_le)
  then show ?case using Cons by (simp add: card_node algebra_simps)
qed simp

lemma finite_list_pages: "finite (list_pages ns)"
  by (auto simp: list_pages_def node_pages_def)

lemma card_list_pages_Cons:
  assumes "card (list_pages (n # ns)) = total_pages (n # ns) * 4096"
  shows "node_pages n \<inter> list_pages ns = {}" and "card (list_pages ns) = total_pages ns * 4096"
proof -
  have fin: "finite (node_pages n)" "finite (list_pages ns)"
    using finite_list_pages by (auto simp: node_pages_def)
  have "card (node_pages n) + card (list_pages ns) =
      card (node_pages n \<union> list_pages ns) + card (node_pages n \<inter> list_pages ns)"
    using fin by (rule card_Un_Int)
  moreover have "card (node_pages n \<union> list_pages ns) = card (node_pages n) + total_pages ns * 4096"
    using assms by (simp add: card_node algebra_simps)
  ultimately have "card (node_pages n \<inter> list_pages ns) = 0" "card (list_pages ns) = total_pages ns * 4096"
    using card_list_pages_le [of ns] by linarith+
  then show "node_pages n \<inter> list_pages ns = {}" "card (list_pages ns) = total_pages ns * 4096"
    using fin by auto
qed

lemma Free_nodes_correct:
  assumes "holds h T" and "\<forall>n\<in>set nodes. node_ok n" and "list_pages nodes \<inter> T = {}"
    and "list_pages nodes \<subseteq> {fst (bounds h)..<snd (bounds h)}"
    and "card (list_pages nodes) = total_pages nodes * 4096"
  shows "\<exists>h'. Free_nodes free end_address nodes h = Some h' \<and> holds h' (T \<union> list_pages nodes) \<and>
    bounds h' = bounds h"
  using assms
proof (induction nodes arbitrary: h T)
  case (Cons n nodes)
  note dj = card_list_pages_Cons [OF Cons.prems(5)]
  have ok: "4096 dvd unat (node_addr n)" "0 < unat (node_num_pages n)"
    using Cons.prems(2) by (auto simp: node_ok_def)
  have "{unat (node_addr n)..<unat (node_addr n) + unat (node_num_pages n) * 4096} \<subseteq>
      {fst (bounds h)..<snd (bounds h)}"
    using Cons.prems(4) by (simp add: node_pages_def)
  then have b: "fst (bounds h) \<le> unat (node_addr n)"
    "unat (node_addr n) + unat (node_num_pages n) * 4096 \<le> snd (bounds h)"
    using ok(2) by (auto simp: ivl_subset)
  have "unat (node_num_pages n) * 4096 \<le> unat (end_address h) - unat (node_addr n)"
    using b(2) end_bounds [OF Cons.prems(1)] by linarith
  then have "unat (node_num_pages n) \<le> (unat (end_address h) - unat (node_addr n)) div 4096"
    by (simp add: less_eq_div_iff_mult_less_eq)
  then have mn: "min (node_num_pages n) ((end_address h - node_addr n) div PageSize) = node_num_pages n"
    using b end_bounds [OF Cons.prems(1)] by (simp add: min_def word_le_nat_alt unat_diff)
  have "\<exists>h1. free (node_addr n) (node_num_pages n) h = Some h1 \<and> holds h1 (T \<union> node_pages n) \<and>
      bounds h1 = bounds h"
    unfolding node_pages_def using Cons.prems(3) b ok(1)
    by (intro free_range [OF Cons.prems(1)]) (auto simp: node_pages_def)
  then obtain h1 where h1: "free (node_addr n) (node_num_pages n) h = Some h1"
    "holds h1 (T \<union> node_pages n)" "bounds h1 = bounds h" by blast
  obtain h' where "Free_nodes free end_address nodes h1 = Some h'"
    "holds h' (T \<union> node_pages n \<union> list_pages nodes)" "bounds h' = bounds h1"
    using Cons.IH [OF h1(2)] Cons.prems(2-4) dj h1(3) by auto
  then show ?case using h1 mn by (simp add: Let_def Un_assoc del: PageSize_eq)
qed simp

end

lemma GetBlockIndex_range:
  assumes "num_pages \<noteq> 0"
  shows "0 \<le> GetBlockIndex num_pages" and "nat (GetBlockIndex num_pages) < 7"
proof -
  let ?P = "\<lambda>i. num_pages \<ge> push_bit (sh i) 1 div PageSize"
  have "?P 0" using assms by (simp add: word_le_nat_alt unat_gt_0 Suc_le_eq)
  moreover have "0 \<in> set (rev [0..<7 :: nat])" by simp
  ultimately have "find ?P (rev [0..<7]) \<noteq> None" unfolding find_None_iff by blast
  then obtain i where i: "find ?P (rev [0..<7]) = Some i" by blast
  then have "i < 7" by (auto simp: find_Some_iff rev_nth)
  then show "0 \<le> GetBlockIndex num_pages" "nat (GetBlockIndex num_pages) < 7"
    using i by (simp_all add: GetBlockIndex_def NumMemoryBlockPageShifts_def)
qed

context page_source
begin

lemma Allocate_from_correct:
  assumes "holds h S" and "np \<noteq> 0"
  shows "\<exists>r nodes h'. Allocate_from alloc free end_address [] np h = Some (r, nodes, h') \<and>
    (if unat np * 4096 \<le> card S then r = RESULT_SUCCESS \<and> taken h S nodes h' \<and> total_pages nodes = unat np
     else r = ERR_OUT_OF_MEMORY \<and> holds h' S \<and> bounds h' = bounds h)"
proof -
  define m where "m = Suc (nat (GetBlockIndex np))"
  have m: "m \<le> 7" "0 < m" using GetBlockIndex_range [OF assms(2)] by (auto simp: m_def)
  obtain np' nodes h1 where f: "Allocate_for alloc free m np [] h = Some (Inr np', nodes, h1)"
    "taken h S nodes h1" "total_pages nodes + unat np' = unat np" "np' \<noteq> 0 \<longrightarrow> S - list_pages nodes = {}"
    using Allocate_for_correct [OF assms(1) m(1) taken_Nil [OF assms(1)], of np] m(2) by auto
  have t: "list_pages nodes \<subseteq> S" "card (list_pages nodes) = total_pages nodes * 4096"
    "\<forall>n\<in>set nodes. node_ok n" "holds h1 (S - list_pages nodes)" "bounds h1 = bounds h"
    using f(2) by (auto simp: taken_def)
  have eq: "Allocate_from alloc free end_address [] np h =
      (if np' \<noteq> 0 then do { h \<leftarrow> Free_nodes free end_address nodes h1; Some (ERR_OUT_OF_MEMORY, nodes, h) }
       else Some (RESULT_SUCCESS, nodes, h1))"
    using f(1) GetBlockIndex_range [OF assms(2)] by (simp add: Allocate_from_def m_def Let_def)
  show ?thesis
  proof (cases "np' = 0")
    case True
    then have "unat np * 4096 \<le> card S"
      using card_mono [OF finite_holds [OF assms(1)] t(1)] t(2) f(3) by simp
    then show ?thesis using eq True f by simp
  next
    case False
    then have "S = list_pages nodes" using f(4) t(1) by blast
    then have "\<not> unat np * 4096 \<le> card S" using t(2) f(3) False by (simp add: u64_eq_iff)
    moreover obtain h2 where "Free_nodes free end_address nodes h1 = Some h2"
      "holds h2 (S - list_pages nodes \<union> list_pages nodes)" "bounds h2 = bounds h1"
      using Free_nodes_correct [OF t(4,3)] t holds_bounds [OF assms(1)] by auto
    ultimately show ?thesis using eq False t by (simp add: Un_absorb2)
  qed
qed

text \<open>Giving a list back restores the source.\<close>

lemma Free_taken:
  assumes "holds h S" and "taken h S nodes h1"
  shows "\<exists>h'. Free_nodes free end_address nodes h1 = Some h' \<and> holds h' S \<and> bounds h' = bounds h"
proof -
  have t: "list_pages nodes \<subseteq> S" "card (list_pages nodes) = total_pages nodes * 4096"
    "\<forall>n\<in>set nodes. node_ok n" "holds h1 (S - list_pages nodes)" "bounds h1 = bounds h"
    using assms(2) by (auto simp: taken_def)
  then show ?thesis
    using Free_nodes_correct [OF t(4,3)] holds_bounds [OF assms(1)] by (auto simp: Un_absorb2)
qed

end

section \<open>The managers of the kernel\<close>

interpretation im: page_source Impl_AllocateBlock Impl_Free Impl_GetEndAddress
  "\<lambda>im. heap_free (im_heap im)" "\<lambda>im. (heap_lo (im_heap im), heap_hi (im_heap im))"
proof unfold_locales
  fix im :: Impl and S i
  assume "heap_free (im_heap im) S" and "i < (7 :: nat)"
  then show "\<exists>a im'. Impl_AllocateBlock (int i) im = Some (a, im') \<and>
    (if a = 0 then im' = im \<and> (i = 0 \<longrightarrow> S = {})
     else 2 ^ sh i dvd unat a \<and> {unat a..<unat a + 2 ^ sh i} \<subseteq> S \<and>
       heap_free (im_heap im') (S - {unat a..<unat a + 2 ^ sh i}) \<and>
       (heap_lo (im_heap im'), heap_hi (im_heap im')) = (heap_lo (im_heap im), heap_hi (im_heap im)))"
    using heap_free_AllocateBlock [of "im_heap im" S i] by (auto simp: Impl_AllocateBlock_def split: if_splits)
next
  fix im :: Impl and S a n
  assume "heap_free (im_heap im) S" "4096 dvd unat (a :: u64)"
    "fst (heap_lo (im_heap im), heap_hi (im_heap im)) \<le> unat a"
    "unat a + unat (n :: u64) * 4096 \<le> snd (heap_lo (im_heap im), heap_hi (im_heap im))"
    "{unat a..<unat a + unat n * 4096} \<inter> S = {}"
  then show "\<exists>im'. Impl_Free a n im = Some im' \<and>
      heap_free (im_heap im') (S \<union> {unat a..<unat a + unat n * 4096}) \<and>
      (heap_lo (im_heap im'), heap_hi (im_heap im')) = (heap_lo (im_heap im), heap_hi (im_heap im))"
    using heap_free_Free [of "im_heap im" S a n] by (auto simp: Impl_Free_def)
next
  fix im :: Impl and S
  assume h: "heap_free (im_heap im) S"
  then show "S \<subseteq> {fst (heap_lo (im_heap im), heap_hi (im_heap im))..<snd (heap_lo (im_heap im), heap_hi (im_heap im))}"
    by (simp add: heap_free_def)
  obtain b F where "heap_repr (im_heap im) b F S" using h by (auto simp: heap_free_def)
  then have "heap_hi (im_heap im) < 2 ^ 64" using heap_top [of "im_heap im" b F S 0] by simp
  then show "unat (Impl_GetEndAddress im) = snd (heap_lo (im_heap im), heap_hi (im_heap im))"
    by (simp add: Impl_GetEndAddress_def PageHeap_GetEndAddress_def heap_hi_def unat_plus)
qed

text \<open>Exactly the addresses \<open>S\<close> of a pool are free.\<close>

definition pool_free :: "MemoryManager \<Rightarrow> Pool \<Rightarrow> nat set \<Rightarrow> bool" where
  "pool_free mm pool S \<longleftrightarrow> pool_index pool < length (mm_managers mm) \<and>
     heap_free (im_heap (mm_managers mm ! pool_index pool)) S"

abbreviation with_pool :: "Pool \<Rightarrow> Impl \<Rightarrow> MemoryManager \<Rightarrow> MemoryManager" where
  "with_pool pool im mm \<equiv> mm\<lparr>mm_managers := (mm_managers mm)[pool_index pool := im]\<rparr>"

lemma pool_index_inject: "pool_index p = pool_index q \<longleftrightarrow> p = q"
  by (cases p; cases q) auto

lemma pool_free_with_pool:
  assumes "pool_free mm pool S"
  shows "pool_free (with_pool pool im mm) pool T \<longleftrightarrow> heap_free (im_heap im) T"
    and "q \<noteq> pool \<Longrightarrow> pool_free (with_pool pool im mm) q T \<longleftrightarrow> pool_free mm q T"
  using assms by (auto simp: pool_free_def pool_index_inject)

lemma MemoryManager_Allocate_eq:
  assumes "pool_free mm pool S" and "np \<noteq> 0"
    and "Allocate_from Impl_AllocateBlock Impl_Free Impl_GetEndAddress nodes np
      (mm_managers mm ! pool_index pool) = Some (r, nodes', im)"
  shows "MemoryManager_Allocate nodes np pool mm = Some (r, nodes', with_pool pool im mm)"
  using assms by (simp add: MemoryManager_Allocate_def pool_free_def)

lemma Allocate_result:
  assumes "pool_free mm pool S" and "num_pages \<noteq> 0"
  shows "\<exists>r nodes mm'. MemoryManager_Allocate [] num_pages pool mm = Some (r, nodes, mm') \<and>
    (if unat num_pages * 4096 \<le> card S
     then r = RESULT_SUCCESS \<and> total_pages nodes = unat num_pages \<and> (\<forall>n\<in>set nodes. node_ok n) \<and>
       list_pages nodes \<subseteq> S \<and> card (list_pages nodes) = unat num_pages * 4096 \<and>
       pool_free mm' pool (S - list_pages nodes)
     else r = ERR_OUT_OF_MEMORY \<and> pool_free mm' pool S) \<and>
    (\<forall>q T. q \<noteq> pool \<longrightarrow> pool_free mm' q T = pool_free mm q T)"
proof -
  let ?im = "mm_managers mm ! pool_index pool"
  have h: "heap_free (im_heap ?im) S" using assms(1) by (simp add: pool_free_def)
  obtain r nodes im where a: "Allocate_from Impl_AllocateBlock Impl_Free Impl_GetEndAddress [] num_pages ?im =
      Some (r, nodes, im)"
    "if unat num_pages * 4096 \<le> card S
     then r = RESULT_SUCCESS \<and> im.taken ?im S nodes im \<and> total_pages nodes = unat num_pages
     else r = ERR_OUT_OF_MEMORY \<and> heap_free (im_heap im) S \<and>
       (heap_lo (im_heap im), heap_hi (im_heap im)) = (heap_lo (im_heap ?im), heap_hi (im_heap ?im))"
    using im.Allocate_from_correct [OF h assms(2)] by blast
  then have "if unat num_pages * 4096 \<le> card S
     then r = RESULT_SUCCESS \<and> total_pages nodes = unat num_pages \<and> (\<forall>n\<in>set nodes. node_ok n) \<and>
       list_pages nodes \<subseteq> S \<and> card (list_pages nodes) = unat num_pages * 4096 \<and>
       pool_free (with_pool pool im mm) pool (S - list_pages nodes)
     else r = ERR_OUT_OF_MEMORY \<and> pool_free (with_pool pool im mm) pool S"
    using pool_free_with_pool(1) [OF assms(1)] by (auto simp: im.taken_def split: if_splits)
  then show ?thesis
    using MemoryManager_Allocate_eq [OF assms a(1)] pool_free_with_pool(2) [OF assms(1)] by blast
qed

text \<open>
  C1. \<open>MemoryManager::Allocate\<close> succeeds exactly when enough memory is free, however fragmented. On
  success the list holds the number of pages asked for, all of them were free, no page is handed
  out twice, and the pool is left with the rest. On failure the result is the out-of-memory error
  and everything taken on the way has been given back. Other pools do not change.
\<close>
theorem Allocate_correct:
  assumes "pool_free mm pool S" and "num_pages \<noteq> 0"
  shows "\<exists>r nodes mm'. MemoryManager_Allocate [] num_pages pool mm = Some (r, nodes, mm') \<and>
    (if unat num_pages * 4096 \<le> card S
     then r = RESULT_SUCCESS \<and> GetNumPages nodes = num_pages \<and> list_pages nodes \<subseteq> S \<and>
       card (list_pages nodes) = unat num_pages * 4096 \<and> pool_free mm' pool (S - list_pages nodes)
     else r = ERR_OUT_OF_MEMORY \<and> pool_free mm' pool S) \<and>
    (\<forall>q T. q \<noteq> pool \<longrightarrow> pool_free mm' q T = pool_free mm q T)"
proof -
  have n: "GetNumPages nodes = num_pages" if "total_pages nodes = unat num_pages" for nodes
    using GetNumPages_total [of nodes] that unat_lt64 [of num_pages] by (simp add: u64_eq_iff)
  obtain r nodes mm' where a: "MemoryManager_Allocate [] num_pages pool mm = Some (r, nodes, mm')"
    "if unat num_pages * 4096 \<le> card S
     then r = RESULT_SUCCESS \<and> total_pages nodes = unat num_pages \<and> (\<forall>n\<in>set nodes. node_ok n) \<and>
       list_pages nodes \<subseteq> S \<and> card (list_pages nodes) = unat num_pages * 4096 \<and>
       pool_free mm' pool (S - list_pages nodes)
     else r = ERR_OUT_OF_MEMORY \<and> pool_free mm' pool S"
    "\<forall>q T. q \<noteq> pool \<longrightarrow> pool_free mm' q T = pool_free mm q T"
    using Allocate_result [OF assms] by blast
  show ?thesis
    by (rule exI [of _ r], rule exI [of _ nodes], rule exI [of _ mm'])
      (use a n in \<open>simp split: if_splits\<close>)
qed

text \<open>
  C40. Allocating and freeing is a round trip: giving the list of a successful \<open>Allocate\<close> to
  \<open>Free\<close> makes exactly the same addresses of the pool free as before.
\<close>
theorem Allocate_Free_roundtrip:
  assumes "pool_free mm pool S" and "num_pages \<noteq> 0"
    and "MemoryManager_Allocate [] num_pages pool mm = Some (RESULT_SUCCESS, nodes, mm')"
  shows "\<exists>mm''. MemoryManager_Free nodes num_pages pool mm' = Some (RESULT_SUCCESS, mm'') \<and>
    pool_free mm'' pool S"
proof -
  let ?im = "mm_managers mm ! pool_index pool"
  have h: "heap_free (im_heap ?im) S" and pi: "pool_index pool < length (mm_managers mm)"
    using assms(1) by (auto simp: pool_free_def)
  obtain r ns im where a: "Allocate_from Impl_AllocateBlock Impl_Free Impl_GetEndAddress [] num_pages ?im =
      Some (r, ns, im)"
    "if unat num_pages * 4096 \<le> card S
     then r = RESULT_SUCCESS \<and> im.taken ?im S ns im \<and> total_pages ns = unat num_pages
     else r = ERR_OUT_OF_MEMORY \<and> heap_free (im_heap im) S \<and>
       (heap_lo (im_heap im), heap_hi (im_heap im)) = (heap_lo (im_heap ?im), heap_hi (im_heap ?im))"
    using im.Allocate_from_correct [OF h assms(2)] by blast
  have eq: "r = RESULT_SUCCESS" "ns = nodes" "mm' = with_pool pool im mm"
    using MemoryManager_Allocate_eq [OF assms(1,2) a(1)] assms(3) by auto
  then have "im.taken ?im S nodes im" using a(2) by (auto split: if_splits)
  then obtain im' where "Free_nodes Impl_Free Impl_GetEndAddress nodes im = Some im'" "heap_free (im_heap im') S"
    using im.Free_taken [OF h] by blast
  then show ?thesis
    using assms(2) pi eq(3) by (auto simp: MemoryManager_Free_def pool_free_def)
qed

lemma Impl_Initialize_correct:
  assumes "heap_region start (stop - start)" and "im_heap im = mk_PageHeap" and "start \<le> stop"
  shows "\<exists>n im'. Impl_Initialize pool start stop im = Some (n, im') \<and>
    heap_free (im_heap im') {unat start..<unat stop} \<and> ph_used_size (im_heap im') = 0 \<and> im_pool im' = pool"
proof -
  let ?sz = "stop - start"
  have sz: "unat ?sz = unat stop - unat start" "unat start \<le> unat stop"
    using assms(3) by (auto simp: unat_diff word_le_nat_alt)
  obtain h where h: "PageHeap_Initialize start ?sz (PageHeap_CalculateMetadataOverheadSize ?sz) mk_PageHeap = Some h"
    "heap_free h {}" "heap_lo h = unat start" "heap_hi h = unat start + unat ?sz"
    using heap_free_Initialize [OF assms(1)] by blast
  have al: "2 ^ 12 dvd unat start" "2 ^ 12 dvd unat ?sz" using assms(1) by (auto simp: heap_region_def)
  have np: "unat (?sz div PageSize) * 4096 = unat ?sz" using al(2) by simp
  obtain h2 where h2: "Free start (?sz div PageSize) h = Some h2" "heap_free h2 {unat start..<unat stop}"
    "heap_lo h2 = heap_lo h" "heap_hi h2 = heap_hi h"
    using heap_free_Free [OF h(2) al(1), of "?sz div PageSize", unfolded np] h(3,4) sz by auto
  have "ph_heap_size h2 = ?sz" using h h2(3,4) by (simp add: heap_lo_def heap_hi_def u64_eq_iff)
  then have "ph_used_size (UpdateUsedSize h2) = 0" "heap_free (UpdateUsedSize h2) {unat start..<unat stop}"
    using heap_free_UpdateUsedSize [OF h2(2)] sz by (auto simp: u64_eq_iff)
  then show ?thesis
    using h(1) h2(1) assms(2) by (simp add: Impl_Initialize_def Let_def del: PageSize_eq)
qed

text \<open>
  C6. \<open>InitializeManager\<close> makes the whole of a pool free: the metadata it sizes is large enough
  for every bitmap it lays out, no page of the region is lost at the edges, and the used size it
  ends with is zero.
\<close>
theorem InitializeManager_correct:
  assumes "heap_region start (stop - start)" and "start \<le> stop"
  shows "\<exists>mm. InitializeManager pool start stop mk_MemoryManager = Some mm \<and>
    pool_free mm pool {unat start..<unat stop} \<and>
    ph_used_size (im_heap (mm_managers mm ! pool_index pool)) = 0"
proof -
  have pi: "pool_index pool < length (mm_managers mk_MemoryManager)"
    by (cases pool) (auto simp: mk_MemoryManager_def MaxManagerCount_def)
  have fresh: "im_heap (mm_managers mk_MemoryManager ! pool_index pool) = mk_PageHeap"
    by (cases pool) (auto simp: mk_MemoryManager_def MaxManagerCount_def)
  obtain n im where "Impl_Initialize pool start stop (mm_managers mk_MemoryManager ! pool_index pool) = Some (n, im)"
    "heap_free (im_heap im) {unat start..<unat stop}" "ph_used_size (im_heap im) = 0"
    using Impl_Initialize_correct [OF assms(1) fresh assms(2)] by blast
  then show ?thesis using pi by (simp add: InitializeManager_def pool_free_def)
qed

lemma GetAlignedBlockIndex_cases:
  "if unat (max num_pages align_pages) \<le> 2 ^ 18
   then \<exists>i<7. GetAlignedBlockIndex num_pages align_pages = int i \<and>
     unat (max num_pages align_pages) * 4096 \<le> 2 ^ sh i
   else GetAlignedBlockIndex num_pages align_pages = - 1"
proof -
  let ?t = "max num_pages align_pages"
  let ?P = "\<lambda>i. ?t \<le> push_bit (sh i) 1 div PageSize"
  have P: "?P i \<longleftrightarrow> unat ?t * 4096 \<le> 2 ^ sh i" if "i < 7" for i
    using unat_block_pages [OF that] unfolding word_le_nat_alt by linarith
  show ?thesis
  proof (cases "find ?P [0..<7]")
    case None
    moreover have "6 \<in> set [0..<7 :: nat]" by simp
    ultimately have "\<not> ?P 6" unfolding find_None_iff by blast
    then have "\<not> unat ?t * 4096 \<le> 2 ^ sh 6" using P [of 6] by linarith
    then have "\<not> unat ?t \<le> 2 ^ 18" by (simp add: MemoryBlockPageShifts_def)
    then show ?thesis
      using None by (simp add: GetAlignedBlockIndex_def NumMemoryBlockPageShifts_def Let_def)
  next
    case (Some i)
    then have i: "i < 7" "?P i" by (auto simp: find_Some_iff)
    then have le: "unat ?t * 4096 \<le> 2 ^ sh i" using P by simp
    have "(2 :: nat) ^ sh i \<le> 2 ^ 30" using sh_bounds(2) [OF i(1)] by (intro power_increasing) auto
    then have "unat ?t * 4096 \<le> 2 ^ 30" using le by linarith
    then have "unat ?t \<le> 2 ^ 18" by simp
    then show ?thesis
      using Some i(1) le by (simp add: GetAlignedBlockIndex_def NumMemoryBlockPageShifts_def Let_def)
  qed
qed

text \<open>The tail of a block that was not asked for goes back.\<close>

lemma give_back:
  fixes im im1 :: Impl
  assumes "heap_free (im_heap im) S" and "2 ^ sh i dvd unat a" and "i < 7"
    and "{unat a..<unat a + 2 ^ sh i} \<subseteq> S" and "heap_free (im_heap im1) (S - {unat a..<unat a + 2 ^ sh i})"
    and "heap_lo (im_heap im1) = heap_lo (im_heap im)" and "heap_hi (im_heap im1) = heap_hi (im_heap im)"
    and "unat k * 4096 = 2 ^ sh i" and "unat np * 4096 \<le> 2 ^ sh i"
  shows "\<exists>im2. (if k > np then Impl_Free (a + np * PageSize) (k - np) im1 else Some im1) = Some im2 \<and>
    heap_free (im_heap im2) (S - {unat a..<unat a + unat np * 4096})"
proof -
  have b: "{unat a..<unat a + 2 ^ sh i} \<subseteq> {heap_lo (im_heap im)..<heap_hi (im_heap im)}"
    using assms(1,4) by (meson heap_free_def order_trans)
  then have hb: "heap_lo (im_heap im) \<le> unat a" "unat a + 2 ^ sh i \<le> heap_hi (im_heap im)"
    by (auto simp: ivl_subset)
  have e: "heap_hi (im_heap im) < 2 ^ 64"
    using im.end_bounds [OF assms(1)] unat_lt64 [of "Impl_GetEndAddress im"] by simp
  have "unat a + unat np * 4096 < 2 ^ 64" using hb(2) e assms(9) by linarith
  then have st: "unat (a + np * PageSize) = unat a + unat np * 4096" by (simp add: unat_plus unat_times)
  show ?thesis
  proof (cases "k > np")
    case True
    then have kn: "unat (k - np) * 4096 = 2 ^ sh i - unat np * 4096"
      using assms(8) by (simp add: unat_diff word_less_nat_alt diff_mult_distrib)
    have "2 ^ 12 dvd unat a" using dvd_trans [OF le_imp_power_dvd assms(2)] sh_bounds(1) [OF assms(3)] by blast
    then have "\<exists>im2. Impl_Free (a + np * PageSize) (k - np) im1 = Some im2 \<and> heap_free (im_heap im2)
        (S - {unat a..<unat a + 2 ^ sh i} \<union>
         {unat (a + np * PageSize)..<unat (a + np * PageSize) + unat (k - np) * 4096}) \<and>
        (heap_lo (im_heap im2), heap_hi (im_heap im2)) = (heap_lo (im_heap im1), heap_hi (im_heap im1))"
      using assms(6,7,9) hb unfolding st kn by (intro im.free_range [OF assms(5), of "a + np * PageSize" "k - np", unfolded st kn]) auto
    then show ?thesis
      using True range_split [OF assms(4,9)] assms(9) unfolding st kn by (auto simp del: PageSize_eq)
  next
    case False
    then have "unat np * 4096 = 2 ^ sh i" using assms(8,9) by (simp add: word_less_nat_alt)
    then show ?thesis using False assms(5) by simp
  qed
qed

text \<open>
  \<open>AllocateContinuous\<close> for at most 2^18 pages (1 GiB): it either finds no block and changes
  nothing, or returns the start of the pages asked for, in a block that is aligned to its own size
  (at least the size and the alignment asked for); the pool loses exactly these pages, the rest of
  the block having been given back. A larger request is undefined: the code does not look at the
  -1 that \<open>GetAlignedBlockIndex\<close> returns for it and uses it as an index.
\<close>
lemma AllocateContinuous_correct:
  assumes "pool_free mm pool S" and "num_pages \<noteq> 0"
  shows "if unat (max num_pages align_pages) \<le> 2 ^ 18
    then \<exists>a mm'. AllocateContinuous num_pages align_pages pool mm = Some (a, mm') \<and>
      (if a = 0 then pool_free mm' pool S
       else (\<exists>i. 2 ^ i dvd unat a \<and> unat (max num_pages align_pages) * 4096 \<le> 2 ^ i) \<and>
         {unat a..<unat a + unat num_pages * 4096} \<subseteq> S \<and>
         pool_free mm' pool (S - {unat a..<unat a + unat num_pages * 4096}))
    else AllocateContinuous num_pages align_pages pool mm = None"
proof (cases "unat (max num_pages align_pages) \<le> 2 ^ 18")
  case False
  then show ?thesis
    using GetAlignedBlockIndex_cases [of num_pages align_pages] assms
    by (simp add: AllocateContinuous_def pool_free_def Impl_AllocateBlock_def AllocateBlock_def)
next
  case True
  let ?im = "mm_managers mm ! pool_index pool"
  have h: "heap_free (im_heap ?im) S" and pi: "pool_index pool < length (mm_managers mm)"
    using assms(1) by (auto simp: pool_free_def)
  obtain i where i: "i < 7" "GetAlignedBlockIndex num_pages align_pages = int i"
    "unat (max num_pages align_pages) * 4096 \<le> 2 ^ sh i"
    using GetAlignedBlockIndex_cases [of num_pages align_pages] True by auto
  let ?k = "push_bit (sh i) 1 div PageSize :: u64"
  have k: "unat ?k * 4096 = 2 ^ sh i" by (rule unat_block_pages [OF i(1)])
  have np: "unat num_pages * 4096 \<le> 2 ^ sh i" using i(3) by (simp add: max_def word_le_nat_alt split: if_splits)
  obtain a im1 where a: "Impl_AllocateBlock (int i) ?im = Some (a, im1)"
    "if a = 0 then im1 = ?im \<and> (i = 0 \<longrightarrow> S = {})
     else 2 ^ sh i dvd unat a \<and> {unat a..<unat a + 2 ^ sh i} \<subseteq> S \<and>
       heap_free (im_heap im1) (S - {unat a..<unat a + 2 ^ sh i}) \<and>
       (heap_lo (im_heap im1), heap_hi (im_heap im1)) = (heap_lo (im_heap ?im), heap_hi (im_heap ?im))"
    using im.alloc_block [OF h i(1)] by blast
  show ?thesis
  proof (cases "a = 0")
    case True
    then have "AllocateContinuous num_pages align_pages pool mm = Some (0, with_pool pool ?im mm)"
      using a pi assms(2) i(2) by (simp add: AllocateContinuous_def)
    then show ?thesis using \<open>unat (max num_pages align_pages) \<le> 2 ^ 18\<close> h pi by (simp add: pool_free_def)
  next
    case False
    have "\<exists>im2. (if ?k > num_pages then Impl_Free (a + num_pages * PageSize) (?k - num_pages) im1 else Some im1) = Some im2 \<and>
        heap_free (im_heap im2) (S - {unat a..<unat a + unat num_pages * 4096})"
      using a(2) False i(1) k np by (intro give_back [OF h]) auto
    then obtain im2 where "(if ?k > num_pages then Impl_Free (a + num_pages * PageSize) (?k - num_pages) im1 else Some im1) = Some im2"
      "heap_free (im_heap im2) (S - {unat a..<unat a + unat num_pages * 4096})" by blast
    then have "AllocateContinuous num_pages align_pages pool mm = Some (a, with_pool pool im2 mm)"
      "pool_free (with_pool pool im2 mm) pool (S - {unat a..<unat a + unat num_pages * 4096})"
      using a(1) pi assms(2) i(2) False pool_free_with_pool(1) [OF assms(1)]
      by (simp_all add: AllocateContinuous_def GetBlockNumPages_eq [OF i(1)] del: push_bit_of_1 PageSize_eq)
    moreover have "{unat a..<unat a + unat num_pages * 4096} \<subseteq> {unat a..<unat a + 2 ^ sh i}"
      using np by (simp add: ivl_subset)
    ultimately show ?thesis
      using True a(2) False i(3) by auto
  qed
qed

text \<open>A pool of 64 pages for the witnesses.\<close>

lemma example_pool: "\<exists>mm. pool_free mm Application {0x80000000..<0x80040000}"
proof -
  obtain h where "heap_free h {0x80000000..<0x80040000}" using example_heap_full by blast
  then have "pool_free \<lparr>mm_managers = [\<lparr>im_heap = h, im_pool = Application\<rparr>]\<rparr> Application {0x80000000..<0x80040000}"
    by (simp add: pool_free_def)
  then show ?thesis by blast
qed

theorem Allocate_correct_witness:
  "\<exists>mm nodes mm'. pool_free mm Application {0x80000000..<0x80040000} \<and>
     MemoryManager_Allocate [] 37 Application mm = Some (RESULT_SUCCESS, nodes, mm') \<and>
     GetNumPages nodes = 37 \<and> pool_free mm' Application ({0x80000000..<0x80040000} - list_pages nodes)"
proof -
  obtain mm where mm: "pool_free mm Application {0x80000000..<0x80040000}" using example_pool by blast
  show ?thesis using Allocate_correct [OF mm, of 37] mm by auto
qed

theorem Allocate_Free_roundtrip_witness:
  "\<exists>mm nodes mm' mm''. pool_free mm Application {0x80000000..<0x80040000} \<and>
     MemoryManager_Allocate [] 37 Application mm = Some (RESULT_SUCCESS, nodes, mm') \<and>
     MemoryManager_Free nodes 37 Application mm' = Some (RESULT_SUCCESS, mm'') \<and>
     pool_free mm'' Application {0x80000000..<0x80040000}"
proof -
  obtain mm where mm: "pool_free mm Application {0x80000000..<0x80040000}" using example_pool by blast
  obtain nodes im where a: "Allocate_from Impl_AllocateBlock Impl_Free Impl_GetEndAddress [] 37 (mm_managers mm ! 0) =
      Some (RESULT_SUCCESS, nodes, im)"
    using im.Allocate_from_correct [of "mm_managers mm ! 0" "{0x80000000..<0x80040000}" 37] mm
    by (auto simp: pool_free_def)
  have "MemoryManager_Allocate [] 37 Application mm = Some (RESULT_SUCCESS, nodes, with_pool Application im mm)"
    using MemoryManager_Allocate_eq [OF mm, of 37 "[]"] a by simp
  then show ?thesis using Allocate_Free_roundtrip [OF mm, of 37] mm by fastforce
qed

theorem InitializeManager_correct_witness:
  "\<exists>mm. InitializeManager System 0x80000000 0x80040000 mk_MemoryManager = Some mm \<and>
     pool_free mm System {0x80000000..<0x80040000}"
  using InitializeManager_correct [of "0x80000000" "0x80040000" System] example_region by auto

end
