(* ===== verification/Resource_Limit.thy ===== *)
theory Resource_Limit
  imports Prelude
begin

text \<open>
  The resource limits of a process: \<^verbatim>\<open>core/hle/kernel/resource_limit.h\<close> and
  \<^verbatim>\<open>resource_limit.cpp\<close>. The arrays are indexed by the enumeration of resource types. Their
  elements are signed 64-bit integers, read here as \<open>int\<close>: a signed sum that leaves the range is
  undefined (\<open>None\<close>), while the subtraction in \<^verbatim>\<open>Release\<close> is done on unsigned operands and
  wraps.
\<close>

section \<open>The code\<close>

datatype ResourceType = PhysicalMemory | Threads | Events | TransferMemory | Sessions

record ResourceLimit =
  rl_limit :: "ResourceType \<Rightarrow> int"
  rl_current :: "ResourceType \<Rightarrow> int"
  rl_available :: "ResourceType \<Rightarrow> int"

definition mk_ResourceLimit :: ResourceLimit where
  "mk_ResourceLimit = \<lparr>rl_limit = (\<lambda>_. 0), rl_current = (\<lambda>_. 0), rl_available = (\<lambda>_. 0)\<rparr>"

definition is_s64 :: "int \<Rightarrow> bool" where
  "is_s64 x \<longleftrightarrow> - (2 ^ 63) \<le> x \<and> x < 2 ^ 63"

text \<open>A signed result, and the conversion of an unsigned one.\<close>

definition s64_checked :: "int \<Rightarrow> int option" where
  "s64_checked x = (if is_s64 x then Some x else None)"

definition s64_wrap :: "int \<Rightarrow> int" where
  "s64_wrap x = sint (word_of_int x :: u64)"

definition Reserve :: "ResourceType \<Rightarrow> int \<Rightarrow> ResourceLimit \<Rightarrow> (bool \<times> ResourceLimit) option" where
  "Reserve resource amount rl = do {
     new_value \<leftarrow> s64_checked (rl_current rl resource + amount);
     new_value \<leftarrow>
       (if new_value > rl_limit rl resource
        then do {
          a \<leftarrow> s64_checked (rl_available rl resource + amount);
          if a \<le> rl_limit rl resource then s64_checked (rl_current rl resource + amount)
          else Some new_value
        }
        else Some new_value);
     if new_value \<le> rl_limit rl resource
     then Some (True, rl\<lparr>rl_current := (rl_current rl)(resource := new_value)\<rparr>)
     else Some (False, rl)
   }"

definition Release_two :: "ResourceType \<Rightarrow> u64 \<Rightarrow> u64 \<Rightarrow> ResourceLimit \<Rightarrow> ResourceLimit" where
  "Release_two resource used_amount available_amount rl =
     rl\<lparr>rl_current := (rl_current rl)(resource := s64_wrap (rl_current rl resource - uint used_amount)),
        rl_available := (rl_available rl)(resource := s64_wrap (rl_available rl resource - uint available_amount))\<rparr>"

definition Release :: "ResourceType \<Rightarrow> u64 \<Rightarrow> ResourceLimit \<Rightarrow> ResourceLimit" where
  "Release resource amount rl = Release_two resource amount amount rl"

definition GetCurrentResourceValue :: "ResourceType \<Rightarrow> ResourceLimit \<Rightarrow> int option" where
  "GetCurrentResourceValue resource rl = s64_checked (rl_limit rl resource - rl_current rl resource)"

definition GetMaxResourceValue :: "ResourceType \<Rightarrow> ResourceLimit \<Rightarrow> int" where
  "GetMaxResourceValue resource rl = rl_limit rl resource"

definition SetLimitValue :: "ResourceType \<Rightarrow> int \<Rightarrow> ResourceLimit \<Rightarrow> ResultCode \<times> ResourceLimit" where
  "SetLimitValue resource v rl =
     (if rl_current rl resource \<le> v
      then (RESULT_SUCCESS, rl\<lparr>rl_limit := (rl_limit rl)(resource := v)\<rparr>)
      else (ERR_INVALID_STATE, rl))"

section \<open>The accounting invariant\<close>

text \<open>No resource is used beyond its limit, and nothing is given back that was not taken.\<close>

definition rl_inv :: "ResourceLimit \<Rightarrow> bool" where
  "rl_inv rl \<longleftrightarrow> (\<forall>r. 0 \<le> rl_current rl r \<and> rl_current rl r \<le> rl_limit rl r \<and> rl_limit rl r < 2 ^ 63)"

lemma s64_checked_Some: "is_s64 x \<Longrightarrow> s64_checked x = Some x"
  by (simp add: s64_checked_def)

lemma s64_wrap_id: "is_s64 x \<Longrightarrow> s64_wrap x = x"
  unfolding s64_wrap_def is_s64_def by (simp add: signed_of_int signed_take_bit_int_eq_self)

text \<open>
  The branch on the available amount recomputes the value already at hand, so it never turns a
  refusal into a success.
\<close>

lemma Reserve_eq:
  assumes "rl_inv rl" "0 \<le> amount" "rl_current rl r + amount < 2 ^ 63" "is_s64 (rl_available rl r + amount)"
  shows "Reserve r amount rl =
    (if rl_current rl r + amount \<le> rl_limit rl r
     then Some (True, rl\<lparr>rl_current := (rl_current rl)(r := rl_current rl r + amount)\<rparr>)
     else Some (False, rl))"
proof -
  have "0 \<le> rl_current rl r" using assms(1) by (simp add: rl_inv_def)
  then have "is_s64 (rl_current rl r + amount)" using assms(2,3) by (simp add: is_s64_def)
  then show ?thesis using assms(4) by (simp add: Reserve_def s64_checked_Some)
qed

lemma Release_current:
  assumes "rl_inv rl" "uint n \<le> rl_current rl r"
  shows "rl_current (Release r n rl) = (rl_current rl)(r := rl_current rl r - uint n)"
    "rl_limit (Release r n rl) = rl_limit rl"
proof -
  have "rl_current rl r < 2 ^ 63" using assms(1) unfolding rl_inv_def by (meson le_less_trans)
  moreover have "0 \<le> uint n" by simp
  ultimately have "is_s64 (rl_current rl r - uint n)" using assms(2) unfolding is_s64_def by linarith
  then show "rl_current (Release r n rl) = (rl_current rl)(r := rl_current rl r - uint n)"
    "rl_limit (Release r n rl) = rl_limit rl"
    by (simp_all add: Release_def Release_two_def s64_wrap_id)
qed

inductive rl_reach :: "ResourceLimit \<Rightarrow> bool" where
  rl_new: "rl_reach mk_ResourceLimit"
| rl_limit: "rl_reach rl \<Longrightarrow> v < 2 ^ 63 \<Longrightarrow> SetLimitValue r v rl = (c, rl') \<Longrightarrow> rl_reach rl'"
| rl_reserve: "rl_reach rl \<Longrightarrow> 0 \<le> n \<Longrightarrow> Reserve r n rl = Some (ok, rl') \<Longrightarrow> rl_reach rl'"
| rl_release: "rl_reach rl \<Longrightarrow> uint n \<le> rl_current rl r \<Longrightarrow> rl_reach (Release r n rl)"

lemma Reserve_result:
  assumes "Reserve r n rl = Some (ok, rl')"
  shows "if ok then rl' = rl\<lparr>rl_current := (rl_current rl)(r := rl_current rl r + n)\<rparr> \<and>
                    rl_current rl r + n \<le> rl_limit rl r
         else rl' = rl \<and> rl_limit rl r < rl_current rl r + n"
  using assms by (auto simp: Reserve_def s64_checked_def bind_eq_Some_conv split: if_splits)

lemma rl_reach_inv: "rl_reach rl \<Longrightarrow> rl_inv rl"
proof (induction rule: rl_reach.induct)
  case (rl_reserve rl n r ok rl')
  then show ?case using Reserve_result[OF rl_reserve.hyps(3)] by (auto simp: rl_inv_def split: if_splits)
next
  case (rl_release rl n r)
  have "0 \<le> uint n" by simp
  then have "rl_current rl r - uint n \<le> rl_limit rl r" if "rl_current rl r \<le> rl_limit rl r"
    using that by linarith
  then show ?case
    using rl_release Release_current[OF rl_release.IH rl_release.hyps(2)] by (auto simp: rl_inv_def)
next
  case (rl_limit rl v r c rl')
  then show ?case by (auto simp: rl_inv_def SetLimitValue_def split: if_splits)
qed (simp add: rl_inv_def mk_ResourceLimit_def)

section \<open>Properties\<close>



text \<open>
  Releasing what was reserved restores the use of every resource.
\<close>

lemma Reserve_Release_roundtrip:
  assumes "rl_reach rl" "Reserve r (uint n) rl = Some (True, rl')"
  shows "rl_current (Release r n rl') = rl_current rl \<and> rl_limit (Release r n rl') = rl_limit rl"
proof -
  have inv: "rl_inv rl'" by (rule rl_reach_inv[OF rl_reserve[OF assms(1) _ assms(2)]]) simp
  have r: "rl' = rl\<lparr>rl_current := (rl_current rl)(r := rl_current rl r + uint n)\<rparr>"
    using Reserve_result[OF assms(2)] by simp
  moreover have "0 \<le> rl_current rl r" using rl_reach_inv[OF assms(1)] by (simp add: rl_inv_def)
  ultimately show ?thesis using Release_current[OF inv, of n r] by simp
qed

text \<open>
  The value reported as the current one is what is left of the limit, not what is in use.
\<close>

lemma GetCurrentResourceValue_is_remaining:
  assumes "rl_inv rl"
  shows "GetCurrentResourceValue r rl = Some (rl_limit rl r - rl_current rl r)"
proof -
  have "0 \<le> rl_current rl r" "rl_current rl r \<le> rl_limit rl r" "rl_limit rl r < 2 ^ 63"
    using assms by (auto simp: rl_inv_def)
  then have "is_s64 (rl_limit rl r - rl_current rl r)" unfolding is_s64_def by linarith
  then show ?thesis unfolding GetCurrentResourceValue_def by (rule s64_checked_Some)
qed

end
