(* ===== verification/System_Control.thy ===== *)
theory System_Control
  imports Prelude
begin

text \<open>
  \<^verbatim>\<open>core/hle/kernel/memory/system_control.cpp\<close>: random numbers in a range, by rejection. The
  generator of the standard library is an argument, the sequence of its draws; an operation takes
  the number of draws made so far and returns the number made afterwards. The loop has no bound,
  so it is a partial function and \<open>None\<close> stands for a run that rejects every draw.
\<close>

section \<open>The code\<close>

partial_function (option) GenerateUniformRange_loop ::
  "u64 \<Rightarrow> u64 \<Rightarrow> u64 \<Rightarrow> (nat \<Rightarrow> u64) \<Rightarrow> nat \<Rightarrow> (u64 \<times> nat) option" where
  "GenerateUniformRange_loop lo range_size effective_max f k =
     (let rnd = f k
      in if rnd < effective_max then Some (lo + rnd mod range_size, Suc k)
         else GenerateUniformRange_loop lo range_size effective_max f (Suc k))"

definition GenerateUniformRange :: "u64 \<Rightarrow> u64 \<Rightarrow> (nat \<Rightarrow> u64) \<Rightarrow> nat \<Rightarrow> (u64 \<times> nat) option" where
  "GenerateUniformRange lo hi f k =
     (if hi = - 1 \<and> lo = 0 then Some (f k, Suc k)
      else let range_size = (hi + 1) - lo
      in if range_size = 0 then None
      else let effective_max = (- 1 div range_size) * range_size
      in GenerateUniformRange_loop lo range_size effective_max f k)"

definition GenerateRandomRange :: "u64 \<Rightarrow> u64 \<Rightarrow> (nat \<Rightarrow> u64) \<Rightarrow> nat \<Rightarrow> (u64 \<times> nat) option" where
  "GenerateRandomRange lo hi f k = GenerateUniformRange lo hi f k"

section \<open>Termination and range\<close>

lemma GenerateUniformRange_loop_first:
  assumes "f (k + n) < m" "\<And>i. i < n \<Longrightarrow> \<not> f (k + i) < m"
  shows "GenerateUniformRange_loop lo r m f k = Some (lo + f (k + n) mod r, Suc (k + n))"
  using assms
proof (induction n arbitrary: k)
  case 0
  then show ?case by (simp add: GenerateUniformRange_loop.simps Let_def)
next
  case (Suc n)
  have "\<not> f k < m" using Suc.prems(2)[of 0] by simp
  moreover have "GenerateUniformRange_loop lo r m f (Suc k) = Some (lo + f (Suc k + n) mod r, Suc (Suc k + n))"
    by (rule Suc.IH) (use Suc.prems(1) Suc.prems(2)[of "Suc _"] in auto)
  ultimately show ?case by (subst GenerateUniformRange_loop.simps) (simp add: Let_def)
qed

lemma GenerateUniformRange_loop_Some:
  assumes a: "GenerateUniformRange_loop lo r m f k = Some y"
  shows "\<exists>i. f (k + i) < m"
proof (rule GenerateUniformRange_loop.raw_induct[where P = "\<lambda>lo r m f k y. \<exists>i. f (k + i) < m", OF _ a])
  fix loop lo r k y and m :: u64 and f :: "nat \<Rightarrow> u64"
  assume IH: "\<And>lo r m f k y. loop lo r m f k = Some y \<Longrightarrow> \<exists>i. f (k + i) < m"
    and s: "(let rnd = f k in if rnd < m then Some (lo + rnd mod r, Suc k) else loop lo r m f (Suc k)) = Some y"
  show "\<exists>i. f (k + i) < m"
  proof (cases "f k < m")
    case True
    then show ?thesis by (intro exI[of _ 0]) simp
  next
    case False
    then obtain i where "f (Suc k + i) < m" using s IH[of lo r m f "Suc k"] by (auto simp: Let_def)
    then show ?thesis by (intro exI[of _ "Suc i"]) simp
  qed
qed

lemma GenerateUniformRange_loop_iff:
  "(\<exists>i. f (k + i) < m) \<longleftrightarrow> GenerateUniformRange_loop lo r m f k \<noteq> None"
  "GenerateUniformRange_loop lo r m f k = Some (v, k') \<Longrightarrow> \<exists>x. v = lo + x mod r \<and> k < k'"
proof -
  have *: "\<exists>n. GenerateUniformRange_loop lo r m f k = Some (lo + f (k + n) mod r, Suc (k + n))"
    if "\<exists>i. f (k + i) < m"
  proof -
    define n where "n = (LEAST i. f (k + i) < m)"
    have "f (k + n) < m" unfolding n_def using that by (rule LeastI_ex)
    moreover have "\<not> f (k + i) < m" if "i < n" for i using that unfolding n_def by (rule not_less_Least)
    ultimately show ?thesis using GenerateUniformRange_loop_first by blast
  qed
  show "(\<exists>i. f (k + i) < m) \<longleftrightarrow> GenerateUniformRange_loop lo r m f k \<noteq> None"
    using * GenerateUniformRange_loop_Some[of lo r m f k] by auto
  show "\<exists>x. v = lo + x mod r \<and> k < k'" if "GenerateUniformRange_loop lo r m f k = Some (v, k')"
    using *[OF GenerateUniformRange_loop_Some[OF that]] that by auto
qed

text \<open>The largest multiple of the range size leaves less than one range size above it.\<close>

lemma effective_max_pos:
  fixes r :: u64
  assumes "r \<noteq> 0"
  shows "unat ((- 1 div r) * r) = (2 ^ 64 - 1) div unat r * unat r"
proof -
  have m: "unat (- 1 :: u64) = 2 ^ 64 - 1" by (simp add: unsigned_minus_1_eq_mask mask_eq_exp_minus_1)
  have "unat (- 1 div r) = (2 ^ 64 - 1) div unat r" unfolding unat_div64 m ..
  moreover have "(2 ^ 64 - 1) div unat r * unat r < 2 ^ 64"
    by (rule le_less_trans[OF div_times_less_eq_dividend]) simp
  ultimately show ?thesis by (simp only: unat_times)
qed

lemma GenerateRandomRange_result:
  assumes "unat lo \<le> unat hi" "unat hi - unat lo < 2 ^ 64 - 1"
  defines "r \<equiv> unat hi - unat lo + 1"
  shows "((\<exists>n. unat (f (k + n)) < (2 ^ 64 - 1) div r * r) \<longleftrightarrow> GenerateRandomRange lo hi f k \<noteq> None) \<and>
    (\<forall>v k'. GenerateRandomRange lo hi f k = Some (v, k') \<longrightarrow>
       unat lo \<le> unat v \<and> unat v \<le> unat hi \<and> k < k')"
proof -
  define rs where "rs = hi + 1 - lo"
  have rs: "unat rs = r"
  proof -
    have "rs = (hi - lo) + 1" by (simp add: rs_def)
    moreover have "unat (hi - lo) = unat hi - unat lo" using assms(1) by (rule unat_diff)
    ultimately show ?thesis using assms(2) by (simp add: unat_plus r_def)
  qed
  define m where "m = (- 1 div rs) * rs"
  have "\<not> (hi = - 1 \<and> lo = 0)" using assms(2) by (auto simp: unsigned_minus_1_eq_mask mask_eq_exp_minus_1)
  moreover have nz: "rs \<noteq> 0" using rs by (auto simp: r_def)
  ultimately have eq: "GenerateRandomRange lo hi f k = GenerateUniformRange_loop lo rs m f k"
    by (auto simp: GenerateRandomRange_def GenerateUniformRange_def Let_def simp flip: rs_def m_def)
  have m: "unat m = (2 ^ 64 - 1) div r * r" using effective_max_pos[OF nz] by (simp add: m_def rs)
  have "unat lo \<le> unat v \<and> unat v \<le> unat hi \<and> k < k'" if g: "GenerateRandomRange lo hi f k = Some (v, k')" for v k'
  proof -
    obtain x where x: "v = lo + x mod rs" "k < k'"
      using GenerateUniformRange_loop_iff(2)[OF g[unfolded eq]] by blast
    define y where "y = x mod rs"
    have y: "unat y < r" unfolding y_def unat_mod64 rs by (simp add: r_def)
    have "unat lo + unat y \<le> unat hi" using y assms(1) by (simp add: r_def)
    moreover have "unat hi < 2 ^ 64" by (rule unat_lt64)
    ultimately have "unat v = unat lo + unat y" unfolding x(1) y_def[symmetric] by (intro unat_plus) linarith
    then show ?thesis using x(2) \<open>unat lo + unat y \<le> unat hi\<close> by simp
  qed
  moreover have "(\<exists>n. unat (f (k + n)) < (2 ^ 64 - 1) div r * r) \<longleftrightarrow> GenerateRandomRange lo hi f k \<noteq> None"
    using GenerateUniformRange_loop_iff(1)[of f k m lo rs] unfolding eq m word_less_nat_alt .
  ultimately show ?thesis by blast
qed

text \<open>
  A random number in a range is delivered as soon as one draw lies below the largest multiple
  of the range size, and the rejection loop never ends only if no draw ever does; the number
  delivered lies between the bounds.
\<close>

lemma GenerateRandomRange_terminates:
  assumes "unat lo \<le> unat hi" "unat hi - unat lo < 2 ^ 64 - 1"
  defines "r \<equiv> unat hi - unat lo + 1"
  shows "((\<exists>n. unat (f (k + n)) < (2 ^ 64 - 1) div r * r) \<longleftrightarrow> GenerateRandomRange lo hi f k \<noteq> None) \<and>
    (\<forall>v k'. GenerateRandomRange lo hi f k = Some (v, k') \<longrightarrow>
       unat lo \<le> unat v \<and> unat v \<le> unat hi \<and> k < k')"
  unfolding r_def using assms(1,2) by (rule GenerateRandomRange_result)

end
