(* ===== verification/Address_Space.thy ===== *)
theory Address_Space
  imports Prelude
begin

text \<open>
  \<^verbatim>\<open>core/hle/kernel/memory/address_space_info.h\<close> and \<^verbatim>\<open>address_space_info.cpp\<close>: where the
  regions of a process lie, by the width of its address space. A width the tables do not know runs
  off the end of the function, which is undefined.
\<close>

section \<open>The tables\<close>

datatype AddressSpaceType = Is32Bit | Small64Bit | Large64Bit | Heap | Stack | Alias

fun type_index :: "AddressSpaceType \<Rightarrow> nat" where
  "type_index Is32Bit = 0"
| "type_index Small64Bit = 1"
| "type_index Large64Bit = 2"
| "type_index Heap = 3"
| "type_index Stack = 4"
| "type_index Alias = 5"

record AddressSpaceInfo =
  as_bit_width :: nat
  as_address :: u64
  as_size :: u64
  as_type :: AddressSpaceType

definition Size_1_MB :: u64 where "Size_1_MB = 0x100000"
definition Size_2_MB :: u64 where "Size_2_MB = 2 * Size_1_MB"
definition Size_128_MB :: u64 where "Size_128_MB = 128 * Size_1_MB"
definition Size_1_GB :: u64 where "Size_1_GB = 0x40000000"
definition Size_2_GB :: u64 where "Size_2_GB = 2 * Size_1_GB"
definition Size_4_GB :: u64 where "Size_4_GB = 4 * Size_1_GB"
definition Size_6_GB :: u64 where "Size_6_GB = 6 * Size_1_GB"
definition Size_64_GB :: u64 where "Size_64_GB = 64 * Size_1_GB"
definition Size_512_GB :: u64 where "Size_512_GB = 512 * Size_1_GB"
definition Invalid :: u64 where "Invalid = - 1"

lemmas Size_defs = Size_1_MB_def Size_2_MB_def Size_128_MB_def Size_1_GB_def Size_2_GB_def
  Size_4_GB_def Size_6_GB_def Size_64_GB_def Size_512_GB_def

definition AddressSpaceInfos :: "AddressSpaceInfo list" where
  "AddressSpaceInfos = [
     \<lparr>as_bit_width = 32, as_address = Size_2_MB, as_size = Size_1_GB - Size_2_MB, as_type = Is32Bit\<rparr>,
     \<lparr>as_bit_width = 32, as_address = Size_1_GB, as_size = Size_4_GB - Size_1_GB, as_type = Small64Bit\<rparr>,
     \<lparr>as_bit_width = 32, as_address = Invalid, as_size = Size_1_GB, as_type = Heap\<rparr>,
     \<lparr>as_bit_width = 32, as_address = Invalid, as_size = Size_1_GB, as_type = Alias\<rparr>,
     \<lparr>as_bit_width = 36, as_address = Size_128_MB, as_size = Size_2_GB - Size_128_MB, as_type = Is32Bit\<rparr>,
     \<lparr>as_bit_width = 36, as_address = Size_2_GB, as_size = Size_64_GB - Size_2_GB, as_type = Small64Bit\<rparr>,
     \<lparr>as_bit_width = 36, as_address = Invalid, as_size = Size_6_GB, as_type = Heap\<rparr>,
     \<lparr>as_bit_width = 36, as_address = Invalid, as_size = Size_6_GB, as_type = Alias\<rparr>,
     \<lparr>as_bit_width = 39, as_address = Size_128_MB, as_size = Size_512_GB - Size_128_MB, as_type = Large64Bit\<rparr>,
     \<lparr>as_bit_width = 39, as_address = Invalid, as_size = Size_64_GB, as_type = Is32Bit\<rparr>,
     \<lparr>as_bit_width = 39, as_address = Invalid, as_size = Size_6_GB, as_type = Heap\<rparr>,
     \<lparr>as_bit_width = 39, as_address = Invalid, as_size = Size_64_GB, as_type = Alias\<rparr>,
     \<lparr>as_bit_width = 39, as_address = Invalid, as_size = Size_2_GB, as_type = Stack\<rparr>]"

definition AddressSpaceIndices32Bit :: "nat list" where
  "AddressSpaceIndices32Bit = [0, 1, 0, 2, 0, 3]"

definition AddressSpaceIndices36Bit :: "nat list" where
  "AddressSpaceIndices36Bit = [4, 5, 4, 6, 4, 7]"

definition AddressSpaceIndices39Bit :: "nat list" where
  "AddressSpaceIndices39Bit = [9, 8, 8, 10, 12, 11]"

definition IsAllowedIndexForAddress :: "nat \<Rightarrow> bool" where
  "IsAllowedIndexForAddress index \<longleftrightarrow>
     index < length AddressSpaceInfos \<and> as_address (AddressSpaceInfos ! index) \<noteq> Invalid"

definition IsAllowed32BitType :: "AddressSpaceType \<Rightarrow> bool" where
  "IsAllowed32BitType type \<longleftrightarrow> type \<noteq> Large64Bit \<and> type \<noteq> Stack"

definition IsAllowed36BitType :: "AddressSpaceType \<Rightarrow> bool" where
  "IsAllowed36BitType type \<longleftrightarrow> type \<noteq> Large64Bit \<and> type \<noteq> Stack"

definition IsAllowed39BitType :: "AddressSpaceType \<Rightarrow> bool" where
  "IsAllowed39BitType type \<longleftrightarrow> type \<noteq> Small64Bit"

definition GetAddressSpaceStart :: "nat \<Rightarrow> AddressSpaceType \<Rightarrow> u64 option" where
  "GetAddressSpaceStart width type =
     (if width = 32 then Some (as_address (AddressSpaceInfos ! (AddressSpaceIndices32Bit ! type_index type)))
      else if width = 36 then Some (as_address (AddressSpaceInfos ! (AddressSpaceIndices36Bit ! type_index type)))
      else if width = 39 then Some (as_address (AddressSpaceInfos ! (AddressSpaceIndices39Bit ! type_index type)))
      else None)"

definition GetAddressSpaceSize :: "nat \<Rightarrow> AddressSpaceType \<Rightarrow> u64 option" where
  "GetAddressSpaceSize width type =
     (if width = 32 then Some (as_size (AddressSpaceInfos ! (AddressSpaceIndices32Bit ! type_index type)))
      else if width = 36 then Some (as_size (AddressSpaceInfos ! (AddressSpaceIndices36Bit ! type_index type)))
      else if width = 39 then Some (as_size (AddressSpaceInfos ! (AddressSpaceIndices39Bit ! type_index type)))
      else None)"

lemmas AddressSpace_defs = AddressSpaceInfos_def AddressSpaceIndices32Bit_def
  AddressSpaceIndices36Bit_def AddressSpaceIndices39Bit_def

section \<open>The tables fit together\<close>

text \<open>The index tables pick a row of the right width and, for the types allowed, of the right type.\<close>

lemma AddressSpaceIndices_rows:
  "as_bit_width (AddressSpaceInfos ! (AddressSpaceIndices32Bit ! type_index t)) = 32"
  "as_bit_width (AddressSpaceInfos ! (AddressSpaceIndices36Bit ! type_index t)) = 36"
  "as_bit_width (AddressSpaceInfos ! (AddressSpaceIndices39Bit ! type_index t)) = 39"
  "IsAllowed32BitType t \<Longrightarrow> as_type (AddressSpaceInfos ! (AddressSpaceIndices32Bit ! type_index t)) = t"
  "IsAllowed36BitType t \<Longrightarrow> as_type (AddressSpaceInfos ! (AddressSpaceIndices36Bit ! type_index t)) = t"
  "IsAllowed39BitType t \<Longrightarrow> as_type (AddressSpaceInfos ! (AddressSpaceIndices39Bit ! type_index t)) = t"
  by (cases t; simp add: AddressSpace_defs IsAllowed32BitType_def IsAllowed36BitType_def IsAllowed39BitType_def)+

text \<open>A region with a fixed place lies inside the address space of its width.\<close>

lemma AddressSpace_inside:
  assumes "GetAddressSpaceStart w t = Some a" "GetAddressSpaceSize w t = Some n" "a \<noteq> Invalid"
  shows "unat a + unat n \<le> 2 ^ w"
  using assms
  by (cases t; auto simp: GetAddressSpaceStart_def GetAddressSpaceSize_def AddressSpace_defs Size_defs
      split: if_splits)

end
