(* ===== verification/Page_Map.thy ===== *)
theory Page_Map
  imports Memory_Block
begin

text \<open>
  The table from virtual pages to memory: \<^verbatim>\<open>common/page_table.h\<close>, \<^verbatim>\<open>common/page_table.cpp\<close>
  and the functions of \<^verbatim>\<open>core/memory.cpp\<close> that write it. A \<^verbatim>\<open>VirtualBuffer\<close> is a function
  on page numbers, with the number of entries beside it; an access past the entries is undefined.
  Pointers into the emulated memory are 64-bit numbers, relative to the start of the host buffer,
  which is an argument. The flush of the rasterizer cache changes nothing that is modelled.
\<close>

section \<open>The code\<close>

datatype PageType = Unmapped | Memory | RasterizerCachedMemory | Special | Allocated

record PageTableImpl =
  pm_entries :: nat
  pm_pointers :: "u64 \<Rightarrow> u64"
  pm_backing_addr :: "u64 \<Rightarrow> u64"
  pm_attributes :: "u64 \<Rightarrow> PageType"

definition Resize :: "nat \<Rightarrow> nat \<Rightarrow> PageTableImpl" where
  "Resize address_space_width_in_bits page_size_in_bits =
     \<lparr>pm_entries = 2 ^ (address_space_width_in_bits - page_size_in_bits), pm_pointers = (\<lambda>_. 0),
      pm_backing_addr = (\<lambda>_. 0), pm_attributes = (\<lambda>_. Unmapped)\<rparr>"

definition DramMemoryMap_Base :: u64 where
  "DramMemoryMap_Base = 0x80000000"

definition DeviceMemory_GetPointer :: "u64 \<Rightarrow> u64 \<Rightarrow> u64" where
  "DeviceMemory_GetPointer buffer addr = buffer + (addr - DramMemoryMap_Base)"

text \<open>The two loops of \<^verbatim>\<open>MapPages\<close>, with the number of pages that are left.\<close>

primrec MapPages_unmap :: "PageType \<Rightarrow> nat \<Rightarrow> u64 \<Rightarrow> PageTableImpl \<Rightarrow> PageTableImpl option" where
  "MapPages_unmap type 0 base pm = Some pm"
| "MapPages_unmap type (Suc n) base pm =
     (if unat base < pm_entries pm
      then MapPages_unmap type n (base + 1)
             (pm\<lparr>pm_attributes := (pm_attributes pm)(base := type),
                 pm_pointers := (pm_pointers pm)(base := 0),
                 pm_backing_addr := (pm_backing_addr pm)(base := 0)\<rparr>)
      else None)"

primrec MapPages_map :: "u64 \<Rightarrow> PageType \<Rightarrow> nat \<Rightarrow> u64 \<Rightarrow> u64 \<Rightarrow> PageTableImpl \<Rightarrow> PageTableImpl option" where
  "MapPages_map buffer type 0 base target pm = Some pm"
| "MapPages_map buffer type (Suc n) base target pm =
     (if unat base < pm_entries pm
      then MapPages_map buffer type n (base + 1) (target + PageSize)
             (pm\<lparr>pm_pointers := (pm_pointers pm)(base :=
                   DeviceMemory_GetPointer buffer target - push_bit (unat PageBits) base),
                 pm_attributes := (pm_attributes pm)(base := type),
                 pm_backing_addr := (pm_backing_addr pm)(base := target - push_bit (unat PageBits) base)\<rparr>)
      else None)"

definition Memory_MapPages ::
  "u64 \<Rightarrow> u64 \<Rightarrow> u64 \<Rightarrow> u64 \<Rightarrow> PageType \<Rightarrow> PageTableImpl \<Rightarrow> PageTableImpl option" where
  "Memory_MapPages buffer base sz target type pm =
     (if target = 0 then MapPages_unmap type (unat sz) base pm
      else MapPages_map buffer type (unat sz) base target pm)"

definition MapMemoryRegion :: "u64 \<Rightarrow> u64 \<Rightarrow> u64 \<Rightarrow> u64 \<Rightarrow> PageTableImpl \<Rightarrow> PageTableImpl option" where
  "MapMemoryRegion buffer base sz target pm =
     Memory_MapPages buffer (base div PageSize) (sz div PageSize) target Memory pm"

definition UnmapRegion :: "u64 \<Rightarrow> u64 \<Rightarrow> u64 \<Rightarrow> PageTableImpl \<Rightarrow> PageTableImpl option" where
  "UnmapRegion buffer base sz pm =
     Memory_MapPages buffer (base div PageSize) (sz div PageSize) 0 Unmapped pm"

definition GetPhysicalAddr :: "u64 \<Rightarrow> PageTableImpl \<Rightarrow> u64 option" where
  "GetPhysicalAddr addr pm =
     (if unat (drop_bit (unat PageBits) addr) < pm_entries pm
      then Some (pm_backing_addr pm (drop_bit (unat PageBits) addr) + addr)
      else None)"

section \<open>The mapping as a function on pages\<close>

text \<open>
  What a page is mapped to: its type and the physical address of its first byte. The table stores
  the difference to the virtual address instead.
\<close>

definition page_at :: "PageTableImpl \<Rightarrow> nat \<Rightarrow> (PageType \<times> u64) option" where
  "page_at pm p =
     (if p < pm_entries pm
      then Some (pm_attributes pm (of_nat p),
                 if pm_attributes pm (of_nat p) = Unmapped then 0
                 else pm_backing_addr pm (of_nat p) + push_bit 12 (of_nat p))
      else None)"

text \<open>Every table the kernel builds covers less than the 64-bit address space.\<close>

definition pm_ok :: "PageTableImpl \<Rightarrow> bool" where
  "pm_ok pm \<longleftrightarrow> pm_entries pm < 2 ^ 52"

lemma PageBits_12 [simp]: "unat PageBits = 12"
  by (simp add: PageBits_def)

lemma unat_numeral_4096: "unat (4096 :: u64) = 4096"
  by simp

lemma u64_inc: "unat b + n < 2 ^ 64 \<Longrightarrow> 0 < n \<Longrightarrow> unat (b + 1) = unat b + 1" for b :: u64
  by (subst unat_plus) auto

lemma of_nat_unat_eq: "p < 2 ^ 64 \<Longrightarrow> (of_nat p :: u64) = b \<longleftrightarrow> p = unat b"
  by (auto simp: u64_eq_iff)

lemma MapPages_map_correct:
  assumes "pm_ok pm" "unat base + n \<le> pm_entries pm" "type \<noteq> Unmapped"
  shows "\<exists>pm'. MapPages_map buffer type n base target pm = Some pm' \<and> pm_entries pm' = pm_entries pm \<and>
    (\<forall>p. page_at pm' p =
       (if unat base \<le> p \<and> p < unat base + n
        then Some (type, target + of_nat (p - unat base) * PageSize) else page_at pm p))"
  using assms
proof (induction n arbitrary: base target pm)
  case 0
  then show ?case by auto
next
  case (Suc n)
  define pm1 where "pm1 = pm\<lparr>pm_pointers := (pm_pointers pm)(base :=
       DeviceMemory_GetPointer buffer target - push_bit (unat PageBits) base),
     pm_attributes := (pm_attributes pm)(base := type),
     pm_backing_addr := (pm_backing_addr pm)(base := target - push_bit (unat PageBits) base)\<rparr>"
  have e: "pm_entries pm < 2 ^ 52" using Suc.prems(1) by (simp add: pm_ok_def)
  then have b: "unat (base + 1) = unat base + 1" using Suc.prems(2) by (intro u64_inc[of _ 1]) auto
  obtain pm' where r: "MapPages_map buffer type n (base + 1) (target + PageSize) pm1 = Some pm'"
    "pm_entries pm' = pm_entries pm"
    "\<And>p. page_at pm' p = (if unat base + 1 \<le> p \<and> p < unat base + 1 + n
        then Some (type, (target + PageSize) + of_nat (p - (unat base + 1)) * PageSize) else page_at pm1 p)"
    using Suc.IH[of pm1 "base + 1" "target + PageSize"] Suc.prems b by (auto simp: pm1_def pm_ok_def)
  have p1: "page_at pm1 p = (if p = unat base then Some (type, target) else page_at pm p)" for p
  proof (cases "p < pm_entries pm")
    case True
    then have "(of_nat p :: u64) = base \<longleftrightarrow> p = unat base" using e by (intro of_nat_unat_eq) simp
    then show ?thesis using True Suc.prems(3) by (simp add: page_at_def pm1_def)
  next
    case False
    then show ?thesis using Suc.prems(2) by (simp add: page_at_def pm1_def)
  qed
  have "page_at pm' p = (if unat base \<le> p \<and> p < unat base + Suc n
      then Some (type, target + of_nat (p - unat base) * PageSize) else page_at pm p)" for p
  proof -
    have "of_nat (p - unat base) = (1 :: u64) + of_nat (p - (unat base + 1))" if "unat base + 1 \<le> p"
      using that by (metis Suc_diff_le Suc_eq_plus1 add.commute diff_Suc_Suc of_nat_Suc)
    then show ?thesis unfolding r(3) p1 by (auto simp: algebra_simps)
  qed
  moreover have "MapPages_map buffer type (Suc n) base target pm = Some pm'"
    using r(1) Suc.prems(2) by (simp add: pm1_def)
  ultimately show ?case using r(2) by blast
qed

lemma MapPages_unmap_correct:
  assumes "pm_ok pm" "unat base + n \<le> pm_entries pm"
  shows "\<exists>pm'. MapPages_unmap Unmapped n base pm = Some pm' \<and> pm_entries pm' = pm_entries pm \<and>
    (\<forall>p. page_at pm' p =
       (if unat base \<le> p \<and> p < unat base + n then Some (Unmapped, 0) else page_at pm p))"
  using assms
proof (induction n arbitrary: base pm)
  case 0
  then show ?case by auto
next
  case (Suc n)
  define pm1 where "pm1 = pm\<lparr>pm_attributes := (pm_attributes pm)(base := Unmapped),
     pm_pointers := (pm_pointers pm)(base := 0), pm_backing_addr := (pm_backing_addr pm)(base := 0)\<rparr>"
  have e: "pm_entries pm < 2 ^ 52" using Suc.prems(1) by (simp add: pm_ok_def)
  then have b: "unat (base + 1) = unat base + 1" using Suc.prems(2) by (intro u64_inc[of _ 1]) auto
  obtain pm' where r: "MapPages_unmap Unmapped n (base + 1) pm1 = Some pm'"
    "pm_entries pm' = pm_entries pm"
    "\<And>p. page_at pm' p = (if unat base + 1 \<le> p \<and> p < unat base + 1 + n
        then Some (Unmapped, 0) else page_at pm1 p)"
    using Suc.IH[of pm1 "base + 1"] Suc.prems b by (auto simp: pm1_def pm_ok_def)
  have p1: "page_at pm1 p = (if p = unat base then Some (Unmapped, 0) else page_at pm p)" for p
  proof (cases "p < pm_entries pm")
    case True
    then have "(of_nat p :: u64) = base \<longleftrightarrow> p = unat base" using e by (intro of_nat_unat_eq) simp
    then show ?thesis using True by (simp add: page_at_def pm1_def)
  next
    case False
    then show ?thesis using Suc.prems(2) by (simp add: page_at_def pm1_def)
  qed
  moreover have "MapPages_unmap Unmapped (Suc n) base pm = Some pm'"
    using r(1) Suc.prems(2) by (simp add: pm1_def)
  ultimately show ?case using r(2,3) by auto
qed

lemma MapMemoryRegion_correct:
  assumes "pm_ok pm" "4096 dvd unat base" "unat base + unat n * 4096 \<le> pm_entries pm * 4096" "target \<noteq> 0"
  shows "\<exists>pm'. MapMemoryRegion buffer base (n * PageSize) target pm = Some pm' \<and> pm_entries pm' = pm_entries pm \<and>
    (\<forall>p. page_at pm' p =
       (if unat base \<le> p * 4096 \<and> p * 4096 < unat base + unat n * 4096
        then Some (Memory, target + of_nat (p - unat base div 4096) * PageSize) else page_at pm p))"
proof -
  have ps: "unat PageSize = 4096" by simp
  have b: "unat (base div PageSize) = unat base div 4096" by simp
  obtain k where k: "unat base = k * 4096" using assms(2) by (metis dvd_def mult.commute)
  have "unat n * 4096 < 2 ^ 64" using assms(1,3) by (simp add: pm_ok_def)
  then have n: "unat (n * PageSize div PageSize) = unat n" by (simp add: unat_times)
  have "unat (base div PageSize) + unat n \<le> pm_entries pm" using assms(3) k b by simp
  then show ?thesis
    using MapPages_map_correct[OF assms(1), of "base div PageSize" "unat n" Memory buffer target] assms(4) k b
    unfolding MapMemoryRegion_def Memory_MapPages_def n by auto
qed

lemma UnmapRegion_correct:
  assumes "pm_ok pm" "4096 dvd unat base" "unat base + unat n * 4096 \<le> pm_entries pm * 4096"
  shows "\<exists>pm'. UnmapRegion buffer base (n * PageSize) pm = Some pm' \<and> pm_entries pm' = pm_entries pm \<and>
    (\<forall>p. page_at pm' p =
       (if unat base \<le> p * 4096 \<and> p * 4096 < unat base + unat n * 4096
        then Some (Unmapped, 0) else page_at pm p))"
proof -
  have b: "unat (base div PageSize) = unat base div 4096" by simp
  obtain k where k: "unat base = k * 4096" using assms(2) by (metis dvd_def mult.commute)
  have "unat n * 4096 < 2 ^ 64" using assms(1,3) by (simp add: pm_ok_def)
  then have n: "unat (n * PageSize div PageSize) = unat n" by (simp add: unat_times)
  have "unat (base div PageSize) + unat n \<le> pm_entries pm" using assms(3) k b by simp
  then show ?thesis
    using MapPages_unmap_correct[OF assms(1), of "base div PageSize" "unat n"] k b
    unfolding UnmapRegion_def Memory_MapPages_def n by auto
qed

text \<open>The address a page is read at, and the one an unmapped page yields: its own.\<close>

lemma GetPhysicalAddr_page:
  assumes "pm_ok pm" "page_at pm (unat a div 4096) = Some (t, x)" "t \<noteq> Unmapped" "4096 dvd unat a"
  shows "GetPhysicalAddr a pm = Some x"
proof -
  have lt: "unat a div 4096 < 2 ^ 64" by (rule le_less_trans[OF div_le_dividend unat_lt64])
  then have d: "drop_bit 12 a = of_nat (unat a div 4096)"
    by (simp only: u64_eq_iff unat_of_nat64) (simp add: drop_bit_eq_div)
  have "unat (a div 4096 * 4096) = unat (a div 4096) * unat (4096 :: u64)"
    by (rule unat_times) (simp only: unat_div64 unat_numeral_4096 le_less_trans[OF div_times_less_eq_dividend unat_lt64])
  then have "push_bit 12 (drop_bit 12 a) = a"
    using assms(4) by (simp add: u64_eq_iff push_bit_eq_mult drop_bit_eq_div)
  moreover have "unat (of_nat (unat a div 4096) :: u64) = unat a div 4096" using lt by (rule unat_of_nat64)
  ultimately show ?thesis using assms(2,3) unfolding GetPhysicalAddr_def page_at_def PageBits_12 d
    by (auto split: if_splits)
qed

end
