(* ===== verification/Page_Table.thy ===== *)
theory Page_Table
  imports Block_Manager Memory_Manager Resource_Limit System_Control Address_Space Page_Map
begin

text \<open>
  The address space of a process: \<^verbatim>\<open>core/hle/kernel/memory/page_table.h\<close> and
  \<^verbatim>\<open>page_table.cpp\<close>. An operation works on the page table and on the parts of the system it
  reaches: the physical memory manager, the resource limit of the current process (a null pointer
  is \<open>None\<close>) and the host buffer of the emulated memory. The recursive lock is held for a whole
  operation, so each is one step. \<open>None\<close> is an undefined execution: an iterator dereferenced at
  the end, a page past the table, a null resource limit that is released to.
\<close>

section \<open>State\<close>

datatype ProgramAddressSpaceType = PAST_Is32Bit | PAST_Is36Bit | PAST_Is32BitNoMap | PAST_Is39Bit

record KSystem =
  ks_memory_manager :: MemoryManager
  ks_resource_limit :: "ResourceLimit option"
  ks_device_buffer :: u64

record PageTable =
  pt_address_space_start :: u64
  pt_address_space_end :: u64
  pt_heap_region_start :: u64
  pt_heap_region_end :: u64
  pt_current_heap_end :: u64
  pt_alias_region_start :: u64
  pt_alias_region_end :: u64
  pt_stack_region_start :: u64
  pt_stack_region_end :: u64
  pt_kernel_map_region_start :: u64
  pt_kernel_map_region_end :: u64
  pt_code_region_start :: u64
  pt_code_region_end :: u64
  pt_alias_code_region_start :: u64
  pt_alias_code_region_end :: u64
  pt_current_heap_addr :: u64
  pt_heap_capacity :: u64
  pt_physical_memory_usage :: u64
  pt_max_heap_size :: u64
  pt_max_physical_memory_size :: u64
  pt_address_space_width :: nat
  pt_is_kernel :: bool
  pt_is_aslr_enabled :: bool
  pt_memory_pool :: Pool
  pt_impl :: PageTableImpl
  pt_block_manager :: MemoryBlockManager

abbreviation blocks :: "PageTable \<Rightarrow> MemoryBlock list" where
  "blocks pt \<equiv> bm_tree (pt_block_manager pt)"

definition set_blocks :: "MemoryBlock list \<Rightarrow> PageTable \<Rightarrow> PageTable" where
  "set_blocks bs pt = pt\<lparr>pt_block_manager := (pt_block_manager pt)\<lparr>bm_tree := bs\<rparr>\<rparr>"

datatype OperationType = OT_Map | OT_MapGroup | OT_Unmap | OT_ChangePermissions | OT_ChangePermissionsAndRefresh

definition DefaultMemoryIgnoreAttr :: u8 where
  "DefaultMemoryIgnoreAttr =
     MemoryAttribute_DontCareMask OR MemoryAttribute_IpcLocked OR MemoryAttribute_DeviceShared"

section \<open>Helpers\<close>

fun GetAddressSpaceWidthFromType :: "ProgramAddressSpaceType \<Rightarrow> nat" where
  "GetAddressSpaceWidthFromType PAST_Is32Bit = 32"
| "GetAddressSpaceWidthFromType PAST_Is32BitNoMap = 32"
| "GetAddressSpaceWidthFromType PAST_Is36Bit = 36"
| "GetAddressSpaceWidthFromType PAST_Is39Bit = 39"

definition GetAddressInRange :: "MemoryInfo \<Rightarrow> u64 \<Rightarrow> u64" where
  "GetAddressInRange info addr = (if mi_addr info < addr then addr else mi_addr info)"

definition GetSizeInRange :: "MemoryInfo \<Rightarrow> u64 \<Rightarrow> u64 \<Rightarrow> u64" where
  "GetSizeInRange info start end_addr =
     (let sz = mi_size info;
          sz = (if mi_addr info < start then sz - (start - mi_addr info) else sz);
          sz = (if MemoryInfo_GetEndAddress info > end_addr
                then sz - (MemoryInfo_GetEndAddress info - end_addr) else sz)
      in sz)"

definition GetHeapSize :: "PageTable \<Rightarrow> u64" where
  "GetHeapSize pt = pt_current_heap_addr pt - pt_heap_region_start pt"

definition GetTotalHeapSize :: "PageTable \<Rightarrow> u64" where
  "GetTotalHeapSize pt = GetHeapSize pt + pt_physical_memory_usage pt"

definition IsInsideAddressSpace :: "u64 \<Rightarrow> u64 \<Rightarrow> PageTable \<Rightarrow> bool" where
  "IsInsideAddressSpace address sz pt \<longleftrightarrow>
     pt_address_space_start pt \<le> address \<and> address + sz - 1 \<le> pt_address_space_end pt - 1"

definition IsOutsideAliasRegion :: "u64 \<Rightarrow> u64 \<Rightarrow> PageTable \<Rightarrow> bool" where
  "IsOutsideAliasRegion address sz pt \<longleftrightarrow>
     pt_alias_region_start pt > address \<or> address + sz - 1 > pt_alias_region_end pt - 1"

definition IsOutsideStackRegion :: "u64 \<Rightarrow> u64 \<Rightarrow> PageTable \<Rightarrow> bool" where
  "IsOutsideStackRegion address sz pt \<longleftrightarrow>
     pt_stack_region_start pt > address \<or> address + sz - 1 > pt_stack_region_end pt - 1"

definition IsInvalidRegion :: "u64 \<Rightarrow> u64 \<Rightarrow> PageTable \<Rightarrow> bool" where
  "IsInvalidRegion address sz pt \<longleftrightarrow>
     address + sz - 1 > pt_alias_code_region_start pt +
       (pt_alias_code_region_end pt - pt_alias_code_region_start pt) - 1"

definition IsInsideHeapRegion :: "u64 \<Rightarrow> u64 \<Rightarrow> PageTable \<Rightarrow> bool" where
  "IsInsideHeapRegion address sz pt \<longleftrightarrow>
     address + sz > pt_heap_region_start pt \<and> pt_heap_region_end pt > address"

definition IsInsideAliasRegion :: "u64 \<Rightarrow> u64 \<Rightarrow> PageTable \<Rightarrow> bool" where
  "IsInsideAliasRegion address sz pt \<longleftrightarrow>
     address + sz > pt_alias_region_start pt \<and> pt_alias_region_end pt > address"

definition IsOutsideASLRRegion :: "u64 \<Rightarrow> u64 \<Rightarrow> PageTable \<Rightarrow> bool" where
  "IsOutsideASLRRegion address sz pt \<longleftrightarrow>
     (if IsInvalidRegion address sz pt then True
      else if IsInsideHeapRegion address sz pt then True
      else if IsInsideAliasRegion address sz pt then True
      else False)"

definition IsInsideASLRRegion :: "u64 \<Rightarrow> u64 \<Rightarrow> PageTable \<Rightarrow> bool" where
  "IsInsideASLRRegion address sz pt \<longleftrightarrow> \<not> IsOutsideASLRRegion address sz pt"

definition Contains :: "u64 \<Rightarrow> u64 \<Rightarrow> PageTable \<Rightarrow> bool" where
  "Contains addr sz pt \<longleftrightarrow>
     pt_address_space_start pt \<le> addr \<and> addr < addr + sz \<and> addr + sz - 1 \<le> pt_address_space_end pt - 1"

definition GetNumGuardPages :: "PageTable \<Rightarrow> u64" where
  "GetNumGuardPages pt = (if pt_is_kernel pt then 1 else 4)"

definition ContainsPages :: "u64 \<Rightarrow> u64 \<Rightarrow> PageTable \<Rightarrow> bool" where
  "ContainsPages addr num_pages pt \<longleftrightarrow>
     pt_address_space_start pt \<le> addr \<and>
     num_pages \<le> (pt_address_space_end pt - pt_address_space_start pt) div PageSize \<and>
     addr + num_pages * PageSize - 1 \<le> pt_address_space_end pt - 1"

definition GetRegionAddress :: "u32 \<Rightarrow> PageTable \<Rightarrow> u64" where
  "GetRegionAddress st pt =
     (if st \<in> {MemoryState_Free, MemoryState_Kernel} then pt_address_space_start pt
      else if st = MemoryState_Normal then pt_heap_region_start pt
      else if st \<in> {MemoryState_Ipc, MemoryState_NonSecureIpc, MemoryState_NonDeviceIpc}
        then pt_alias_region_start pt
      else if st = MemoryState_Stack then pt_stack_region_start pt
      else if st \<in> {MemoryState_Io, MemoryState_Static, MemoryState_ThreadLocal}
        then pt_kernel_map_region_start pt
      else if st \<in> {MemoryState_Shared, MemoryState_AliasCode, MemoryState_AliasCodeData,
          MemoryState_Transfered, MemoryState_SharedTransfered, MemoryState_SharedCode,
          MemoryState_GeneratedCode, MemoryState_CodeOut}
        then pt_alias_code_region_start pt
      else if st \<in> {MemoryState_Code, MemoryState_CodeData} then pt_code_region_start pt
      else 0)"

definition GetRegionSize :: "u32 \<Rightarrow> PageTable \<Rightarrow> u64" where
  "GetRegionSize st pt =
     (if st \<in> {MemoryState_Free, MemoryState_Kernel}
        then pt_address_space_end pt - pt_address_space_start pt
      else if st = MemoryState_Normal then pt_heap_region_end pt - pt_heap_region_start pt
      else if st \<in> {MemoryState_Ipc, MemoryState_NonSecureIpc, MemoryState_NonDeviceIpc}
        then pt_alias_region_end pt - pt_alias_region_start pt
      else if st = MemoryState_Stack then pt_stack_region_end pt - pt_stack_region_start pt
      else if st \<in> {MemoryState_Io, MemoryState_Static, MemoryState_ThreadLocal}
        then pt_kernel_map_region_end pt - pt_kernel_map_region_start pt
      else if st \<in> {MemoryState_Shared, MemoryState_AliasCode, MemoryState_AliasCodeData,
          MemoryState_Transfered, MemoryState_SharedTransfered, MemoryState_SharedCode,
          MemoryState_GeneratedCode, MemoryState_CodeOut}
        then pt_alias_code_region_end pt - pt_alias_code_region_start pt
      else if st \<in> {MemoryState_Code, MemoryState_CodeData}
        then pt_code_region_end pt - pt_code_region_start pt
      else 0)"

definition CanContain :: "u64 \<Rightarrow> u64 \<Rightarrow> u32 \<Rightarrow> PageTable \<Rightarrow> bool" where
  "CanContain addr sz st pt =
     (let end_addr = addr + sz; last_addr = end_addr - 1;
          region_start = GetRegionAddress st pt; region_size = GetRegionSize st pt;
          is_in_region = (region_start \<le> addr \<and> addr < end_addr \<and>
            last_addr \<le> region_start + region_size - 1);
          is_in_heap = (\<not> (end_addr \<le> pt_heap_region_start pt \<or> pt_heap_region_end pt \<le> addr));
          is_in_alias = (\<not> (end_addr \<le> pt_alias_region_start pt \<or> pt_alias_region_end pt \<le> addr))
      in if st \<in> {MemoryState_Free, MemoryState_Kernel} then is_in_region
         else if st \<in> {MemoryState_Io, MemoryState_Static, MemoryState_Code, MemoryState_CodeData,
             MemoryState_Shared, MemoryState_AliasCode, MemoryState_AliasCodeData, MemoryState_Stack,
             MemoryState_ThreadLocal, MemoryState_Transfered, MemoryState_SharedTransfered,
             MemoryState_SharedCode, MemoryState_GeneratedCode, MemoryState_CodeOut}
           then is_in_region \<and> \<not> is_in_heap \<and> \<not> is_in_alias
         else if st = MemoryState_Normal then is_in_region \<and> \<not> is_in_alias
         else if st \<in> {MemoryState_Ipc, MemoryState_NonSecureIpc, MemoryState_NonDeviceIpc}
           then is_in_region \<and> \<not> is_in_heap
         else False)"

section \<open>Checks of the memory state\<close>

definition CheckMemoryState_info ::
  "MemoryInfo \<Rightarrow> u32 \<Rightarrow> u32 \<Rightarrow> u8 \<Rightarrow> u8 \<Rightarrow> u8 \<Rightarrow> u8 \<Rightarrow> ResultCode" where
  "CheckMemoryState_info info state_mask st perm_mask perm attr_mask attr =
     (if mi_state info AND state_mask \<noteq> st then ERR_INVALID_ADDRESS_STATE
      else if mi_perm info AND perm_mask \<noteq> perm then ERR_INVALID_ADDRESS_STATE
      else if mi_attribute info AND attr_mask \<noteq> attr then ERR_INVALID_ADDRESS_STATE
      else RESULT_SUCCESS)"

text \<open>
  The loop over the blocks of the range, from the iterator on. \<open>first\<close> is the information of the
  first block. Running past the last block dereferences the end iterator.
\<close>

fun CheckMemoryState_loop ::
  "u64 \<Rightarrow> MemoryInfo \<Rightarrow> u32 \<Rightarrow> u32 \<Rightarrow> u8 \<Rightarrow> u8 \<Rightarrow> u8 \<Rightarrow> u8 \<Rightarrow> u8 \<Rightarrow> MemoryBlock list \<Rightarrow> ResultCode option" where
  "CheckMemoryState_loop last_addr first state_mask st perm_mask perm attr_mask attr ignore_attr [] = None"
| "CheckMemoryState_loop last_addr first state_mask st perm_mask perm attr_mask attr ignore_attr (it # rest) =
     (let info = GetMemoryInfo it
      in if mi_state info \<noteq> mi_state first then Some ERR_INVALID_ADDRESS_STATE
         else if mi_perm info \<noteq> mi_perm first then Some ERR_INVALID_ADDRESS_STATE
         else if mi_attribute info OR ignore_attr \<noteq> mi_attribute first OR ignore_attr
           then Some ERR_INVALID_ADDRESS_STATE
         else let result = CheckMemoryState_info info state_mask st perm_mask perm attr_mask attr
         in if IsError result then Some result
         else if last_addr \<le> MemoryInfo_GetLastAddress info then Some RESULT_SUCCESS
         else CheckMemoryState_loop last_addr first state_mask st perm_mask perm attr_mask attr
                ignore_attr rest)"

text \<open>The result is the error, or the three values written through the out-pointers.\<close>

definition CheckMemoryState ::
  "u64 \<Rightarrow> u64 \<Rightarrow> u32 \<Rightarrow> u32 \<Rightarrow> u8 \<Rightarrow> u8 \<Rightarrow> u8 \<Rightarrow> u8 \<Rightarrow> u8 \<Rightarrow> PageTable \<Rightarrow>
     (ResultCode + u32 \<times> u8 \<times> u8) option" where
  "CheckMemoryState addr sz state_mask st perm_mask perm attr_mask attr ignore_attr pt = do {
     let last_addr = addr + sz - 1;
     let it = FindIterator addr (blocks pt);
     first \<leftarrow> (case it of [] \<Rightarrow> None | b # _ \<Rightarrow> Some (GetMemoryInfo b));
     result \<leftarrow> CheckMemoryState_loop last_addr first state_mask st perm_mask perm attr_mask attr
                ignore_attr it;
     if IsError result then Some (Inl result)
     else Some (Inr (mi_state first, mi_perm first, mi_attribute first AND NOT ignore_attr))
   }"

definition IsRegionMapped :: "u64 \<Rightarrow> u64 \<Rightarrow> PageTable \<Rightarrow> bool option" where
  "IsRegionMapped address sz pt = do {
     r \<leftarrow> CheckMemoryState address sz MemoryState_All MemoryState_Free MemoryPermission_Mask
           MemoryPermission_None MemoryAttribute_Mask MemoryAttribute_None
           MemoryAttribute_IpcAndDeviceMapped pt;
     Some (case r of Inl _ \<Rightarrow> True | Inr _ \<Rightarrow> False)
   }"

section \<open>Operations on the table of pages\<close>

text \<open>The two overloads of \<^verbatim>\<open>Operate\<close>; the first walks the nodes of a page group.\<close>

fun Operate_group :: "u64 \<Rightarrow> PageLinkedList \<Rightarrow> OperationType \<Rightarrow> KSystem \<Rightarrow> PageTable \<Rightarrow> (ResultCode \<times> PageTable) option" where
  "Operate_group addr [] operation ks pt = Some (RESULT_SUCCESS, pt)"
| "Operate_group addr (node # nodes) operation ks pt = do {
     let sz = node_num_pages node * PageSize;
     pt \<leftarrow> (case operation of
             OT_MapGroup \<Rightarrow> do {
               pm \<leftarrow> MapMemoryRegion (ks_device_buffer ks) addr sz (node_addr node) (pt_impl pt);
               Some (pt\<lparr>pt_impl := pm\<rparr>)
             }
           | _ \<Rightarrow> Some pt);
     Operate_group (addr + sz) nodes operation ks pt
   }"

definition Operate ::
  "u64 \<Rightarrow> u64 \<Rightarrow> u8 \<Rightarrow> OperationType \<Rightarrow> u64 \<Rightarrow> KSystem \<Rightarrow> PageTable \<Rightarrow> (ResultCode \<times> PageTable) option" where
  "Operate addr num_pages perm operation map_addr ks pt =
     (case operation of
        OT_Unmap \<Rightarrow> do {
          pm \<leftarrow> UnmapRegion (ks_device_buffer ks) addr (num_pages * PageSize) (pt_impl pt);
          Some (RESULT_SUCCESS, pt\<lparr>pt_impl := pm\<rparr>)
        }
      | OT_Map \<Rightarrow> do {
          pm \<leftarrow> MapMemoryRegion (ks_device_buffer ks) addr (num_pages * PageSize) map_addr (pt_impl pt);
          Some (RESULT_SUCCESS, pt\<lparr>pt_impl := pm\<rparr>)
        }
      | _ \<Rightarrow> Some (RESULT_SUCCESS, pt))"

text \<open>
  \<^verbatim>\<open>AddRegionToPages\<close>: the physical addresses of a range, page by page. The end of the range may
  wrap around, so the loop is a partial function.
\<close>

partial_function (option) AddRegionToPages_loop ::
  "u64 \<Rightarrow> u64 \<Rightarrow> PageTableImpl \<Rightarrow> PageLinkedList \<Rightarrow> PageLinkedList option" where
  "AddRegionToPages_loop addr end_addr pm page_linked_list =
     (if addr < end_addr
      then do {
        paddr \<leftarrow> GetPhysicalAddr addr pm;
        AddRegionToPages_loop (addr + PageSize) end_addr pm (snd (AddBlock paddr 1 page_linked_list))
      }
      else Some page_linked_list)"

definition AddRegionToPages :: "u64 \<Rightarrow> u64 \<Rightarrow> PageTable \<Rightarrow> PageLinkedList \<Rightarrow> PageLinkedList option" where
  "AddRegionToPages start num_pages pt page_linked_list =
     AddRegionToPages_loop start (start + num_pages * PageSize) (pt_impl pt) page_linked_list"

definition AllocateVirtualMemory :: "u64 \<Rightarrow> u64 \<Rightarrow> u64 \<Rightarrow> u64 \<Rightarrow> PageTable \<Rightarrow> u64 option" where
  "AllocateVirtualMemory start region_num_pages needed_num_pages align pt =
     FindFreeArea start region_num_pages needed_num_pages align 0 (if pt_is_kernel pt then 1 else 4) (blocks pt)"

text \<open>The block manager's \<^verbatim>\<open>Update\<close>, on the page table.\<close>

definition PT_Update :: "u64 \<Rightarrow> u64 \<Rightarrow> u32 \<Rightarrow> u8 \<Rightarrow> u8 \<Rightarrow> PageTable \<Rightarrow> PageTable option" where
  "PT_Update addr num_pages st perm attribute pt = do {
     bs \<leftarrow> Update addr num_pages st perm attribute (blocks pt);
     Some (set_blocks bs pt)
   }"

text \<open>
  \<^verbatim>\<open>MapPages\<close> on a node list. The error branch is kept as it is written, with the difference of
  the two addresses the wrong way round; \<^verbatim>\<open>Operate\<close> never takes it.
\<close>

fun MapPages_nodes :: "u64 \<Rightarrow> u64 \<Rightarrow> PageLinkedList \<Rightarrow> u8 \<Rightarrow> KSystem \<Rightarrow> PageTable \<Rightarrow> (ResultCode \<times> PageTable) option" where
  "MapPages_nodes addr cur_addr [] perm ks pt = Some (RESULT_SUCCESS, pt)"
| "MapPages_nodes addr cur_addr (node # nodes) perm ks pt = do {
     (result, pt) \<leftarrow> Operate cur_addr (node_num_pages node) perm OT_Map (node_addr node) ks pt;
     if IsError result
     then do {
       _ \<leftarrow> FindBlock cur_addr (blocks pt);
       let num_pages = (addr - cur_addr) div PageSize;
       (_, pt) \<leftarrow> Operate addr num_pages MemoryPermission_None OT_Unmap 0 ks pt;
       Some (result, pt)
     }
     else MapPages_nodes addr (cur_addr + node_num_pages node * PageSize) nodes perm ks pt
   }"

definition MapPages :: "u64 \<Rightarrow> PageLinkedList \<Rightarrow> u8 \<Rightarrow> KSystem \<Rightarrow> PageTable \<Rightarrow> (ResultCode \<times> PageTable) option" where
  "MapPages addr page_linked_list perm ks pt = MapPages_nodes addr addr page_linked_list perm ks pt"

section \<open>Initialization\<close>

definition InitializeMemoryLayout :: "u64 \<Rightarrow> u64 \<Rightarrow> PageTable \<Rightarrow> ResultCode \<times> PageTable" where
  "InitializeMemoryLayout start end_addr pt =
     (RESULT_SUCCESS, pt\<lparr>pt_block_manager := mk_MemoryBlockManager start end_addr\<rparr>)"

text \<open>The pairs of \<^verbatim>\<open>+=\<close> on the ends of a region.\<close>

definition shift_alias :: "u64 \<Rightarrow> PageTable \<Rightarrow> PageTable" where
  "shift_alias d pt = pt\<lparr>pt_alias_region_start := pt_alias_region_start pt + d,
                         pt_alias_region_end := pt_alias_region_end pt + d\<rparr>"

definition shift_heap :: "u64 \<Rightarrow> PageTable \<Rightarrow> PageTable" where
  "shift_heap d pt = pt\<lparr>pt_heap_region_start := pt_heap_region_start pt + d,
                        pt_heap_region_end := pt_heap_region_end pt + d\<rparr>"

definition shift_stack :: "u64 \<Rightarrow> PageTable \<Rightarrow> PageTable" where
  "shift_stack d pt = pt\<lparr>pt_stack_region_start := pt_stack_region_start pt + d,
                         pt_stack_region_end := pt_stack_region_end pt + d\<rparr>"

definition shift_kmap :: "u64 \<Rightarrow> PageTable \<Rightarrow> PageTable" where
  "shift_kmap d pt = pt\<lparr>pt_kernel_map_region_start := pt_kernel_map_region_start pt + d,
                        pt_kernel_map_region_end := pt_kernel_map_region_end pt + d\<rparr>"

text \<open>The placement of the four regions: heap and alias, then the stack, then the kernel map.\<close>

definition place_heap_alias :: "u64 \<Rightarrow> u64 \<Rightarrow> u64 \<Rightarrow> u64 \<Rightarrow> u64 \<Rightarrow> PageTable \<Rightarrow> PageTable" where
  "place_heap_alias alloc_start alias_region_size heap_region_size alias_rnd heap_rnd pt =
     (let pt = pt\<lparr>pt_alias_region_start := alloc_start + alias_rnd,
                  pt_alias_region_end := alloc_start + alias_rnd + alias_region_size,
                  pt_heap_region_start := alloc_start + heap_rnd,
                  pt_heap_region_end := alloc_start + heap_rnd + heap_region_size\<rparr>
      in if alias_rnd \<le> heap_rnd then shift_heap alias_region_size pt
         else shift_alias heap_region_size pt)"

definition place_stack ::
  "u64 \<Rightarrow> u64 \<Rightarrow> u64 \<Rightarrow> u64 \<Rightarrow> u64 \<Rightarrow> u64 \<Rightarrow> u64 \<Rightarrow> PageTable \<Rightarrow> PageTable" where
  "place_stack alloc_start alias_region_size heap_region_size stack_region_size alias_rnd heap_rnd stack_rnd pt =
     (if stack_region_size \<noteq> 0
      then let pt = pt\<lparr>pt_stack_region_start := alloc_start + stack_rnd,
                       pt_stack_region_end := alloc_start + stack_rnd + stack_region_size\<rparr>;
               pt = (if alias_rnd < stack_rnd then shift_stack alias_region_size pt
                     else shift_alias stack_region_size pt)
           in if heap_rnd < stack_rnd then shift_stack heap_region_size pt
              else shift_heap stack_region_size pt
      else pt)"

definition place_kernel_map ::
  "u64 \<Rightarrow> u64 \<Rightarrow> u64 \<Rightarrow> u64 \<Rightarrow> u64 \<Rightarrow> u64 \<Rightarrow> u64 \<Rightarrow> u64 \<Rightarrow> u64 \<Rightarrow> PageTable \<Rightarrow> PageTable" where
  "place_kernel_map alloc_start alias_region_size heap_region_size stack_region_size kernel_map_region_size
     alias_rnd heap_rnd stack_rnd kmap_rnd pt =
     (if kernel_map_region_size \<noteq> 0
      then let pt = pt\<lparr>pt_kernel_map_region_start := alloc_start + kmap_rnd,
                       pt_kernel_map_region_end := alloc_start + kmap_rnd + kernel_map_region_size\<rparr>;
               pt = (if alias_rnd < kmap_rnd then shift_kmap alias_region_size pt
                     else shift_alias kernel_map_region_size pt);
               pt = (if heap_rnd < kmap_rnd then shift_kmap heap_region_size pt
                     else shift_heap kernel_map_region_size pt)
           in if stack_region_size \<noteq> 0
              then (if stack_rnd < kmap_rnd then shift_kmap stack_region_size pt
                    else shift_stack kernel_map_region_size pt)
              else pt
      else pt)"

definition RegionAlignment :: u64 where
  "RegionAlignment = 2 * 1024 * 1024"

text \<open>The draws of the random placement: alias, heap, stack, kernel map.\<close>

definition draw_placements :: "bool \<Rightarrow> u64 \<Rightarrow> (nat \<Rightarrow> u64) \<Rightarrow> nat \<Rightarrow> (u64 \<times> u64 \<times> u64 \<times> u64) option" where
  "draw_placements enable_aslr remaining_size f k =
     (if enable_aslr
      then do {
        (a, k) \<leftarrow> GenerateRandomRange 0 (remaining_size div RegionAlignment) f k;
        (h, k) \<leftarrow> GenerateRandomRange 0 (remaining_size div RegionAlignment) f k;
        (s, k) \<leftarrow> GenerateRandomRange 0 (remaining_size div RegionAlignment) f k;
        (m, k) \<leftarrow> GenerateRandomRange 0 (remaining_size div RegionAlignment) f k;
        Some (a * RegionAlignment, h * RegionAlignment, s * RegionAlignment, m * RegionAlignment)
      }
      else Some (0, 0, 0, 0))"

definition InitializeForProcess ::
  "(nat \<Rightarrow> u64) \<Rightarrow> nat \<Rightarrow> ProgramAddressSpaceType \<Rightarrow> bool \<Rightarrow> u64 \<Rightarrow> u64 \<Rightarrow> Pool \<Rightarrow> PageTable \<Rightarrow>
     (ResultCode \<times> PageTable) option" where
  "InitializeForProcess f k space_type enable_aslr code_addr code_size pool pt = do {
     let width = GetAddressSpaceWidthFromType space_type;
     let pt = pt\<lparr>pt_address_space_width := width\<rparr>;
     let start = (0 :: u64);
     let end_addr = push_bit width 1;
     alias_region_size \<leftarrow> GetAddressSpaceSize width Alias;
     heap_region_size \<leftarrow> GetAddressSpaceSize width Heap;
     let (heap_region_size, alias_region_size) =
       (if space_type = PAST_Is32BitNoMap then (heap_region_size + alias_region_size, 0)
        else (heap_region_size, alias_region_size));
     (alias_region_size, heap_region_size, stack_region_size, kernel_map_region_size,
      process_code_start, process_code_end, pt) \<leftarrow>
       (if width = 39
        then do {
          alias_region_size \<leftarrow> GetAddressSpaceSize width Alias;
          heap_region_size \<leftarrow> GetAddressSpaceSize width Heap;
          stack_region_size \<leftarrow> GetAddressSpaceSize width Stack;
          kernel_map_region_size \<leftarrow> GetAddressSpaceSize width Is32Bit;
          code_start \<leftarrow> GetAddressSpaceStart width Large64Bit;
          code_region_size \<leftarrow> GetAddressSpaceSize width Large64Bit;
          Some (alias_region_size, heap_region_size, stack_region_size, kernel_map_region_size,
            AlignDown code_addr RegionAlignment, AlignUp (code_addr + code_size) RegionAlignment,
            pt\<lparr>pt_code_region_start := code_start, pt_code_region_end := code_start + code_region_size,
               pt_alias_code_region_start := code_start,
               pt_alias_code_region_end := code_start + code_region_size\<rparr>)
        }
        else do {
          code_start \<leftarrow> GetAddressSpaceStart width Is32Bit;
          code_region_size \<leftarrow> GetAddressSpaceSize width Is32Bit;
          small_start \<leftarrow> GetAddressSpaceStart width Small64Bit;
          small_size \<leftarrow> GetAddressSpaceSize width Small64Bit;
          let code_end = code_start + code_region_size;
          Some (alias_region_size, heap_region_size, 0, 0, code_start, code_end,
            pt\<lparr>pt_code_region_start := code_start, pt_code_region_end := code_end,
               pt_stack_region_start := code_start, pt_alias_code_region_start := code_start,
               pt_alias_code_region_end := small_start + small_size,
               pt_stack_region_end := code_end,
               pt_kernel_map_region_start := code_start, pt_kernel_map_region_end := code_end\<rparr>)
        });
     let pt = pt\<lparr>pt_is_aslr_enabled := enable_aslr, pt_address_space_start := start,
                 pt_address_space_end := end_addr, pt_is_kernel := False\<rparr>;
     let (alloc_start, alloc_size) =
       (if process_code_start - pt_code_region_start pt \<ge> end_addr - process_code_end
        then (pt_code_region_start pt, process_code_start - pt_code_region_start pt)
        else (process_code_end, end_addr - process_code_end));
     let needed_size = alias_region_size + heap_region_size + stack_region_size + kernel_map_region_size;
     if alloc_size < needed_size then Some (ERR_OUT_OF_MEMORY, pt)
     else do {
       let remaining_size = alloc_size - needed_size;
       (alias_rnd, heap_rnd, stack_rnd, kmap_rnd) \<leftarrow> draw_placements enable_aslr remaining_size f k;
       let pt = place_heap_alias alloc_start alias_region_size heap_region_size alias_rnd heap_rnd pt;
       let pt = place_stack alloc_start alias_region_size heap_region_size stack_region_size
                  alias_rnd heap_rnd stack_rnd pt;
       let pt = place_kernel_map alloc_start alias_region_size heap_region_size stack_region_size
                  kernel_map_region_size alias_rnd heap_rnd stack_rnd kmap_rnd pt;
       let pt = pt\<lparr>pt_current_heap_end := pt_heap_region_start pt, pt_max_heap_size := 0,
                   pt_max_physical_memory_size := 0, pt_current_heap_addr := pt_heap_region_start pt,
                   pt_heap_capacity := 0, pt_physical_memory_usage := 0, pt_memory_pool := pool,
                   pt_impl := Resize width (unat PageBits)\<rparr>;
       Some (InitializeMemoryLayout start end_addr pt)
     }
   }"

section \<open>Mapping and unmapping\<close>

definition MapProcessCode ::
  "u64 \<Rightarrow> u64 \<Rightarrow> u32 \<Rightarrow> u8 \<Rightarrow> KSystem \<Rightarrow> PageTable \<Rightarrow> (ResultCode \<times> PageTable \<times> KSystem) option" where
  "MapProcessCode addr num_pages st perm ks pt = do {
     let sz = num_pages * PageSize;
     if \<not> CanContain addr sz st pt then Some (ERR_INVALID_ADDRESS_STATE, pt, ks)
     else do {
       mapped \<leftarrow> IsRegionMapped addr sz pt;
       if mapped then Some (ERR_INVALID_ADDRESS_STATE, pt, ks)
       else do {
         (r, page_linked_list, mm) \<leftarrow> MemoryManager_Allocate [] num_pages (pt_memory_pool pt) (ks_memory_manager ks);
         let ks = ks\<lparr>ks_memory_manager := mm\<rparr>;
         if IsError r then Some (r, pt, ks)
         else do {
           (r, pt) \<leftarrow> Operate_group addr page_linked_list OT_MapGroup ks pt;
           if IsError r then Some (r, pt, ks)
           else do {
             pt \<leftarrow> PT_Update addr num_pages st perm MemoryAttribute_None pt;
             Some (RESULT_SUCCESS, pt, ks)
           }
         }
       }
     }
   }"

definition MapProcessCodeMemory :: "u64 \<Rightarrow> u64 \<Rightarrow> u64 \<Rightarrow> KSystem \<Rightarrow> PageTable \<Rightarrow> (ResultCode \<times> PageTable) option" where
  "MapProcessCodeMemory dst_addr src_addr sz ks pt = do {
     let num_pages = sz div PageSize;
     c \<leftarrow> CheckMemoryState src_addr sz MemoryState_All MemoryState_Normal MemoryPermission_Mask
            MemoryPermission_ReadAndWrite MemoryAttribute_Mask MemoryAttribute_None
            MemoryAttribute_IpcAndDeviceMapped pt;
     case c of
       Inl r \<Rightarrow> Some (r, pt)
     | Inr (st, perm, _) \<Rightarrow> do {
         mapped \<leftarrow> IsRegionMapped dst_addr sz pt;
         if mapped then Some (ERR_INVALID_ADDRESS_STATE, pt)
         else do {
           page_linked_list \<leftarrow> AddRegionToPages src_addr num_pages pt [];
           (r, pt) \<leftarrow> Operate src_addr num_pages MemoryPermission_None OT_ChangePermissions 0 ks pt;
           if IsError r
           then do {
             (_, pt) \<leftarrow> Operate src_addr num_pages perm OT_ChangePermissions 0 ks pt;
             Some (r, pt)
           }
           else do {
             (r, pt) \<leftarrow> MapPages dst_addr page_linked_list MemoryPermission_None ks pt;
             if IsError r
             then do {
               (_, pt) \<leftarrow> Operate src_addr num_pages perm OT_ChangePermissions 0 ks pt;
               Some (r, pt)
             }
             else do {
               pt \<leftarrow> PT_Update src_addr num_pages st MemoryPermission_None MemoryAttribute_Locked pt;
               pt \<leftarrow> PT_Update dst_addr num_pages MemoryState_AliasCode MemoryPermission_None
                       MemoryAttribute_None pt;
               Some (RESULT_SUCCESS, pt)
             }
           }
         }
       }
   }"

definition UnmapProcessCodeMemory :: "u64 \<Rightarrow> u64 \<Rightarrow> u64 \<Rightarrow> KSystem \<Rightarrow> PageTable \<Rightarrow> (ResultCode \<times> PageTable) option" where
  "UnmapProcessCodeMemory dst_addr src_addr sz ks pt =
     (if sz = 0 then Some (RESULT_SUCCESS, pt)
      else do {
        let num_pages = sz div PageSize;
        c \<leftarrow> CheckMemoryState src_addr sz MemoryState_All MemoryState_Normal MemoryPermission_None
               MemoryPermission_None MemoryAttribute_Mask MemoryAttribute_Locked
               MemoryAttribute_IpcAndDeviceMapped pt;
        case c of
          Inl r \<Rightarrow> Some (r, pt)
        | Inr _ \<Rightarrow> do {
            c \<leftarrow> CheckMemoryState dst_addr PageSize MemoryState_FlagCanCodeAlias
                   MemoryState_FlagCanCodeAlias MemoryPermission_None MemoryPermission_None
                   MemoryAttribute_Mask MemoryAttribute_None MemoryAttribute_IpcAndDeviceMapped pt;
            case c of
              Inl r \<Rightarrow> Some (r, pt)
            | Inr (st, _, _) \<Rightarrow> do {
                c \<leftarrow> CheckMemoryState dst_addr sz MemoryState_All st MemoryPermission_None
                       MemoryPermission_None MemoryAttribute_Mask MemoryAttribute_None
                       DefaultMemoryIgnoreAttr pt;
                case c of
                  Inl r \<Rightarrow> Some (r, pt)
                | Inr _ \<Rightarrow> do {
                    (r, pt) \<leftarrow> Operate dst_addr num_pages MemoryPermission_None OT_Unmap 0 ks pt;
                    if IsError r then Some (r, pt)
                    else do {
                      pt \<leftarrow> PT_Update dst_addr num_pages MemoryState_Free MemoryPermission_None
                              MemoryAttribute_None pt;
                      pt \<leftarrow> PT_Update src_addr num_pages MemoryState_Normal
                              MemoryPermission_ReadAndWrite MemoryAttribute_None pt;
                      Some (RESULT_SUCCESS, pt)
                    }
                  }
              }
          }
      })"

lemma min_pos_sub: "a \<noteq> 0 \<Longrightarrow> b \<noteq> 0 \<Longrightarrow> unat (b - min a b) < unat b" for a b :: u64
proof -
  assume a: "a \<noteq> 0" "b \<noteq> 0"
  have "unat (min a b) \<le> unat b" by (simp add: min_def word_le_nat_alt)
  moreover have "0 < unat (min a b)" using a by (auto simp: min_def unat_gt_0)
  ultimately show ?thesis by (subst unat_diff) auto
qed

text \<open>
  \<^verbatim>\<open>MapPhysicalMemory\<close> over a page list. The state of the walk is the iterator \<^verbatim>\<open>node\<close> (the nodes
  from it on), the address and the pages left of the current node, and the page table.
\<close>

function MapPhysicalMemory_while ::
  "KSystem \<Rightarrow> u64 \<Rightarrow> u64 \<Rightarrow> Node list \<times> u64 \<times> u64 \<times> PageTable \<Rightarrow> (Node list \<times> u64 \<times> u64 \<times> PageTable) option" where
  "MapPhysicalMemory_while ks dst_addr dst_num_pages (nodes, map_addr, src_num_pages, pt) =
     (if dst_num_pages = 0 then Some (nodes, map_addr, src_num_pages, pt)
      else if src_num_pages = 0
      then (case tl nodes of
              [] \<Rightarrow> None
            | node # rest \<Rightarrow>
                let map_addr = node_addr node; src_num_pages = node_num_pages node;
                    num_pages = min src_num_pages dst_num_pages
                in case Operate dst_addr num_pages MemoryPermission_ReadAndWrite OT_Map map_addr ks pt of
                     None \<Rightarrow> None
                   | Some (_, pt) \<Rightarrow>
                       MapPhysicalMemory_while ks (dst_addr + num_pages * PageSize) (dst_num_pages - num_pages)
                         (node # rest, map_addr + num_pages * PageSize, src_num_pages - num_pages, pt))
      else
        let num_pages = min src_num_pages dst_num_pages
        in case Operate dst_addr num_pages MemoryPermission_ReadAndWrite OT_Map map_addr ks pt of
             None \<Rightarrow> None
           | Some (_, pt) \<Rightarrow>
               MapPhysicalMemory_while ks (dst_addr + num_pages * PageSize) (dst_num_pages - num_pages)
                 (nodes, map_addr + num_pages * PageSize, src_num_pages - num_pages, pt))"
  by pat_completeness auto

termination
  by (relation "inv_image (less_than <*lex*> less_than) (\<lambda>(ks, d, n, (nodes, m, s, pt)). (length nodes, unat n))")
    (auto simp: min_pos_sub dest: arg_cong[where f = length])

declare MapPhysicalMemory_while.simps [simp del]

definition MapPhysicalMemory_list :: "PageLinkedList \<Rightarrow> u64 \<Rightarrow> u64 \<Rightarrow> KSystem \<Rightarrow> PageTable \<Rightarrow> PageTable option" where
  "MapPhysicalMemory_list page_linked_list start end_addr ks pt =
     (case page_linked_list of
        [] \<Rightarrow> None
      | node # _ \<Rightarrow> do {
          (_, _, _, pt) \<leftarrow> IterateForRange start end_addr
            (\<lambda>info s.
               if mi_state info \<noteq> MemoryState_Free then Some s
               else MapPhysicalMemory_while ks (GetAddressInRange info start)
                      (GetSizeInRange info start end_addr div PageSize) s)
            (blocks pt) (page_linked_list, node_addr node, node_num_pages node, pt);
          Some pt
        })"

text \<open>
  The guard of \<^verbatim>\<open>MapPhysicalMemory\<close> frees the page list and releases the reservation when the
  allocation fails; a null resource limit is dereferenced there.
\<close>

definition MapPhysicalMemory :: "u64 \<Rightarrow> u64 \<Rightarrow> KSystem \<Rightarrow> PageTable \<Rightarrow> (ResultCode \<times> PageTable \<times> KSystem) option" where
  "MapPhysicalMemory addr sz ks pt = do {
     let end_addr = addr + sz;
     mapped_size \<leftarrow> IterateForRange addr end_addr
       (\<lambda>info mapped_size.
          if mi_state info \<noteq> MemoryState_Free
          then Some (mapped_size + GetSizeInRange info addr end_addr)
          else Some mapped_size) (blocks pt) 0;
     if mapped_size = sz then Some (RESULT_SUCCESS, pt, ks)
     else do {
       let remaining_size = sz - mapped_size;
       let remaining_pages = remaining_size div PageSize;
       (ok, ks) \<leftarrow>
         (case ks_resource_limit ks of
            None \<Rightarrow> Some (True, ks)
          | Some rl \<Rightarrow> do {
              (ok, rl) \<leftarrow> Reserve PhysicalMemory (sint remaining_size) rl;
              Some (ok, ks\<lparr>ks_resource_limit := Some rl\<rparr>)
            });
       if \<not> ok then Some (ERR_RESOURCE_LIMIT_EXCEEDED, pt, ks)
       else do {
         (r, page_linked_list, mm) \<leftarrow>
           MemoryManager_Allocate [] remaining_pages (pt_memory_pool pt) (ks_memory_manager ks);
         let ks = ks\<lparr>ks_memory_manager := mm\<rparr>;
         if IsError r
         then do {
           (_, mm) \<leftarrow> MemoryManager_Free page_linked_list remaining_pages (pt_memory_pool pt) (ks_memory_manager ks);
           rl \<leftarrow> ks_resource_limit ks;
           Some (r, pt, ks\<lparr>ks_memory_manager := mm,
             ks_resource_limit := Some (Release PhysicalMemory remaining_size rl)\<rparr>)
         }
         else do {
           pt \<leftarrow> MapPhysicalMemory_list page_linked_list addr end_addr ks pt;
           let pt = pt\<lparr>pt_physical_memory_usage := pt_physical_memory_usage pt + remaining_size\<rparr>;
           let num_pages = sz div PageSize;
           bs \<leftarrow> Update_if addr num_pages MemoryState_Free MemoryPermission_None MemoryAttribute_None
                  MemoryState_Normal MemoryPermission_ReadAndWrite MemoryAttribute_None (blocks pt);
           Some (RESULT_SUCCESS, set_blocks bs pt, ks)
         }
       }
     }
   }"

definition UnmapMemory :: "u64 \<Rightarrow> u64 \<Rightarrow> KSystem \<Rightarrow> PageTable \<Rightarrow> (ResultCode \<times> PageTable \<times> KSystem) option" where
  "UnmapMemory addr sz ks pt = do {
     let end_addr = addr + sz;
     (result, page_linked_list, pt) \<leftarrow> IterateForRange addr end_addr
       (\<lambda>info (result, page_linked_list, pt).
          if mi_state info = MemoryState_Normal
          then do {
            let block_size = GetSizeInRange info addr end_addr;
            let block_num_pages = block_size div PageSize;
            let block_addr = GetAddressInRange info addr;
            page_linked_list \<leftarrow> AddRegionToPages block_addr (block_size div PageSize) pt page_linked_list;
            (result, pt) \<leftarrow> Operate block_addr block_num_pages MemoryPermission_None OT_Unmap 0 ks pt;
            Some (result, page_linked_list, pt)
          }
          else Some (result, page_linked_list, pt))
       (blocks pt) (RESULT_SUCCESS, [], pt);
     if IsError result then Some (result, pt, ks)
     else do {
       let num_pages = sz div PageSize;
       (_, mm) \<leftarrow> MemoryManager_Free page_linked_list num_pages (pt_memory_pool pt) (ks_memory_manager ks);
       pt \<leftarrow> PT_Update addr num_pages MemoryState_Free MemoryPermission_None MemoryAttribute_None pt;
       Some (RESULT_SUCCESS, pt, ks\<lparr>ks_memory_manager := mm\<rparr>)
     }
   }"

definition UnmapPhysicalMemory :: "u64 \<Rightarrow> u64 \<Rightarrow> KSystem \<Rightarrow> PageTable \<Rightarrow> (ResultCode \<times> PageTable \<times> KSystem) option" where
  "UnmapPhysicalMemory addr sz ks pt = do {
     let end_addr = addr + sz;
     (result, mapped_size) \<leftarrow> IterateForRange addr end_addr
       (\<lambda>info (result, mapped_size).
          if mi_state info = MemoryState_Normal
          then if mi_attribute info \<noteq> MemoryAttribute_None
               then Some (ERR_INVALID_ADDRESS_STATE, mapped_size)
               else Some (result, mapped_size + GetSizeInRange info addr end_addr)
          else if mi_state info \<noteq> MemoryState_Free then Some (ERR_INVALID_ADDRESS_STATE, mapped_size)
          else Some (result, mapped_size))
       (blocks pt) (RESULT_SUCCESS, 0);
     if IsError result then Some (result, pt, ks)
     else if mapped_size = 0 then Some (RESULT_SUCCESS, pt, ks)
     else do {
       (r, pt, ks) \<leftarrow> UnmapMemory addr sz ks pt;
       if IsError r then Some (r, pt, ks)
       else do {
         rl \<leftarrow> ks_resource_limit ks;
         Some (RESULT_SUCCESS,
           pt\<lparr>pt_physical_memory_usage := pt_physical_memory_usage pt - mapped_size\<rparr>,
           ks\<lparr>ks_resource_limit := Some (Release PhysicalMemory mapped_size rl)\<rparr>)
       }
     }
   }"

definition PageTable_Map :: "u64 \<Rightarrow> u64 \<Rightarrow> u64 \<Rightarrow> KSystem \<Rightarrow> PageTable \<Rightarrow> (ResultCode \<times> PageTable) option" where
  "PageTable_Map dst_addr src_addr sz ks pt = do {
     c \<leftarrow> CheckMemoryState src_addr sz MemoryState_FlagCanAlias MemoryState_FlagCanAlias
            MemoryPermission_Mask MemoryPermission_ReadAndWrite MemoryAttribute_Mask
            MemoryAttribute_None MemoryAttribute_IpcAndDeviceMapped pt;
     case c of
       Inl r \<Rightarrow> Some (r, pt)
     | Inr (src_state, _, _) \<Rightarrow> do {
         mapped \<leftarrow> IsRegionMapped dst_addr sz pt;
         if mapped then Some (ERR_INVALID_ADDRESS_STATE, pt)
         else do {
           let num_pages = sz div PageSize;
           page_linked_list \<leftarrow> AddRegionToPages src_addr num_pages pt [];
           (r, pt) \<leftarrow> Operate src_addr num_pages MemoryPermission_None OT_ChangePermissions 0 ks pt;
           if IsError r
           then do {
             (_, pt) \<leftarrow> Operate src_addr num_pages MemoryPermission_ReadAndWrite OT_ChangePermissions 0 ks pt;
             Some (r, pt)
           }
           else do {
             (r, pt) \<leftarrow> MapPages dst_addr page_linked_list MemoryPermission_ReadAndWrite ks pt;
             if IsError r
             then do {
               (_, pt) \<leftarrow> Operate src_addr num_pages MemoryPermission_ReadAndWrite OT_ChangePermissions 0 ks pt;
               Some (r, pt)
             }
             else do {
               pt \<leftarrow> PT_Update src_addr num_pages src_state MemoryPermission_None MemoryAttribute_Locked pt;
               pt \<leftarrow> PT_Update dst_addr num_pages MemoryState_Stack MemoryPermission_ReadAndWrite
                       MemoryAttribute_None pt;
               Some (RESULT_SUCCESS, pt)
             }
           }
         }
       }
   }"

definition PageTable_Unmap :: "u64 \<Rightarrow> u64 \<Rightarrow> u64 \<Rightarrow> KSystem \<Rightarrow> PageTable \<Rightarrow> (ResultCode \<times> PageTable) option" where
  "PageTable_Unmap dst_addr src_addr sz ks pt = do {
     c \<leftarrow> CheckMemoryState src_addr sz MemoryState_FlagCanAlias MemoryState_FlagCanAlias
            MemoryPermission_Mask MemoryPermission_None MemoryAttribute_Mask
            MemoryAttribute_Locked MemoryAttribute_IpcAndDeviceMapped pt;
     case c of
       Inl r \<Rightarrow> Some (r, pt)
     | Inr (src_state, _, _) \<Rightarrow> do {
         c \<leftarrow> CheckMemoryState dst_addr sz MemoryState_All MemoryState_Stack MemoryPermission_None
                MemoryPermission_None MemoryAttribute_Mask MemoryAttribute_None
                MemoryAttribute_IpcAndDeviceMapped pt;
         case c of
           Inl r \<Rightarrow> Some (r, pt)
         | Inr (_, dst_perm, _) \<Rightarrow> do {
             let num_pages = sz div PageSize;
             src_pages \<leftarrow> AddRegionToPages src_addr num_pages pt [];
             dst_pages \<leftarrow> AddRegionToPages dst_addr num_pages pt [];
             if \<not> IsEqual dst_pages src_pages then Some (ERR_INVALID_MEMORY_RANGE, pt)
             else do {
               (r, pt) \<leftarrow> Operate dst_addr num_pages MemoryPermission_None OT_Unmap 0 ks pt;
               if IsError r
               then do { (_, pt) \<leftarrow> MapPages dst_addr dst_pages dst_perm ks pt; Some (r, pt) }
               else do {
                 (r, pt) \<leftarrow> Operate src_addr num_pages MemoryPermission_ReadAndWrite OT_ChangePermissions 0 ks pt;
                 if IsError r
                 then do { (_, pt) \<leftarrow> MapPages dst_addr dst_pages dst_perm ks pt; Some (r, pt) }
                 else do {
                   pt \<leftarrow> PT_Update src_addr num_pages src_state MemoryPermission_ReadAndWrite
                           MemoryAttribute_None pt;
                   pt \<leftarrow> PT_Update dst_addr num_pages MemoryState_Free MemoryPermission_None
                           MemoryAttribute_None pt;
                   Some (RESULT_SUCCESS, pt)
                 }
               }
             }
           }
       }
   }"

definition MapPages_state ::
  "u64 \<Rightarrow> PageLinkedList \<Rightarrow> u32 \<Rightarrow> u8 \<Rightarrow> KSystem \<Rightarrow> PageTable \<Rightarrow> (ResultCode \<times> PageTable) option" where
  "MapPages_state addr page_linked_list st perm ks pt = do {
     let num_pages = GetNumPages page_linked_list;
     let sz = num_pages * PageSize;
     if \<not> CanContain addr sz st pt then Some (ERR_INVALID_ADDRESS_STATE, pt)
     else do {
       mapped \<leftarrow> IsRegionMapped addr (num_pages * PageSize) pt;
       if mapped then Some (ERR_INVALID_ADDRESS_STATE, pt)
       else do {
         (r, pt) \<leftarrow> MapPages addr page_linked_list perm ks pt;
         if IsError r then Some (r, pt)
         else do {
           pt \<leftarrow> PT_Update addr num_pages st perm MemoryAttribute_None pt;
           Some (RESULT_SUCCESS, pt)
         }
       }
     }
   }"

section \<open>Permissions, attributes, queries\<close>

definition SetCodeMemoryPermission :: "u64 \<Rightarrow> u64 \<Rightarrow> u8 \<Rightarrow> KSystem \<Rightarrow> PageTable \<Rightarrow> (ResultCode \<times> PageTable) option" where
  "SetCodeMemoryPermission addr sz perm ks pt = do {
     c \<leftarrow> CheckMemoryState addr sz MemoryState_FlagCode MemoryState_FlagCode MemoryPermission_None
            MemoryPermission_None MemoryAttribute_Mask MemoryAttribute_None
            MemoryAttribute_IpcAndDeviceMapped pt;
     case c of
       Inl r \<Rightarrow> Some (r, pt)
     | Inr (prev_state, prev_perm, _) \<Rightarrow>
         let st = (if perm AND MemoryPermission_Write \<noteq> MemoryPermission_None
                   then if prev_state = MemoryState_Code then MemoryState_CodeData
                        else if prev_state = MemoryState_AliasCode then MemoryState_AliasCodeData
                        else prev_state
                   else prev_state)
         in if st = prev_state \<and> perm = prev_perm then Some (RESULT_SUCCESS, pt)
         else do {
           let num_pages = sz div PageSize;
           let operation = (if perm AND MemoryPermission_Execute \<noteq> MemoryPermission_None
                            then OT_ChangePermissionsAndRefresh else OT_ChangePermissions);
           (r, pt) \<leftarrow> Operate addr num_pages perm operation 0 ks pt;
           if IsError r then Some (r, pt)
           else do {
             pt \<leftarrow> PT_Update addr num_pages st perm MemoryAttribute_None pt;
             Some (RESULT_SUCCESS, pt)
           }
         }
   }"

definition QueryInfoImpl :: "u64 \<Rightarrow> PageTable \<Rightarrow> MemoryInfo option" where
  "QueryInfoImpl addr pt = map_option GetMemoryInfo (FindBlock addr (blocks pt))"

definition QueryInfo :: "u64 \<Rightarrow> PageTable \<Rightarrow> MemoryInfo option" where
  "QueryInfo addr pt =
     (if \<not> Contains addr 1 pt
      then Some \<lparr>mi_addr = pt_address_space_end pt, mi_size = 0 - pt_address_space_end pt,
                 mi_state = MemoryState_Inaccessible, mi_perm = MemoryPermission_None,
                 mi_attribute = MemoryAttribute_None, mi_original_perm = MemoryPermission_None,
                 mi_ipc_lock_count = 0, mi_device_use_count = 0\<rparr>
      else QueryInfoImpl addr pt)"

definition ReserveTransferMemory :: "u64 \<Rightarrow> u64 \<Rightarrow> u8 \<Rightarrow> PageTable \<Rightarrow> (ResultCode \<times> PageTable) option" where
  "ReserveTransferMemory addr sz perm pt = do {
     c \<leftarrow> CheckMemoryState addr sz
            (MemoryState_FlagCanTransfer OR MemoryState_FlagReferenceCounted)
            (MemoryState_FlagCanTransfer OR MemoryState_FlagReferenceCounted)
            MemoryPermission_Mask MemoryPermission_ReadAndWrite MemoryAttribute_Mask
            MemoryAttribute_None MemoryAttribute_IpcAndDeviceMapped pt;
     case c of
       Inl r \<Rightarrow> Some (r, pt)
     | Inr (st, _, attribute) \<Rightarrow> do {
         pt \<leftarrow> PT_Update addr (sz div PageSize) st perm (attribute OR MemoryAttribute_Locked) pt;
         Some (RESULT_SUCCESS, pt)
       }
   }"

definition ResetTransferMemory :: "u64 \<Rightarrow> u64 \<Rightarrow> PageTable \<Rightarrow> (ResultCode \<times> PageTable) option" where
  "ResetTransferMemory addr sz pt = do {
     c \<leftarrow> CheckMemoryState addr sz
            (MemoryState_FlagCanTransfer OR MemoryState_FlagReferenceCounted)
            (MemoryState_FlagCanTransfer OR MemoryState_FlagReferenceCounted)
            MemoryPermission_None MemoryPermission_None MemoryAttribute_Mask
            MemoryAttribute_Locked MemoryAttribute_IpcAndDeviceMapped pt;
     case c of
       Inl r \<Rightarrow> Some (r, pt)
     | Inr (st, _, _) \<Rightarrow> do {
         pt \<leftarrow> PT_Update addr (sz div PageSize) st MemoryPermission_ReadAndWrite MemoryAttribute_None pt;
         Some (RESULT_SUCCESS, pt)
       }
   }"

definition SetMemoryAttribute :: "u64 \<Rightarrow> u64 \<Rightarrow> u8 \<Rightarrow> u8 \<Rightarrow> PageTable \<Rightarrow> (ResultCode \<times> PageTable) option" where
  "SetMemoryAttribute addr sz attr_mask v pt = do {
     c \<leftarrow> CheckMemoryState addr sz MemoryState_FlagCanChangeAttribute
            MemoryState_FlagCanChangeAttribute MemoryPermission_None MemoryPermission_None
            MemoryAttribute_LockedAndIpcLocked MemoryAttribute_None
            MemoryAttribute_DeviceSharedAndUncached pt;
     case c of
       Inl r \<Rightarrow> Some (r, pt)
     | Inr (st, perm, attribute) \<Rightarrow> do {
         let attribute = attribute AND NOT attr_mask;
         let attribute = attribute OR (attr_mask AND v);
         pt \<leftarrow> PT_Update addr (sz div PageSize) st perm attribute pt;
         Some (RESULT_SUCCESS, pt)
       }
   }"

section \<open>The heap\<close>

definition SetHeapCapacity :: "u64 \<Rightarrow> PageTable \<Rightarrow> ResultCode \<times> PageTable" where
  "SetHeapCapacity new_heap_capacity pt = (RESULT_SUCCESS, pt\<lparr>pt_heap_capacity := new_heap_capacity\<rparr>)"

definition SetHeapSize :: "u64 \<Rightarrow> KSystem \<Rightarrow> PageTable \<Rightarrow> ((ResultCode + u64) \<times> PageTable \<times> KSystem) option" where
  "SetHeapSize sz ks pt =
     (if sz > pt_heap_region_end pt - pt_heap_region_start pt then Some (Inl ERR_OUT_OF_MEMORY, pt, ks)
      else do {
        let previous_heap_size = GetHeapSize pt;
        let delta = sz - previous_heap_size;
        (ok, ks) \<leftarrow>
          (case ks_resource_limit ks of
             None \<Rightarrow> Some (True, ks)
           | Some rl \<Rightarrow>
               if delta \<noteq> 0
               then do {
                 (ok, rl) \<leftarrow> Reserve PhysicalMemory (sint delta) rl;
                 Some (ok, ks\<lparr>ks_resource_limit := Some rl\<rparr>)
               }
               else Some (True, ks));
        if \<not> ok then Some (Inl ERR_RESOURCE_LIMIT_EXCEEDED, pt, ks)
        else do {
          let num_pages = delta div PageSize;
          (r, page_linked_list, mm) \<leftarrow>
            MemoryManager_Allocate [] num_pages (pt_memory_pool pt) (ks_memory_manager ks);
          let ks = ks\<lparr>ks_memory_manager := mm\<rparr>;
          if IsError r then Some (Inl r, pt, ks)
          else do {
            mapped \<leftarrow> IsRegionMapped (pt_current_heap_addr pt) delta pt;
            if mapped then Some (Inl ERR_INVALID_ADDRESS_STATE, pt, ks)
            else do {
              (r, pt) \<leftarrow> Operate_group (pt_current_heap_addr pt) page_linked_list OT_MapGroup ks pt;
              if IsError r then Some (Inl r, pt, ks)
              else do {
                pt \<leftarrow> PT_Update (pt_current_heap_addr pt) num_pages MemoryState_Normal
                        MemoryPermission_ReadAndWrite MemoryAttribute_None pt;
                let pt = pt\<lparr>pt_current_heap_addr := pt_heap_region_start pt + sz\<rparr>;
                Some (Inr (pt_heap_region_start pt), pt, ks)
              }
            }
          }
        }
      })"

definition AllocateAndMapMemory ::
  "u64 \<Rightarrow> u64 \<Rightarrow> bool \<Rightarrow> u64 \<Rightarrow> u64 \<Rightarrow> u32 \<Rightarrow> u8 \<Rightarrow> u64 \<Rightarrow> KSystem \<Rightarrow> PageTable \<Rightarrow>
     ((ResultCode + u64) \<times> PageTable \<times> KSystem) option" where
  "AllocateAndMapMemory needed_num_pages align is_map_only region_start region_num_pages st perm map_addr ks pt =
     (if \<not> CanContain region_start (region_num_pages * PageSize) st pt
      then Some (Inl ERR_INVALID_ADDRESS_STATE, pt, ks)
      else if region_num_pages \<le> needed_num_pages then Some (Inl ERR_OUT_OF_MEMORY, pt, ks)
      else do {
        addr \<leftarrow> AllocateVirtualMemory region_start region_num_pages needed_num_pages align pt;
        if addr = 0 then Some (Inl ERR_OUT_OF_MEMORY, pt, ks)
        else do {
          (r, pt, ks) \<leftarrow>
            (if is_map_only
             then do {
               (r, pt) \<leftarrow> Operate addr needed_num_pages perm OT_Map map_addr ks pt;
               Some (r, pt, ks)
             }
             else do {
               (r, page_group, mm) \<leftarrow>
                 MemoryManager_Allocate [] needed_num_pages (pt_memory_pool pt) (ks_memory_manager ks);
               let ks = ks\<lparr>ks_memory_manager := mm\<rparr>;
               if IsError r then Some (r, pt, ks)
               else do {
                 (r, pt) \<leftarrow> Operate_group addr page_group OT_MapGroup ks pt;
                 Some (r, pt, ks)
               }
             });
          if IsError r then Some (Inl r, pt, ks)
          else do {
            pt \<leftarrow> PT_Update addr needed_num_pages st perm MemoryAttribute_None pt;
            Some (Inr addr, pt, ks)
          }
        }
      })"

section \<open>Device locks\<close>

definition LockForDeviceAddressSpace :: "u64 \<Rightarrow> u64 \<Rightarrow> PageTable \<Rightarrow> (ResultCode \<times> PageTable) option" where
  "LockForDeviceAddressSpace addr sz pt = do {
     c \<leftarrow> CheckMemoryState addr sz MemoryState_FlagCanChangeAttribute
            MemoryState_FlagCanChangeAttribute MemoryPermission_None MemoryPermission_None
            MemoryAttribute_LockedAndIpcLocked MemoryAttribute_None
            MemoryAttribute_DeviceSharedAndUncached pt;
     case c of
       Inl r \<Rightarrow> Some (r, pt)
     | Inr (_, perm, _) \<Rightarrow> do {
         bs \<leftarrow> UpdateLock addr (sz div PageSize) ShareToDevice perm (blocks pt);
         Some (RESULT_SUCCESS, set_blocks bs pt)
       }
   }"

definition UnlockForDeviceAddressSpace :: "u64 \<Rightarrow> u64 \<Rightarrow> PageTable \<Rightarrow> (ResultCode \<times> PageTable) option" where
  "UnlockForDeviceAddressSpace addr sz pt = do {
     c \<leftarrow> CheckMemoryState addr sz MemoryState_FlagCanChangeAttribute
            MemoryState_FlagCanChangeAttribute MemoryPermission_None MemoryPermission_None
            MemoryAttribute_LockedAndIpcLocked MemoryAttribute_None
            MemoryAttribute_DeviceSharedAndUncached pt;
     case c of
       Inl r \<Rightarrow> Some (r, pt)
     | Inr (_, perm, _) \<Rightarrow> do {
         bs \<leftarrow> UpdateLock addr (sz div PageSize) UnshareToDevice perm (blocks pt);
         Some (RESULT_SUCCESS, set_blocks bs pt)
       }
   }"

end
