(* ===== verification/Page_Table_Correct.thy ===== *)
theory Page_Table_Correct
  imports Page_Table
begin

text \<open>
  What the operations of \<^verbatim>\<open>page_table.cpp\<close> do, read through the abstractions of the parts they
  are composed of: \<open>lookup\<close> for the blocks, \<open>page_at\<close> for the table of pages, \<open>pool_free\<close> for the
  physical memory.
\<close>

section \<open>Checks of the memory state\<close>

text \<open>A block, or the properties at an address, as the check accepts them.\<close>

definition accepts ::
  "MemoryInfo \<Rightarrow> u32 \<Rightarrow> u32 \<Rightarrow> u8 \<Rightarrow> u8 \<Rightarrow> u8 \<Rightarrow> u8 \<Rightarrow> u8 \<Rightarrow> MemoryBlock \<Rightarrow> bool" where
  "accepts first state_mask st perm_mask perm attr_mask attr ignore_attr p \<longleftrightarrow>
     mb_state p = mi_state first \<and> mb_perm p = mi_perm first \<and>
     mb_attribute p OR ignore_attr = mi_attribute first OR ignore_attr \<and>
     mb_state p AND state_mask = st \<and> mb_perm p AND perm_mask = perm \<and>
     mb_attribute p AND attr_mask = attr"

definition all_in :: "nat \<Rightarrow> nat \<Rightarrow> (MemoryBlock \<Rightarrow> bool) \<Rightarrow> MemoryBlock list \<Rightarrow> bool" where
  "all_in a b P bs \<longleftrightarrow> (\<forall>x. a \<le> x \<longrightarrow> x < b \<longrightarrow> (\<exists>p. lookup bs x = Some p \<and> P p))"

lemma accepts_props [simp]: "accepts f sm st pm p am a ig (props b) = accepts f sm st pm p am a ig b"
  by (simp add: accepts_def props_def)

lemma GetMemoryInfo_fields [simp]:
  "mi_state (GetMemoryInfo b) = mb_state b" "mi_perm (GetMemoryInfo b) = mb_perm b"
  "mi_attribute (GetMemoryInfo b) = mb_attribute b" "mi_addr (GetMemoryInfo b) = mb_addr b"
  by (simp_all add: GetMemoryInfo_def)

lemma last_in_block:
  assumes "block_ok b"
  shows "last_addr \<le> MemoryInfo_GetLastAddress (GetMemoryInfo b) \<longleftrightarrow> unat last_addr < hi b"
proof -
  have "MemoryInfo_GetEndAddress (GetMemoryInfo b) = mb_num_pages b * PageSize + mb_addr b"
    by (simp add: MemoryInfo_GetEndAddress_def GetMemoryInfo_def GetSize_def ac_simps)
  then show ?thesis
    using unat_cur_end[OF assms] block_ok_lo_hi[OF assms]
    by (auto simp: MemoryInfo_GetLastAddress_def word_le_nat_alt unat_pred)
qed

lemma all_in_Cons:
  assumes "tiles c (b # bs) e" "c \<le> l" "\<And>p. P (props p) = P p"
  shows "all_in c (Suc l) P (b # bs) \<longleftrightarrow> P b \<and> (hi b \<le> l \<longrightarrow> all_in (hi b) (Suc l) P bs)"
proof -
  have b: "lo b = c" "lo b < hi b" using assms(1) block_ok_lo_hi[of b] by auto
  show ?thesis
  proof
    assume a: "all_in c (Suc l) P (b # bs)"
    have "P b" using a[unfolded all_in_def, rule_format, of c] assms(2,3) b by auto
    moreover have "all_in (hi b) (Suc l) P bs"
      unfolding all_in_def
    proof (intro allI impI)
      fix x assume "hi b \<le> x" "x < Suc l"
      then show "\<exists>p. lookup bs x = Some p \<and> P p"
        using a[unfolded all_in_def, rule_format, of x] b by auto
    qed
    ultimately show "P b \<and> (hi b \<le> l \<longrightarrow> all_in (hi b) (Suc l) P bs)" by blast
  next
    assume a: "P b \<and> (hi b \<le> l \<longrightarrow> all_in (hi b) (Suc l) P bs)"
    show "all_in c (Suc l) P (b # bs)"
      unfolding all_in_def
    proof (intro allI impI)
      fix x assume x: "c \<le> x" "x < Suc l"
      show "\<exists>p. lookup (b # bs) x = Some p \<and> P p"
        using a x b assms(3) by (cases "x < hi b") (auto simp: all_in_def)
    qed
  qed
qed

lemma CheckMemoryState_loop_Cons:
  assumes "block_ok b"
  shows "CheckMemoryState_loop last_addr first sm st pm p am a ig (b # bs) =
    (if \<not> accepts first sm st pm p am a ig b then Some ERR_INVALID_ADDRESS_STATE
     else if unat last_addr < hi b then Some RESULT_SUCCESS
     else CheckMemoryState_loop last_addr first sm st pm p am a ig bs)"
  unfolding CheckMemoryState_loop.simps Let_def CheckMemoryState_info_def last_in_block[OF assms]
    accepts_def GetMemoryInfo_fields
  by simp

lemma CheckMemoryState_loop_correct:
  assumes "tiles c bs e" "c \<le> unat last_addr" "unat last_addr < e"
  shows "CheckMemoryState_loop last_addr first sm st pm p am a ig bs =
    Some (if all_in c (Suc (unat last_addr)) (accepts first sm st pm p am a ig) bs
          then RESULT_SUCCESS else ERR_INVALID_ADDRESS_STATE)"
  using assms
proof (induction bs arbitrary: c)
  case (Cons b bs)
  have ok: "block_ok b" and t: "tiles (hi b) bs e" using Cons.prems(1) by auto
  note all = all_in_Cons[OF Cons.prems(1,2), of "accepts first sm st pm p am a ig"]
  show ?case
    unfolding CheckMemoryState_loop_Cons[OF ok]
    using Cons.IH[OF t _ Cons.prems(3)] all by (simp add: not_less)
qed simp

text \<open>The end of a range that does not wrap.\<close>

lemma range_last:
  fixes addr sz :: u64
  assumes "0 < unat sz" "unat addr + unat sz < 2 ^ 64"
  shows "unat (addr + sz - 1) = unat addr + unat sz - 1"
proof -
  have "unat (addr + sz) = unat addr + unat sz" using assms(2) by (rule unat_plus)
  then show ?thesis using assms(1) by (subst unat_pred) auto
qed

lemma tiles_end_lt: "tiles a bs e \<Longrightarrow> a < e \<Longrightarrow> e < 2 ^ 64"
proof (induction bs arbitrary: a)
  case (Cons b bs)
  show ?case
  proof (cases "hi b < e")
    case True
    then show ?thesis using Cons.IH[of "hi b"] Cons.prems by simp
  next
    case False
    then have "e = hi b" using Cons.prems tiles_le[of "hi b" bs e] by simp
    then show ?thesis using Cons.prems by (simp add: block_ok_def)
  qed
qed simp

lemma all_in_from:
  assumes "tiles s (pre @ b # post) e" "lo b \<le> a" "a < hi b" "a < c" "\<And>p. P (props p) = P p"
  shows "all_in a c P (pre @ b # post) \<longleftrightarrow> all_in (lo b) c P (b # post)"
proof -
  have lk: "lookup (pre @ b # post) x = lookup (b # post) x" if "lo b \<le> x" for x
    using assms(1) that unfolding tiles_append by (auto simp: lookup_append lookup_outside)
  have in_b: "lookup (b # post) x = Some (props b)" if "lo b \<le> x" "x < hi b" for x using that by simp
  show ?thesis
  proof
    assume l: "all_in a c P (pre @ b # post)"
    have "P b" using l[unfolded all_in_def, rule_format, of a] lk[of a] assms by auto
    show "all_in (lo b) c P (b # post)"
      unfolding all_in_def
    proof (intro allI impI)
      fix x assume x: "lo b \<le> x" "x < c"
      show "\<exists>p. lookup (b # post) x = Some p \<and> P p"
      proof (cases "x < hi b")
        case True
        then show ?thesis using in_b x \<open>P b\<close> assms(5) by simp
      next
        case False
        then show ?thesis using l[unfolded all_in_def, rule_format, of x] lk[OF x(1)] x assms(3) by auto
      qed
    qed
  next
    assume r: "all_in (lo b) c P (b # post)"
    show "all_in a c P (pre @ b # post)"
      unfolding all_in_def
    proof (intro allI impI)
      fix x assume x: "a \<le> x" "x < c"
      show "\<exists>p. lookup (pre @ b # post) x = Some p \<and> P p"
        using r[unfolded all_in_def, rule_format, of x] lk[of x] x assms(2) by auto
    qed
  qed
qed

lemma CheckMemoryState_eq:
  assumes t: "tiles s (blocks pt) e" and r: "s \<le> unat addr" "0 < unat sz" "unat addr + unat sz \<le> e"
  obtains b where "lookup (blocks pt) (unat addr) = Some (props b)"
    and "CheckMemoryState addr sz sm st pm p am a ig pt =
      Some (if all_in (unat addr) (unat addr + unat sz) (accepts (GetMemoryInfo b) sm st pm p am a ig) (blocks pt)
            then Inr (mb_state b, mb_perm b, mb_attribute b AND NOT ig) else Inl ERR_INVALID_ADDRESS_STATE)"
proof -
  have e: "e < 2 ^ 64" using tiles_end_lt[OF t] r by simp
  have l: "unat (addr + sz - 1) = unat addr + unat sz - 1" using r e by (intro range_last) auto
  obtain pre b post where b: "blocks pt = pre @ b # post" "FindIterator addr (blocks pt) = b # post"
    "lo b \<le> unat addr" "unat addr < hi b"
    using FindIterator_correct[OF t r(1)] r(2,3) by (metis add_less_cancel_left add.right_neutral less_le_trans)
  have t2: "tiles (lo b) (b # post) e" using t b(1) by (auto simp: tiles_append)
  show ?thesis
  proof (rule that[of b])
    show "lookup (blocks pt) (unat addr) = Some (props b)"
      using lookup_at[of s pre b post e "unat addr"] t b by simp
    let ?A = "accepts (GetMemoryInfo b) sm st pm p am a ig"
    have "all_in (unat addr) (unat addr + unat sz) ?A (blocks pt) \<longleftrightarrow> all_in (lo b) (unat addr + unat sz) ?A (b # post)"
      unfolding b(1) using t b r by (intro all_in_from) auto
    then show "CheckMemoryState addr sz sm st pm p am a ig pt = Some (if all_in (unat addr) (unat addr + unat sz) ?A (blocks pt)
            then Inr (mb_state b, mb_perm b, mb_attribute b AND NOT ig) else Inl ERR_INVALID_ADDRESS_STATE)"
      using CheckMemoryState_loop_correct[OF t2, of "addr + sz - 1" "GetMemoryInfo b" sm st pm p am a ig] b r l
      unfolding CheckMemoryState_def Let_def by (simp del: CheckMemoryState_loop.simps)
  qed
qed

section \<open>Mapping a list of pages\<close>

text \<open>The physical address of the page at an index of a list.\<close>

fun nth_page :: "PageLinkedList \<Rightarrow> nat \<Rightarrow> u64" where
  "nth_page [] i = 0"
| "nth_page (n # ns) i =
     (if i < unat (node_num_pages n) then node_addr n + of_nat i * PageSize
      else nth_page ns (i - unat (node_num_pages n)))"

definition page_bytes :: "u64 \<Rightarrow> nat set" where
  "page_bytes a = {unat a..<unat a + 4096}"

lemma unat_nth_in_node:
  assumes "node_ok n" "i < unat (node_num_pages n)"
  shows "unat (node_addr n + of_nat i * PageSize) = unat (node_addr n) + i * 4096"
proof -
  have b: "unat (node_addr n) + unat (node_num_pages n) * 4096 < 2 ^ 64" using assms(1) by (simp add: node_ok_def)
  have i: "unat (of_nat i :: u64) = i" using assms(2) unat_lt64[of "node_num_pages n"] by (intro unat_of_nat64) linarith
  have "i * 4096 < 2 ^ 64" using assms(2) b by linarith
  then have "unat (of_nat i * PageSize) = i * 4096" using i by (simp add: unat_times)
  then show ?thesis using assms(2) b by (subst unat_plus) auto
qed

lemma nth_page_in:
  assumes "\<forall>n \<in> set ns. node_ok n" "i < total_pages ns"
  shows "page_bytes (nth_page ns i) \<subseteq> list_pages ns"
  using assms
proof (induction ns arbitrary: i)
  case (Cons n ns)
  show ?case
  proof (cases "i < unat (node_num_pages n)")
    case True
    then have "i * 4096 + 4096 \<le> unat (node_num_pages n) * 4096" by simp
    then have "page_bytes (nth_page (n # ns) i) \<subseteq> node_pages n"
      using unat_nth_in_node[of n i] Cons.prems(1) True by (auto simp: page_bytes_def node_pages_def)
    then show ?thesis by auto
  next
    case False
    then have "i - unat (node_num_pages n) < total_pages ns" using Cons.prems(2) by simp
    then show ?thesis using Cons.IH[of "i - unat (node_num_pages n)"] Cons.prems(1) False by auto
  qed
qed simp

lemma nth_page_inj:
  assumes "\<forall>n \<in> set ns. node_ok n" "card (list_pages ns) = total_pages ns * 4096"
    "i < total_pages ns" "j < total_pages ns" "i \<noteq> j"
  shows "page_bytes (nth_page ns i) \<inter> page_bytes (nth_page ns j) = {}"
  using assms
proof (induction ns arbitrary: i j)
  case (Cons n ns)
  let ?k = "unat (node_num_pages n)"
  note c = im.card_list_pages_Cons[OF Cons.prems(2)]
  have in_n: "page_bytes (nth_page (n # ns) l) \<subseteq> node_pages n" if "l < ?k" for l
  proof -
    have "l * 4096 + 4096 \<le> ?k * 4096" using that by simp
    then show ?thesis
      using unat_nth_in_node[of n l] Cons.prems(1) that by (auto simp: page_bytes_def node_pages_def)
  qed
  have in_ns: "page_bytes (nth_page (n # ns) l) \<subseteq> list_pages ns" if "\<not> l < ?k" "l < total_pages (n # ns)" for l
    using nth_page_in[of ns "l - ?k"] Cons.prems(1) that by auto
  consider "i < ?k" "j < ?k" | "i < ?k" "\<not> j < ?k" | "\<not> i < ?k" "j < ?k" | "\<not> i < ?k" "\<not> j < ?k" by blast
  then show ?case
  proof cases
    case 1
    then have "unat (nth_page (n # ns) i) = unat (node_addr n) + i * 4096"
      "unat (nth_page (n # ns) j) = unat (node_addr n) + j * 4096"
      using unat_nth_in_node Cons.prems(1) by simp_all
    then show ?thesis using Cons.prems(5) by (auto simp: page_bytes_def)
  next
    case 2
    then show ?thesis using in_n in_ns[of j] c(1) Cons.prems(4) by blast
  next
    case 3
    then show ?thesis using in_n in_ns[of i] c(1) Cons.prems(3) by blast
  next
    case 4
    then show ?thesis
      using Cons.IH[of "i - ?k" "j - ?k"] c(2) Cons.prems by auto
  qed
qed simp

lemma Operate_group_correct:
  assumes "pm_ok (pt_impl pt)" "4096 dvd unat addr"
    "unat addr + total_pages nodes * 4096 \<le> pm_entries (pt_impl pt) * 4096"
    "\<forall>n \<in> set nodes. node_ok n \<and> node_addr n \<noteq> 0"
  shows "\<exists>pm. Operate_group addr nodes OT_MapGroup ks pt = Some (RESULT_SUCCESS, pt\<lparr>pt_impl := pm\<rparr>) \<and>
    pm_entries pm = pm_entries (pt_impl pt) \<and>
    (\<forall>p. page_at pm p =
       (if unat addr \<le> p * 4096 \<and> p * 4096 < unat addr + total_pages nodes * 4096
        then Some (Memory, nth_page nodes (p - unat addr div 4096)) else page_at (pt_impl pt) p))"
  using assms
proof (induction nodes arbitrary: addr pt)
  case Nil
  show ?case by (rule exI[of _ "pt_impl pt"]) auto
next
  case (Cons n nodes)
  let ?k = "unat (node_num_pages n)"
  have b: "unat addr + ?k * 4096 + total_pages nodes * 4096 \<le> pm_entries (pt_impl pt) * 4096"
    using Cons.prems(3) by simp
  have e: "pm_entries (pt_impl pt) * 4096 < 2 ^ 64" using Cons.prems(1) by (simp add: pm_ok_def)
  have "unat (node_num_pages n * PageSize) = ?k * 4096" using b e by (subst unat_times) auto
  then have na: "unat (addr + node_num_pages n * PageSize) = unat addr + ?k * 4096"
    using b e by (subst unat_plus) auto
  obtain pm1 where m: "MapMemoryRegion (ks_device_buffer ks) addr (node_num_pages n * PageSize) (node_addr n) (pt_impl pt) = Some pm1"
    "pm_entries pm1 = pm_entries (pt_impl pt)"
    "\<And>p. page_at pm1 p = (if unat addr \<le> p * 4096 \<and> p * 4096 < unat addr + ?k * 4096
        then Some (Memory, node_addr n + of_nat (p - unat addr div 4096) * PageSize) else page_at (pt_impl pt) p)"
    using MapMemoryRegion_correct[OF Cons.prems(1,2), of "node_num_pages n" "node_addr n" "ks_device_buffer ks"]
      b Cons.prems(4) by auto
  obtain pm where r: "Operate_group (addr + node_num_pages n * PageSize) nodes OT_MapGroup ks (pt\<lparr>pt_impl := pm1\<rparr>) =
      Some (RESULT_SUCCESS, pt\<lparr>pt_impl := pm\<rparr>)" "pm_entries pm = pm_entries pm1"
    "\<And>p. page_at pm p = (if unat addr + ?k * 4096 \<le> p * 4096 \<and> p * 4096 < unat addr + ?k * 4096 + total_pages nodes * 4096
        then Some (Memory, nth_page nodes (p - (unat addr + ?k * 4096) div 4096)) else page_at pm1 p)"
    using Cons.IH[of "pt\<lparr>pt_impl := pm1\<rparr>" "addr + node_num_pages n * PageSize"] Cons.prems b m(2) na
    by (auto simp: pm_ok_def)
  obtain q where q: "unat addr = q * 4096" using Cons.prems(2) by (metis dvd_def mult.commute)
  have "page_at pm p = (if unat addr \<le> p * 4096 \<and> p * 4096 < unat addr + total_pages (n # nodes) * 4096
        then Some (Memory, nth_page (n # nodes) (p - unat addr div 4096)) else page_at (pt_impl pt) p)" for p
    unfolding r(3) m(3) q by auto
  moreover have "Operate_group addr (n # nodes) OT_MapGroup ks pt = Some (RESULT_SUCCESS, pt\<lparr>pt_impl := pm\<rparr>)"
    using m(1) r(1) by (simp add: Let_def)
  ultimately show ?case using r(2) m(2) by auto
qed

section \<open>The state of a process\<close>

text \<open>
  What \<open>InitializeForProcess\<close> establishes and the operations keep: the blocks tile the address
  space, the table of pages covers it, and the heap lies inside it.
\<close>

definition pt_inv :: "PageTable \<Rightarrow> bool" where
  "pt_inv pt \<longleftrightarrow>
     tiles 0 (blocks pt) (unat (pt_address_space_end pt)) \<and> unat (pt_address_space_end pt) \<le> 2 ^ 39 \<and>
     pm_entries (pt_impl pt) * 4096 = unat (pt_address_space_end pt) \<and>
     4096 dvd unat (pt_heap_region_start pt) \<and> 4096 dvd unat (pt_current_heap_addr pt) \<and>
     unat (pt_heap_region_start pt) \<le> unat (pt_current_heap_addr pt) \<and>
     unat (pt_current_heap_addr pt) \<le> unat (pt_heap_region_end pt) \<and>
     unat (pt_heap_region_end pt) \<le> unat (pt_address_space_end pt)"

lemma set_blocks_fields [simp]:
  "blocks (set_blocks bs pt) = bs" "pt_impl (set_blocks bs pt) = pt_impl pt"
  "pt_address_space_end (set_blocks bs pt) = pt_address_space_end pt"
  "pt_heap_region_start (set_blocks bs pt) = pt_heap_region_start pt"
  "pt_heap_region_end (set_blocks bs pt) = pt_heap_region_end pt"
  "pt_current_heap_addr (set_blocks bs pt) = pt_current_heap_addr pt"
  "pt_memory_pool (set_blocks bs pt) = pt_memory_pool pt"
  by (simp_all add: set_blocks_def)

lemma PT_Update_correct:
  assumes "tiles s (blocks pt) e" and "range_ok e addr num_pages"
  shows "\<exists>bs'. PT_Update addr num_pages st perm attribute pt = Some (set_blocks bs' pt) \<and> tiles s bs' e \<and>
    rewritten (unat addr) (range_end addr num_pages) (Block_Update st perm attribute) (blocks pt) bs'"
  using upd.Update_range[OF assms, of UNIV st perm attribute] by (auto simp: PT_Update_def Update_def)

text \<open>Memory as the address space starts out.\<close>

definition free_props :: "MemoryBlock \<Rightarrow> bool" where
  "free_props p \<longleftrightarrow> mb_state p = MemoryState_Free \<and> mb_perm p = MemoryPermission_None \<and>
     mb_attribute p = MemoryAttribute_None"

lemma IsRegionMapped_free:
  assumes "tiles s (blocks pt) e" "s \<le> unat addr" "0 < unat sz" "unat addr + unat sz \<le> e"
    and "all_in (unat addr) (unat addr + unat sz) free_props (blocks pt)"
  shows "IsRegionMapped addr sz pt = Some False"
proof -
  obtain b where b: "lookup (blocks pt) (unat addr) = Some (props b)"
    "CheckMemoryState addr sz MemoryState_All MemoryState_Free MemoryPermission_Mask MemoryPermission_None
       MemoryAttribute_Mask MemoryAttribute_None MemoryAttribute_IpcAndDeviceMapped pt =
     Some (if all_in (unat addr) (unat addr + unat sz) (accepts (GetMemoryInfo b) MemoryState_All MemoryState_Free
          MemoryPermission_Mask MemoryPermission_None MemoryAttribute_Mask MemoryAttribute_None
          MemoryAttribute_IpcAndDeviceMapped) (blocks pt)
        then Inr (mb_state b, mb_perm b, mb_attribute b AND NOT MemoryAttribute_IpcAndDeviceMapped)
        else Inl ERR_INVALID_ADDRESS_STATE)"
    using CheckMemoryState_eq[OF assms(1-4)] by blast
  have "free_props (props b)" using assms(3,5) b(1) by (force simp: all_in_def)
  then have "free_props p \<Longrightarrow> accepts (GetMemoryInfo b) MemoryState_All MemoryState_Free
      MemoryPermission_Mask MemoryPermission_None MemoryAttribute_Mask MemoryAttribute_None
      MemoryAttribute_IpcAndDeviceMapped p" for p
    by (simp add: free_props_def accepts_def props_def MemoryState_defs MemoryPermission_defs MemoryAttribute_defs)
  then have "all_in (unat addr) (unat addr + unat sz) (accepts (GetMemoryInfo b) MemoryState_All MemoryState_Free
      MemoryPermission_Mask MemoryPermission_None MemoryAttribute_Mask MemoryAttribute_None
      MemoryAttribute_IpcAndDeviceMapped) (blocks pt)"
    using assms(5) unfolding all_in_def by blast
  then show ?thesis using b(2) by (simp add: IsRegionMapped_def)
qed

lemma sint_small64: "unat a < 2 ^ 63 \<Longrightarrow> sint a = int (unat a)" for a :: u64
  by (rule sint_small)

lemma heap_delta:
  assumes "pt_inv pt" "unat (GetHeapSize pt) < unat sz" "4096 dvd unat sz"
    "unat (pt_heap_region_start pt) + unat sz \<le> unat (pt_heap_region_end pt)"
    "unat (pt_heap_region_start pt) + unat sz < unat (pt_address_space_end pt)"
  defines "d \<equiv> unat sz - unat (GetHeapSize pt)" and "n \<equiv> (sz - GetHeapSize pt) div PageSize"
  shows "unat (sz - GetHeapSize pt) = d" "0 < d" "4096 dvd d" "unat n * 4096 = d" "n \<noteq> 0"
    "sint (sz - GetHeapSize pt) = int d" "\<not> sz > pt_heap_region_end pt - pt_heap_region_start pt"
    "unat (pt_current_heap_addr pt) + d = unat (pt_heap_region_start pt) + unat sz"
    "range_ok (unat (pt_address_space_end pt)) (pt_current_heap_addr pt) n"
    "unat (pt_heap_region_start pt + sz) = unat (pt_heap_region_start pt) + unat sz"
proof -
  let ?s = "unat (pt_heap_region_start pt)" and ?c = "unat (pt_current_heap_addr pt)"
  have h: "unat (GetHeapSize pt) = ?c - ?s"
    unfolding GetHeapSize_def using assms(1) by (intro unat_diff) (simp add: pt_inv_def)
  have i: "?s \<le> ?c" "4096 dvd ?s" "4096 dvd ?c" "unat (pt_heap_region_end pt) \<le> 2 ^ 39"
    using assms(1) by (auto simp: pt_inv_def)
  show d: "unat (sz - GetHeapSize pt) = d" unfolding d_def using assms(2) by (intro unat_diff) simp
  show "0 < d" using assms(2) by (simp add: d_def)
  show dv: "4096 dvd d" unfolding d_def h using i assms(3) by (simp add: dvd_diff_nat)
  show n: "unat n * 4096 = d" unfolding n_def using d dv by simp
  show "n \<noteq> 0" using n \<open>0 < d\<close> by auto
  have "d < 2 ^ 63" using i(4) assms(4) unfolding d_def by simp
  then show "sint (sz - GetHeapSize pt) = int d" using sint_small64 d by metis
  have "unat (pt_heap_region_end pt - pt_heap_region_start pt) = unat (pt_heap_region_end pt) - ?s"
    using assms(4) by (intro unat_diff) simp
  then show "\<not> sz > pt_heap_region_end pt - pt_heap_region_start pt"
    using assms(4) by (simp add: word_less_nat_alt)
  show e: "?c + d = ?s + unat sz" using assms(2) i(1) unfolding d_def h by simp
  show "range_ok (unat (pt_address_space_end pt)) (pt_current_heap_addr pt) n"
    using assms(1,5) e n \<open>n \<noteq> 0\<close> unfolding range_ok_def pt_inv_def by (auto simp: word_neq_0_conv)
  show "unat (pt_heap_region_start pt + sz) = ?s + unat sz"
    using assms(4) i(4) by (intro unat_plus) simp
qed

text \<open>What a successful growth of the heap leaves behind.\<close>

definition heap_grown ::
  "u64 \<Rightarrow> nat set \<Rightarrow> KSystem \<Rightarrow> PageTable \<Rightarrow> KSystem \<Rightarrow> PageTable \<Rightarrow> bool" where
  "heap_grown sz S ks pt ks' pt' \<longleftrightarrow>
     (let c = unat (pt_current_heap_addr pt); e = unat (pt_heap_region_start pt) + unat sz
      in pt_inv pt' \<and> GetHeapSize pt' = sz \<and>
         rewritten c e (Block_Update MemoryState_Normal MemoryPermission_ReadAndWrite MemoryAttribute_None)
           (blocks pt) (blocks pt') \<and>
         (\<exists>g. (\<forall>p. page_at (pt_impl pt') p =
                 (if c \<le> p * 4096 \<and> p * 4096 < e then Some (Memory, g p) else page_at (pt_impl pt) p)) \<and>
              (\<forall>p q. c \<le> p * 4096 \<longrightarrow> p * 4096 < e \<longrightarrow> c \<le> q * 4096 \<longrightarrow> q * 4096 < e \<longrightarrow> p \<noteq> q \<longrightarrow>
                 page_bytes (g p) \<inter> page_bytes (g q) = {}) \<and>
              (\<exists>P \<subseteq> S. pool_free (ks_memory_manager ks') (pt_memory_pool pt) (S - P) \<and>
                 (\<forall>p. c \<le> p * 4096 \<longrightarrow> p * 4096 < e \<longrightarrow> page_bytes (g p) \<subseteq> P))))"

lemma heap_mapping:
  assumes inv: "pt_inv pt" and sz: "unat (GetHeapSize pt) < unat sz" "4096 dvd unat sz"
    "unat (pt_heap_region_start pt) + unat sz \<le> unat (pt_heap_region_end pt)"
    "unat (pt_heap_region_start pt) + unat sz < unat (pt_address_space_end pt)"
    and nodes: "\<forall>n\<in>set nodes. node_ok n" "list_pages nodes \<subseteq> S" "0 \<notin> S"
      "total_pages nodes * 4096 = unat sz - unat (GetHeapSize pt)"
      "card (list_pages nodes) = total_pages nodes * 4096"
    and pool: "pool_free (ks_memory_manager ks) (pt_memory_pool pt) (S - list_pages nodes)"
  shows "\<exists>pt1 pt2. Operate_group (pt_current_heap_addr pt) nodes OT_MapGroup ks pt = Some (RESULT_SUCCESS, pt1) \<and>
    PT_Update (pt_current_heap_addr pt1) ((sz - GetHeapSize pt) div PageSize) MemoryState_Normal
      MemoryPermission_ReadAndWrite MemoryAttribute_None pt1 = Some pt2 \<and>
    pt_heap_region_start pt2 = pt_heap_region_start pt \<and>
    heap_grown sz S ks0 pt ks (pt2\<lparr>pt_current_heap_addr := pt_heap_region_start pt2 + sz\<rparr>)"
proof -
  let ?c = "pt_current_heap_addr pt" and ?n = "(sz - GetHeapSize pt) div PageSize"
  note d = heap_delta[OF inv sz]
  have pm: "pm_ok (pt_impl pt)" "pm_entries (pt_impl pt) * 4096 = unat (pt_address_space_end pt)"
    and t: "tiles 0 (blocks pt) (unat (pt_address_space_end pt))" and cd: "4096 dvd unat ?c"
    using inv by (auto simp: pt_inv_def pm_ok_def)
  have nz: "\<forall>n\<in>set nodes. node_ok n \<and> node_addr n \<noteq> 0"
    using nodes(1-3) by (force simp: list_pages_def node_pages_def node_ok_def)
  have fits: "unat ?c + total_pages nodes * 4096 \<le> pm_entries (pt_impl pt) * 4096"
    using d(8) nodes(4) inv sz(3) unfolding pm(2) pt_inv_def by linarith
  obtain pm' where o: "Operate_group ?c nodes OT_MapGroup ks pt = Some (RESULT_SUCCESS, pt\<lparr>pt_impl := pm'\<rparr>)"
    "pm_entries pm' = pm_entries (pt_impl pt)"
    "\<And>p. page_at pm' p = (if unat ?c \<le> p * 4096 \<and> p * 4096 < unat ?c + total_pages nodes * 4096
        then Some (Memory, nth_page nodes (p - unat ?c div 4096)) else page_at (pt_impl pt) p)"
    using Operate_group_correct[OF pm(1) cd fits nz] by blast
  let ?pt1 = "pt\<lparr>pt_impl := pm'\<rparr>"
  obtain bs where u: "PT_Update ?c ?n MemoryState_Normal MemoryPermission_ReadAndWrite MemoryAttribute_None ?pt1 =
      Some (set_blocks bs ?pt1)" "tiles 0 bs (unat (pt_address_space_end pt))"
    "rewritten (unat ?c) (range_end ?c ?n) (Block_Update MemoryState_Normal MemoryPermission_ReadAndWrite
       MemoryAttribute_None) (blocks pt) bs"
    using PT_Update_correct[of 0 ?pt1, OF _ d(9), of MemoryState_Normal MemoryPermission_ReadAndWrite
        MemoryAttribute_None] t by auto
  let ?pt2 = "set_blocks bs ?pt1"
  let ?e = "unat (pt_heap_region_start pt) + unat sz"
  have e: "range_end ?c ?n = ?e" "unat ?c + total_pages nodes * 4096 = ?e"
    using d(4,8) nodes(4) by (simp_all add: range_end_def)
  have idx: "p - unat ?c div 4096 < total_pages nodes" if "unat ?c \<le> p * 4096" "p * 4096 < ?e" for p
    using that e(2) cd by (auto simp: dvd_def)
  have "heap_grown sz S ks0 pt ks (?pt2\<lparr>pt_current_heap_addr := pt_heap_region_start ?pt2 + sz\<rparr>)"
    unfolding heap_grown_def Let_def
  proof (intro conjI exI[of _ "\<lambda>p. nth_page nodes (p - unat ?c div 4096)"] exI[of _ "list_pages nodes"])
    show "pt_inv (?pt2\<lparr>pt_current_heap_addr := pt_heap_region_start ?pt2 + sz\<rparr>)"
      using inv u(2) d(10) sz o(2) by (auto simp: pt_inv_def)
    show "GetHeapSize (?pt2\<lparr>pt_current_heap_addr := pt_heap_region_start ?pt2 + sz\<rparr>) = sz"
      by (simp add: GetHeapSize_def)
    show "\<forall>p q. unat ?c \<le> p * 4096 \<longrightarrow> p * 4096 < ?e \<longrightarrow> unat ?c \<le> q * 4096 \<longrightarrow> q * 4096 < ?e \<longrightarrow> p \<noteq> q \<longrightarrow>
        page_bytes (nth_page nodes (p - unat ?c div 4096)) \<inter> page_bytes (nth_page nodes (q - unat ?c div 4096)) = {}"
    proof (intro allI impI)
      fix p q assume pq: "unat ?c \<le> p * 4096" "p * 4096 < ?e" "unat ?c \<le> q * 4096" "q * 4096 < ?e" "p \<noteq> q"
      have "unat ?c div 4096 \<le> p" "unat ?c div 4096 \<le> q" using pq cd by (auto simp: dvd_def)
      then have "p - unat ?c div 4096 \<noteq> q - unat ?c div 4096" using pq(5) by linarith
      then show "page_bytes (nth_page nodes (p - unat ?c div 4096)) \<inter> page_bytes (nth_page nodes (q - unat ?c div 4096)) = {}"
        using idx pq nodes by (intro nth_page_inj) auto
    qed
    show "\<forall>p. unat ?c \<le> p * 4096 \<longrightarrow> p * 4096 < ?e \<longrightarrow> page_bytes (nth_page nodes (p - unat ?c div 4096)) \<subseteq> list_pages nodes"
      using nth_page_in[OF nodes(1)] idx by blast
  qed (use o u e nodes(2) pool in auto)
  then show ?thesis using o(1) u(1) by auto
qed

lemma SetHeapSize_unfold:
  assumes inv: "pt_inv pt" and sz: "unat (GetHeapSize pt) < unat sz" "4096 dvd unat sz"
    "unat (pt_heap_region_start pt) + unat sz \<le> unat (pt_heap_region_end pt)"
    "unat (pt_heap_region_start pt) + unat sz < unat (pt_address_space_end pt)"
    and rl: "ks_resource_limit ks = Some rl" "Reserve PhysicalMemory (int (unat sz - unat (GetHeapSize pt))) rl = Some (ok, rl')"
    and alloc: "MemoryManager_Allocate [] ((sz - GetHeapSize pt) div PageSize) (pt_memory_pool pt)
        (ks_memory_manager ks) = Some (r, nodes, mm)"
    and free: "IsRegionMapped (pt_current_heap_addr pt) (sz - GetHeapSize pt) pt = Some False"
  defines "ks' \<equiv> ks\<lparr>ks_resource_limit := Some rl', ks_memory_manager := mm\<rparr>"
  shows "SetHeapSize sz ks pt =
    (if \<not> ok then Some (Inl ERR_RESOURCE_LIMIT_EXCEEDED, pt, ks\<lparr>ks_resource_limit := Some rl'\<rparr>)
     else if IsError r then Some (Inl r, pt, ks')
     else do {
       (r, pt1) \<leftarrow> Operate_group (pt_current_heap_addr pt) nodes OT_MapGroup ks' pt;
       if IsError r then Some (Inl r, pt1, ks')
       else do {
         pt2 \<leftarrow> PT_Update (pt_current_heap_addr pt1) ((sz - GetHeapSize pt) div PageSize) MemoryState_Normal
                  MemoryPermission_ReadAndWrite MemoryAttribute_None pt1;
         Some (Inr (pt_heap_region_start (pt2\<lparr>pt_current_heap_addr := pt_heap_region_start pt2 + sz\<rparr>)),
           pt2\<lparr>pt_current_heap_addr := pt_heap_region_start pt2 + sz\<rparr>, ks')
       }
     })"
proof -
  note d = heap_delta[OF inv sz]
  have nz: "sz - GetHeapSize pt \<noteq> 0" using d(1,2) by auto
  show ?thesis
    unfolding SetHeapSize_def Let_def if_not_P[OF d(7)] ks'_def
    using rl alloc free nz by (simp add: d(6))
qed

lemma Reserve_heap:
  assumes "rl_inv rl" "rl_available rl r \<in> {-(2 ^ 62)..0}" "rl_limit rl r \<le> 2 ^ 62" "d < 2 ^ 39"
  shows "Reserve r (int d) rl =
    (if rl_current rl r + int d \<le> rl_limit rl r
     then Some (True, rl\<lparr>rl_current := (rl_current rl)(r := rl_current rl r + int d)\<rparr>)
     else Some (False, rl))"
proof -
  have d: "int d < 2 ^ 39" using assms(4) by (metis of_nat_less_iff of_nat_numeral of_nat_power)
  have "rl_current rl r \<le> rl_limit rl r" using assms(1) by (simp add: rl_inv_def)
  then show ?thesis
    using assms d by (intro Reserve_eq) (auto simp: is_s64_def)
qed


text \<open>A 39-bit address space with an empty heap of one gigabyte.\<close>

definition example_pt :: PageTable where
  "example_pt = \<lparr>pt_address_space_start = 0, pt_address_space_end = 0x8000000000,
     pt_heap_region_start = 0x40000000, pt_heap_region_end = 0x80000000, pt_current_heap_end = 0x40000000,
     pt_alias_region_start = 0x80000000, pt_alias_region_end = 0x1080000000,
     pt_stack_region_start = 0x1080000000, pt_stack_region_end = 0x1100000000,
     pt_kernel_map_region_start = 0x1100000000, pt_kernel_map_region_end = 0x2100000000,
     pt_code_region_start = 0x8000000, pt_code_region_end = 0x8000000000,
     pt_alias_code_region_start = 0x8000000, pt_alias_code_region_end = 0x8000000000,
     pt_current_heap_addr = 0x40000000, pt_heap_capacity = 0, pt_physical_memory_usage = 0,
     pt_max_heap_size = 0, pt_max_physical_memory_size = 0, pt_address_space_width = 39,
     pt_is_kernel = False, pt_is_aslr_enabled = False, pt_memory_pool = Application,
     pt_impl = Resize 39 12, pt_block_manager = mk_MemoryBlockManager 0 0x8000000000\<rparr>"

definition example_limit :: ResourceLimit where
  "example_limit = snd (SetLimitValue PhysicalMemory 0x40000000 mk_ResourceLimit)"

lemma example_pt_inv: "pt_inv example_pt"
  by (simp add: pt_inv_def example_pt_def mk_MemoryBlockManager_def mk_MemoryBlock_def Resize_def
      lo_def hi_def block_ok_def)

lemma example_pt_free: "all_in a b free_props (blocks example_pt)" if "b \<le> 0x8000000000"
  using that
  by (auto simp: all_in_def example_pt_def mk_MemoryBlockManager_def mk_MemoryBlock_def lo_def hi_def
      props_def free_props_def)

lemma example_limit_inv: "rl_inv example_limit"
  by (simp add: rl_inv_def example_limit_def SetLimitValue_def mk_ResourceLimit_def)


section \<open>Checking the state of a range\<close>

text \<open>C10. Checking the state of a range against masks: on a tiled address space the loop ends without
  running past the last block, and it succeeds exactly when every address of the range has
  the state and the permission of the first one, the attributes of the first one apart from the
  ignored bits, and passes the three masks; it then returns the state of the first address, with the ignored
  attributes cleared. The outcome depends only on what each address is, not on how the space is
  cut into blocks.\<close>

theorem CheckMemoryState_correct:
  assumes "tiles s (blocks pt) e" "s \<le> unat addr" "0 < unat sz" "unat addr + unat sz \<le> e"
  shows "\<exists>p0. lookup (blocks pt) (unat addr) = Some p0 \<and>
    CheckMemoryState addr sz state_mask st perm_mask perm attr_mask attr ignore_attr pt =
      Some (if all_in (unat addr) (unat addr + unat sz)
                 (\<lambda>p. mb_state p = mb_state p0 \<and> mb_perm p = mb_perm p0 \<and>
                      mb_attribute p OR ignore_attr = mb_attribute p0 OR ignore_attr \<and>
                      mb_state p AND state_mask = st \<and> mb_perm p AND perm_mask = perm \<and>
                      mb_attribute p AND attr_mask = attr) (blocks pt)
            then Inr (mb_state p0, mb_perm p0, mb_attribute p0 AND NOT ignore_attr)
            else Inl ERR_INVALID_ADDRESS_STATE)"
proof -
  obtain b where b: "lookup (blocks pt) (unat addr) = Some (props b)"
    "CheckMemoryState addr sz state_mask st perm_mask perm attr_mask attr ignore_attr pt =
      Some (if all_in (unat addr) (unat addr + unat sz)
              (accepts (GetMemoryInfo b) state_mask st perm_mask perm attr_mask attr ignore_attr) (blocks pt)
            then Inr (mb_state b, mb_perm b, mb_attribute b AND NOT ignore_attr) else Inl ERR_INVALID_ADDRESS_STATE)"
    by (rule CheckMemoryState_eq[OF assms])
  have "accepts (GetMemoryInfo b) state_mask st perm_mask perm attr_mask attr ignore_attr =
    (\<lambda>p. mb_state p = mb_state b \<and> mb_perm p = mb_perm b \<and>
         mb_attribute p OR ignore_attr = mb_attribute b OR ignore_attr \<and>
         mb_state p AND state_mask = st \<and> mb_perm p AND perm_mask = perm \<and> mb_attribute p AND attr_mask = attr)"
    by (simp add: accepts_def fun_eq_iff)
  then show ?thesis using b by (intro exI[of _ "props b"]) (simp add: props_def)
qed

theorem CheckMemoryState_correct_witness:
  "CheckMemoryState 0x40000000 0x20000 MemoryState_All MemoryState_Free MemoryPermission_Mask
     MemoryPermission_None MemoryAttribute_Mask MemoryAttribute_None 0 example_pt =
   Some (Inr (MemoryState_Free, MemoryPermission_None, MemoryAttribute_None))"
proof -
  have t: "tiles 0 (blocks example_pt) 0x8000000000" using example_pt_inv by (simp add: pt_inv_def example_pt_def)
  have free: "all_in 0x40000000 0x40020000 free_props (blocks example_pt)" by (rule example_pt_free) simp
  obtain p0 where p0: "lookup (blocks example_pt) 0x40000000 = Some p0"
    "CheckMemoryState 0x40000000 0x20000 MemoryState_All MemoryState_Free MemoryPermission_Mask
       MemoryPermission_None MemoryAttribute_Mask MemoryAttribute_None 0 example_pt =
     Some (if all_in 0x40000000 0x40020000
                 (\<lambda>p. mb_state p = mb_state p0 \<and> mb_perm p = mb_perm p0 \<and> mb_attribute p = mb_attribute p0 \<and>
                      mb_state p AND MemoryState_All = MemoryState_Free \<and>
                      mb_perm p AND MemoryPermission_Mask = MemoryPermission_None \<and>
                      mb_attribute p AND MemoryAttribute_Mask = MemoryAttribute_None) (blocks example_pt)
            then Inr (mb_state p0, mb_perm p0, mb_attribute p0) else Inl ERR_INVALID_ADDRESS_STATE)"
    using CheckMemoryState_correct[OF t, of "0x40000000" "0x20000" MemoryState_All MemoryState_Free
        MemoryPermission_Mask MemoryPermission_None MemoryAttribute_Mask MemoryAttribute_None 0] by auto
  have f: "free_props p0" using free p0(1) by (auto simp: all_in_def)
  have "all_in 0x40000000 0x40020000
                 (\<lambda>p. mb_state p = mb_state p0 \<and> mb_perm p = mb_perm p0 \<and> mb_attribute p = mb_attribute p0 \<and>
                      mb_state p AND MemoryState_All = MemoryState_Free \<and>
                      mb_perm p AND MemoryPermission_Mask = MemoryPermission_None \<and>
                      mb_attribute p AND MemoryAttribute_Mask = MemoryAttribute_None) (blocks example_pt)"
    using free f unfolding all_in_def free_props_def
    by (force simp: MemoryState_Free_def MemoryPermission_None_def MemoryAttribute_None_def)
  then show ?thesis using p0(2) f by (simp add: free_props_def)
qed

end
