(* ===== verification/Page_Table_Layout.thy ===== *)
theory Page_Table_Layout
  imports Page_Table_Correct
begin

text \<open>
  Where \<^verbatim>\<open>PageTable::InitializeForProcess\<close> puts the regions of a process. The four placements are
  drawn independently and then shifted past each other; the lemmas turn the shifts into closed forms
  and show what the assertions at the end of the function ask for.
\<close>

section \<open>Closed forms of the placement\<close>

definition placed ::
  "u64 \<Rightarrow> u64 \<Rightarrow> u64 \<Rightarrow> u64 \<Rightarrow> u64 \<Rightarrow> u64 \<Rightarrow> u64 \<Rightarrow> u64 \<Rightarrow> u64 \<Rightarrow> PageTable \<Rightarrow> PageTable" where
  "placed al A H S K a h s k pt =
     place_kernel_map al A H S K a h s k (place_stack al A H S a h s (place_heap_alias al A H a h pt))"

lemma placed_alias:
  "pt_alias_region_start (placed al A H S K a h s k pt) =
     al + a + (if a \<le> h then 0 else H) + (if a < s then 0 else S) + (if a < k then 0 else K)"
  "pt_alias_region_end (placed al A H S K a h s k pt) =
     pt_alias_region_start (placed al A H S K a h s k pt) + A"
  by (auto simp: placed_def place_kernel_map_def place_stack_def place_heap_alias_def shift_alias_def
      shift_heap_def shift_stack_def shift_kmap_def Let_def)

lemma placed_heap:
  "pt_heap_region_start (placed al A H S K a h s k pt) =
     al + h + (if a \<le> h then A else 0) + (if h < s then 0 else S) + (if h < k then 0 else K)"
  "pt_heap_region_end (placed al A H S K a h s k pt) =
     pt_heap_region_start (placed al A H S K a h s k pt) + H"
  by (auto simp: placed_def place_kernel_map_def place_stack_def place_heap_alias_def shift_alias_def
      shift_heap_def shift_stack_def shift_kmap_def Let_def)

lemma placed_stack:
  "pt_stack_region_start (placed al A H S K a h s k pt) =
     (if S = 0 then pt_stack_region_start pt
      else al + s + (if a < s then A else 0) + (if h < s then H else 0) + (if s < k then 0 else K))"
  "pt_stack_region_end (placed al A H S K a h s k pt) =
     (if S = 0 then pt_stack_region_end pt
      else pt_stack_region_start (placed al A H S K a h s k pt) + S)"
  by (auto simp: placed_def place_kernel_map_def place_stack_def place_heap_alias_def shift_alias_def
      shift_heap_def shift_stack_def shift_kmap_def Let_def)

lemma placed_kmap:
  "pt_kernel_map_region_start (placed al A H S K a h s k pt) =
     (if K = 0 then pt_kernel_map_region_start pt
      else al + k + (if a < k then A else 0) + (if h < k then H else 0) + (if s < k then S else 0))"
  "pt_kernel_map_region_end (placed al A H S K a h s k pt) =
     (if K = 0 then pt_kernel_map_region_end pt
      else pt_kernel_map_region_start (placed al A H S K a h s k pt) + K)"
  by (auto simp: placed_def place_kernel_map_def place_stack_def place_heap_alias_def shift_alias_def
      shift_heap_def shift_stack_def shift_kmap_def Let_def)

lemma placed_other [simp]:
  "pt_address_space_start (placed al A H S K a h s k pt) = pt_address_space_start pt"
  "pt_address_space_end (placed al A H S K a h s k pt) = pt_address_space_end pt"
  "pt_code_region_start (placed al A H S K a h s k pt) = pt_code_region_start pt"
  "pt_code_region_end (placed al A H S K a h s k pt) = pt_code_region_end pt"
  by (auto simp: placed_def place_kernel_map_def place_stack_def place_heap_alias_def shift_alias_def
      shift_heap_def shift_stack_def shift_kmap_def Let_def)

lemma sum5:
  fixes x y p q r w :: u64
  assumes "unat y \<le> R" "unat p \<le> X" "unat q \<le> Y" "unat r \<le> Z"
    and "unat x + R + X + Y + Z + unat w \<le> E" "E < 2 ^ 64"
  shows "unat (x + y + p + q + r) = unat x + unat y + unat p + unat q + unat r"
    and "unat (x + y + p + q + r + w) = unat (x + y + p + q + r) + unat w"
proof -
  have b: "unat x + unat y + unat p + unat q + unat r + unat w < 2 ^ 64" using assms by linarith
  have 1: "unat (x + y) = unat x + unat y" using b by (intro unat_plus) linarith
  have 2: "unat (x + y + p) = unat x + unat y + unat p" using b 1 by (subst unat_plus) linarith+
  have 3: "unat (x + y + p + q) = unat x + unat y + unat p + unat q" using b 2 by (subst unat_plus) linarith+
  show 4: "unat (x + y + p + q + r) = unat x + unat y + unat p + unat q + unat r"
    using b 3 by (subst unat_plus) linarith+
  show "unat (x + y + p + q + r + w) = unat (x + y + p + q + r) + unat w"
    using b 4 by (intro unat_plus) linarith
qed

section \<open>The regions do not overlap\<close>

definition apart :: "u64 \<Rightarrow> u64 \<Rightarrow> u64 \<Rightarrow> u64 \<Rightarrow> bool" where
  "apart s1 e1 s2 e2 \<longleftrightarrow> unat e1 \<le> unat s2 \<or> unat e2 \<le> unat s1"

definition within :: "nat \<Rightarrow> nat \<Rightarrow> u64 \<Rightarrow> u64 \<Rightarrow> bool" where
  "within lower upper s e \<longleftrightarrow> lower \<le> unat s \<and> unat s \<le> unat e \<and> unat e \<le> upper"

text \<open>The offsets in natural numbers, where the sums do not wrap.\<close>

lemma placed_nat:
  fixes al A H S K a h s k :: u64 and pt :: PageTable
  assumes fit: "unat al + R + unat A + unat H + unat S + unat K \<le> E" "E < 2 ^ 64"
    and rnd: "unat a \<le> R" "unat h \<le> R" "unat s \<le> R" "unat k \<le> R"
  defines "P \<equiv> placed al A H S K a h s k pt"
  shows "unat (pt_alias_region_start P) = unat al + unat a + (if unat a \<le> unat h then 0 else unat H) +
      (if unat a < unat s then 0 else unat S) + (if unat a < unat k then 0 else unat K)"
    and "unat (pt_alias_region_end P) = unat (pt_alias_region_start P) + unat A"
    and "unat (pt_heap_region_start P) = unat al + unat h + (if unat a \<le> unat h then unat A else 0) +
      (if unat h < unat s then 0 else unat S) + (if unat h < unat k then 0 else unat K)"
    and "unat (pt_heap_region_end P) = unat (pt_heap_region_start P) + unat H"
    and "S \<noteq> 0 \<Longrightarrow> unat (pt_stack_region_start P) = unat al + unat s + (if unat a < unat s then unat A else 0) +
      (if unat h < unat s then unat H else 0) + (if unat s < unat k then 0 else unat K)"
    and "S \<noteq> 0 \<Longrightarrow> unat (pt_stack_region_end P) = unat (pt_stack_region_start P) + unat S"
    and "K \<noteq> 0 \<Longrightarrow> unat (pt_kernel_map_region_start P) = unat al + unat k + (if unat a < unat k then unat A else 0) +
      (if unat h < unat k then unat H else 0) + (if unat s < unat k then unat S else 0)"
    and "K \<noteq> 0 \<Longrightarrow> unat (pt_kernel_map_region_end P) = unat (pt_kernel_map_region_start P) + unat K"
proof -
  have iff: "unat (if c then x else y) = (if c then unat x else unat y)" for c and x y :: u64 by simp
  note defs = word_le_nat_alt word_less_nat_alt iff unat_0
  note alias_s = sum5[of a R "if a \<le> h then 0 else H" "unat H" "if a < s then 0 else S" "unat S"
      "if a < k then 0 else K" "unat K" al A E]
  note heap_s = sum5[of h R "if a \<le> h then A else 0" "unat A" "if h < s then 0 else S" "unat S"
      "if h < k then 0 else K" "unat K" al H E]
  note stack_s = sum5[of s R "if a < s then A else 0" "unat A" "if h < s then H else 0" "unat H"
      "if s < k then 0 else K" "unat K" al S E]
  note kmap_s = sum5[of k R "if a < k then A else 0" "unat A" "if h < k then H else 0" "unat H"
      "if s < k then S else 0" "unat S" al K E]
  show "unat (pt_alias_region_start P) = unat al + unat a + (if unat a \<le> unat h then 0 else unat H) +
      (if unat a < unat s then 0 else unat S) + (if unat a < unat k then 0 else unat K)"
    unfolding P_def placed_alias(1) using alias_s(1) fit rnd(1) unfolding defs by simp
  show "unat (pt_alias_region_end P) = unat (pt_alias_region_start P) + unat A"
    unfolding P_def placed_alias using alias_s(2) fit rnd(1) by simp
  show "unat (pt_heap_region_start P) = unat al + unat h + (if unat a \<le> unat h then unat A else 0) +
      (if unat h < unat s then 0 else unat S) + (if unat h < unat k then 0 else unat K)"
    unfolding P_def placed_heap(1) using heap_s(1) fit rnd(2) unfolding defs by simp
  show "unat (pt_heap_region_end P) = unat (pt_heap_region_start P) + unat H"
    unfolding P_def placed_heap using heap_s(2) fit rnd(2) by simp
  show "unat (pt_stack_region_start P) = unat al + unat s + (if unat a < unat s then unat A else 0) +
      (if unat h < unat s then unat H else 0) + (if unat s < unat k then 0 else unat K)" if "S \<noteq> 0"
    unfolding P_def placed_stack(1) if_not_P[OF that] using stack_s(1) fit rnd(3) unfolding defs by simp
  show "unat (pt_stack_region_end P) = unat (pt_stack_region_start P) + unat S" if "S \<noteq> 0"
    unfolding P_def placed_stack if_not_P[OF that] using stack_s(2) fit rnd(3) by simp
  show "unat (pt_kernel_map_region_start P) = unat al + unat k + (if unat a < unat k then unat A else 0) +
      (if unat h < unat k then unat H else 0) + (if unat s < unat k then unat S else 0)" if "K \<noteq> 0"
    unfolding P_def placed_kmap(1) if_not_P[OF that] using kmap_s(1) fit rnd(4) unfolding defs by simp
  show "unat (pt_kernel_map_region_end P) = unat (pt_kernel_map_region_start P) + unat K" if "K \<noteq> 0"
    unfolding P_def placed_kmap if_not_P[OF that] using kmap_s(2) fit rnd(4) by simp
qed

lemma placed_apart:
  fixes al A H S K a h s k :: u64 and pt :: PageTable
  assumes fit: "unat al + R + unat A + unat H + unat S + unat K \<le> E" "E < 2 ^ 64"
    and rnd: "unat a \<le> R" "unat h \<le> R" "unat s \<le> R" "unat k \<le> R"
  defines "P \<equiv> placed al A H S K a h s k pt"
  shows "within (unat al) E (pt_alias_region_start P) (pt_alias_region_end P)"
    and "within (unat al) E (pt_heap_region_start P) (pt_heap_region_end P)"
    and "apart (pt_alias_region_start P) (pt_alias_region_end P) (pt_heap_region_start P) (pt_heap_region_end P)"
    and "S \<noteq> 0 \<Longrightarrow> within (unat al) E (pt_stack_region_start P) (pt_stack_region_end P)"
    and "S \<noteq> 0 \<Longrightarrow> apart (pt_alias_region_start P) (pt_alias_region_end P) (pt_stack_region_start P) (pt_stack_region_end P)"
    and "S \<noteq> 0 \<Longrightarrow> apart (pt_heap_region_start P) (pt_heap_region_end P) (pt_stack_region_start P) (pt_stack_region_end P)"
    and "K \<noteq> 0 \<Longrightarrow> within (unat al) E (pt_kernel_map_region_start P) (pt_kernel_map_region_end P)"
    and "K \<noteq> 0 \<Longrightarrow> apart (pt_alias_region_start P) (pt_alias_region_end P) (pt_kernel_map_region_start P) (pt_kernel_map_region_end P)"
    and "K \<noteq> 0 \<Longrightarrow> apart (pt_heap_region_start P) (pt_heap_region_end P) (pt_kernel_map_region_start P) (pt_kernel_map_region_end P)"
    and "S \<noteq> 0 \<Longrightarrow> K \<noteq> 0 \<Longrightarrow> apart (pt_stack_region_start P) (pt_stack_region_end P) (pt_kernel_map_region_start P) (pt_kernel_map_region_end P)"
  using placed_nat[OF fit rnd, of pt, folded P_def] fit(1) rnd
  unfolding within_def apart_def by (auto split: if_splits)

section \<open>Initialization\<close>

lemma unat_RegionAlignment: "unat RegionAlignment = 0x200000"
  by (simp add: RegionAlignment_def)

lemma draw_one:
  assumes "GenerateRandomRange 0 (R div RegionAlignment) f k = Some (v, k')"
  shows "unat (v * RegionAlignment) \<le> unat R" "0x200000 dvd unat (v * RegionAlignment)"
proof -
  let ?n = "R div RegionAlignment"
  have n: "unat ?n = unat R div 0x200000" by (simp add: unat_RegionAlignment)
  have "unat ?n < 2 ^ 64 - 1" using n unat_lt64[of R] by simp
  then have "unat v \<le> unat ?n" using GenerateRandomRange_result[of 0 ?n f k] assms by auto
  then have le: "unat v * 0x200000 \<le> unat R" unfolding n by (simp add: less_eq_div_iff_mult_less_eq)
  then have "unat (v * RegionAlignment) = unat v * 0x200000"
    using unat_lt64[of R] by (subst unat_times) (simp_all add: unat_RegionAlignment)
  then show "unat (v * RegionAlignment) \<le> unat R" "0x200000 dvd unat (v * RegionAlignment)"
    using le by simp_all
qed

lemma draw_placements_range:
  assumes "draw_placements aslr R f k = Some (a, h, s, m)"
  shows "unat a \<le> unat R \<and> unat h \<le> unat R \<and> unat s \<le> unat R \<and> unat m \<le> unat R \<and>
    0x200000 dvd unat a \<and> 0x200000 dvd unat h \<and> 0x200000 dvd unat s \<and> 0x200000 dvd unat m"
proof (cases aslr)
  case True
  then obtain a' h' s' m' k1 k2 k3 k4 where
    "GenerateRandomRange 0 (R div RegionAlignment) f k = Some (a', k1)"
    "GenerateRandomRange 0 (R div RegionAlignment) f k1 = Some (h', k2)"
    "GenerateRandomRange 0 (R div RegionAlignment) f k2 = Some (s', k3)"
    "GenerateRandomRange 0 (R div RegionAlignment) f k3 = Some (m', k4)"
    "a = a' * RegionAlignment" "h = h' * RegionAlignment" "s = s' * RegionAlignment" "m = m' * RegionAlignment"
    using assms by (auto simp: draw_placements_def bind_eq_Some_conv)
  then show ?thesis using draw_one by metis
next
  case False
  then show ?thesis using assms by (simp add: draw_placements_def)
qed

text \<open>The fields the function sets after the placement.\<close>

definition finished :: "nat \<Rightarrow> Pool \<Rightarrow> PageTable \<Rightarrow> PageTable" where
  "finished width pool pt = snd (InitializeMemoryLayout 0 (push_bit width 1)
     (pt\<lparr>pt_current_heap_end := pt_heap_region_start pt, pt_max_heap_size := 0,
         pt_max_physical_memory_size := 0, pt_current_heap_addr := pt_heap_region_start pt,
         pt_heap_capacity := 0, pt_physical_memory_usage := 0, pt_memory_pool := pool,
         pt_impl := Resize width (unat PageBits)\<rparr>))"

definition init_39_fields :: "bool \<Rightarrow> PageTable \<Rightarrow> PageTable" where
  "init_39_fields aslr pt = pt\<lparr>pt_address_space_width := 39, pt_code_region_start := Size_128_MB,
     pt_code_region_end := Size_128_MB + (Size_512_GB - Size_128_MB),
     pt_alias_code_region_start := Size_128_MB,
     pt_alias_code_region_end := Size_128_MB + (Size_512_GB - Size_128_MB),
     pt_is_aslr_enabled := aslr, pt_address_space_start := 0,
     pt_address_space_end := push_bit 39 1, pt_is_kernel := False\<rparr>"

definition alloc_area :: "u64 \<Rightarrow> u64 \<Rightarrow> u64 \<Rightarrow> u64 \<Rightarrow> u64 \<times> u64" where
  "alloc_area code_start process_start process_end end_addr =
     (if process_start - code_start \<ge> end_addr - process_end
      then (code_start, process_start - code_start) else (process_end, end_addr - process_end))"

lemma Init_39:
  "InitializeForProcess f k PAST_Is39Bit aslr code_addr code_size pool pt =
   (let (al, asz) = alloc_area Size_128_MB (AlignDown code_addr RegionAlignment)
                      (AlignUp (code_addr + code_size) RegionAlignment) (push_bit 39 1);
        needed = Size_64_GB + Size_6_GB + Size_2_GB + Size_64_GB
    in if asz < needed then Some (ERR_OUT_OF_MEMORY, init_39_fields aslr pt)
       else do {
         (a, h, s, m) \<leftarrow> draw_placements aslr (asz - needed) f k;
         Some (RESULT_SUCCESS, finished 39 pool
           (placed al Size_64_GB Size_6_GB Size_2_GB Size_64_GB a h s m (init_39_fields aslr pt)))
       })"
  unfolding InitializeForProcess_def Let_def GetAddressSpaceWidthFromType.simps GetAddressSpaceSize_def
    GetAddressSpaceStart_def alloc_area_def finished_def placed_def InitializeMemoryLayout_def
  by (simp add: AddressSpace_defs init_39_fields_def cong: prod.case_cong)

definition init_small_fields :: "nat \<Rightarrow> u64 \<Rightarrow> u64 \<Rightarrow> u64 \<Rightarrow> bool \<Rightarrow> PageTable \<Rightarrow> PageTable" where
  "init_small_fields w code_start code_end alias_code_end aslr pt = pt\<lparr>pt_address_space_width := w,
     pt_code_region_start := code_start, pt_code_region_end := code_end,
     pt_stack_region_start := code_start, pt_alias_code_region_start := code_start,
     pt_alias_code_region_end := alias_code_end, pt_stack_region_end := code_end,
     pt_kernel_map_region_start := code_start, pt_kernel_map_region_end := code_end,
     pt_is_aslr_enabled := aslr, pt_address_space_start := 0,
     pt_address_space_end := push_bit w 1, pt_is_kernel := False\<rparr>"

definition init_small ::
  "nat \<Rightarrow> u64 \<Rightarrow> u64 \<Rightarrow> u64 \<Rightarrow> u64 \<Rightarrow> u64 \<Rightarrow> (nat \<Rightarrow> u64) \<Rightarrow> nat \<Rightarrow> bool \<Rightarrow> Pool \<Rightarrow> PageTable \<Rightarrow>
     (ResultCode \<times> PageTable) option" where
  "init_small w code_start code_end alias_code_end A H f k aslr pool pt =
   (let (al, asz) = alloc_area code_start code_start code_end (push_bit w 1);
        needed = A + H + 0 + 0; pt0 = init_small_fields w code_start code_end alias_code_end aslr pt
    in if asz < needed then Some (ERR_OUT_OF_MEMORY, pt0)
       else do {
         (a, h, s, m) \<leftarrow> draw_placements aslr (asz - needed) f k;
         Some (RESULT_SUCCESS, finished w pool (placed al A H 0 0 a h s m pt0))
       })"

lemma Init_small:
  "InitializeForProcess f k PAST_Is32Bit aslr code_addr code_size pool pt =
     init_small 32 Size_2_MB (Size_2_MB + (Size_1_GB - Size_2_MB)) (Size_1_GB + (Size_4_GB - Size_1_GB))
       Size_1_GB Size_1_GB f k aslr pool pt"
  "InitializeForProcess f k PAST_Is32BitNoMap aslr code_addr code_size pool pt =
     init_small 32 Size_2_MB (Size_2_MB + (Size_1_GB - Size_2_MB)) (Size_1_GB + (Size_4_GB - Size_1_GB))
       0 (Size_1_GB + Size_1_GB) f k aslr pool pt"
  "InitializeForProcess f k PAST_Is36Bit aslr code_addr code_size pool pt =
     init_small 36 Size_128_MB (Size_128_MB + (Size_2_GB - Size_128_MB)) (Size_2_GB + (Size_64_GB - Size_2_GB))
       Size_6_GB Size_6_GB f k aslr pool pt"
  unfolding InitializeForProcess_def Let_def GetAddressSpaceWidthFromType.simps GetAddressSpaceSize_def
    GetAddressSpaceStart_def alloc_area_def finished_def placed_def InitializeMemoryLayout_def init_small_def
  by (simp_all add: AddressSpace_defs init_small_fields_def cong: prod.case_cong)

section \<open>The layout of a process\<close>

text \<open>What the assertions at the end of the function ask for, and the state it leaves.\<close>

definition layout_ok :: "PageTable \<Rightarrow> bool" where
  "layout_ok pt \<longleftrightarrow>
     (let E = unat (pt_address_space_end pt)
      in within 0 E (pt_alias_region_start pt) (pt_alias_region_end pt) \<and>
         within 0 E (pt_heap_region_start pt) (pt_heap_region_end pt) \<and>
         within 0 E (pt_stack_region_start pt) (pt_stack_region_end pt) \<and>
         within 0 E (pt_kernel_map_region_start pt) (pt_kernel_map_region_end pt)) \<and>
     apart (pt_alias_region_start pt) (pt_alias_region_end pt) (pt_heap_region_start pt) (pt_heap_region_end pt) \<and>
     apart (pt_alias_region_start pt) (pt_alias_region_end pt) (pt_stack_region_start pt) (pt_stack_region_end pt) \<and>
     apart (pt_alias_region_start pt) (pt_alias_region_end pt) (pt_kernel_map_region_start pt) (pt_kernel_map_region_end pt) \<and>
     apart (pt_heap_region_start pt) (pt_heap_region_end pt) (pt_stack_region_start pt) (pt_stack_region_end pt) \<and>
     apart (pt_heap_region_start pt) (pt_heap_region_end pt) (pt_kernel_map_region_start pt) (pt_kernel_map_region_end pt)"

lemma finished_fields [simp]:
  "pt_alias_region_start (finished w pool pt) = pt_alias_region_start pt"
  "pt_alias_region_end (finished w pool pt) = pt_alias_region_end pt"
  "pt_heap_region_start (finished w pool pt) = pt_heap_region_start pt"
  "pt_heap_region_end (finished w pool pt) = pt_heap_region_end pt"
  "pt_stack_region_start (finished w pool pt) = pt_stack_region_start pt"
  "pt_stack_region_end (finished w pool pt) = pt_stack_region_end pt"
  "pt_kernel_map_region_start (finished w pool pt) = pt_kernel_map_region_start pt"
  "pt_kernel_map_region_end (finished w pool pt) = pt_kernel_map_region_end pt"
  "pt_address_space_end (finished w pool pt) = pt_address_space_end pt"
  "pt_current_heap_addr (finished w pool pt) = pt_heap_region_start pt"
  "pt_impl (finished w pool pt) = Resize w 12"
  "pt_block_manager (finished w pool pt) = mk_MemoryBlockManager 0 (push_bit w 1)"
  "pt_memory_pool (finished w pool pt) = pool"
  by (simp_all add: finished_def InitializeMemoryLayout_def)

lemma unat_push_bit_one: "w < 64 \<Longrightarrow> unat (push_bit w 1 :: u64) = 2 ^ w"
  by (simp add: push_bit_eq_mult unat_pow2)

lemma fresh_blocks:
  assumes "w \<in> {32, 36, 39}"
  shows "tiles 0 (bm_tree (mk_MemoryBlockManager 0 (push_bit w 1))) (2 ^ w)"
    "x < 2 ^ w \<Longrightarrow> \<exists>p. lookup (bm_tree (mk_MemoryBlockManager 0 (push_bit w 1))) x = Some p \<and> free_props p"
  using assms by (auto simp: mk_MemoryBlockManager_def mk_MemoryBlock_def lo_def hi_def block_ok_def
      props_def free_props_def)

lemma layout_core:
  fixes pool :: Pool
  assumes w: "w \<in> {32, 36, 39}" and e: "pt_address_space_end pt0 = push_bit w 1"
    and fit: "unat al + unat asz \<le> 2 ^ w" "unat A + unat H + unat S + unat K \<le> unat asz"
    and draws: "draw_placements aslr (asz - (A + H + S + K)) f k = Some (a, h, s, m)"
    and al: "4096 dvd unat al" "4096 dvd unat A" "4096 dvd unat S" "4096 dvd unat K"
    and low: "S = 0 \<Longrightarrow> within 0 (unat al) (pt_stack_region_start pt0) (pt_stack_region_end pt0)"
      "K = 0 \<Longrightarrow> within 0 (unat al) (pt_kernel_map_region_start pt0) (pt_kernel_map_region_end pt0)"
  defines "pt' \<equiv> finished w pool (placed al A H S K a h s m pt0)"
  shows "layout_ok pt'" "pt_inv pt'" "pt_current_heap_addr pt' = pt_heap_region_start pt'"
    "all_in 0 (2 ^ w) free_props (blocks pt')" "unat (pt_address_space_end pt') = 2 ^ w"
proof -
  let ?P = "placed al A H S K a h s m pt0"
  have w64: "(2 :: nat) ^ w < 2 ^ 64" "2 ^ w \<le> (2 :: nat) ^ 39" "w < 64" "12 \<le> w" using w by auto
  have E: "unat (pt_address_space_end pt') = 2 ^ w" by (simp add: pt'_def e unat_pow2 w64)
  have "unat A + unat H + unat S + unat K < 2 ^ 64" using fit w64 by linarith
  then have sum: "unat (A + H + S + K) = unat A + unat H + unat S + unat K"
    by (subst unat_plus, subst unat_plus, subst unat_plus; simp add: unat_plus)+
  define R where "R = unat (asz - (A + H + S + K))"
  have R: "R = unat asz - (unat A + unat H + unat S + unat K)"
    unfolding R_def using fit(2) sum by (simp add: unat_diff)
  have fit': "unat al + R + unat A + unat H + unat S + unat K \<le> 2 ^ w" using fit R by linarith
  have d: "unat a \<le> R" "unat h \<le> R" "unat s \<le> R" "unat m \<le> R" "0x200000 dvd unat h"
    using draw_placements_range[OF draws] by (simp_all add: R_def)
  note pl = placed_apart[OF fit' w64(1) d(1-4), of pt0]
  have st: "within 0 (2 ^ w) (pt_stack_region_start ?P) (pt_stack_region_end ?P)"
    "apart (pt_alias_region_start ?P) (pt_alias_region_end ?P) (pt_stack_region_start ?P) (pt_stack_region_end ?P)"
    "apart (pt_heap_region_start ?P) (pt_heap_region_end ?P) (pt_stack_region_start ?P) (pt_stack_region_end ?P)"
    using pl low(1) fit' by (cases "S = 0"; auto simp: within_def apart_def placed_stack)+
  have km: "within 0 (2 ^ w) (pt_kernel_map_region_start ?P) (pt_kernel_map_region_end ?P)"
    "apart (pt_alias_region_start ?P) (pt_alias_region_end ?P) (pt_kernel_map_region_start ?P) (pt_kernel_map_region_end ?P)"
    "apart (pt_heap_region_start ?P) (pt_heap_region_end ?P) (pt_kernel_map_region_start ?P) (pt_kernel_map_region_end ?P)"
    using pl low(2) fit' by (cases "K = 0"; auto simp: within_def apart_def placed_kmap)+
  show "layout_ok pt'"
    unfolding layout_ok_def Let_def E using pl(1-3) st km by (simp add: pt'_def within_def)
  show cur: "pt_current_heap_addr pt' = pt_heap_region_start pt'" by (simp add: pt'_def)
  have h: "4096 dvd unat h" using d(5) by (rule dvd_trans[rotated]) simp
  then have "4096 dvd unat (pt_heap_region_start ?P)"
    unfolding placed_nat(3)[OF fit' w64(1) d(1-4)] using al by (auto intro!: dvd_add)
  moreover have "pm_entries (pt_impl pt') * 4096 = 2 ^ w"
    using w by (auto simp: pt'_def Resize_def)
  ultimately show "pt_inv pt'"
    unfolding pt_inv_def E cur using w64(2) fresh_blocks(1)[OF w] pl(2) by (simp add: pt'_def within_def)
  show "all_in 0 (2 ^ w) free_props (blocks pt')"
    using fresh_blocks(2)[OF w] by (simp add: all_in_def pt'_def)
  show "unat (pt_address_space_end pt') = 2 ^ w" by (rule E)
qed

lemma AlignUp_le:
  assumes "unat v \<le> m" "unat sz dvd m" "m + unat sz \<le> 2 ^ 64" "sz \<noteq> 0"
  shows "unat (AlignUp v sz) \<le> m"
proof -
  note g = AlignUp_ge[of v sz, OF _ assms(4)]
  have v: "unat v + unat sz \<le> 2 ^ 64" using assms by linarith
  show ?thesis
  proof (rule ccontr)
    assume "\<not> ?thesis"
    then have "m + unat sz \<le> unat (AlignUp v sz)" using mult_dvd_gap[OF assms(2) g(3)[OF v]] by simp
    then show False using g(2)[OF v] assms(1) by linarith
  qed
qed

lemma area_39:
  assumes code: "0x8000000 \<le> unat code_addr" "unat code_addr + unat code_size \<le> 2 ^ 39"
    and area: "alloc_area Size_128_MB (AlignDown code_addr RegionAlignment)
      (AlignUp (code_addr + code_size) RegionAlignment) (push_bit 39 1) = (al, asz)"
  shows "unat al + unat asz \<le> 2 ^ 39" "4096 dvd unat al"
proof -
  let ?ps = "AlignDown code_addr RegionAlignment" and ?pe = "AlignUp (code_addr + code_size) RegionAlignment"
  have c: "unat (code_addr + code_size) = unat code_addr + unat code_size"
    using code(2) by (intro unat_plus) simp
  have ra: "RegionAlignment \<noteq> 0" by (simp add: RegionAlignment_def)
  have pe: "unat ?pe \<le> 2 ^ 39"
    by (rule AlignUp_le) (use code c ra in \<open>simp_all add: unat_RegionAlignment\<close>)
  have pd: "0x200000 dvd unat ?pe"
    using AlignUp_ge(3)[of "code_addr + code_size" RegionAlignment] c code(2) ra
    by (simp add: unat_RegionAlignment)
  have ps: "0x8000000 \<le> unat ?ps" "unat ?ps \<le> unat code_addr"
  proof -
    have "unat ?ps = unat code_addr div 0x200000 * 0x200000" by (simp add: unat_AlignDown_div unat_RegionAlignment)
    then show "0x8000000 \<le> unat ?ps" "unat ?ps \<le> unat code_addr"
      using code(1) by (simp_all add: div_times_less_eq_dividend)
  qed
  have e: "unat (push_bit 39 1 :: u64) = 2 ^ 39" "unat Size_128_MB = 0x8000000"
    by (simp_all add: unat_push_bit_one Size_defs)
  consider "al = Size_128_MB" "asz = ?ps - Size_128_MB" | "al = ?pe" "asz = push_bit 39 1 - ?pe"
    using area by (auto simp: alloc_area_def split: if_splits)
  then have "unat al + unat asz \<le> 2 ^ 39 \<and> 4096 dvd unat al"
  proof cases
    case 1
    have "unat asz = unat ?ps - 0x8000000" unfolding 1 using ps e by (subst unat_diff) auto
    then show "unat al + unat asz \<le> 2 ^ 39 \<and> 4096 dvd unat al" using 1 e ps code(2) by auto
  next
    case 2
    have "unat asz = 2 ^ 39 - unat ?pe" unfolding 2 using pe e by (subst unat_diff) auto
    then show "unat al + unat asz \<le> 2 ^ 39 \<and> 4096 dvd unat al" using 2 pe pd dvd_trans[of 4096 "0x200000"] by auto
  qed
  then show "unat al + unat asz \<le> 2 ^ 39" "4096 dvd unat al" by simp_all
qed

lemma init_small_layout:
  assumes w: "w \<in> {32, 36}" and code: "unat code_start \<le> unat code_end" "unat code_end < 2 ^ w" "4096 dvd unat code_end"
    and sizes: "unat A + unat H \<le> 2 ^ w - unat code_end" "4096 dvd unat A"
    and i: "init_small w code_start code_end alias_code_end A H f k aslr pool pt = Some (RESULT_SUCCESS, pt')"
  shows "layout_ok pt' \<and> pt_inv pt' \<and> pt_current_heap_addr pt' = pt_heap_region_start pt' \<and>
    all_in 0 (2 ^ w) free_props (blocks pt') \<and> unat (pt_address_space_end pt') = 2 ^ w"
proof -
  have e: "unat (push_bit w 1 :: u64) = 2 ^ w" using w by (intro unat_push_bit_one) auto
  have asz: "unat (push_bit w 1 - code_end) = 2 ^ w - unat code_end" using e code(2) by (subst unat_diff) auto
  have area: "alloc_area code_start code_start code_end (push_bit w 1) = (code_end, push_bit w 1 - code_end)"
    using asz code(2) by (simp add: alloc_area_def word_le_nat_alt del: push_bit_of_1)
  obtain a h s m where draws: "draw_placements aslr (push_bit w 1 - code_end - (A + H + 0 + 0)) f k = Some (a, h, s, m)"
    "pt' = finished w pool (placed code_end A H 0 0 a h s m (init_small_fields w code_start code_end alias_code_end aslr pt))"
    using i by (auto simp: init_small_def area Let_def bind_eq_Some_conv split: if_splits simp del: push_bit_of_1)
  have w3: "w \<in> {32, 36, 39}" using w by auto
  let ?pt0 = "init_small_fields w code_start code_end alias_code_end aslr pt"
  have "pt_address_space_end ?pt0 = push_bit w 1"
    and low: "within 0 (unat code_end) (pt_stack_region_start ?pt0) (pt_stack_region_end ?pt0)"
      "within 0 (unat code_end) (pt_kernel_map_region_start ?pt0) (pt_kernel_map_region_end ?pt0)"
    using code by (simp_all add: init_small_fields_def within_def)
  note core = layout_core[OF w3 this(1) _ _ draws(1) code(3) sizes(2) _ _ this(2,3), where pool = pool]
  show ?thesis unfolding draws(2) by (intro conjI core) (use asz sizes code in auto)
qed


text \<open>The first 2 MB-aligned bytes of a 39-bit space hold the code; the random numbers are constant.\<close>

lemma example_layout_succeeds:
  "\<exists>pt'. InitializeForProcess (\<lambda>i. 7) 0 PAST_Is39Bit True 0x8000000 0x10000 Application example_pt =
     Some (RESULT_SUCCESS, pt')"
proof -
  have "alloc_area Size_128_MB (AlignDown 0x8000000 RegionAlignment)
      (AlignUp (0x8000000 + 0x10000) RegionAlignment) (push_bit 39 1) = (0x8200000, 0x7FF7E00000)"
    by (simp add: alloc_area_def AlignDown_def AlignUp_def RegionAlignment_def Size_defs)
  moreover have "draw_placements True (0x7FF7E00000 - (Size_64_GB + Size_6_GB + Size_2_GB + Size_64_GB)) (\<lambda>i. 7) 0 \<noteq> None"
    by (simp add: draw_placements_def GenerateRandomRange_def GenerateUniformRange_def
        GenerateUniformRange_loop.simps RegionAlignment_def Size_defs)
  ultimately show ?thesis by (auto simp: Init_39 Let_def Size_defs)
qed


end
