(* ===== verification/Guest_Memory.thy ===== *)
theory Guest_Memory
  imports Page_Map
begin

text \<open>
  Reading and writing the memory of a process: the class \<^verbatim>\<open>Memory::Impl\<close> of
  \<^verbatim>\<open>core/memory.cpp\<close>. The host buffer behind the emulated DRAM is a function from host addresses
  to bytes; an access outside the buffer, through a null pointer or past the entries of a page table is
  undefined. The calls into the GPU are kept as a trace, they do not change the bytes here. A
  template parameter is a word type, its object representation is its little-endian bytes.
\<close>

unbundle bit_operations_syntax

section \<open>The host side\<close>

definition PAGE_BITS :: nat where
  "PAGE_BITS = 12"

definition PAGE_SIZE :: u64 where
  "PAGE_SIZE = push_bit PAGE_BITS 1"

definition PAGE_MASK :: u64 where
  "PAGE_MASK = PAGE_SIZE - 1"

definition DramMemoryMap_Size :: nat where
  "DramMemoryMap_Size = 0x100000000"

datatype GpuCall = FlushRegion u64 u64 | InvalidateRegion u64 u64

record GuestMemory =
  gm_table :: PageTableImpl
  gm_buffer :: u64
  gm_bytes :: "u64 \<Rightarrow> u8"
  gm_gpu :: "GpuCall list"

definition gpu_call :: "GpuCall \<Rightarrow> GuestMemory \<Rightarrow> GuestMemory" where
  "gpu_call c gm = gm\<lparr>gm_gpu := gm_gpu gm @ [c]\<rparr>"

text \<open>The bytes of a trivially copyable value, lowest first, and back.\<close>

definition sizeof :: "'a :: len itself \<Rightarrow> nat" where
  "sizeof _ = LENGTH('a) div 8"

definition to_bytes :: "'a :: len word \<Rightarrow> u8 list" where
  "to_bytes w = map (\<lambda>i. ucast (drop_bit (8 * i) w)) [0..<LENGTH('a) div 8]"

primrec from_bytes :: "u8 list \<Rightarrow> 'a :: len word" where
  "from_bytes [] = 0"
| "from_bytes (b # bs) = ucast b OR push_bit 8 (from_bytes bs)"

text \<open>\<^verbatim>\<open>memcpy\<close> and \<^verbatim>\<open>memset\<close> between the buffer and a local value.\<close>

definition in_buffer :: "GuestMemory \<Rightarrow> u64 \<Rightarrow> nat \<Rightarrow> bool" where
  "in_buffer gm p n \<longleftrightarrow> p \<noteq> 0 \<and> unat (p - gm_buffer gm) + n \<le> DramMemoryMap_Size"

definition host_read :: "u64 \<Rightarrow> nat \<Rightarrow> GuestMemory \<Rightarrow> u8 list option" where
  "host_read p n gm =
     (if in_buffer gm p n then Some (map (\<lambda>i. gm_bytes gm (p + of_nat i)) [0..<n]) else None)"

definition host_write :: "u64 \<Rightarrow> u8 list \<Rightarrow> GuestMemory \<Rightarrow> GuestMemory option" where
  "host_write p bs gm =
     (if in_buffer gm p (length bs)
      then Some (gm\<lparr>gm_bytes := \<lambda>a. if unat (a - p) < length bs then bs ! unat (a - p) else gm_bytes gm a\<rparr>)
      else None)"

text \<open>The entries of a page table.\<close>

definition table_entry :: "(PageTableImpl \<Rightarrow> u64 \<Rightarrow> 'e) \<Rightarrow> PageTableImpl \<Rightarrow> u64 \<Rightarrow> 'e option" where
  "table_entry f pm i = (if unat i < pm_entries pm then Some (f pm i) else None)"

section \<open>Pointers\<close>

definition IsValidVirtualAddress :: "PageTableImpl \<Rightarrow> u64 \<Rightarrow> bool option" where
  "IsValidVirtualAddress pm vaddr = do {
     page_pointer \<leftarrow> table_entry pm_pointers pm (drop_bit PAGE_BITS vaddr);
     if page_pointer \<noteq> 0 then Some True
     else do {
       type \<leftarrow> table_entry pm_attributes pm (drop_bit PAGE_BITS vaddr);
       if type = RasterizerCachedMemory then Some True
       else if type \<noteq> Special then Some False
       else Some False
     }
   }"

definition GetPointerFromRasterizerCachedMemory :: "u64 \<Rightarrow> GuestMemory \<Rightarrow> u64 option" where
  "GetPointerFromRasterizerCachedMemory vaddr gm = do {
     paddr \<leftarrow> table_entry pm_backing_addr (gm_table gm) (drop_bit PAGE_BITS vaddr);
     if paddr = 0 then Some 0
     else Some (DeviceMemory_GetPointer (gm_buffer gm) paddr + vaddr)
   }"

definition GetPointer :: "u64 \<Rightarrow> GuestMemory \<Rightarrow> u64 option" where
  "GetPointer vaddr gm = do {
     page_pointer \<leftarrow> table_entry pm_pointers (gm_table gm) (drop_bit PAGE_BITS vaddr);
     if page_pointer \<noteq> 0 then Some (page_pointer + vaddr)
     else do {
       type \<leftarrow> table_entry pm_attributes (gm_table gm) (drop_bit PAGE_BITS vaddr);
       if type = RasterizerCachedMemory then GetPointerFromRasterizerCachedMemory vaddr gm
       else Some 0
     }
   }"

section \<open>Single values\<close>

definition Read :: "u64 \<Rightarrow> GuestMemory \<Rightarrow> ('a :: len word \<times> GuestMemory) option" where
  "Read vaddr gm = do {
     page_pointer \<leftarrow> table_entry pm_pointers (gm_table gm) (drop_bit PAGE_BITS vaddr);
     if page_pointer \<noteq> 0 then do {
       bs \<leftarrow> host_read (page_pointer + vaddr) (sizeof TYPE('a)) gm;
       Some (from_bytes bs, gm)
     }
     else do {
       type \<leftarrow> table_entry pm_attributes (gm_table gm) (drop_bit PAGE_BITS vaddr);
       case type of
         Unmapped \<Rightarrow> Some (0, gm)
       | Memory \<Rightarrow> Some (0, gm)
       | RasterizerCachedMemory \<Rightarrow> do {
           host_ptr \<leftarrow> GetPointerFromRasterizerCachedMemory vaddr gm;
           let gm = gpu_call (FlushRegion vaddr (of_nat (sizeof TYPE('a)))) gm;
           bs \<leftarrow> host_read host_ptr (sizeof TYPE('a)) gm;
           Some (from_bytes bs, gm)
         }
       | _ \<Rightarrow> Some (0, gm)
     }
   }"

definition Write :: "u64 \<Rightarrow> 'a :: len word \<Rightarrow> GuestMemory \<Rightarrow> GuestMemory option" where
  "Write vaddr data gm = do {
     page_pointer \<leftarrow> table_entry pm_pointers (gm_table gm) (drop_bit PAGE_BITS vaddr);
     if page_pointer \<noteq> 0 then host_write (page_pointer + vaddr) (to_bytes data) gm
     else do {
       type \<leftarrow> table_entry pm_attributes (gm_table gm) (drop_bit PAGE_BITS vaddr);
       case type of
         Unmapped \<Rightarrow> Some gm
       | Memory \<Rightarrow> Some gm
       | RasterizerCachedMemory \<Rightarrow> do {
           host_ptr \<leftarrow> GetPointerFromRasterizerCachedMemory vaddr gm;
           let gm = gpu_call (InvalidateRegion vaddr (of_nat (sizeof TYPE('a)))) gm;
           host_write host_ptr (to_bytes data) gm
         }
       | _ \<Rightarrow> Some gm
     }
   }"

text \<open>
  \<^verbatim>\<open>AtomicCompareAndSwap\<close> on a pointer into the buffer. On a cached page the code passes the
  address of its local variable \<^verbatim>\<open>host_ptr\<close>, so that the comparison is with the bytes of that
  variable, and nothing of the buffer changes; a value wider than a pointer reads past the variable.
\<close>

definition AtomicCompareAndSwap :: "u64 \<Rightarrow> 'a :: len word \<Rightarrow> 'a word \<Rightarrow> GuestMemory \<Rightarrow> (bool \<times> GuestMemory) option" where
  "AtomicCompareAndSwap p data expected gm = do {
     bs \<leftarrow> host_read p (sizeof TYPE('a)) gm;
     if from_bytes bs = expected then do {
       gm \<leftarrow> host_write p (to_bytes data) gm;
       Some (True, gm)
     }
     else Some (False, gm)
   }"

definition CompareAndSwap_local :: "u64 \<Rightarrow> 'a :: len word \<Rightarrow> bool option" where
  "CompareAndSwap_local var expected =
     (if sizeof TYPE('a) \<le> 8 then Some (from_bytes (take (sizeof TYPE('a)) (to_bytes var)) = expected) else None)"

definition WriteExclusive :: "u64 \<Rightarrow> 'a :: len word \<Rightarrow> 'a word \<Rightarrow> GuestMemory \<Rightarrow> (bool \<times> GuestMemory) option" where
  "WriteExclusive vaddr data expected gm = do {
     page_pointer \<leftarrow> table_entry pm_pointers (gm_table gm) (drop_bit PAGE_BITS vaddr);
     if page_pointer \<noteq> 0 then AtomicCompareAndSwap (page_pointer + vaddr) data expected gm
     else do {
       type \<leftarrow> table_entry pm_attributes (gm_table gm) (drop_bit PAGE_BITS vaddr);
       case type of
         Unmapped \<Rightarrow> Some (True, gm)
       | Memory \<Rightarrow> Some (True, gm)
       | RasterizerCachedMemory \<Rightarrow> do {
           host_ptr \<leftarrow> GetPointerFromRasterizerCachedMemory vaddr gm;
           let gm = gpu_call (InvalidateRegion vaddr (of_nat (sizeof TYPE('a)))) gm;
           ok \<leftarrow> CompareAndSwap_local host_ptr expected;
           Some (ok, gm)
         }
       | _ \<Rightarrow> Some (True, gm)
     }
   }"

definition WriteExclusive128 :: "u64 \<Rightarrow> 128 word \<Rightarrow> 128 word \<Rightarrow> GuestMemory \<Rightarrow> (bool \<times> GuestMemory) option" where
  "WriteExclusive128 vaddr data expected gm = do {
     page_pointer \<leftarrow> table_entry pm_pointers (gm_table gm) (drop_bit PAGE_BITS vaddr);
     if page_pointer \<noteq> 0 then AtomicCompareAndSwap (page_pointer + vaddr) data expected gm
     else do {
       type \<leftarrow> table_entry pm_attributes (gm_table gm) (drop_bit PAGE_BITS vaddr);
       case type of
         Unmapped \<Rightarrow> Some (True, gm)
       | Memory \<Rightarrow> Some (True, gm)
       | RasterizerCachedMemory \<Rightarrow> do {
           host_ptr \<leftarrow> GetPointerFromRasterizerCachedMemory vaddr gm;
           let gm = gpu_call (InvalidateRegion vaddr 16) gm;
           ok \<leftarrow> CompareAndSwap_local host_ptr expected;
           Some (ok, gm)
         }
       | _ \<Rightarrow> Some (True, gm)
     }
   }"

text \<open>The accesses of each width: an address that is not aligned is split.\<close>

definition Read8 :: "u64 \<Rightarrow> GuestMemory \<Rightarrow> (u8 \<times> GuestMemory) option" where
  "Read8 addr gm = Read addr gm"

definition Read16 :: "u64 \<Rightarrow> GuestMemory \<Rightarrow> (u16 \<times> GuestMemory) option" where
  "Read16 addr gm =
     (if addr AND 1 = 0 then Read addr gm
      else do {
        (a :: u8, gm) \<leftarrow> Read addr gm;
        (b :: u8, gm) \<leftarrow> Read (addr + 1) gm;
        Some (push_bit 8 (ucast b) OR ucast a, gm)
      })"

definition Read32 :: "u64 \<Rightarrow> GuestMemory \<Rightarrow> (u32 \<times> GuestMemory) option" where
  "Read32 addr gm =
     (if addr AND 3 = 0 then Read addr gm
      else do {
        (a, gm) \<leftarrow> Read16 addr gm;
        (b, gm) \<leftarrow> Read16 (addr + 2) gm;
        Some (push_bit 16 (ucast b) OR ucast a, gm)
      })"

definition Read64 :: "u64 \<Rightarrow> GuestMemory \<Rightarrow> (u64 \<times> GuestMemory) option" where
  "Read64 addr gm =
     (if addr AND 7 = 0 then Read addr gm
      else do {
        (a, gm) \<leftarrow> Read32 addr gm;
        (b, gm) \<leftarrow> Read32 (addr + 4) gm;
        Some (push_bit 32 (ucast b) OR ucast a, gm)
      })"

definition Write8 :: "u64 \<Rightarrow> u8 \<Rightarrow> GuestMemory \<Rightarrow> GuestMemory option" where
  "Write8 addr data gm = Write addr data gm"

definition Write16 :: "u64 \<Rightarrow> u16 \<Rightarrow> GuestMemory \<Rightarrow> GuestMemory option" where
  "Write16 addr data gm =
     (if addr AND 1 = 0 then Write addr data gm
      else do {
        gm \<leftarrow> Write addr (ucast data :: u8) gm;
        Write (addr + 1) (ucast (drop_bit 8 data) :: u8) gm
      })"

definition Write32 :: "u64 \<Rightarrow> u32 \<Rightarrow> GuestMemory \<Rightarrow> GuestMemory option" where
  "Write32 addr data gm =
     (if addr AND 3 = 0 then Write addr data gm
      else do {
        gm \<leftarrow> Write16 addr (ucast data) gm;
        Write16 (addr + 2) (ucast (drop_bit 16 data)) gm
      })"

definition Write64 :: "u64 \<Rightarrow> u64 \<Rightarrow> GuestMemory \<Rightarrow> GuestMemory option" where
  "Write64 addr data gm =
     (if addr AND 7 = 0 then Write addr data gm
      else do {
        gm \<leftarrow> Write32 addr (ucast data) gm;
        Write32 (addr + 4) (ucast (drop_bit 32 data)) gm
      })"

definition WriteExclusive8 :: "u64 \<Rightarrow> u8 \<Rightarrow> u8 \<Rightarrow> GuestMemory \<Rightarrow> (bool \<times> GuestMemory) option" where
  "WriteExclusive8 addr data expected gm = WriteExclusive addr data expected gm"

definition WriteExclusive16 :: "u64 \<Rightarrow> u16 \<Rightarrow> u16 \<Rightarrow> GuestMemory \<Rightarrow> (bool \<times> GuestMemory) option" where
  "WriteExclusive16 addr data expected gm = WriteExclusive addr data expected gm"

definition WriteExclusive32 :: "u64 \<Rightarrow> u32 \<Rightarrow> u32 \<Rightarrow> GuestMemory \<Rightarrow> (bool \<times> GuestMemory) option" where
  "WriteExclusive32 addr data expected gm = WriteExclusive addr data expected gm"

definition WriteExclusive64 :: "u64 \<Rightarrow> u64 \<Rightarrow> u64 \<Rightarrow> GuestMemory \<Rightarrow> (bool \<times> GuestMemory) option" where
  "WriteExclusive64 addr data expected gm = WriteExclusive addr data expected gm"

text \<open>The loop of \<^verbatim>\<open>ReadCString\<close> with the rounds that are left; the string grows at its end.\<close>

primrec ReadCString_loop :: "nat \<Rightarrow> u64 \<Rightarrow> u8 list \<Rightarrow> GuestMemory \<Rightarrow> (u8 list \<times> GuestMemory) option" where
  "ReadCString_loop 0 vaddr str gm = Some (str, gm)"
| "ReadCString_loop (Suc n) vaddr str gm = do {
     (c, gm) \<leftarrow> Read8 vaddr gm;
     if c = 0 then Some (str, gm) else ReadCString_loop n (vaddr + 1) (str @ [c]) gm
   }"

definition ReadCString :: "u64 \<Rightarrow> nat \<Rightarrow> GuestMemory \<Rightarrow> (u8 list \<times> GuestMemory) option" where
  "ReadCString vaddr max_length gm = ReadCString_loop max_length vaddr [] gm"

section \<open>Blocks\<close>

text \<open>
  The block operations of a process: \<open>pm\<close> is the page table of the process, while the
  pointers to cached pages are taken from the current page table. The switch over the page type is a
  definition of its own; \<open>flush\<close> tells the safe variants from the \<^verbatim>\<open>Unsafe\<close> ones. A page of
  another type leaves the destination as it is.
\<close>

definition ReadBlock_page ::
  "bool \<Rightarrow> PageTableImpl \<Rightarrow> u64 \<Rightarrow> u64 \<Rightarrow> nat \<Rightarrow> u8 list \<Rightarrow> GuestMemory \<Rightarrow> (u8 list \<times> GuestMemory) option" where
  "ReadBlock_page flush pm page_index page_offset copy_amount old gm = do {
     let current_vaddr = push_bit PAGE_BITS page_index + page_offset;
     type \<leftarrow> table_entry pm_attributes pm page_index;
     case type of
       Unmapped \<Rightarrow> Some (replicate copy_amount 0, gm)
     | Memory \<Rightarrow> do {
         bs \<leftarrow> host_read (pm_pointers pm page_index + page_offset + push_bit PAGE_BITS page_index) copy_amount gm;
         Some (bs, gm)
       }
     | RasterizerCachedMemory \<Rightarrow> do {
         host_ptr \<leftarrow> GetPointerFromRasterizerCachedMemory current_vaddr gm;
         let gm = (if flush then gpu_call (FlushRegion current_vaddr (of_nat copy_amount)) gm else gm);
         bs \<leftarrow> host_read host_ptr copy_amount gm;
         Some (bs, gm)
       }
     | _ \<Rightarrow> Some (old, gm)
   }"

partial_function (option) ReadBlock_loop ::
  "bool \<Rightarrow> PageTableImpl \<Rightarrow> u64 \<Rightarrow> u64 \<Rightarrow> u64 \<Rightarrow> u8 list \<Rightarrow> GuestMemory \<Rightarrow> (u8 list \<times> GuestMemory) option" where
  "ReadBlock_loop flush pm remaining_size page_index page_offset dest gm =
     (if remaining_size > 0
      then let copy_amount = min (PAGE_SIZE - page_offset) remaining_size
        in Option.bind (ReadBlock_page flush pm page_index page_offset (unat copy_amount) (take (unat copy_amount) dest) gm)
          (\<lambda>(bs, gm). Option.bind
             (ReadBlock_loop flush pm (remaining_size - copy_amount) (page_index + 1) 0 (drop (unat copy_amount) dest) gm)
             (\<lambda>(rest, gm). Some (bs @ rest, gm)))
      else Some (dest, gm))"

text \<open>The destination buffer is passed with its old contents, and its length is the size to read.\<close>

definition ReadBlock :: "PageTableImpl \<Rightarrow> u64 \<Rightarrow> u8 list \<Rightarrow> GuestMemory \<Rightarrow> (u8 list \<times> GuestMemory) option" where
  "ReadBlock pm src_addr dest gm =
     ReadBlock_loop True pm (of_nat (length dest)) (drop_bit PAGE_BITS src_addr) (src_addr AND PAGE_MASK) dest gm"

definition ReadBlockUnsafe :: "PageTableImpl \<Rightarrow> u64 \<Rightarrow> u8 list \<Rightarrow> GuestMemory \<Rightarrow> (u8 list \<times> GuestMemory) option" where
  "ReadBlockUnsafe pm src_addr dest gm =
     ReadBlock_loop False pm (of_nat (length dest)) (drop_bit PAGE_BITS src_addr) (src_addr AND PAGE_MASK) dest gm"

text \<open>
  The source of a write is a buffer of the caller or, when called by \<^verbatim>\<open>CopyBlock\<close>, a pointer into
  the emulated memory. \<^verbatim>\<open>memcpy\<close> between overlapping ranges is undefined.
\<close>

datatype Source = Src_buffer "u8 list" | Src_host u64

fun memcpy_from :: "u64 \<Rightarrow> Source \<Rightarrow> nat \<Rightarrow> GuestMemory \<Rightarrow> GuestMemory option" where
  "memcpy_from p (Src_buffer bs) n gm = host_write p (take n bs) gm"
| "memcpy_from p (Src_host q) n gm =
     (if unat (p - q) < n \<or> unat (q - p) < n then None
      else do { bs \<leftarrow> host_read q n gm; host_write p bs gm })"

fun advance :: "nat \<Rightarrow> Source \<Rightarrow> Source" where
  "advance n (Src_buffer bs) = Src_buffer (drop n bs)"
| "advance n (Src_host q) = Src_host (q + of_nat n)"

definition WriteBlock_page ::
  "bool \<Rightarrow> PageTableImpl \<Rightarrow> u64 \<Rightarrow> u64 \<Rightarrow> nat \<Rightarrow> Source \<Rightarrow> GuestMemory \<Rightarrow> GuestMemory option" where
  "WriteBlock_page flush pm page_index page_offset copy_amount src gm = do {
     let current_vaddr = push_bit PAGE_BITS page_index + page_offset;
     type \<leftarrow> table_entry pm_attributes pm page_index;
     case type of
       Unmapped \<Rightarrow> Some gm
     | Memory \<Rightarrow>
         memcpy_from (pm_pointers pm page_index + page_offset + push_bit PAGE_BITS page_index) src copy_amount gm
     | RasterizerCachedMemory \<Rightarrow> do {
         host_ptr \<leftarrow> GetPointerFromRasterizerCachedMemory current_vaddr gm;
         let gm = (if flush then gpu_call (InvalidateRegion current_vaddr (of_nat copy_amount)) gm else gm);
         memcpy_from host_ptr src copy_amount gm
       }
     | _ \<Rightarrow> Some gm
   }"

partial_function (option) WriteBlock_loop ::
  "bool \<Rightarrow> PageTableImpl \<Rightarrow> u64 \<Rightarrow> u64 \<Rightarrow> u64 \<Rightarrow> Source \<Rightarrow> GuestMemory \<Rightarrow> GuestMemory option" where
  "WriteBlock_loop flush pm remaining_size page_index page_offset src gm =
     (if remaining_size > 0
      then let copy_amount = min (PAGE_SIZE - page_offset) remaining_size
        in Option.bind (WriteBlock_page flush pm page_index page_offset (unat copy_amount) src gm)
          (\<lambda>gm. WriteBlock_loop flush pm (remaining_size - copy_amount) (page_index + 1) 0
             (advance (unat copy_amount) src) gm)
      else Some gm)"

definition WriteBlock_source :: "PageTableImpl \<Rightarrow> u64 \<Rightarrow> Source \<Rightarrow> u64 \<Rightarrow> GuestMemory \<Rightarrow> GuestMemory option" where
  "WriteBlock_source pm dest_addr src sz gm =
     WriteBlock_loop True pm sz (drop_bit PAGE_BITS dest_addr) (dest_addr AND PAGE_MASK) src gm"

definition WriteBlock :: "PageTableImpl \<Rightarrow> u64 \<Rightarrow> u8 list \<Rightarrow> GuestMemory \<Rightarrow> GuestMemory option" where
  "WriteBlock pm dest_addr src gm = WriteBlock_source pm dest_addr (Src_buffer src) (of_nat (length src)) gm"

definition WriteBlockUnsafe :: "PageTableImpl \<Rightarrow> u64 \<Rightarrow> u8 list \<Rightarrow> GuestMemory \<Rightarrow> GuestMemory option" where
  "WriteBlockUnsafe pm dest_addr src gm =
     WriteBlock_loop False pm (of_nat (length src)) (drop_bit PAGE_BITS dest_addr) (dest_addr AND PAGE_MASK)
       (Src_buffer src) gm"

definition ZeroBlock_page :: "PageTableImpl \<Rightarrow> u64 \<Rightarrow> u64 \<Rightarrow> nat \<Rightarrow> GuestMemory \<Rightarrow> GuestMemory option" where
  "ZeroBlock_page pm page_index page_offset copy_amount gm = do {
     let current_vaddr = push_bit PAGE_BITS page_index + page_offset;
     type \<leftarrow> table_entry pm_attributes pm page_index;
     case type of
       Unmapped \<Rightarrow> Some gm
     | Memory \<Rightarrow>
         host_write (pm_pointers pm page_index + page_offset + push_bit PAGE_BITS page_index)
           (replicate copy_amount 0) gm
     | RasterizerCachedMemory \<Rightarrow> do {
         host_ptr \<leftarrow> GetPointerFromRasterizerCachedMemory current_vaddr gm;
         let gm = gpu_call (InvalidateRegion current_vaddr (of_nat copy_amount)) gm;
         host_write host_ptr (replicate copy_amount 0) gm
       }
     | _ \<Rightarrow> Some gm
   }"

partial_function (option) ZeroBlock_loop ::
  "PageTableImpl \<Rightarrow> u64 \<Rightarrow> u64 \<Rightarrow> u64 \<Rightarrow> GuestMemory \<Rightarrow> GuestMemory option" where
  "ZeroBlock_loop pm remaining_size page_index page_offset gm =
     (if remaining_size > 0
      then let copy_amount = min (PAGE_SIZE - page_offset) remaining_size
        in Option.bind (ZeroBlock_page pm page_index page_offset (unat copy_amount) gm)
          (\<lambda>gm. ZeroBlock_loop pm (remaining_size - copy_amount) (page_index + 1) 0 gm)
      else Some gm)"

definition ZeroBlock :: "PageTableImpl \<Rightarrow> u64 \<Rightarrow> u64 \<Rightarrow> GuestMemory \<Rightarrow> GuestMemory option" where
  "ZeroBlock pm dest_addr sz gm =
     ZeroBlock_loop pm sz (drop_bit PAGE_BITS dest_addr) (dest_addr AND PAGE_MASK) gm"

definition CopyBlock_page ::
  "PageTableImpl \<Rightarrow> u64 \<Rightarrow> u64 \<Rightarrow> u64 \<Rightarrow> u64 \<Rightarrow> GuestMemory \<Rightarrow> GuestMemory option" where
  "CopyBlock_page pm page_index page_offset copy_amount dest_addr gm = do {
     let current_vaddr = push_bit PAGE_BITS page_index + page_offset;
     type \<leftarrow> table_entry pm_attributes pm page_index;
     case type of
       Unmapped \<Rightarrow> ZeroBlock pm dest_addr copy_amount gm
     | Memory \<Rightarrow>
         WriteBlock_source pm dest_addr
           (Src_host (pm_pointers pm page_index + page_offset + push_bit PAGE_BITS page_index)) copy_amount gm
     | RasterizerCachedMemory \<Rightarrow> do {
         host_ptr \<leftarrow> GetPointerFromRasterizerCachedMemory current_vaddr gm;
         let gm = gpu_call (FlushRegion current_vaddr copy_amount) gm;
         WriteBlock_source pm dest_addr (Src_host host_ptr) copy_amount gm
       }
     | _ \<Rightarrow> Some gm
   }"

partial_function (option) CopyBlock_loop ::
  "PageTableImpl \<Rightarrow> u64 \<Rightarrow> u64 \<Rightarrow> u64 \<Rightarrow> u64 \<Rightarrow> GuestMemory \<Rightarrow> GuestMemory option" where
  "CopyBlock_loop pm remaining_size page_index page_offset dest_addr gm =
     (if remaining_size > 0
      then let copy_amount = min (PAGE_SIZE - page_offset) remaining_size
        in Option.bind (CopyBlock_page pm page_index page_offset copy_amount dest_addr gm)
          (\<lambda>gm. CopyBlock_loop pm (remaining_size - copy_amount) (page_index + 1) 0 (dest_addr + copy_amount) gm)
      else Some gm)"

definition CopyBlock :: "PageTableImpl \<Rightarrow> u64 \<Rightarrow> u64 \<Rightarrow> u64 \<Rightarrow> GuestMemory \<Rightarrow> GuestMemory option" where
  "CopyBlock pm dest_addr src_addr sz gm =
     CopyBlock_loop pm sz (drop_bit PAGE_BITS src_addr) (src_addr AND PAGE_MASK) dest_addr gm"

section \<open>The rasterizer cache\<close>

text \<open>One page of \<^verbatim>\<open>RasterizerMarkRegionCached\<close>, and the loop over the pages that are left.\<close>

definition MarkCached_page :: "u64 \<Rightarrow> bool \<Rightarrow> GuestMemory \<Rightarrow> GuestMemory option" where
  "MarkCached_page vaddr cached gm = do {
     let pm = gm_table gm;
     let page = drop_bit PAGE_BITS vaddr;
     type \<leftarrow> table_entry pm_attributes pm page;
     if cached
     then Some (case type of
         Memory \<Rightarrow> gm\<lparr>gm_table := pm\<lparr>pm_attributes := (pm_attributes pm)(page := RasterizerCachedMemory),
                                       pm_pointers := (pm_pointers pm)(page := 0)\<rparr>\<rparr>
       | _ \<Rightarrow> gm)
     else (case type of
         RasterizerCachedMemory \<Rightarrow> do {
           pointer \<leftarrow> GetPointerFromRasterizerCachedMemory (vaddr AND NOT PAGE_MASK) gm;
           if pointer = 0
           then Some (gm\<lparr>gm_table := pm\<lparr>pm_attributes := (pm_attributes pm)(page := Unmapped)\<rparr>\<rparr>)
           else Some (gm\<lparr>gm_table := pm\<lparr>pm_attributes := (pm_attributes pm)(page := Memory),
                  pm_pointers := (pm_pointers pm)(page := pointer - (vaddr AND NOT PAGE_MASK))\<rparr>\<rparr>)
         }
       | _ \<Rightarrow> Some gm)
   }"

primrec MarkCached_loop :: "nat \<Rightarrow> u64 \<Rightarrow> bool \<Rightarrow> GuestMemory \<Rightarrow> GuestMemory option" where
  "MarkCached_loop 0 vaddr cached gm = Some gm"
| "MarkCached_loop (Suc n) vaddr cached gm = do {
     gm \<leftarrow> MarkCached_page vaddr cached gm;
     MarkCached_loop n (vaddr + PAGE_SIZE) cached gm
   }"

text \<open>
  The counter of the loop has 32 bits, the number of pages 64: from \<open>2 ^ 32\<close> pages on, the counter wraps
  and the loop does not end.
\<close>

definition RasterizerMarkRegionCached :: "u64 \<Rightarrow> u64 \<Rightarrow> bool \<Rightarrow> GuestMemory \<Rightarrow> GuestMemory option" where
  "RasterizerMarkRegionCached vaddr sz cached gm =
     (if vaddr = 0 then Some gm
      else let num_pages = drop_bit PAGE_BITS (vaddr + sz - 1) - drop_bit PAGE_BITS vaddr + 1
        in if unat num_pages < 2 ^ 32 then MarkCached_loop (unat num_pages) vaddr cached gm else None)"

end
