(* ===== verification/Cheat_VM.thy ===== *)
theory Cheat_VM
  imports Guest_Memory
begin

text \<open>
  The virtual machine for cheat codes: \<^verbatim>\<open>core/memory/dmnt_cheat_types.h\<close> and
  \<^verbatim>\<open>core/memory/dmnt_cheat_vm.h\<close>, \<^verbatim>\<open>dmnt_cheat_vm.cpp\<close>. An enumeration that is read from a nibble of the
  program is the number itself, since nothing restricts it to the named values. The union \<^verbatim>\<open>VmInt\<close> is its
  64-bit member, the others are its lowest bits. Positions and depths are natural numbers, as they
  stay far below \<open>2 ^ 64\<close>. The callbacks are a record of functions on the state of their owner, and the
  number formats of the \<^verbatim>\<open>fmt\<close> library are arguments. An index outside an array, a shift by 64 bits or more
  and the use of a null pointer are undefined.
\<close>

section \<open>Data\<close>

record MemoryRegionExtents =
  ex_base :: u64
  ex_size :: u64

record CheatProcessMetadata =
  md_process_id :: u64
  md_title_id :: u64
  md_main_nso_extents :: MemoryRegionExtents
  md_heap_extents :: MemoryRegionExtents
  md_alias_extents :: MemoryRegionExtents
  md_address_space_extents :: MemoryRegionExtents
  md_main_nso_build_id :: "u8 list"

record CheatDefinition =
  cd_readable_name :: string
  cd_num_opcodes :: u32
  cd_opcodes :: "u32 list"

record CheatEntry =
  ce_enabled :: bool
  ce_cheat_id :: u32
  ce_definition :: CheatDefinition

definition mk_CheatDefinition :: CheatDefinition where
  "mk_CheatDefinition = \<lparr>cd_readable_name = replicate 0x40 (CHR 0x00), cd_num_opcodes = 0, cd_opcodes = replicate 0x100 0\<rparr>"

definition mk_CheatEntry :: CheatEntry where
  "mk_CheatEntry = \<lparr>ce_enabled = False, ce_cheat_id = 0, ce_definition = mk_CheatDefinition\<rparr>"

definition Op_StoreStatic :: u32 where "Op_StoreStatic = 0"
definition Op_BeginConditionalBlock :: u32 where "Op_BeginConditionalBlock = 1"
definition Op_EndConditionalBlock :: u32 where "Op_EndConditionalBlock = 2"
definition Op_ControlLoop :: u32 where "Op_ControlLoop = 3"
definition Op_LoadRegisterStatic :: u32 where "Op_LoadRegisterStatic = 4"
definition Op_LoadRegisterMemory :: u32 where "Op_LoadRegisterMemory = 5"
definition Op_StoreStaticToAddress :: u32 where "Op_StoreStaticToAddress = 6"
definition Op_PerformArithmeticStatic :: u32 where "Op_PerformArithmeticStatic = 7"
definition Op_BeginKeypressConditionalBlock :: u32 where "Op_BeginKeypressConditionalBlock = 8"
definition Op_PerformArithmeticRegister :: u32 where "Op_PerformArithmeticRegister = 9"
definition Op_StoreRegisterToAddress :: u32 where "Op_StoreRegisterToAddress = 10"
definition Op_ExtendedWidth :: u32 where "Op_ExtendedWidth = 12"
definition Op_BeginRegisterConditionalBlock :: u32 where "Op_BeginRegisterConditionalBlock = 0xC0"
definition Op_SaveRestoreRegister :: u32 where "Op_SaveRestoreRegister = 0xC1"
definition Op_SaveRestoreRegisterMask :: u32 where "Op_SaveRestoreRegisterMask = 0xC2"
definition Op_ReadWriteStaticRegister :: u32 where "Op_ReadWriteStaticRegister = 0xC3"
definition Op_DoubleExtendedWidth :: u32 where "Op_DoubleExtendedWidth = 0xF0"
definition Op_DebugLog :: u32 where "Op_DebugLog = 0xFFF"

definition Mem_Heap :: u32 where "Mem_Heap = 1"

definition Cond_GT :: u32 where "Cond_GT = 1"
definition Cond_GE :: u32 where "Cond_GE = 2"
definition Cond_LT :: u32 where "Cond_LT = 3"
definition Cond_LE :: u32 where "Cond_LE = 4"
definition Cond_EQ :: u32 where "Cond_EQ = 5"
definition Cond_NE :: u32 where "Cond_NE = 6"

definition Math_Addition :: u32 where "Math_Addition = 0"
definition Math_Subtraction :: u32 where "Math_Subtraction = 1"
definition Math_Multiplication :: u32 where "Math_Multiplication = 2"
definition Math_LeftShift :: u32 where "Math_LeftShift = 3"
definition Math_RightShift :: u32 where "Math_RightShift = 4"
definition Math_LogicalAnd :: u32 where "Math_LogicalAnd = 5"
definition Math_LogicalOr :: u32 where "Math_LogicalOr = 6"
definition Math_LogicalNot :: u32 where "Math_LogicalNot = 7"
definition Math_LogicalXor :: u32 where "Math_LogicalXor = 8"
definition Math_None :: u32 where "Math_None = 9"

definition Ofs_None :: u32 where "Ofs_None = 0"
definition Ofs_Reg :: u32 where "Ofs_Reg = 1"
definition Ofs_Imm :: u32 where "Ofs_Imm = 2"
definition Ofs_MemReg :: u32 where "Ofs_MemReg = 3"
definition Ofs_MemImm :: u32 where "Ofs_MemImm = 4"
definition Ofs_MemImmReg :: u32 where "Ofs_MemImmReg = 5"

definition Comp_MemoryRelAddr :: u32 where "Comp_MemoryRelAddr = 0"
definition Comp_MemoryOfsReg :: u32 where "Comp_MemoryOfsReg = 1"
definition Comp_RegisterRelAddr :: u32 where "Comp_RegisterRelAddr = 2"
definition Comp_RegisterOfsReg :: u32 where "Comp_RegisterOfsReg = 3"
definition Comp_StaticValue :: u32 where "Comp_StaticValue = 4"
definition Comp_OtherRegister :: u32 where "Comp_OtherRegister = 5"

definition SR_Restore :: u32 where "SR_Restore = 0"
definition SR_Save :: u32 where "SR_Save = 1"
definition SR_ClearSaved :: u32 where "SR_ClearSaved = 2"
definition SR_ClearRegs :: u32 where "SR_ClearRegs = 3"

definition Log_MemoryRelAddr :: u32 where "Log_MemoryRelAddr = 0"
definition Log_MemoryOfsReg :: u32 where "Log_MemoryOfsReg = 1"
definition Log_RegisterRelAddr :: u32 where "Log_RegisterRelAddr = 2"
definition Log_RegisterOfsReg :: u32 where "Log_RegisterOfsReg = 3"
definition Log_RegisterValue :: u32 where "Log_RegisterValue = 4"

text \<open>The variant of decoded instructions, with the fields of each structure in their order.\<close>

datatype Opcode =
  StoreStatic (ss_bit_width: u32) (ss_mem_type: u32) (ss_offset_register: u32) (ss_rel_address: u64) (ss_value: u64)
| BeginConditional (bc_bit_width: u32) (bc_mem_type: u32) (bc_cond_type: u32) (bc_rel_address: u64) (bc_value: u64)
| EndConditional
| ControlLoop (cl_start_loop: bool) (cl_reg_index: u32) (cl_num_iters: u32)
| LoadRegisterStatic (ls_reg_index: u32) (ls_value: u64)
| LoadRegisterMemory (lm_bit_width: u32) (lm_mem_type: u32) (lm_reg_index: u32) (lm_load_from_reg: bool) (lm_rel_address: u64)
| StoreStaticToAddress (sa_bit_width: u32) (sa_reg_index: u32) (sa_increment_reg: bool) (sa_add_offset_reg: bool)
    (sa_offset_reg_index: u32) (sa_value: u64)
| PerformArithmeticStatic (as_bit_width: u32) (as_reg_index: u32) (as_math_type: u32) (as_value: u32)
| BeginKeypressConditional (bk_key_mask: u32)
| PerformArithmeticRegister (ar_bit_width: u32) (ar_math_type: u32) (ar_dst_reg_index: u32) (ar_src_reg_1_index: u32)
    (ar_src_reg_2_index: u32) (ar_has_immediate: bool) (ar_value: u64)
| StoreRegisterToAddress (sr_bit_width: u32) (sr_str_reg_index: u32) (sr_addr_reg_index: u32) (sr_increment_reg: bool)
    (sr_ofs_type: u32) (sr_mem_type: u32) (sr_ofs_reg_index: u32) (sr_rel_address: u64)
| BeginRegisterConditional (br_bit_width: u32) (br_cond_type: u32) (br_val_reg_index: u32) (br_comp_type: u32)
    (br_mem_type: u32) (br_addr_reg_index: u32) (br_other_reg_index: u32) (br_ofs_reg_index: u32)
    (br_rel_address: u64) (br_value: u64)
| SaveRestoreRegister (sv_dst_index: u32) (sv_src_index: u32) (sv_op_type: u32)
| SaveRestoreRegisterMask (sm_op_type: u32) (sm_should_operate: "bool list")
| ReadWriteStaticRegister (rw_static_idx: u32) (rw_idx: u32)
| DebugLogOp (dl_bit_width: u32) (dl_log_id: u32) (dl_val_type: u32) (dl_mem_type: u32) (dl_addr_reg_index: u32)
    (dl_val_reg_index: u32) (dl_ofs_reg_index: u32) (dl_rel_address: u64)
| UnrecognizedInstruction (ui_opcode: u32)

record CheatVmOpcode =
  begin_conditional_block :: bool
  opcode :: Opcode

definition MaximumProgramOpcodeCount :: nat where "MaximumProgramOpcodeCount = 0x400"
definition NumRegisters :: nat where "NumRegisters = 0x10"
definition NumReadableStaticRegisters :: nat where "NumReadableStaticRegisters = 0x80"
definition NumWritableStaticRegisters :: nat where "NumWritableStaticRegisters = 0x80"
definition NumStaticRegisters :: nat where
  "NumStaticRegisters = NumReadableStaticRegisters + NumWritableStaticRegisters"

record DmntCheatVm =
  num_opcodes :: nat
  instruction_ptr :: nat
  condition_depth :: nat
  decode_success :: bool
  prog :: "u32 list"
  registers :: "u64 list"
  saved_values :: "u64 list"
  static_registers :: "u64 list"
  loop_tops :: "nat list"

definition mk_DmntCheatVm :: DmntCheatVm where
  "mk_DmntCheatVm = \<lparr>num_opcodes = 0, instruction_ptr = 0, condition_depth = 0, decode_success = False,
     prog = replicate MaximumProgramOpcodeCount 0, registers = replicate NumRegisters 0,
     saved_values = replicate NumRegisters 0, static_registers = replicate NumStaticRegisters 0,
     loop_tops = replicate NumRegisters 0\<rparr>"

section \<open>Decoding\<close>

text \<open>
  A decoder state is the machine with the local flag \<^verbatim>\<open>valid\<close> of \<^verbatim>\<open>DecodeNextOpcode\<close>.
\<close>

type_synonym Decoder = "DmntCheatVm \<times> bool"

definition GetNextDword :: "Decoder \<Rightarrow> (u32 \<times> Decoder) option" where
  "GetNextDword s = (let (vm, valid) = s in
     if instruction_ptr vm \<ge> num_opcodes vm then Some (0, vm, False)
     else do {
       dword \<leftarrow> nth_opt (prog vm) (instruction_ptr vm);
       Some (dword, vm\<lparr>instruction_ptr := instruction_ptr vm + 1\<rparr>, valid)
     })"

text \<open>A nibble of an instruction word, and the two words of a 64-bit immediate.\<close>

definition nibble :: "nat \<Rightarrow> u32 \<Rightarrow> u32" where
  "nibble k w = drop_bit k w AND 0xF"

definition wide :: "u32 \<Rightarrow> u32 \<Rightarrow> u64" where
  "wide high low = push_bit 32 (ucast high) OR ucast low"

definition GetNextVmInt :: "u32 \<Rightarrow> Decoder \<Rightarrow> (u64 \<times> Decoder) option" where
  "GetNextVmInt bit_width s = do {
     (first_dword, s) \<leftarrow> GetNextDword s;
     if bit_width = 1 then Some (ucast (ucast first_dword :: u8), s)
     else if bit_width = 2 then Some (ucast (ucast first_dword :: u16), s)
     else if bit_width = 4 then Some (ucast first_dword, s)
     else if bit_width = 8 then do {
       (second_dword, s) \<leftarrow> GetNextDword s;
       Some (wide first_dword second_dword, s)
     }
     else Some (0, s)
   }"

text \<open>
  The cases of the second \<^verbatim>\<open>switch\<close>, each from the first word of the instruction. The two calls in
  one expression (\<open>LoadRegisterStatic\<close>, \<open>StoreStaticToAddress\<close>) are evaluated from left to right.
\<close>

definition decode_StoreStatic :: "u32 \<Rightarrow> Decoder \<Rightarrow> (Opcode \<times> Decoder) option" where
  "decode_StoreStatic first_dword s = do {
     (second_dword, s) \<leftarrow> GetNextDword s;
     let bit_width = nibble 24 first_dword;
     (val, s) \<leftarrow> GetNextVmInt bit_width s;
     Some (StoreStatic bit_width (nibble 20 first_dword) (nibble 16 first_dword)
       (wide (first_dword AND 0xFF) second_dword) val, s)
   }"

definition decode_BeginConditional :: "u32 \<Rightarrow> Decoder \<Rightarrow> (Opcode \<times> Decoder) option" where
  "decode_BeginConditional first_dword s = do {
     (second_dword, s) \<leftarrow> GetNextDword s;
     let bit_width = nibble 24 first_dword;
     (val, s) \<leftarrow> GetNextVmInt bit_width s;
     Some (BeginConditional bit_width (nibble 20 first_dword) (nibble 16 first_dword)
       (wide (first_dword AND 0xFF) second_dword) val, s)
   }"

definition decode_ControlLoop :: "u32 \<Rightarrow> Decoder \<Rightarrow> (Opcode \<times> Decoder) option" where
  "decode_ControlLoop first_dword s =
     (let start_loop = (nibble 24 first_dword = 0); reg_index = nibble 20 first_dword in
      if start_loop then do {
        (num_iters, s) \<leftarrow> GetNextDword s;
        Some (ControlLoop start_loop reg_index num_iters, s)
      }
      else Some (ControlLoop start_loop reg_index 0, s))"

definition decode_LoadRegisterStatic :: "u32 \<Rightarrow> Decoder \<Rightarrow> (Opcode \<times> Decoder) option" where
  "decode_LoadRegisterStatic first_dword s = do {
     (high, s) \<leftarrow> GetNextDword s;
     (low, s) \<leftarrow> GetNextDword s;
     Some (LoadRegisterStatic (nibble 16 first_dword) (wide high low), s)
   }"

definition decode_LoadRegisterMemory :: "u32 \<Rightarrow> Decoder \<Rightarrow> (Opcode \<times> Decoder) option" where
  "decode_LoadRegisterMemory first_dword s = do {
     (second_dword, s) \<leftarrow> GetNextDword s;
     Some (LoadRegisterMemory (nibble 24 first_dword) (nibble 20 first_dword) (nibble 16 first_dword)
       (nibble 12 first_dword \<noteq> 0) (wide (first_dword AND 0xFF) second_dword), s)
   }"

definition decode_StoreStaticToAddress :: "u32 \<Rightarrow> Decoder \<Rightarrow> (Opcode \<times> Decoder) option" where
  "decode_StoreStaticToAddress first_dword s = do {
     (high, s) \<leftarrow> GetNextDword s;
     (low, s) \<leftarrow> GetNextDword s;
     Some (StoreStaticToAddress (nibble 24 first_dword) (nibble 16 first_dword)
       (nibble 12 first_dword \<noteq> 0) (nibble 8 first_dword \<noteq> 0) (nibble 4 first_dword) (wide high low), s)
   }"

definition decode_PerformArithmeticStatic :: "u32 \<Rightarrow> Decoder \<Rightarrow> (Opcode \<times> Decoder) option" where
  "decode_PerformArithmeticStatic first_dword s = do {
     (val, s) \<leftarrow> GetNextDword s;
     Some (PerformArithmeticStatic (nibble 24 first_dword) (nibble 16 first_dword)
       (nibble 12 first_dword) val, s)
   }"

definition decode_PerformArithmeticRegister :: "u32 \<Rightarrow> Decoder \<Rightarrow> (Opcode \<times> Decoder) option" where
  "decode_PerformArithmeticRegister first_dword s =
     (let bit_width = nibble 24 first_dword; has_immediate = (nibble 8 first_dword \<noteq> 0) in
      if has_immediate then do {
        (val, s) \<leftarrow> GetNextVmInt bit_width s;
        Some (PerformArithmeticRegister bit_width (nibble 20 first_dword) (nibble 16 first_dword)
          (nibble 12 first_dword) 0 has_immediate val, s)
      }
      else Some (PerformArithmeticRegister bit_width (nibble 20 first_dword) (nibble 16 first_dword)
          (nibble 12 first_dword) (nibble 4 first_dword) has_immediate 0, s))"

definition decode_StoreRegisterToAddress :: "u32 \<Rightarrow> Decoder \<Rightarrow> (Opcode \<times> Decoder) option" where
  "decode_StoreRegisterToAddress first_dword s =
     (let ofs_type = nibble 8 first_dword;
          str_register = (\<lambda>ofs_type mem_type rel_address.
            StoreRegisterToAddress (nibble 24 first_dword) (nibble 20 first_dword) (nibble 16 first_dword)
              (nibble 12 first_dword \<noteq> 0) ofs_type mem_type (nibble 4 first_dword) rel_address) in
      if ofs_type = Ofs_None \<or> ofs_type = Ofs_Reg then Some (str_register ofs_type 0 0, s)
      else if ofs_type = Ofs_Imm then do {
        (dword, s) \<leftarrow> GetNextDword s;
        Some (str_register ofs_type 0 (wide (first_dword AND 0xF) dword), s)
      }
      else if ofs_type = Ofs_MemReg then Some (str_register ofs_type (nibble 4 first_dword) 0, s)
      else if ofs_type = Ofs_MemImm \<or> ofs_type = Ofs_MemImmReg then do {
        (dword, s) \<leftarrow> GetNextDword s;
        Some (str_register ofs_type (nibble 4 first_dword) (wide (first_dword AND 0xF) dword), s)
      }
      else Some (str_register Ofs_None 0 0, s))"

definition decode_BeginRegisterConditional :: "u32 \<Rightarrow> Decoder \<Rightarrow> (Opcode \<times> Decoder) option" where
  "decode_BeginRegisterConditional first_dword s =
     (let bit_width = nibble 20 first_dword; comp_type = nibble 8 first_dword;
          begin_reg_cond = BeginRegisterConditional bit_width (nibble 16 first_dword)
            (nibble 12 first_dword) comp_type in
      if comp_type = Comp_StaticValue then do {
        (val, s) \<leftarrow> GetNextVmInt bit_width s;
        Some (begin_reg_cond 0 0 0 0 0 val, s)
      }
      else if comp_type = Comp_OtherRegister then
        Some (begin_reg_cond 0 0 (nibble 4 first_dword) 0 0 0, s)
      else if comp_type = Comp_MemoryRelAddr then do {
        (dword, s) \<leftarrow> GetNextDword s;
        Some (begin_reg_cond (nibble 4 first_dword) 0 0 0 (wide (first_dword AND 0xF) dword) 0, s)
      }
      else if comp_type = Comp_MemoryOfsReg then
        Some (begin_reg_cond (nibble 4 first_dword) 0 0 (first_dword AND 0xF) 0 0, s)
      else if comp_type = Comp_RegisterRelAddr then do {
        (dword, s) \<leftarrow> GetNextDword s;
        Some (begin_reg_cond 0 (nibble 4 first_dword) 0 0 (wide (first_dword AND 0xF) dword) 0, s)
      }
      else if comp_type = Comp_RegisterOfsReg then
        Some (begin_reg_cond 0 (nibble 4 first_dword) 0 (first_dword AND 0xF) 0 0, s)
      else Some (begin_reg_cond 0 0 0 0 0 0, s))"

definition decode_SaveRestoreRegisterMask :: "u32 \<Rightarrow> Opcode" where
  "decode_SaveRestoreRegisterMask first_dword =
     SaveRestoreRegisterMask (nibble 20 first_dword)
       (map (\<lambda>i. first_dword AND push_bit i 1 \<noteq> 0) [0 ..< NumRegisters])"

definition decode_DebugLog :: "u32 \<Rightarrow> Decoder \<Rightarrow> (Opcode \<times> Decoder) option" where
  "decode_DebugLog first_dword s =
     (let val_type = nibble 8 first_dword;
          debug_log = DebugLogOp (nibble 16 first_dword) (nibble 12 first_dword) val_type in
      if val_type = Log_RegisterValue then Some (debug_log 0 0 (nibble 4 first_dword) 0 0, s)
      else if val_type = Log_MemoryRelAddr then do {
        (dword, s) \<leftarrow> GetNextDword s;
        Some (debug_log (nibble 4 first_dword) 0 0 0 (wide (first_dword AND 0xF) dword), s)
      }
      else if val_type = Log_MemoryOfsReg then
        Some (debug_log (nibble 4 first_dword) 0 0 (first_dword AND 0xF) 0, s)
      else if val_type = Log_RegisterRelAddr then do {
        (dword, s) \<leftarrow> GetNextDword s;
        Some (debug_log 0 (nibble 4 first_dword) 0 0 (wide (first_dword AND 0xF) dword), s)
      }
      else if val_type = Log_RegisterOfsReg then
        Some (debug_log 0 (nibble 4 first_dword) 0 (first_dword AND 0xF) 0, s)
      else Some (debug_log 0 0 0 0 0, s))"

text \<open>The opcode type: one, two or three nibbles.\<close>

definition opcode_type_of :: "u32 \<Rightarrow> u32" where
  "opcode_type_of first_dword =
     (let t = nibble 28 first_dword;
          t = (if t \<ge> Op_ExtendedWidth then push_bit 4 t OR nibble 24 first_dword else t)
      in if t \<ge> Op_DoubleExtendedWidth then push_bit 4 t OR nibble 20 first_dword else t)"

definition begins_block :: "u32 \<Rightarrow> bool" where
  "begins_block opcode_type \<longleftrightarrow> opcode_type = Op_BeginConditionalBlock
     \<or> opcode_type = Op_BeginKeypressConditionalBlock \<or> opcode_type = Op_BeginRegisterConditionalBlock"

definition decode_body :: "u32 \<Rightarrow> u32 \<Rightarrow> Decoder \<Rightarrow> (Opcode \<times> Decoder) option" where
  "decode_body opcode_type first_dword s =
     (if opcode_type = Op_StoreStatic then decode_StoreStatic first_dword s
      else if opcode_type = Op_BeginConditionalBlock then decode_BeginConditional first_dword s
      else if opcode_type = Op_EndConditionalBlock then Some (EndConditional, s)
      else if opcode_type = Op_ControlLoop then decode_ControlLoop first_dword s
      else if opcode_type = Op_LoadRegisterStatic then decode_LoadRegisterStatic first_dword s
      else if opcode_type = Op_LoadRegisterMemory then decode_LoadRegisterMemory first_dword s
      else if opcode_type = Op_StoreStaticToAddress then decode_StoreStaticToAddress first_dword s
      else if opcode_type = Op_PerformArithmeticStatic then decode_PerformArithmeticStatic first_dword s
      else if opcode_type = Op_BeginKeypressConditionalBlock then
        Some (BeginKeypressConditional (first_dword AND 0x0FFFFFFF), s)
      else if opcode_type = Op_PerformArithmeticRegister then decode_PerformArithmeticRegister first_dword s
      else if opcode_type = Op_StoreRegisterToAddress then decode_StoreRegisterToAddress first_dword s
      else if opcode_type = Op_BeginRegisterConditionalBlock then decode_BeginRegisterConditional first_dword s
      else if opcode_type = Op_SaveRestoreRegister then
        Some (SaveRestoreRegister (nibble 16 first_dword) (nibble 8 first_dword) (nibble 4 first_dword), s)
      else if opcode_type = Op_SaveRestoreRegisterMask then
        Some (decode_SaveRestoreRegisterMask first_dword, s)
      else if opcode_type = Op_ReadWriteStaticRegister then
        Some (ReadWriteStaticRegister (drop_bit 4 first_dword AND 0xFF) (first_dword AND 0xF), s)
      else if opcode_type = Op_DebugLog then decode_DebugLog first_dword s
      else Some (UnrecognizedInstruction opcode_type, (fst s, False)))"

text \<open>
  The decoder: \<open>None\<close> in the first component stands for the result \<^verbatim>\<open>false\<close>, where the out parameter is not
  written.
\<close>

definition DecodeNextOpcode :: "DmntCheatVm \<Rightarrow> (CheatVmOpcode option \<times> DmntCheatVm) option" where
  "DecodeNextOpcode vm = do {
     (first_dword, vm, valid) \<leftarrow> GetNextDword (vm, decode_success vm);
     if \<not> valid then Some (None, vm\<lparr>decode_success := decode_success vm \<and> valid\<rparr>)
     else do {
       let opcode_type = opcode_type_of first_dword;
       (op, vm, valid) \<leftarrow> decode_body opcode_type first_dword (vm, valid);
       let vm = vm\<lparr>decode_success := decode_success vm \<and> valid\<rparr>;
       Some (if valid then Some \<lparr>begin_conditional_block = begins_block opcode_type, opcode = op\<rparr> else None, vm)
     }
   }"

section \<open>The state of the machine\<close>

partial_function (option) SkipConditionalBlock_loop :: "nat \<Rightarrow> DmntCheatVm \<Rightarrow> DmntCheatVm option" where
  [code]: "SkipConditionalBlock_loop desired_depth vm =
     (if condition_depth vm > desired_depth then do {
        (out, vm) \<leftarrow> DecodeNextOpcode vm;
        case out of None \<Rightarrow> Some vm
        | Some skip_opcode \<Rightarrow>
            if begin_conditional_block skip_opcode then
              SkipConditionalBlock_loop desired_depth (vm\<lparr>condition_depth := condition_depth vm + 1\<rparr>)
            else if opcode skip_opcode = EndConditional then
              SkipConditionalBlock_loop desired_depth (vm\<lparr>condition_depth := condition_depth vm - 1\<rparr>)
            else SkipConditionalBlock_loop desired_depth vm
      }
      else Some vm)"

definition SkipConditionalBlock :: "DmntCheatVm \<Rightarrow> DmntCheatVm option" where
  "SkipConditionalBlock vm =
     (if condition_depth vm > 0 then SkipConditionalBlock_loop (condition_depth vm - 1) vm else Some vm)"

definition GetVmInt :: "u64 \<Rightarrow> u32 \<Rightarrow> u64" where
  "GetVmInt val bit_width =
     (if bit_width = 1 then ucast (ucast val :: u8)
      else if bit_width = 2 then ucast (ucast val :: u16)
      else if bit_width = 4 then ucast (ucast val :: u32)
      else if bit_width = 8 then val
      else 0)"

definition GetCheatProcessAddress :: "CheatProcessMetadata \<Rightarrow> u32 \<Rightarrow> u64 \<Rightarrow> u64" where
  "GetCheatProcessAddress metadata mem_type rel_address =
     (if mem_type = Mem_Heap then ex_base (md_heap_extents metadata) + rel_address
      else ex_base (md_main_nso_extents metadata) + rel_address)"

definition ResetState :: "DmntCheatVm \<Rightarrow> DmntCheatVm" where
  "ResetState vm = vm\<lparr>registers := replicate (length (registers vm)) 0,
     saved_values := replicate (length (saved_values vm)) 0,
     loop_tops := replicate (length (loop_tops vm)) 0,
     static_registers := replicate (length (static_registers vm)) 0,
     instruction_ptr := 0, condition_depth := 0, decode_success := True\<rparr>"

definition GetProgramSize :: "DmntCheatVm \<Rightarrow> nat" where
  "GetProgramSize vm = num_opcodes vm"

text \<open>The copy of one definition, for the positions \<open>n\<close>, \<open>n + 1\<close>, ... of \<open>rounds\<close> words.\<close>

primrec LoadProgram_copy :: "nat \<Rightarrow> nat \<Rightarrow> CheatDefinition \<Rightarrow> DmntCheatVm \<Rightarrow> DmntCheatVm option" where
  "LoadProgram_copy 0 n d vm = Some vm"
| "LoadProgram_copy (Suc rounds) n d vm = do {
     dword \<leftarrow> nth_opt (cd_opcodes d) n;
     p \<leftarrow> upd_opt (prog vm) (num_opcodes vm) dword;
     LoadProgram_copy rounds (n + 1) d (vm\<lparr>num_opcodes := num_opcodes vm + 1, prog := p\<rparr>)
   }"

primrec LoadProgram_loop :: "CheatEntry list \<Rightarrow> DmntCheatVm \<Rightarrow> (bool \<times> DmntCheatVm) option" where
  "LoadProgram_loop [] vm = Some (True, vm)"
| "LoadProgram_loop (e # es) vm =
     (if ce_enabled e then
        if unat (cd_num_opcodes (ce_definition e)) + num_opcodes vm > MaximumProgramOpcodeCount then
          Some (False, vm\<lparr>num_opcodes := 0\<rparr>)
        else do {
          vm \<leftarrow> LoadProgram_copy (unat (cd_num_opcodes (ce_definition e))) 0 (ce_definition e) vm;
          LoadProgram_loop es vm
        }
      else LoadProgram_loop es vm)"

definition LoadProgram :: "CheatEntry list \<Rightarrow> DmntCheatVm \<Rightarrow> (bool \<times> DmntCheatVm) option" where
  "LoadProgram entries vm = LoadProgram_loop entries (vm\<lparr>num_opcodes := 0\<rparr>)"

section \<open>Callbacks and logging\<close>

text \<open>
  The interface to the emulator. \<open>cb_MemoryRead\<close> gets the buffer as it is and returns it filled; \<open>'e\<close> is
  the state behind the interface.
\<close>

record 'e Callbacks =
  cb_MemoryRead :: "u64 \<Rightarrow> u8 list \<Rightarrow> 'e \<Rightarrow> (u8 list \<times> 'e) option"
  cb_MemoryWrite :: "u64 \<Rightarrow> u8 list \<Rightarrow> 'e \<Rightarrow> 'e option"
  cb_HidKeysDown :: "'e \<Rightarrow> u64 \<times> 'e"
  cb_DebugLog :: "u8 \<Rightarrow> u64 \<Rightarrow> 'e \<Rightarrow> 'e"
  cb_CommandLog :: "string \<Rightarrow> 'e \<Rightarrow> 'e"

text \<open>The formats \<^verbatim>\<open>{:X}\<close>, \<^verbatim>\<open>{:d}\<close> and \<^verbatim>\<open>{:0nX}\<close> of the \<^verbatim>\<open>fmt\<close> library.\<close>

record Formats =
  fmt_X :: "u64 \<Rightarrow> string"
  fmt_d :: "u64 \<Rightarrow> string"
  fmt_0X :: "nat \<Rightarrow> u64 \<Rightarrow> string"

definition log_X :: "Formats \<Rightarrow> string \<Rightarrow> 'a :: len word \<Rightarrow> string" where
  "log_X F label w = label @ fmt_X F (ucast w)"

definition log_d :: "Formats \<Rightarrow> string \<Rightarrow> bool \<Rightarrow> string" where
  "log_d F label b = label @ fmt_d F (of_bool b)"

definition CommandLogs :: "'e Callbacks \<Rightarrow> string list \<Rightarrow> 'e \<Rightarrow> 'e" where
  "CommandLogs cb = fold (cb_CommandLog cb)"

definition DebugLog :: "'e Callbacks \<Rightarrow> u32 \<Rightarrow> u64 \<Rightarrow> 'e \<Rightarrow> 'e" where
  "DebugLog cb log_id val e = cb_DebugLog cb (ucast log_id) val e"

text \<open>The lines \<^verbatim>\<open>LogOpcode\<close> sends to \<^verbatim>\<open>CommandLog\<close>, in their order.\<close>

definition log_StoreRegister_offset :: "Formats \<Rightarrow> u32 \<Rightarrow> u32 \<Rightarrow> u32 \<Rightarrow> u64 \<Rightarrow> string list" where
  "log_StoreRegister_offset F ofs_type mem_type ofs_reg_index rel_address =
     (if ofs_type = Ofs_None then []
      else if ofs_type = Ofs_Reg then [log_X F ''O Reg Idx: '' ofs_reg_index]
      else if ofs_type = Ofs_Imm then [log_X F ''Rel Addr:  '' rel_address]
      else if ofs_type = Ofs_MemReg then [log_X F ''Mem Type:  '' mem_type]
      else if ofs_type = Ofs_MemImm \<or> ofs_type = Ofs_MemImmReg then
        [log_X F ''Mem Type:  '' mem_type, log_X F ''Rel Addr:  '' rel_address]
      else [])"

definition log_compare ::
  "Formats \<Rightarrow> u32 \<Rightarrow> u32 \<Rightarrow> u32 \<Rightarrow> u32 \<Rightarrow> u32 \<Rightarrow> u64 \<Rightarrow> u64 \<Rightarrow> string list" where
  "log_compare F comp_type mem_type addr_reg_index other_reg_index ofs_reg_index rel_address val =
     (if comp_type = Comp_StaticValue then
        [''Comp Type: Static Value'', log_X F ''Value:     '' val]
      else if comp_type = Comp_OtherRegister then
        [''Comp Type: Other Register'', log_X F ''X Reg Idx: '' other_reg_index]
      else if comp_type = Comp_MemoryRelAddr then
        [''Comp Type: Memory Relative Address'', log_X F ''Mem Type:  '' mem_type, log_X F ''Rel Addr:  '' rel_address]
      else if comp_type = Comp_MemoryOfsReg then
        [''Comp Type: Memory Offset Register'', log_X F ''Mem Type:  '' mem_type, log_X F ''O Reg Idx: '' ofs_reg_index]
      else if comp_type = Comp_RegisterRelAddr then
        [''Comp Type: Register Relative Address'', log_X F ''A Reg Idx: '' addr_reg_index, log_X F ''Rel Addr:  '' rel_address]
      else if comp_type = Comp_RegisterOfsReg then
        [''Comp Type: Register Offset Register'', log_X F ''A Reg Idx: '' addr_reg_index, log_X F ''O Reg Idx: '' ofs_reg_index]
      else [])"

definition log_value_type ::
  "Formats \<Rightarrow> u32 \<Rightarrow> u32 \<Rightarrow> u32 \<Rightarrow> u32 \<Rightarrow> u32 \<Rightarrow> u64 \<Rightarrow> string list" where
  "log_value_type F val_type mem_type addr_reg_index val_reg_index ofs_reg_index rel_address =
     (if val_type = Log_RegisterValue then
        [''Val Type:  Register Value'', log_X F ''X Reg Idx: '' val_reg_index]
      else if val_type = Log_MemoryRelAddr then
        [''Val Type:  Memory Relative Address'', log_X F ''Mem Type:  '' mem_type, log_X F ''Rel Addr:  '' rel_address]
      else if val_type = Log_MemoryOfsReg then
        [''Val Type:  Memory Offset Register'', log_X F ''Mem Type:  '' mem_type, log_X F ''O Reg Idx: '' ofs_reg_index]
      else if val_type = Log_RegisterRelAddr then
        [''Val Type:  Register Relative Address'', log_X F ''A Reg Idx: '' addr_reg_index, log_X F ''Rel Addr:  '' rel_address]
      else if val_type = Log_RegisterOfsReg then
        [''Val Type:  Register Offset Register'', log_X F ''A Reg Idx: '' addr_reg_index, log_X F ''O Reg Idx: '' ofs_reg_index]
      else [])"

fun LogOpcode :: "Formats \<Rightarrow> Opcode \<Rightarrow> string list" where
  "LogOpcode F (StoreStatic bit_width mem_type offset_register rel_address val) =
     [''Opcode: Store Static'', log_X F ''Bit Width: '' bit_width, log_X F ''Mem Type:  '' mem_type,
      log_X F ''Reg Idx:   '' offset_register, log_X F ''Rel Addr:  '' rel_address, log_X F ''Value:     '' val]"
| "LogOpcode F (BeginConditional bit_width mem_type cond_type rel_address val) =
     [''Opcode: Begin Conditional'', log_X F ''Bit Width: '' bit_width, log_X F ''Mem Type:  '' mem_type,
      log_X F ''Cond Type: '' cond_type, log_X F ''Rel Addr:  '' rel_address, log_X F ''Value:     '' val]"
| "LogOpcode F EndConditional = [''Opcode: End Conditional'']"
| "LogOpcode F (ControlLoop start_loop reg_index num_iters) =
     (if start_loop then
        [''Opcode: Start Loop'', log_X F ''Reg Idx:   '' reg_index, log_X F ''Num Iters: '' num_iters]
      else [''Opcode: End Loop'', log_X F ''Reg Idx:   '' reg_index])"
| "LogOpcode F (LoadRegisterStatic reg_index val) =
     [''Opcode: Load Register Static'', log_X F ''Reg Idx:   '' reg_index, log_X F ''Value:     '' val]"
| "LogOpcode F (LoadRegisterMemory bit_width mem_type reg_index load_from_reg rel_address) =
     [''Opcode: Load Register Memory'', log_X F ''Bit Width: '' bit_width, log_X F ''Reg Idx:   '' reg_index,
      log_X F ''Mem Type:  '' mem_type, log_d F ''From Reg:  '' load_from_reg, log_X F ''Rel Addr:  '' rel_address]"
| "LogOpcode F (StoreStaticToAddress bit_width reg_index increment_reg add_offset_reg offset_reg_index val) =
     [''Opcode: Store Static to Address'', log_X F ''Bit Width: '' bit_width, log_X F ''Reg Idx:   '' reg_index]
     @ (if add_offset_reg then [log_X F ''O Reg Idx: '' offset_reg_index] else [])
     @ [log_d F ''Incr Reg:  '' increment_reg, log_X F ''Value:     '' val]"
| "LogOpcode F (PerformArithmeticStatic bit_width reg_index math_type val) =
     [''Opcode: Perform Static Arithmetic'', log_X F ''Bit Width: '' bit_width, log_X F ''Reg Idx:   '' reg_index,
      log_X F ''Math Type: '' math_type, log_X F ''Value:     '' val]"
| "LogOpcode F (BeginKeypressConditional key_mask) =
     [''Opcode: Begin Keypress Conditional'', log_X F ''Key Mask:  '' key_mask]"
| "LogOpcode F (PerformArithmeticRegister bit_width math_type dst_reg_index src_reg_1_index src_reg_2_index has_immediate val) =
     [''Opcode: Perform Register Arithmetic'', log_X F ''Bit Width: '' bit_width,
      log_X F ''Dst Idx:   '' dst_reg_index, log_X F ''Src1 Idx:  '' src_reg_1_index,
      if has_immediate then log_X F ''Value:     '' val else log_X F ''Src2 Idx:  '' src_reg_2_index]"
| "LogOpcode F (StoreRegisterToAddress bit_width str_reg_index addr_reg_index increment_reg ofs_type mem_type ofs_reg_index rel_address) =
     [''Opcode: Store Register to Address'', log_X F ''Bit Width: '' bit_width, log_X F ''S Reg Idx: '' str_reg_index,
      log_X F ''A Reg Idx: '' addr_reg_index, log_d F ''Incr Reg:  '' increment_reg]
     @ log_StoreRegister_offset F ofs_type mem_type ofs_reg_index rel_address"
| "LogOpcode F (BeginRegisterConditional bit_width cond_type val_reg_index comp_type mem_type addr_reg_index other_reg_index ofs_reg_index rel_address val) =
     [''Opcode: Begin Register Conditional'', log_X F ''Bit Width: '' bit_width, log_X F ''Cond Type: '' cond_type,
      log_X F ''V Reg Idx: '' val_reg_index]
     @ log_compare F comp_type mem_type addr_reg_index other_reg_index ofs_reg_index rel_address val"
| "LogOpcode F (SaveRestoreRegister dst_index src_index op_type) =
     [''Opcode: Save or Restore Register'', log_X F ''Dst Idx:   '' dst_index, log_X F ''Src Idx:   '' src_index,
      ''Op Type:   '' @ fmt_d F (ucast op_type)]"
| "LogOpcode F (SaveRestoreRegisterMask op_type should_operate) =
     [''Opcode: Save or Restore Register Mask'', ''Op Type:   '' @ fmt_d F (ucast op_type)]
     @ map (\<lambda>i. log_d F (''Act['' @ fmt_0X F 2 (of_nat i) @ '']:   '') (should_operate ! i)) [0 ..< NumRegisters]"
| "LogOpcode F (ReadWriteStaticRegister static_idx idx) =
     [''Opcode: Read/Write Static Register'',
      if unat static_idx < NumReadableStaticRegisters then ''Op Type: ReadStaticRegister''
      else ''Op Type: WriteStaticRegister'',
      log_X F ''Reg Idx   '' idx, log_X F ''Stc Idx   '' static_idx]"
| "LogOpcode F (DebugLogOp bit_width log_id val_type mem_type addr_reg_index val_reg_index ofs_reg_index rel_address) =
     [''Opcode: Debug Log'', log_X F ''Bit Width: '' bit_width, log_X F ''Log ID:    '' log_id,
      log_X F ''Val Type:  '' val_type]
     @ log_value_type F val_type mem_type addr_reg_index val_reg_index ofs_reg_index rel_address"
| "LogOpcode F (UnrecognizedInstruction op) = [log_X F ''Unknown opcode: '' op]"

section \<open>Execution\<close>

definition reg :: "DmntCheatVm \<Rightarrow> u32 \<Rightarrow> u64 option" where
  "reg vm i = nth_opt (registers vm) (unat i)"

definition set_reg :: "u32 \<Rightarrow> u64 \<Rightarrow> DmntCheatVm \<Rightarrow> DmntCheatVm option" where
  "set_reg i val vm = do {
     rs \<leftarrow> upd_opt (registers vm) (unat i) val;
     Some (vm\<lparr>registers := rs\<rparr>)
   }"

text \<open>The widths of the \<^verbatim>\<open>case\<close> labels 1, 2, 4 and 8, and the truncations to them.\<close>

definition valid_width :: "u32 \<Rightarrow> bool" where
  "valid_width bit_width \<longleftrightarrow> bit_width = 1 \<or> bit_width = 2 \<or> bit_width = 4 \<or> bit_width = 8"

definition apply_width :: "u32 \<Rightarrow> u64 \<Rightarrow> u64" where
  "apply_width bit_width val =
     (if bit_width = 1 then ucast (ucast val :: u8)
      else if bit_width = 2 then ucast (ucast val :: u16)
      else if bit_width = 4 then ucast (ucast val :: u32)
      else val)"

definition masked_width :: "u32 \<Rightarrow> u64 \<Rightarrow> u64" where
  "masked_width bit_width val =
     (if bit_width = 1 then ucast (ucast (val AND 0xFF) :: u8)
      else if bit_width = 2 then ucast (ucast (val AND 0xFFFF) :: u16)
      else if bit_width = 4 then ucast (ucast (val AND 0xFFFFFFFF) :: u32)
      else if bit_width = 8 then val AND 0xFFFFFFFFFFFFFFFF
      else 0)"

text \<open>
  A transfer of the lowest \<open>bit_width\<close> bytes of a 64-bit variable on a little-endian host. A read leaves the
  other bytes of the variable as they are.
\<close>

definition write_var :: "'e Callbacks \<Rightarrow> u64 \<Rightarrow> u64 \<Rightarrow> u32 \<Rightarrow> 'e \<Rightarrow> 'e option" where
  "write_var cb address var bit_width e =
     (if valid_width bit_width then cb_MemoryWrite cb address (take (unat bit_width) (to_bytes var)) e
      else Some e)"

definition read_var :: "'e Callbacks \<Rightarrow> u64 \<Rightarrow> u64 \<Rightarrow> u32 \<Rightarrow> 'e \<Rightarrow> (u64 \<times> 'e) option" where
  "read_var cb address var bit_width e =
     (if valid_width bit_width then do {
        (data, e) \<leftarrow> cb_MemoryRead cb address (take (unat bit_width) (to_bytes var)) e;
        Some (from_bytes (data @ drop (unat bit_width) (to_bytes var)), e)
      }
      else Some (var, e))"

definition check_condition :: "u32 \<Rightarrow> u64 \<Rightarrow> u64 \<Rightarrow> bool" where
  "check_condition cond_type src_value cond_value \<longleftrightarrow>
     (if cond_type = Cond_GT then src_value > cond_value
      else if cond_type = Cond_GE then src_value \<ge> cond_value
      else if cond_type = Cond_LT then src_value < cond_value
      else if cond_type = Cond_LE then src_value \<le> cond_value
      else if cond_type = Cond_EQ then src_value = cond_value
      else if cond_type = Cond_NE then src_value \<noteq> cond_value
      else False)"

type_synonym 'e Vm = "DmntCheatVm \<times> 'e"

definition exec_StoreStatic ::
  "'e Callbacks \<Rightarrow> CheatProcessMetadata \<Rightarrow> u32 \<Rightarrow> u32 \<Rightarrow> u32 \<Rightarrow> u64 \<Rightarrow> u64 \<Rightarrow> 'e Vm \<Rightarrow> 'e Vm option" where
  "exec_StoreStatic cb metadata bit_width mem_type offset_register rel_address val s = (let (vm, e) = s in do {
     offset \<leftarrow> reg vm offset_register;
     let dst_address = GetCheatProcessAddress metadata mem_type (rel_address + offset);
     let dst_value = GetVmInt val bit_width;
     e \<leftarrow> write_var cb dst_address dst_value bit_width e;
     Some (vm, e)
   })"

text \<open>
  The conditional on memory reads \<^verbatim>\<open>store_static->bit_width\<close> to decide whether to load the operand.
  \<open>store_static\<close> is what \<^verbatim>\<open>get_if\<close> returned for the first alternative, in this branch the null pointer.
\<close>

definition exec_BeginConditional ::
  "'e Callbacks \<Rightarrow> CheatProcessMetadata \<Rightarrow> u32 option \<Rightarrow> u32 \<Rightarrow> u32 \<Rightarrow> u32 \<Rightarrow> u64 \<Rightarrow> u64 \<Rightarrow> 'e Vm \<Rightarrow> 'e Vm option" where
  "exec_BeginConditional cb metadata store_static_bit_width bit_width mem_type cond_type rel_address val s =
     (let (vm, e) = s in do {
        let src_address = GetCheatProcessAddress metadata mem_type rel_address;
        store_bit_width \<leftarrow> store_static_bit_width;
        (src_value, e) \<leftarrow> (if valid_width store_bit_width then do {
            (data, e) \<leftarrow> cb_MemoryRead cb src_address (take (unat bit_width) (to_bytes (0 :: u64))) e;
            Some (from_bytes (data @ drop (unat bit_width) (to_bytes (0 :: u64))), e)
          } else Some (0, e));
        let cond_value = GetVmInt val bit_width;
        vm \<leftarrow> (if check_condition cond_type src_value cond_value then Some vm else SkipConditionalBlock vm);
        Some (vm, e)
      })"

definition exec_EndConditional :: "DmntCheatVm \<Rightarrow> DmntCheatVm" where
  "exec_EndConditional vm =
     (if condition_depth vm > 0 then vm\<lparr>condition_depth := condition_depth vm - 1\<rparr> else vm)"

definition exec_ControlLoop :: "bool \<Rightarrow> u32 \<Rightarrow> u32 \<Rightarrow> DmntCheatVm \<Rightarrow> DmntCheatVm option" where
  "exec_ControlLoop start_loop reg_index num_iters vm =
     (if start_loop then do {
        vm \<leftarrow> set_reg reg_index (ucast num_iters) vm;
        tops \<leftarrow> upd_opt (loop_tops vm) (unat reg_index) (instruction_ptr vm);
        Some (vm\<lparr>loop_tops := tops\<rparr>)
      }
      else do {
        count \<leftarrow> reg vm reg_index;
        vm \<leftarrow> set_reg reg_index (count - 1) vm;
        count \<leftarrow> reg vm reg_index;
        if count \<noteq> 0 then do {
          top \<leftarrow> nth_opt (loop_tops vm) (unat reg_index);
          Some (vm\<lparr>instruction_ptr := top\<rparr>)
        }
        else Some vm
      })"

definition exec_LoadRegisterMemory ::
  "'e Callbacks \<Rightarrow> CheatProcessMetadata \<Rightarrow> u32 \<Rightarrow> u32 \<Rightarrow> u32 \<Rightarrow> bool \<Rightarrow> u64 \<Rightarrow> 'e Vm \<Rightarrow> 'e Vm option" where
  "exec_LoadRegisterMemory cb metadata bit_width mem_type reg_index load_from_reg rel_address s = (let (vm, e) = s in do {
     src_address \<leftarrow> (if load_from_reg then do {
         base \<leftarrow> reg vm reg_index;
         Some (base + rel_address)
       } else Some (GetCheatProcessAddress metadata mem_type rel_address));
     if valid_width bit_width then do {
       var \<leftarrow> reg vm reg_index;
       (var, e) \<leftarrow> read_var cb src_address var bit_width e;
       vm \<leftarrow> set_reg reg_index var vm;
       Some (vm, e)
     }
     else Some (vm, e)
   })"

definition exec_StoreStaticToAddress ::
  "'e Callbacks \<Rightarrow> u32 \<Rightarrow> u32 \<Rightarrow> bool \<Rightarrow> bool \<Rightarrow> u32 \<Rightarrow> u64 \<Rightarrow> 'e Vm \<Rightarrow> 'e Vm option" where
  "exec_StoreStaticToAddress cb bit_width reg_index increment_reg add_offset_reg offset_reg_index val s =
     (let (vm, e) = s in do {
        base \<leftarrow> reg vm reg_index;
        dst_address \<leftarrow> (if add_offset_reg then do {
            offset \<leftarrow> reg vm offset_reg_index;
            Some (base + offset)
          } else Some base);
        e \<leftarrow> write_var cb dst_address val bit_width e;
        vm \<leftarrow> (if increment_reg then set_reg reg_index (base + ucast bit_width) vm else Some vm);
        Some (vm, e)
      })"

text \<open>A shift of a 64-bit operand is defined for a distance below 64.\<close>

definition shift_left :: "u64 \<Rightarrow> u64 \<Rightarrow> u64 option" where
  "shift_left a b = (if b < 64 then Some (push_bit (unat b) a) else None)"

definition shift_right :: "u64 \<Rightarrow> u64 \<Rightarrow> u64 option" where
  "shift_right a b = (if b < 64 then Some (drop_bit (unat b) a) else None)"

definition exec_PerformArithmeticStatic :: "u32 \<Rightarrow> u32 \<Rightarrow> u32 \<Rightarrow> u32 \<Rightarrow> DmntCheatVm \<Rightarrow> DmntCheatVm option" where
  "exec_PerformArithmeticStatic bit_width reg_index math_type val vm = do {
     operand \<leftarrow> reg vm reg_index;
     result \<leftarrow> (if math_type = Math_Addition then Some (operand + ucast val)
       else if math_type = Math_Subtraction then Some (operand - ucast val)
       else if math_type = Math_Multiplication then Some (operand * ucast val)
       else if math_type = Math_LeftShift then shift_left operand (ucast val)
       else if math_type = Math_RightShift then shift_right operand (ucast val)
       else Some operand);
     set_reg reg_index (apply_width bit_width result) vm
   }"

definition arithmetic :: "u32 \<Rightarrow> u64 \<Rightarrow> u64 \<Rightarrow> u64 option" where
  "arithmetic math_type operand_1_value operand_2_value =
     (if math_type = Math_Addition then Some (operand_1_value + operand_2_value)
      else if math_type = Math_Subtraction then Some (operand_1_value - operand_2_value)
      else if math_type = Math_Multiplication then Some (operand_1_value * operand_2_value)
      else if math_type = Math_LeftShift then shift_left operand_1_value operand_2_value
      else if math_type = Math_RightShift then shift_right operand_1_value operand_2_value
      else if math_type = Math_LogicalAnd then Some (operand_1_value AND operand_2_value)
      else if math_type = Math_LogicalOr then Some (operand_1_value OR operand_2_value)
      else if math_type = Math_LogicalNot then Some (NOT operand_1_value)
      else if math_type = Math_LogicalXor then Some (operand_1_value XOR operand_2_value)
      else if math_type = Math_None then Some operand_1_value
      else Some 0)"

definition exec_PerformArithmeticRegister ::
  "u32 \<Rightarrow> u32 \<Rightarrow> u32 \<Rightarrow> u32 \<Rightarrow> u32 \<Rightarrow> bool \<Rightarrow> u64 \<Rightarrow> DmntCheatVm \<Rightarrow> DmntCheatVm option" where
  "exec_PerformArithmeticRegister bit_width math_type dst_reg_index src_reg_1_index src_reg_2_index has_immediate val vm = do {
     operand_1_value \<leftarrow> reg vm src_reg_1_index;
     operand_2_value \<leftarrow> (if has_immediate then Some (GetVmInt val bit_width) else reg vm src_reg_2_index);
     res_val \<leftarrow> arithmetic math_type operand_1_value operand_2_value;
     set_reg dst_reg_index (apply_width bit_width res_val) vm
   }"

definition exec_StoreRegisterToAddress ::
  "'e Callbacks \<Rightarrow> CheatProcessMetadata \<Rightarrow> u32 \<Rightarrow> u32 \<Rightarrow> u32 \<Rightarrow> bool \<Rightarrow> u32 \<Rightarrow> u32 \<Rightarrow> u32 \<Rightarrow> u64 \<Rightarrow> 'e Vm \<Rightarrow> 'e Vm option" where
  "exec_StoreRegisterToAddress cb metadata bit_width str_reg_index addr_reg_index increment_reg ofs_type mem_type ofs_reg_index rel_address s =
     (let (vm, e) = s in do {
        dst_value \<leftarrow> reg vm str_reg_index;
        base \<leftarrow> reg vm addr_reg_index;
        dst_address \<leftarrow> (if ofs_type = Ofs_None then Some base
          else if ofs_type = Ofs_Reg then do {
            offset \<leftarrow> reg vm ofs_reg_index;
            Some (base + offset)
          }
          else if ofs_type = Ofs_Imm then Some (base + rel_address)
          else if ofs_type = Ofs_MemReg then Some (GetCheatProcessAddress metadata mem_type base)
          else if ofs_type = Ofs_MemImm then Some (GetCheatProcessAddress metadata mem_type rel_address)
          else if ofs_type = Ofs_MemImmReg then
            Some (GetCheatProcessAddress metadata mem_type (base + rel_address))
          else Some base);
        e \<leftarrow> write_var cb dst_address dst_value bit_width e;
        vm \<leftarrow> (if increment_reg then set_reg addr_reg_index (base + ucast bit_width) vm else Some vm);
        Some (vm, e)
      })"

text \<open>
  The operand of a register conditional and of \<^verbatim>\<open>DebugLog\<close> in memory: the four address forms have the same
  numbers in the two enumerations.
\<close>

definition operand_address ::
  "CheatProcessMetadata \<Rightarrow> u32 \<Rightarrow> u32 \<Rightarrow> u32 \<Rightarrow> u32 \<Rightarrow> u64 \<Rightarrow> DmntCheatVm \<Rightarrow> u64 option" where
  "operand_address metadata operand_type mem_type addr_reg_index ofs_reg_index rel_address vm =
     (if operand_type = Comp_MemoryRelAddr then Some (GetCheatProcessAddress metadata mem_type rel_address)
      else if operand_type = Comp_MemoryOfsReg then do {
        offset \<leftarrow> reg vm ofs_reg_index;
        Some (GetCheatProcessAddress metadata mem_type offset)
      }
      else if operand_type = Comp_RegisterRelAddr then do {
        base \<leftarrow> reg vm addr_reg_index;
        Some (base + rel_address)
      }
      else if operand_type = Comp_RegisterOfsReg then do {
        base \<leftarrow> reg vm addr_reg_index;
        offset \<leftarrow> reg vm ofs_reg_index;
        Some (base + offset)
      }
      else Some 0)"

definition exec_BeginRegisterConditional ::
  "'e Callbacks \<Rightarrow> CheatProcessMetadata \<Rightarrow> u32 \<Rightarrow> u32 \<Rightarrow> u32 \<Rightarrow> u32 \<Rightarrow> u32 \<Rightarrow> u32 \<Rightarrow> u32 \<Rightarrow> u32 \<Rightarrow> u64 \<Rightarrow> u64 \<Rightarrow> 'e Vm \<Rightarrow> 'e Vm option" where
  "exec_BeginRegisterConditional cb metadata bit_width cond_type val_reg_index comp_type mem_type
       addr_reg_index other_reg_index ofs_reg_index rel_address val s = (let (vm, e) = s in do {
     src_reg \<leftarrow> reg vm val_reg_index;
     let src_value = masked_width bit_width src_reg;
     (cond_value, e) \<leftarrow> (if comp_type = Comp_StaticValue then Some (GetVmInt val bit_width, e)
       else if comp_type = Comp_OtherRegister then do {
         other \<leftarrow> reg vm other_reg_index;
         Some (masked_width bit_width other, e)
       }
       else do {
         cond_address \<leftarrow> operand_address metadata comp_type mem_type addr_reg_index ofs_reg_index rel_address vm;
         read_var cb cond_address 0 bit_width e
       });
     vm \<leftarrow> (if check_condition cond_type src_value cond_value then Some vm else SkipConditionalBlock vm);
     Some (vm, e)
   })"

definition exec_SaveRestoreRegister :: "u32 \<Rightarrow> u32 \<Rightarrow> u32 \<Rightarrow> DmntCheatVm \<Rightarrow> DmntCheatVm option" where
  "exec_SaveRestoreRegister dst_index src_index op_type vm =
     (if op_type = SR_ClearRegs then set_reg dst_index 0 vm
      else if op_type = SR_ClearSaved then do {
        saved \<leftarrow> upd_opt (saved_values vm) (unat dst_index) 0;
        Some (vm\<lparr>saved_values := saved\<rparr>)
      }
      else if op_type = SR_Save then do {
        val \<leftarrow> reg vm src_index;
        saved \<leftarrow> upd_opt (saved_values vm) (unat dst_index) val;
        Some (vm\<lparr>saved_values := saved\<rparr>)
      }
      else do {
        val \<leftarrow> nth_opt (saved_values vm) (unat src_index);
        set_reg dst_index val vm
      })"

text \<open>The loop over the registers \<open>i\<close>, \<open>i + 1\<close>, ... of \<open>rounds\<close> rounds, on the arrays \<open>src\<close> and \<open>dst\<close>.\<close>

primrec register_mask_loop ::
  "nat \<Rightarrow> nat \<Rightarrow> u32 \<Rightarrow> bool list \<Rightarrow> u64 list \<Rightarrow> u64 list \<Rightarrow> u64 list option" where
  "register_mask_loop 0 i op_type should_operate src dst = Some dst"
| "register_mask_loop (Suc rounds) i op_type should_operate src dst = do {
     operate \<leftarrow> nth_opt should_operate i;
     dst \<leftarrow> (if operate then
         if op_type = SR_ClearSaved \<or> op_type = SR_ClearRegs then upd_opt dst i 0
         else do {
           val \<leftarrow> nth_opt src i;
           upd_opt dst i val
         }
       else Some dst);
     register_mask_loop rounds (i + 1) op_type should_operate src dst
   }"

definition exec_SaveRestoreRegisterMask :: "u32 \<Rightarrow> bool list \<Rightarrow> DmntCheatVm \<Rightarrow> DmntCheatVm option" where
  "exec_SaveRestoreRegisterMask op_type should_operate vm =
     (if op_type = SR_ClearSaved \<or> op_type = SR_Save then do {
        saved \<leftarrow> register_mask_loop NumRegisters 0 op_type should_operate (registers vm) (saved_values vm);
        Some (vm\<lparr>saved_values := saved\<rparr>)
      }
      else do {
        rs \<leftarrow> register_mask_loop NumRegisters 0 op_type should_operate (saved_values vm) (registers vm);
        Some (vm\<lparr>registers := rs\<rparr>)
      })"

definition exec_ReadWriteStaticRegister :: "u32 \<Rightarrow> u32 \<Rightarrow> DmntCheatVm \<Rightarrow> DmntCheatVm option" where
  "exec_ReadWriteStaticRegister static_idx idx vm =
     (if unat static_idx < NumReadableStaticRegisters then do {
        val \<leftarrow> nth_opt (static_registers vm) (unat static_idx);
        set_reg idx val vm
      }
      else do {
        val \<leftarrow> reg vm idx;
        statics \<leftarrow> upd_opt (static_registers vm) (unat static_idx) val;
        Some (vm\<lparr>static_registers := statics\<rparr>)
      })"

definition exec_DebugLog ::
  "'e Callbacks \<Rightarrow> CheatProcessMetadata \<Rightarrow> u32 \<Rightarrow> u32 \<Rightarrow> u32 \<Rightarrow> u32 \<Rightarrow> u32 \<Rightarrow> u32 \<Rightarrow> u32 \<Rightarrow> u64 \<Rightarrow> 'e Vm \<Rightarrow> 'e Vm option" where
  "exec_DebugLog cb metadata bit_width log_id val_type mem_type addr_reg_index val_reg_index ofs_reg_index rel_address s =
     (let (vm, e) = s in do {
        (log_value, e) \<leftarrow> (if val_type = Log_RegisterValue then do {
            val \<leftarrow> reg vm val_reg_index;
            Some (masked_width bit_width val, e)
          }
          else do {
            val_address \<leftarrow> operand_address metadata val_type mem_type addr_reg_index ofs_reg_index rel_address vm;
            read_var cb val_address 0 bit_width e
          });
        Some (vm, DebugLog cb log_id log_value e)
      })"

text \<open>
  The chain of alternatives in the loop of \<^verbatim>\<open>Execute\<close>. An instruction that touches only the machine
  leaves the state of the callbacks alone.
\<close>

definition on_vm :: "(DmntCheatVm \<Rightarrow> DmntCheatVm option) \<Rightarrow> 'e Vm \<Rightarrow> 'e Vm option" where
  "on_vm f s = (let (vm, e) = s in do { vm \<leftarrow> f vm; Some (vm, e) })"

fun exec_opcode :: "'e Callbacks \<Rightarrow> CheatProcessMetadata \<Rightarrow> u64 \<Rightarrow> Opcode \<Rightarrow> 'e Vm \<Rightarrow> 'e Vm option" where
  "exec_opcode cb metadata kDown (StoreStatic bit_width mem_type offset_register rel_address val) s =
     exec_StoreStatic cb metadata bit_width mem_type offset_register rel_address val s"
| "exec_opcode cb metadata kDown (BeginConditional bit_width mem_type cond_type rel_address val) s =
     exec_BeginConditional cb metadata None bit_width mem_type cond_type rel_address val s"
| "exec_opcode cb metadata kDown EndConditional s = on_vm (\<lambda>vm. Some (exec_EndConditional vm)) s"
| "exec_opcode cb metadata kDown (ControlLoop start_loop reg_index num_iters) s =
     on_vm (exec_ControlLoop start_loop reg_index num_iters) s"
| "exec_opcode cb metadata kDown (LoadRegisterStatic reg_index val) s = on_vm (set_reg reg_index val) s"
| "exec_opcode cb metadata kDown (LoadRegisterMemory bit_width mem_type reg_index load_from_reg rel_address) s =
     exec_LoadRegisterMemory cb metadata bit_width mem_type reg_index load_from_reg rel_address s"
| "exec_opcode cb metadata kDown (StoreStaticToAddress bit_width reg_index increment_reg add_offset_reg offset_reg_index val) s =
     exec_StoreStaticToAddress cb bit_width reg_index increment_reg add_offset_reg offset_reg_index val s"
| "exec_opcode cb metadata kDown (PerformArithmeticStatic bit_width reg_index math_type val) s =
     on_vm (exec_PerformArithmeticStatic bit_width reg_index math_type val) s"
| "exec_opcode cb metadata kDown (BeginKeypressConditional key_mask) s =
     on_vm (\<lambda>vm. if ucast key_mask AND kDown \<noteq> ucast key_mask then SkipConditionalBlock vm else Some vm) s"
| "exec_opcode cb metadata kDown (PerformArithmeticRegister bit_width math_type dst src_1 src_2 has_immediate val) s =
     on_vm (exec_PerformArithmeticRegister bit_width math_type dst src_1 src_2 has_immediate val) s"
| "exec_opcode cb metadata kDown (StoreRegisterToAddress bit_width str addr increment_reg ofs_type mem_type ofs rel_address) s =
     exec_StoreRegisterToAddress cb metadata bit_width str addr increment_reg ofs_type mem_type ofs rel_address s"
| "exec_opcode cb metadata kDown (BeginRegisterConditional bit_width cond_type val_reg comp_type mem_type addr other ofs rel_address val) s =
     exec_BeginRegisterConditional cb metadata bit_width cond_type val_reg comp_type mem_type addr other ofs rel_address val s"
| "exec_opcode cb metadata kDown (SaveRestoreRegister dst_index src_index op_type) s =
     on_vm (exec_SaveRestoreRegister dst_index src_index op_type) s"
| "exec_opcode cb metadata kDown (SaveRestoreRegisterMask op_type should_operate) s =
     on_vm (exec_SaveRestoreRegisterMask op_type should_operate) s"
| "exec_opcode cb metadata kDown (ReadWriteStaticRegister static_idx idx) s =
     on_vm (exec_ReadWriteStaticRegister static_idx idx) s"
| "exec_opcode cb metadata kDown (DebugLogOp bit_width log_id val_type mem_type addr val_reg ofs rel_address) s =
     exec_DebugLog cb metadata bit_width log_id val_type mem_type addr val_reg ofs rel_address s"
| "exec_opcode cb metadata kDown (UnrecognizedInstruction op) s = Some s"

definition log_state :: "Formats \<Rightarrow> DmntCheatVm \<Rightarrow> string list" where
  "log_state F vm = (''Instruction Ptr: '' @ fmt_0X F 4 (of_nat (instruction_ptr vm)))
     # map (\<lambda>i. ''Registers['' @ fmt_0X F 2 (of_nat i) @ '']: '' @ fmt_0X F 16 (registers vm ! i)) [0 ..< NumRegisters]
     @ map (\<lambda>i. ''SavedRegs['' @ fmt_0X F 2 (of_nat i) @ '']: '' @ fmt_0X F 16 (saved_values vm ! i)) [0 ..< NumRegisters]"

text \<open>One round of the loop after an instruction was decoded, and the loop.\<close>

definition Execute_round ::
  "Formats \<Rightarrow> 'e Callbacks \<Rightarrow> CheatProcessMetadata \<Rightarrow> u64 \<Rightarrow> CheatVmOpcode \<Rightarrow> 'e Vm \<Rightarrow> 'e Vm option" where
  "Execute_round F cb metadata kDown cur_opcode s = (let (vm, e) = s;
       e = CommandLogs cb (log_state F vm @ LogOpcode F (opcode cur_opcode)) e;
       vm = (if begin_conditional_block cur_opcode then vm\<lparr>condition_depth := condition_depth vm + 1\<rparr> else vm)
     in exec_opcode cb metadata kDown (opcode cur_opcode) (vm, e))"

partial_function (option) Execute_loop ::
  "Formats \<Rightarrow> 'e Callbacks \<Rightarrow> CheatProcessMetadata \<Rightarrow> u64 \<Rightarrow> 'e Vm \<Rightarrow> 'e Vm option" where
  [code]: "Execute_loop F cb metadata kDown s = do {
     (out, vm) \<leftarrow> DecodeNextOpcode (fst s);
     case out of None \<Rightarrow> Some (vm, snd s)
     | Some cur_opcode \<Rightarrow> do {
         s \<leftarrow> Execute_round F cb metadata kDown cur_opcode (vm, snd s);
         Execute_loop F cb metadata kDown s
       }
   }"

definition Execute ::
  "Formats \<Rightarrow> 'e Callbacks \<Rightarrow> CheatProcessMetadata \<Rightarrow> 'e Vm \<Rightarrow> 'e Vm option" where
  "Execute F cb metadata s = (let (vm, e) = s; (kDown, e) = cb_HidKeysDown cb e;
       main_base = ex_base (md_main_nso_extents metadata);
       e = CommandLogs cb [''Started VM execution.'', ''Main NSO:  '' @ fmt_0X F 12 main_base,
             ''Heap:      '' @ fmt_0X F 12 main_base,
             ''Keys Down: '' @ fmt_0X F 8 (ucast (ucast (kDown AND 0x0FFFFFFF) :: u32))] e
     in Execute_loop F cb metadata kDown (ResetState vm, e))"

end
