(* ===== verification/Cheat_VM_Correct.thy ===== *)
theory Cheat_VM_Correct
  imports Cheat_VM
begin

text \<open>
  Correctness of the virtual machine for cheat codes: decoding never leaves the program, skipping a block stops
  behind its matching end, the arrays keep their sizes and no instruction leaves them, a program without loops
  comes to an end, and loading concatenates the enabled cheats.
\<close>

section \<open>Executions that are defined\<close>

text \<open>\<open>yields m P\<close>: the execution \<open>m\<close> is defined, with a result that satisfies \<open>P\<close>.\<close>

definition yields :: "'a option \<Rightarrow> ('a \<Rightarrow> bool) \<Rightarrow> bool" where
  "yields m P \<longleftrightarrow> (\<exists>x. m = Some x \<and> P x)"

lemma yields_Some [simp]: "yields (Some x) P \<longleftrightarrow> P x"
  by (simp add: yields_def)

lemma yields_None [simp]: "\<not> yields None P"
  by (simp add: yields_def)

lemma yields_bind: "yields (Option.bind m f) P \<longleftrightarrow> yields m (\<lambda>x. yields (f x) P)"
  by (cases m) simp_all

lemma yields_if [simp]: "yields (if b then m else n) P \<longleftrightarrow> (if b then yields m P else yields n P)"
  by simp

lemma yields_mono: "yields m P \<Longrightarrow> (\<And>x. P x \<Longrightarrow> Q x) \<Longrightarrow> yields m Q"
  by (auto simp: yields_def)

lemma yields_nth_opt [simp]: "yields (nth_opt xs i) P \<longleftrightarrow> i < length xs \<and> P (xs ! i)"
  by (auto simp: yields_def nth_opt_def)

lemma yields_upd_opt [simp]: "yields (upd_opt xs i x) P \<longleftrightarrow> i < length xs \<and> P (xs[i := x])"
  by (auto simp: yields_def upd_opt_def)

section \<open>The invariant of the machine\<close>

definition vm_ok :: "DmntCheatVm \<Rightarrow> bool" where
  "vm_ok vm \<longleftrightarrow> length (prog vm) = MaximumProgramOpcodeCount \<and> num_opcodes vm \<le> MaximumProgramOpcodeCount \<and>
     instruction_ptr vm \<le> num_opcodes vm \<and> length (registers vm) = NumRegisters \<and>
     length (saved_values vm) = NumRegisters \<and> length (static_registers vm) = NumStaticRegisters \<and>
     length (loop_tops vm) = NumRegisters \<and> (\<forall>t \<in> set (loop_tops vm). t \<le> num_opcodes vm)"

definition small :: "u32 \<Rightarrow> bool" where
  "small i \<longleftrightarrow> unat i < NumRegisters"

text \<open>The register numbers of a decoded instruction are in range.\<close>

fun opcode_ok :: "Opcode \<Rightarrow> bool" where
  "opcode_ok (StoreStatic bit_width mem_type offset_register rel_address val) \<longleftrightarrow> small offset_register"
| "opcode_ok (ControlLoop start_loop reg_index num_iters) \<longleftrightarrow> small reg_index"
| "opcode_ok (LoadRegisterStatic reg_index val) \<longleftrightarrow> small reg_index"
| "opcode_ok (LoadRegisterMemory bit_width mem_type reg_index load_from_reg rel_address) \<longleftrightarrow> small reg_index"
| "opcode_ok (StoreStaticToAddress bit_width reg_index increment_reg add_offset_reg offset_reg_index val) \<longleftrightarrow>
     small reg_index \<and> small offset_reg_index"
| "opcode_ok (PerformArithmeticStatic bit_width reg_index math_type val) \<longleftrightarrow> small reg_index"
| "opcode_ok (PerformArithmeticRegister bit_width math_type dst src_1 src_2 has_immediate val) \<longleftrightarrow>
     small dst \<and> small src_1 \<and> small src_2"
| "opcode_ok (StoreRegisterToAddress bit_width str addr increment_reg ofs_type mem_type ofs rel_address) \<longleftrightarrow>
     small str \<and> small addr \<and> small ofs"
| "opcode_ok (BeginRegisterConditional bit_width cond_type val_reg comp_type mem_type addr other ofs rel_address val) \<longleftrightarrow>
     small val_reg \<and> small addr \<and> small other \<and> small ofs"
| "opcode_ok (SaveRestoreRegister dst_index src_index op_type) \<longleftrightarrow> small dst_index \<and> small src_index"
| "opcode_ok (SaveRestoreRegisterMask op_type should_operate) \<longleftrightarrow> length should_operate = NumRegisters"
| "opcode_ok (ReadWriteStaticRegister static_idx idx) \<longleftrightarrow> unat static_idx < NumStaticRegisters \<and> small idx"
| "opcode_ok (DebugLogOp bit_width log_id val_type mem_type addr val_reg ofs rel_address) \<longleftrightarrow>
     small addr \<and> small val_reg \<and> small ofs"
| "opcode_ok (UnrecognizedInstruction op) \<longleftrightarrow> False"
| "opcode_ok _ \<longleftrightarrow> True"

fun is_begin :: "Opcode \<Rightarrow> bool" where
  "is_begin (BeginConditional _ _ _ _ _) = True"
| "is_begin (BeginKeypressConditional _) = True"
| "is_begin (BeginRegisterConditional _ _ _ _ _ _ _ _ _ _) = True"
| "is_begin _ = False"

section \<open>Decoding\<close>

lemma small_nibble [simp]: "small (nibble k w)"
proof -
  have "unat (drop_bit k w AND 0xF) \<le> unat (0xF :: u32)"
    using word_and_le1[of "drop_bit k w" "0xF"] by (simp add: word_le_nat_alt)
  then show ?thesis by (simp add: small_def nibble_def NumRegisters_def)
qed

lemma small_and [simp]: "small (w AND 0xF)"
  using small_nibble[of 0 w] by (simp add: nibble_def)

lemma small_0 [simp]: "small 0"
  by (simp add: small_def NumRegisters_def)

lemma static_index: "unat (w AND 0xFF :: u32) < NumStaticRegisters"
proof -
  have "unat (w AND 0xFF) \<le> unat (0xFF :: u32)"
    using word_and_le1[of w "0xFF"] by (simp add: word_le_nat_alt)
  then show ?thesis
    by (simp add: NumStaticRegisters_def NumReadableStaticRegisters_def NumWritableStaticRegisters_def)
qed

text \<open>What reading words of an instruction does to the decoder.\<close>

definition advanced :: "Decoder \<Rightarrow> Decoder \<Rightarrow> bool" where
  "advanced s s' \<longleftrightarrow> (\<exists>ip. fst s' = (fst s)\<lparr>instruction_ptr := ip\<rparr> \<and> instruction_ptr (fst s) \<le> ip \<and>
     ip \<le> num_opcodes (fst s)) \<and> (snd s' \<longrightarrow> snd s)"

lemma advanced_refl [simp]: "vm_ok (fst s) \<Longrightarrow> advanced s s"
  by (auto simp: advanced_def vm_ok_def intro!: exI[of _ "instruction_ptr (fst s)"])

lemma advanced_trans: "advanced s s' \<Longrightarrow> advanced s' s'' \<Longrightarrow> advanced s s''"
  by (auto simp: advanced_def)

lemma advanced_ok: "advanced s s' \<Longrightarrow> vm_ok (fst s) \<Longrightarrow> vm_ok (fst s')"
  by (auto simp: advanced_def vm_ok_def)

lemma advanced_invalid: "vm_ok vm \<Longrightarrow> advanced (vm, v) (vm, False)"
  by (auto simp: advanced_def vm_ok_def intro!: exI[of _ "instruction_ptr vm"])

lemma GetNextDword_advances:
  assumes "vm_ok (fst s)"
  shows "yields (GetNextDword s) (\<lambda>(w, s'). advanced s s' \<and>
    (snd s' \<longrightarrow> instruction_ptr (fst s) < instruction_ptr (fst s')))"
proof (cases s)
  case (Pair vm v)
  then show ?thesis using assms advanced_invalid[of vm v]
    by (auto simp: GetNextDword_def yields_bind) (auto simp: advanced_def vm_ok_def)
qed
lemma next_dword:
  assumes "vm_ok (fst s)" "\<And>w s'. advanced s s' \<Longrightarrow> vm_ok (fst s') \<Longrightarrow> yields (f w s') P"
  shows "yields (Option.bind (GetNextDword s) (\<lambda>(w, s'). f w s')) P"
  unfolding yields_bind
  by (rule yields_mono[OF GetNextDword_advances[OF assms(1)]]) (use assms advanced_ok in fastforce)

lemma GetNextVmInt_advances:
  assumes "vm_ok (fst s)"
  shows "yields (GetNextVmInt bit_width s) (\<lambda>(val, s'). advanced s s')"
  unfolding GetNextVmInt_def
  by (rule next_dword[OF assms]) (auto intro!: next_dword intro: advanced_trans)

lemma next_vmint:
  assumes "vm_ok (fst s)" "\<And>val s'. advanced s s' \<Longrightarrow> vm_ok (fst s') \<Longrightarrow> yields (f val s') P"
  shows "yields (Option.bind (GetNextVmInt bit_width s) (\<lambda>(val, s'). f val s')) P"
  unfolding yields_bind
  by (rule yields_mono[OF GetNextVmInt_advances[OF assms(1)]]) (use assms advanced_ok in fastforce)

text \<open>A case of the decoder: it advances and delivers a well-formed instruction of the kind \<open>b\<close>.\<close>

definition decodes :: "bool \<Rightarrow> (Decoder \<Rightarrow> (Opcode \<times> Decoder) option) \<Rightarrow> bool" where
  "decodes b f \<longleftrightarrow> (\<forall>s. vm_ok (fst s) \<longrightarrow>
     yields (f s) (\<lambda>(op, s'). advanced s s' \<and> opcode_ok op \<and> is_begin op = b))"

named_theorems decode_cases \<open>the cases of the decoder\<close>

lemma decodes_StoreStatic [decode_cases]: "decodes False (decode_StoreStatic w)"
  by (auto simp: decodes_def decode_StoreStatic_def Let_def intro!: next_dword next_vmint intro: advanced_trans)

lemma decodes_BeginConditional [decode_cases]: "decodes True (decode_BeginConditional w)"
  by (auto simp: decodes_def decode_BeginConditional_def Let_def intro!: next_dword next_vmint intro: advanced_trans)

lemma decodes_ControlLoop [decode_cases]: "decodes False (decode_ControlLoop w)"
  by (auto simp: decodes_def decode_ControlLoop_def Let_def intro!: next_dword intro: advanced_trans)

lemma decodes_LoadRegisterStatic [decode_cases]: "decodes False (decode_LoadRegisterStatic w)"
  by (auto simp: decodes_def decode_LoadRegisterStatic_def intro!: next_dword intro: advanced_trans)

lemma decodes_LoadRegisterMemory [decode_cases]: "decodes False (decode_LoadRegisterMemory w)"
  by (auto simp: decodes_def decode_LoadRegisterMemory_def intro!: next_dword)

lemma decodes_StoreStaticToAddress [decode_cases]: "decodes False (decode_StoreStaticToAddress w)"
  by (auto simp: decodes_def decode_StoreStaticToAddress_def intro!: next_dword intro: advanced_trans)

lemma decodes_PerformArithmeticStatic [decode_cases]: "decodes False (decode_PerformArithmeticStatic w)"
  by (auto simp: decodes_def decode_PerformArithmeticStatic_def intro!: next_dword)

lemma decodes_PerformArithmeticRegister [decode_cases]: "decodes False (decode_PerformArithmeticRegister w)"
  by (auto simp: decodes_def decode_PerformArithmeticRegister_def Let_def intro!: next_vmint)

lemma decodes_StoreRegisterToAddress [decode_cases]: "decodes False (decode_StoreRegisterToAddress w)"
  by (auto simp: decodes_def decode_StoreRegisterToAddress_def Let_def intro!: next_dword)

lemma decodes_BeginRegisterConditional [decode_cases]: "decodes True (decode_BeginRegisterConditional w)"
  by (auto simp: decodes_def decode_BeginRegisterConditional_def Let_def intro!: next_dword next_vmint)

lemma decodes_DebugLog [decode_cases]: "decodes False (decode_DebugLog w)"
  by (auto simp: decodes_def decode_DebugLog_def Let_def intro!: next_dword)

lemma decodesD:
  assumes "decodes b f" "vm_ok (fst s)" "b = c"
  shows "yields (f s) (\<lambda>(op, s'). advanced s s' \<and> (snd s' \<longrightarrow> opcode_ok op) \<and> is_begin op = c)"
proof (rule yields_mono)
  show "yields (f s) (\<lambda>(op, s'). advanced s s' \<and> opcode_ok op \<and> is_begin op = b)"
    using assms(1,2) unfolding decodes_def by blast
qed (use assms(3) in auto)

lemmas decodes_begin = decodesD[OF _ _ refl, of True, simplified]
lemmas decodes_plain = decodesD[OF _ _ refl, of False, simplified]

lemmas Op_defs = Op_StoreStatic_def Op_BeginConditionalBlock_def Op_EndConditionalBlock_def Op_ControlLoop_def
  Op_LoadRegisterStatic_def Op_LoadRegisterMemory_def Op_StoreStaticToAddress_def Op_PerformArithmeticStatic_def
  Op_BeginKeypressConditionalBlock_def Op_PerformArithmeticRegister_def Op_StoreRegisterToAddress_def
  Op_BeginRegisterConditionalBlock_def Op_SaveRestoreRegister_def Op_SaveRestoreRegisterMask_def
  Op_ReadWriteStaticRegister_def Op_DebugLog_def Op_ExtendedWidth_def Op_DoubleExtendedWidth_def

lemma decode_body_advances:
  assumes "vm_ok (fst s)"
  shows "yields (decode_body t w s)
    (\<lambda>(op, s'). advanced s s' \<and> (snd s' \<longrightarrow> opcode_ok op) \<and> is_begin op = begins_block t)"
proof -
  have "advanced s (fst s, False)" using advanced_invalid[OF assms, of "snd s"] by simp
  then show ?thesis
    unfolding decode_body_def
    using assms
    by (auto intro!: decodes_begin decodes_plain decode_cases
        simp: begins_block_def Op_defs decode_SaveRestoreRegisterMask_def static_index)
qed

lemma set_success:
  "decode_success vm \<Longrightarrow> vm\<lparr>instruction_ptr := ip\<rparr> = vm\<lparr>instruction_ptr := ip, decode_success := True\<rparr>"
  by (cases vm) simp

lemma DecodeNextOpcode_yields:
  assumes "vm_ok vm"
  shows "yields (DecodeNextOpcode vm) (\<lambda>(out, vm'). \<exists>ip.
    vm' = vm\<lparr>instruction_ptr := ip, decode_success := out \<noteq> None\<rparr> \<and>
    instruction_ptr vm \<le> ip \<and> ip \<le> num_opcodes vm \<and>
    (\<forall>op. out = Some op \<longrightarrow> decode_success vm \<and> instruction_ptr vm < ip \<and>
       opcode_ok (opcode op) \<and> begin_conditional_block op = is_begin (opcode op)))"
proof -
  obtain w vm1 v where g: "GetNextDword (vm, decode_success vm) = Some (w, vm1, v)"
    and a1: "advanced (vm, decode_success vm) (vm1, v)" and lt: "v \<Longrightarrow> instruction_ptr vm < instruction_ptr vm1"
    using GetNextDword_advances[of "(vm, decode_success vm)"] assms by (auto simp: yields_def)
  show ?thesis
  proof (cases v)
    case False
    then show ?thesis using g a1 by (auto simp: DecodeNextOpcode_def advanced_def)
  next
    case True
    have "vm_ok vm1" using advanced_ok[OF a1] assms by simp
    then obtain op vm2 v2 where b: "decode_body (opcode_type_of w) w (vm1, True) = Some (op, vm2, v2)"
      and a2: "advanced (vm1, True) (vm2, v2)" "v2 \<Longrightarrow> opcode_ok op" "is_begin op = begins_block (opcode_type_of w)"
      using decode_body_advances[of "(vm1, True)" "opcode_type_of w" w] by (auto simp: yields_def)
    then obtain ip where ip: "vm2 = vm\<lparr>instruction_ptr := ip\<rparr>" "instruction_ptr vm1 \<le> ip" "ip \<le> num_opcodes vm"
      and ds: "decode_success vm" "instruction_ptr vm < instruction_ptr vm1"
      using a1 lt True by (auto simp: advanced_def)
    show ?thesis using g b a2(2,3) ds ip(2,3) True set_success[OF ds(1), of ip]
      by (auto simp: DecodeNextOpcode_def Let_def ip(1) intro!: exI[of _ ip])
  qed
qed

section \<open>The instructions of a program\<close>

text \<open>Decoding depends only on the program, the position and the flag: the rest may be that of another machine.\<close>

definition with_state :: "DmntCheatVm \<Rightarrow> DmntCheatVm \<Rightarrow> DmntCheatVm" where
  "with_state t vm = vm\<lparr>condition_depth := condition_depth t, registers := registers t,
     saved_values := saved_values t, static_registers := static_registers t, loop_tops := loop_tops t\<rparr>"

definition state_free :: "(Decoder \<Rightarrow> ('a \<times> Decoder) option) \<Rightarrow> bool" where
  "state_free f \<longleftrightarrow> (\<forall>t vm v. f (with_state t vm, v) = map_option (\<lambda>(x, vm, v). (x, with_state t vm, v)) (f (vm, v)))"

named_theorems state_free_intros \<open>decoding that does not depend on the rest of the state\<close>

lemma state_free_GetNextDword [state_free_intros]: "state_free GetNextDword"
  by (auto simp: state_free_def GetNextDword_def with_state_def nth_opt_def)

lemma state_free_return [state_free_intros]: "state_free (\<lambda>s. Some (x, s))"
  by (simp add: state_free_def)

lemma state_free_invalid [state_free_intros]: "state_free (\<lambda>s. Some (x, fst s, False))"
  by (simp add: state_free_def)

lemma state_free_if [state_free_intros]:
  "state_free f \<Longrightarrow> state_free g \<Longrightarrow> state_free (\<lambda>s. if b then f s else g s)"
  by (simp add: state_free_def)

lemma state_free_bind [state_free_intros]:
  assumes "state_free f" "\<And>x. state_free (g x)"
  shows "state_free (\<lambda>s. Option.bind (f s) (\<lambda>(x, s). g x s))"
  using assms by (auto simp: state_free_def split: bind_split option.split)

lemma state_free_GetNextVmInt [state_free_intros]: "state_free (GetNextVmInt bit_width)"
  unfolding GetNextVmInt_def[abs_def] by (intro state_free_intros)

lemma state_free_decode [state_free_intros]:
  "state_free (decode_StoreStatic w)" "state_free (decode_BeginConditional w)" "state_free (decode_ControlLoop w)"
  "state_free (decode_LoadRegisterStatic w)" "state_free (decode_LoadRegisterMemory w)"
  "state_free (decode_StoreStaticToAddress w)" "state_free (decode_PerformArithmeticStatic w)"
  "state_free (decode_PerformArithmeticRegister w)" "state_free (decode_StoreRegisterToAddress w)"
  "state_free (decode_BeginRegisterConditional w)" "state_free (decode_DebugLog w)"
  unfolding decode_StoreStatic_def[abs_def] decode_BeginConditional_def[abs_def] decode_ControlLoop_def[abs_def]
    decode_LoadRegisterStatic_def[abs_def] decode_LoadRegisterMemory_def[abs_def]
    decode_StoreStaticToAddress_def[abs_def] decode_PerformArithmeticStatic_def[abs_def]
    decode_PerformArithmeticRegister_def[abs_def] decode_StoreRegisterToAddress_def[abs_def]
    decode_BeginRegisterConditional_def[abs_def] decode_DebugLog_def[abs_def] Let_def
  by (intro state_free_intros)+

lemma state_free_decode_body: "state_free (decode_body t w)"
  unfolding decode_body_def[abs_def] by (intro state_free_intros)

lemma DecodeNextOpcode_with_state:
  "DecodeNextOpcode (with_state t vm) = map_option (\<lambda>(out, vm). (out, with_state t vm)) (DecodeNextOpcode vm)"
proof -
  have g: "GetNextDword (with_state t vm, v) =
      map_option (\<lambda>(x, vm, v). (x, with_state t vm, v)) (GetNextDword (vm, v))" for vm v
    using state_free_GetNextDword by (simp add: state_free_def)
  have b: "decode_body k w (with_state t vm, v) =
      map_option (\<lambda>(x, vm, v). (x, with_state t vm, v)) (decode_body k w (vm, v))" for k w vm v
    using state_free_decode_body by (simp add: state_free_def)
  have d: "decode_success (with_state t vm) = decode_success vm"
    "(with_state t vm)\<lparr>decode_success := x\<rparr> = with_state t (vm\<lparr>decode_success := x\<rparr>)" for vm x
    by (simp_all add: with_state_def)
  show ?thesis unfolding DecodeNextOpcode_def d g
    by (cases "GetNextDword (vm, decode_success vm)") (auto simp: b d Let_def split: option.split bind_split)
qed

text \<open>The instruction at a position of the program, with the position behind it.\<close>

definition next_instr :: "DmntCheatVm \<Rightarrow> nat \<Rightarrow> (CheatVmOpcode \<times> nat) option" where
  "next_instr vm i = (case DecodeNextOpcode (vm\<lparr>instruction_ptr := i, decode_success := True\<rparr>) of
     Some (Some op, vm') \<Rightarrow> Some (op, instruction_ptr vm') | _ \<Rightarrow> None)"

definition same_code :: "DmntCheatVm \<Rightarrow> DmntCheatVm \<Rightarrow> bool" where
  "same_code vm vm' \<longleftrightarrow> num_opcodes vm' = num_opcodes vm \<and> prog vm' = prog vm"

lemma next_instr_same_code:
  assumes "same_code vm vm'"
  shows "next_instr vm' = next_instr vm"
proof -
  have e: "vm'\<lparr>instruction_ptr := i, decode_success := True\<rparr> =
      with_state vm' (vm\<lparr>instruction_ptr := i, decode_success := True\<rparr>)" for i
    using assms by (cases vm; cases vm') (simp add: with_state_def same_code_def)
  show ?thesis
    unfolding next_instr_def e DecodeNextOpcode_with_state by (auto simp: with_state_def split: option.split)
qed

lemma next_instr_update [simp]:
  "next_instr (vm\<lparr>instruction_ptr := a\<rparr>) = next_instr vm"
  "next_instr (vm\<lparr>decode_success := b\<rparr>) = next_instr vm"
  "next_instr (vm\<lparr>condition_depth := c\<rparr>) = next_instr vm"
  by (rule next_instr_same_code; simp add: same_code_def)+

lemma DecodeNextOpcode_next:
  assumes "vm_ok vm" "decode_success vm"
  shows "DecodeNextOpcode vm = (case next_instr vm (instruction_ptr vm) of
      Some (op, j) \<Rightarrow> Some (Some op, vm\<lparr>instruction_ptr := j\<rparr>)
    | None \<Rightarrow> Some (None, snd (the (DecodeNextOpcode vm))))"
proof -
  have "vm\<lparr>instruction_ptr := instruction_ptr vm, decode_success := True\<rparr> = vm" using assms(2) by (cases vm) simp
  then show ?thesis using DecodeNextOpcode_yields[OF assms(1)] set_success[OF assms(2)]
    by (auto simp: next_instr_def yields_def split: option.splits)
qed

lemma DecodeNextOpcode_instr:
  assumes "decode_success vm" "DecodeNextOpcode vm = Some (Some op, vm')"
  shows "next_instr vm (instruction_ptr vm) = Some (op, instruction_ptr vm')"
proof -
  have "vm\<lparr>instruction_ptr := instruction_ptr vm, decode_success := True\<rparr> = vm" using assms(1) by (cases vm) simp
  then show ?thesis using assms(2) by (simp add: next_instr_def)
qed

lemma next_instr_props:
  assumes "vm_ok vm" "i \<le> num_opcodes vm" "next_instr vm i = Some (op, j)"
  shows "i < j" "j \<le> num_opcodes vm" "opcode_ok (opcode op)" "begin_conditional_block op = is_begin (opcode op)"
proof -
  have "vm_ok (vm\<lparr>instruction_ptr := i, decode_success := True\<rparr>)" using assms(1,2) by (simp add: vm_ok_def)
  from DecodeNextOpcode_yields[OF this] assms(3)
  show "i < j" "j \<le> num_opcodes vm" "opcode_ok (opcode op)" "begin_conditional_block op = is_begin (opcode op)"
    by (auto simp: next_instr_def yields_def split: option.splits)
qed

section \<open>Skipping a block\<close>

text \<open>
  The instructions from position \<open>i\<close> to position \<open>k\<close> form a sequence of plain instructions and complete
  conditional blocks.
\<close>

inductive balanced :: "DmntCheatVm \<Rightarrow> nat \<Rightarrow> nat \<Rightarrow> bool" for vm where
  b_none: "balanced vm i i"
| b_plain: "next_instr vm i = Some (op, j) \<Longrightarrow> \<not> begin_conditional_block op \<Longrightarrow> opcode op \<noteq> EndConditional \<Longrightarrow>
    balanced vm j k \<Longrightarrow> balanced vm i k"
| b_block: "next_instr vm i = Some (op, j) \<Longrightarrow> begin_conditional_block op \<Longrightarrow> balanced vm j k \<Longrightarrow>
    next_instr vm k = Some (close, l) \<Longrightarrow> opcode close = EndConditional \<Longrightarrow> balanced vm l m \<Longrightarrow> balanced vm i m"

lemma vm_ok_update [simp]:
  "j \<le> num_opcodes vm \<Longrightarrow> vm_ok vm \<Longrightarrow> vm_ok (vm\<lparr>instruction_ptr := j\<rparr>)"
  "vm_ok (vm\<lparr>condition_depth := c\<rparr>) \<longleftrightarrow> vm_ok vm"
  "vm_ok (vm\<lparr>decode_success := b\<rparr>) \<longleftrightarrow> vm_ok vm"
  by (auto simp: vm_ok_def)

definition depth_after :: "CheatVmOpcode \<Rightarrow> nat \<Rightarrow> nat" where
  "depth_after op d = (if begin_conditional_block op then d + 1
     else if opcode op = EndConditional then d - 1 else d)"

lemma keep_depth [simp]: "vm\<lparr>instruction_ptr := j, condition_depth := condition_depth vm\<rparr> = vm\<lparr>instruction_ptr := j\<rparr>"
  by (cases vm) simp

lemma keep_depth' [simp]:
  "vm\<lparr>instruction_ptr := j, decode_success := b, condition_depth := condition_depth vm\<rparr> =
     vm\<lparr>instruction_ptr := j, decode_success := b\<rparr>"
  by (cases vm) simp

lemma SkipConditionalBlock_loop_step:
  assumes "vm_ok vm" "decode_success vm" "desired < condition_depth vm"
    "next_instr vm (instruction_ptr vm) = Some (op, j)"
  shows "SkipConditionalBlock_loop desired vm =
    SkipConditionalBlock_loop desired (vm\<lparr>instruction_ptr := j, condition_depth := depth_after op (condition_depth vm)\<rparr>)"
  by (subst SkipConditionalBlock_loop.simps)
    (simp add: assms depth_after_def DecodeNextOpcode_next[OF assms(1,2)])

lemma SkipConditionalBlock_loop_balanced:
  assumes "balanced prg i k" "vm_ok vm" "decode_success vm" "next_instr vm = next_instr prg"
    "instruction_ptr vm = i" "desired < condition_depth vm"
  shows "SkipConditionalBlock_loop desired vm = SkipConditionalBlock_loop desired (vm\<lparr>instruction_ptr := k\<rparr>) \<and>
    k \<le> num_opcodes vm"
  using assms
proof (induction arbitrary: vm rule: balanced.induct)
  case (b_none i)
  then show ?case by (auto simp: vm_ok_def)
next
  case (b_plain i op j k)
  have "j \<le> num_opcodes vm" using b_plain next_instr_props(2)[of vm i op j] by (auto simp: vm_ok_def)
  then show ?case
    using b_plain SkipConditionalBlock_loop_step[of vm desired op j] b_plain.IH[of "vm\<lparr>instruction_ptr := j\<rparr>"]
    by (simp add: depth_after_def)
next
  case (b_block i op j k close l m)
  let ?in = "vm\<lparr>instruction_ptr := j, condition_depth := condition_depth vm + 1\<rparr>"
  have j: "j \<le> num_opcodes vm" using b_block next_instr_props(2)[of vm i op j] by (auto simp: vm_ok_def)
  then have k: "SkipConditionalBlock_loop desired ?in = SkipConditionalBlock_loop desired (?in\<lparr>instruction_ptr := k\<rparr>)"
    "k \<le> num_opcodes vm"
    using b_block.IH(1)[of ?in] b_block.prems by simp_all
  then have l: "l \<le> num_opcodes vm" and c: "\<not> begin_conditional_block close"
    using b_block next_instr_props[of vm k close l] by simp_all
  have "SkipConditionalBlock_loop desired vm = SkipConditionalBlock_loop desired ?in"
    using b_block SkipConditionalBlock_loop_step[of vm desired op j] by (simp add: depth_after_def)
  also have "\<dots> = SkipConditionalBlock_loop desired (vm\<lparr>instruction_ptr := l\<rparr>)"
    using b_block k j c SkipConditionalBlock_loop_step[of "?in\<lparr>instruction_ptr := k\<rparr>" desired close l]
    by (simp add: depth_after_def)
  finally show ?case using b_block.IH(2)[of "vm\<lparr>instruction_ptr := l\<rparr>"] b_block.prems l by simp
qed

lemma SkipConditionalBlock_loop_stop:
  "condition_depth vm \<le> desired \<Longrightarrow> SkipConditionalBlock_loop desired vm = Some vm"
  by (subst SkipConditionalBlock_loop.simps) simp

text \<open>C18. A conditional block whose condition fails is skipped up to its own end: with nested blocks in between
  decoded and counted, execution goes on right behind the instruction that closes the block, one
  level further out, and nothing else of the machine changes.\<close>

theorem SkipConditionalBlock_matching:
  assumes "vm_ok vm" "decode_success vm" "condition_depth vm = Suc d"
    and "balanced vm (instruction_ptr vm) k" "next_instr vm k = Some (close, l)" "opcode close = EndConditional"
  shows "SkipConditionalBlock vm = Some (vm\<lparr>instruction_ptr := l, condition_depth := d\<rparr>)"
proof -
  have k: "SkipConditionalBlock_loop d vm = SkipConditionalBlock_loop d (vm\<lparr>instruction_ptr := k\<rparr>)" "k \<le> num_opcodes vm"
    using SkipConditionalBlock_loop_balanced[OF assms(4,1,2), of d] assms(3) by simp_all
  have "\<not> begin_conditional_block close" using next_instr_props(4)[OF assms(1) k(2) assms(5)] assms(6) by simp
  then have "SkipConditionalBlock_loop d (vm\<lparr>instruction_ptr := k\<rparr>) =
      SkipConditionalBlock_loop d (vm\<lparr>instruction_ptr := l, condition_depth := d\<rparr>)"
    using SkipConditionalBlock_loop_step[of "vm\<lparr>instruction_ptr := k\<rparr>" d close l] assms k(2)
    by (simp add: depth_after_def)
  then show ?thesis using k(1) assms(3) by (simp add: SkipConditionalBlock_def SkipConditionalBlock_loop_stop)
qed

text \<open>Skipping always comes to an end, also where the block is never closed.\<close>

definition path :: "DmntCheatVm \<Rightarrow> nat \<Rightarrow> nat \<Rightarrow> bool" where
  "path vm = (\<lambda>i j. \<exists>op. next_instr vm i = Some (op, j))\<^sup>*\<^sup>*"

lemma path_same_code: "same_code vm vm' \<Longrightarrow> path vm' = path vm"
  by (simp add: path_def next_instr_same_code)

definition moved :: "DmntCheatVm \<Rightarrow> DmntCheatVm \<Rightarrow> bool" where
  "moved vm vm' \<longleftrightarrow> same_code vm vm' \<and> registers vm' = registers vm \<and> saved_values vm' = saved_values vm \<and>
     static_registers vm' = static_registers vm \<and> loop_tops vm' = loop_tops vm \<and>
     instruction_ptr vm \<le> instruction_ptr vm' \<and> instruction_ptr vm' \<le> num_opcodes vm \<and>
     (decode_success vm' \<longrightarrow> decode_success vm \<and> path vm (instruction_ptr vm) (instruction_ptr vm'))"

lemma moved_refl: "vm_ok vm \<Longrightarrow> moved vm vm"
  by (simp add: moved_def vm_ok_def same_code_def path_def)

lemma moved_trans: "moved a b \<Longrightarrow> moved b c \<Longrightarrow> moved a c"
  using path_same_code[of a b] by (auto simp: moved_def same_code_def path_def)

lemma moved_ok: "moved vm vm' \<Longrightarrow> vm_ok vm \<Longrightarrow> vm_ok vm'"
  by (auto simp: moved_def vm_ok_def same_code_def)

lemma SkipConditionalBlock_loop_total:
  assumes "vm_ok vm"
  shows "yields (SkipConditionalBlock_loop desired vm) (moved vm)"
  using assms
proof (induction "num_opcodes vm - instruction_ptr vm" arbitrary: vm rule: less_induct)
  case less
  show ?case
  proof (cases "desired < condition_depth vm")
    case False
    then show ?thesis using moved_refl[OF less.prems] by (simp add: SkipConditionalBlock_loop_stop)
  next
    case True
    obtain out ip where d: "DecodeNextOpcode vm = Some (out, vm\<lparr>instruction_ptr := ip, decode_success := out \<noteq> None\<rparr>)"
      and ip: "instruction_ptr vm \<le> ip" "ip \<le> num_opcodes vm"
      and op: "\<And>op. out = Some op \<Longrightarrow> decode_success vm \<and> instruction_ptr vm < ip"
      using DecodeNextOpcode_yields[OF less.prems] by (auto simp: yields_def)
    have p: "path vm (instruction_ptr vm) ip" if "out = Some op" for op
      using that d DecodeNextOpcode_instr[of vm op] op[OF that] by (auto simp: path_def intro!: r_into_rtranclp)
    let ?vm = "\<lambda>d. vm\<lparr>instruction_ptr := ip, decode_success := out \<noteq> None, condition_depth := d\<rparr>"
    have m: "moved vm (?vm d)" for d using ip op p by (auto simp: moved_def same_code_def)
    show ?thesis
    proof (cases out)
      case None
      then show ?thesis using True d m[of "condition_depth vm"]
        by (subst SkipConditionalBlock_loop.simps) simp
    next
      case (Some op)
      have "yields (SkipConditionalBlock_loop desired (?vm d)) (moved vm)" for d
      proof (rule yields_mono)
        show "yields (SkipConditionalBlock_loop desired (?vm d)) (moved (?vm d))"
          using less.hyps[of "?vm d"] moved_ok[OF m less.prems, of d] ip op[OF Some]
          by (simp add: diff_less_mono2)
      qed (rule moved_trans[OF m])
      from this[of "depth_after op (condition_depth vm)"] show ?thesis using True d Some
        by (subst SkipConditionalBlock_loop.simps) (simp add: depth_after_def split: if_splits)
    qed
  qed
qed

lemma SkipConditionalBlock_total: "vm_ok vm \<Longrightarrow> yields (SkipConditionalBlock vm) (moved vm)"
  by (simp add: SkipConditionalBlock_def SkipConditionalBlock_loop_total moved_refl)

section \<open>Executing one instruction\<close>

lemma yields_reg [simp]: "vm_ok vm \<Longrightarrow> yields (reg vm i) P \<longleftrightarrow> small i \<and> P (registers vm ! unat i)"
  by (simp add: reg_def small_def vm_ok_def)

lemma yields_set_reg [simp]:
  "vm_ok vm \<Longrightarrow> yields (set_reg i val vm) P \<longleftrightarrow> small i \<and> P (vm\<lparr>registers := (registers vm)[unat i := val]\<rparr>)"
  by (simp add: set_reg_def yields_bind small_def vm_ok_def)

text \<open>What an instruction that is no jump does to the machine.\<close>

definition executed :: "DmntCheatVm \<Rightarrow> DmntCheatVm \<Rightarrow> bool" where
  "executed vm vm' \<longleftrightarrow> vm_ok vm' \<and> same_code vm vm' \<and> instruction_ptr vm \<le> instruction_ptr vm' \<and>
     (decode_success vm' \<longrightarrow> decode_success vm \<and> path vm (instruction_ptr vm) (instruction_ptr vm'))"

lemma executed_moved: "vm_ok vm \<Longrightarrow> moved vm vm' \<Longrightarrow> executed vm vm'"
  using moved_ok by (auto simp: executed_def moved_def)

lemma executed_refl [simp]: "vm_ok vm \<Longrightarrow> executed vm vm"
  by (simp add: executed_def same_code_def path_def)

lemma executed_update [simp]:
  "vm_ok vm \<Longrightarrow> executed vm (vm\<lparr>condition_depth := d\<rparr>)"
  "vm_ok vm \<Longrightarrow> length rs = NumRegisters \<Longrightarrow> executed vm (vm\<lparr>registers := rs\<rparr>)"
  "vm_ok vm \<Longrightarrow> length rs = NumRegisters \<Longrightarrow> executed vm (vm\<lparr>saved_values := rs\<rparr>)"
  "vm_ok vm \<Longrightarrow> length ss = NumStaticRegisters \<Longrightarrow> executed vm (vm\<lparr>static_registers := ss\<rparr>)"
  by (simp_all add: executed_def same_code_def path_def vm_ok_def)

lemma vm_ok_lengths:
  assumes "vm_ok vm"
  shows "length (registers vm) = NumRegisters" "length (saved_values vm) = NumRegisters"
    "length (static_registers vm) = NumStaticRegisters" "length (loop_tops vm) = NumRegisters"
  using assms by (simp_all add: vm_ok_def)

lemma yields_skip:
  "vm_ok vm \<Longrightarrow> (\<And>vm'. executed vm vm' \<Longrightarrow> P vm') \<Longrightarrow> yields (SkipConditionalBlock vm) P"
  by (rule yields_mono[OF SkipConditionalBlock_total]) (simp_all add: executed_moved)

lemma yields_mask_loop:
  assumes "length should_operate = i + rounds" "length src = i + rounds" "length dst = i + rounds"
  shows "yields (register_mask_loop rounds i op_type should_operate src dst) (\<lambda>dst'. length dst' = length dst)"
  using assms
proof (induction rounds arbitrary: i dst)
  case (Suc rounds)
  have "yields (register_mask_loop rounds (Suc i) op_type should_operate src d) (\<lambda>dst'. length dst' = length dst)"
    if "length d = length dst" for d
    using Suc.IH[of "Suc i" d] Suc.prems that by simp
  then show ?case using Suc.prems by (auto simp: yields_bind)
qed simp

text \<open>
  The instructions whose execution is defined: not the conditional on memory, and no shift by 64 bits or more.
\<close>

definition is_shift :: "u32 \<Rightarrow> bool" where
  "is_shift math_type \<longleftrightarrow> math_type = Math_LeftShift \<or> math_type = Math_RightShift"

fun defined_op :: "DmntCheatVm \<Rightarrow> Opcode \<Rightarrow> bool" where
  "defined_op vm (BeginConditional _ _ _ _ _) \<longleftrightarrow> False"
| "defined_op vm (PerformArithmeticStatic bit_width reg_index math_type val) \<longleftrightarrow>
     is_shift math_type \<longrightarrow> (ucast val :: u64) < 64"
| "defined_op vm (PerformArithmeticRegister bit_width math_type dst src_1 src_2 has_immediate val) \<longleftrightarrow>
     is_shift math_type \<longrightarrow> (if has_immediate then GetVmInt val bit_width else registers vm ! unat src_2) < 64"
| "defined_op vm _ \<longleftrightarrow> True"

fun is_loop_end :: "Opcode \<Rightarrow> bool" where
  "is_loop_end (ControlLoop start_loop _ _) \<longleftrightarrow> \<not> start_loop"
| "is_loop_end _ \<longleftrightarrow> False"

lemmas Math_defs = Math_Addition_def Math_Subtraction_def Math_Multiplication_def Math_LeftShift_def
  Math_RightShift_def Math_LogicalAnd_def Math_LogicalOr_def Math_LogicalNot_def Math_LogicalXor_def Math_None_def

lemma arithmetic_defined:
  "yields (arithmetic math_type a b) (\<lambda>_. True) \<longleftrightarrow> (is_shift math_type \<longrightarrow> b < 64)"
  by (auto simp: arithmetic_def is_shift_def shift_left_def shift_right_def Math_defs)

lemma exec_ControlLoop_start:
  assumes "vm_ok vm" "small r"
  shows "yields (exec_ControlLoop True r n vm) (executed vm)"
proof -
  have "\<forall>t \<in> set ((loop_tops vm)[unat r := instruction_ptr vm]). t \<le> num_opcodes vm"
    using assms(1) set_update_subset_insert[of "loop_tops vm" "unat r" "instruction_ptr vm"]
    by (auto simp: vm_ok_def)
  then show ?thesis using assms
    by (simp add: exec_ControlLoop_def set_reg_def yields_bind small_def executed_def same_code_def path_def vm_ok_def)
qed

lemma exec_ControlLoop_end:
  "vm_ok vm \<Longrightarrow> small r \<Longrightarrow> yields (exec_ControlLoop False r n vm) (\<lambda>vm'. vm_ok vm' \<and> same_code vm vm')"
  by (auto simp: exec_ControlLoop_def yields_bind reg_def set_reg_def small_def same_code_def vm_ok_def)

lemma exec_PerformArithmeticStatic_defined:
  "vm_ok vm \<Longrightarrow> small r \<Longrightarrow> (is_shift math_type \<longrightarrow> (ucast val :: u64) < 64) \<Longrightarrow>
     yields (exec_PerformArithmeticStatic bit_width r math_type val vm) (executed vm)"
  by (auto simp: vm_ok_lengths exec_PerformArithmeticStatic_def yields_bind shift_left_def shift_right_def is_shift_def)

lemma exec_PerformArithmeticRegister_defined:
  assumes "vm_ok vm" "small dst" "small src_1" "small src_2"
    "is_shift math_type \<longrightarrow> (if has_immediate then GetVmInt val bit_width else registers vm ! unat src_2) < 64"
  shows "yields (exec_PerformArithmeticRegister bit_width math_type dst src_1 src_2 has_immediate val vm) (executed vm)"
proof -
  let ?b = "if has_immediate then GetVmInt val bit_width else registers vm ! unat src_2"
  have "yields (arithmetic math_type a ?b) (\<lambda>_. True)" for a using assms(5) by (simp add: arithmetic_defined)
  then show ?thesis using assms(1-4)
    by (auto simp: vm_ok_lengths exec_PerformArithmeticRegister_def yields_bind elim!: yields_mono)
qed

lemma exec_SaveRestoreRegister_defined:
  "vm_ok vm \<Longrightarrow> small dst \<Longrightarrow> small src \<Longrightarrow> yields (exec_SaveRestoreRegister dst src op_type vm) (executed vm)"
  by (auto simp: vm_ok_lengths exec_SaveRestoreRegister_def yields_bind small_def)

lemma exec_SaveRestoreRegisterMask_defined:
  "vm_ok vm \<Longrightarrow> length ops = NumRegisters \<Longrightarrow> yields (exec_SaveRestoreRegisterMask op_type ops vm) (executed vm)"
  by (auto simp: vm_ok_lengths exec_SaveRestoreRegisterMask_def yields_bind intro!: yields_mono[OF yields_mask_loop])

lemma exec_ReadWriteStaticRegister_defined:
  "vm_ok vm \<Longrightarrow> small idx \<Longrightarrow> unat static_idx < NumStaticRegisters \<Longrightarrow>
     yields (exec_ReadWriteStaticRegister static_idx idx vm) (executed vm)"
  by (auto simp: vm_ok_lengths exec_ReadWriteStaticRegister_def yields_bind)

section \<open>The interface to memory\<close>

text \<open>
  What the machine relies on: a read or write of at most eight bytes is defined at every address, a read fills
  the buffer it was given, and a property \<open>inv\<close> of the state behind the callbacks is kept by all of them.
\<close>

locale vm_callbacks =
  fixes cb :: "'e Callbacks" and inv :: "'e \<Rightarrow> bool"
  assumes read_ok: "\<And>a data e. inv e \<Longrightarrow> length data \<le> 8 \<Longrightarrow>
      yields (cb_MemoryRead cb a data e) (\<lambda>(data', e'). length data' = length data \<and> inv e')"
    and write_ok: "\<And>a data e. inv e \<Longrightarrow> length data \<le> 8 \<Longrightarrow> yields (cb_MemoryWrite cb a data e) inv"
    and keys_ok: "\<And>e. inv e \<Longrightarrow> inv (snd (cb_HidKeysDown cb e))"
    and debug_ok: "\<And>n val e. inv e \<Longrightarrow> inv (cb_DebugLog cb n val e)"
    and log_ok: "\<And>line e. inv e \<Longrightarrow> inv (cb_CommandLog cb line e)"
begin

lemma logs_ok: "inv e \<Longrightarrow> inv (CommandLogs cb ls e)"
  unfolding CommandLogs_def by (induction ls arbitrary: e) (simp_all add: log_ok)

lemma yields_write_var: "inv e \<Longrightarrow> (\<And>e'. inv e' \<Longrightarrow> P e') \<Longrightarrow> yields (write_var cb a val bit_width e) P"
  by (auto simp: write_var_def valid_width_def intro!: yields_mono[OF write_ok])

lemma yields_read_var:
  "inv e \<Longrightarrow> (\<And>val' e'. inv e' \<Longrightarrow> P (val', e')) \<Longrightarrow> yields (read_var cb a val bit_width e) P"
  by (auto simp: read_var_def valid_width_def yields_bind intro!: yields_mono[OF read_ok])

text \<open>The result of an instruction: a jump only has to leave the machine well-formed.\<close>

definition good :: "Opcode \<Rightarrow> DmntCheatVm \<Rightarrow> DmntCheatVm \<times> 'e \<Rightarrow> bool" where
  "good op vm s' \<longleftrightarrow> inv (snd s') \<and> vm_ok (fst s') \<and> same_code vm (fst s') \<and>
     (\<not> is_loop_end op \<longrightarrow> executed vm (fst s'))"

lemma good_executed: "executed vm vm' \<Longrightarrow> inv e' \<Longrightarrow> good op vm (vm', e')"
  by (simp add: good_def executed_def)

lemma yields_on_vm: "yields (f vm) (executed vm) \<Longrightarrow> inv e \<Longrightarrow> yields (on_vm f (vm, e)) (good op vm)"
  by (auto simp: on_vm_def yields_bind good_executed elim!: yields_mono)

lemma exec_StoreStatic_good:
  "vm_ok vm \<Longrightarrow> inv e \<Longrightarrow> small r \<Longrightarrow> yields (exec_StoreStatic cb md w m r a v (vm, e)) (good op vm)"
  by (auto simp: exec_StoreStatic_def yields_bind Let_def good_executed intro!: yields_write_var)

lemma exec_LoadRegisterMemory_good:
  "vm_ok vm \<Longrightarrow> inv e \<Longrightarrow> small r \<Longrightarrow> yields (exec_LoadRegisterMemory cb md w m r f a (vm, e)) (good op vm)"
  by (auto simp: exec_LoadRegisterMemory_def yields_bind Let_def good_executed vm_ok_lengths intro!: yields_read_var)

lemma exec_StoreStaticToAddress_good:
  "vm_ok vm \<Longrightarrow> inv e \<Longrightarrow> small r \<Longrightarrow> small q \<Longrightarrow>
     yields (exec_StoreStaticToAddress cb w r i add q v (vm, e)) (good op vm)"
  by (auto simp: exec_StoreStaticToAddress_def yields_bind Let_def good_executed vm_ok_lengths intro!: yields_write_var)

lemma exec_StoreRegisterToAddress_good:
  "vm_ok vm \<Longrightarrow> inv e \<Longrightarrow> small r \<Longrightarrow> small q \<Longrightarrow> small p \<Longrightarrow>
     yields (exec_StoreRegisterToAddress cb md w r q i t m p a (vm, e)) (good op vm)"
  by (auto simp: exec_StoreRegisterToAddress_def yields_bind Let_def good_executed vm_ok_lengths intro!: yields_write_var)

lemma yields_operand_address:
  "vm_ok vm \<Longrightarrow> small p \<Longrightarrow> small q \<Longrightarrow> (\<And>a. P a) \<Longrightarrow> yields (operand_address md t m p q r vm) P"
  by (auto simp: operand_address_def yields_bind)

lemma exec_BeginRegisterConditional_good:
  "vm_ok vm \<Longrightarrow> inv e \<Longrightarrow> small v \<Longrightarrow> small p \<Longrightarrow> small q \<Longrightarrow> small r \<Longrightarrow>
     yields (exec_BeginRegisterConditional cb md w c v t m p q r a k (vm, e)) (good op vm)"
  by (auto simp: exec_BeginRegisterConditional_def yields_bind Let_def good_executed
      intro!: yields_operand_address yields_read_var yields_skip)

lemma exec_DebugLog_good:
  "vm_ok vm \<Longrightarrow> inv e \<Longrightarrow> small p \<Longrightarrow> small q \<Longrightarrow> small r \<Longrightarrow>
     yields (exec_DebugLog cb md w i t m p q r a (vm, e)) (good op vm)"
  by (auto simp: exec_DebugLog_def yields_bind Let_def good_executed DebugLog_def debug_ok
      intro!: yields_operand_address yields_read_var)

lemma exec_opcode_good:
  assumes "vm_ok vm" "inv e" "opcode_ok op" "defined_op vm op"
  shows "yields (exec_opcode cb md kDown op (vm, e)) (good op vm)"
proof (cases op)
  case (ControlLoop start_loop r n)
  show ?thesis
  proof (cases start_loop)
    case True
    then show ?thesis using assms ControlLoop by (auto intro!: yields_on_vm exec_ControlLoop_start)
  next
    case False
    then show ?thesis using assms ControlLoop exec_ControlLoop_end[of vm r n]
      by (auto simp: on_vm_def yields_bind good_def elim!: yields_mono)
  qed
next
  case EndConditional
  then show ?thesis using assms by (auto intro!: yields_on_vm simp: exec_EndConditional_def)
next
  case (BeginKeypressConditional key_mask)
  then show ?thesis using assms by (auto intro!: yields_on_vm yields_skip)
next
  case (PerformArithmeticStatic bit_width r math_type val)
  then show ?thesis using assms by (auto intro!: yields_on_vm exec_PerformArithmeticStatic_defined)
next
  case (PerformArithmeticRegister bit_width math_type dst src_1 src_2 has_immediate val)
  then show ?thesis using assms by (auto intro!: yields_on_vm exec_PerformArithmeticRegister_defined)
next
  case (UnrecognizedInstruction k)
  then show ?thesis using assms by simp
qed (use assms in \<open>auto intro!: exec_StoreStatic_good exec_LoadRegisterMemory_good exec_StoreStaticToAddress_good
    exec_StoreRegisterToAddress_good exec_BeginRegisterConditional_good exec_DebugLog_good yields_on_vm
    exec_SaveRestoreRegister_defined exec_SaveRestoreRegisterMask_defined exec_ReadWriteStaticRegister_defined
    simp: vm_ok_lengths\<close>)

end

lemma exec_opcode_undefined:
  assumes "vm_ok vm" "opcode_ok op" "\<not> defined_op vm op"
  shows "exec_opcode cb md kDown op (vm, e) = None"
  using assms
  by (cases op) (auto simp: exec_BeginConditional_def on_vm_def exec_PerformArithmeticStatic_def
      exec_PerformArithmeticRegister_def arithmetic_def reg_def small_def vm_ok_lengths shift_left_def shift_right_def
      is_shift_def Math_defs split: if_splits)

section \<open>Running a program\<close>

text \<open>The instructions of a program in their order, from position \<open>i\<close>, at most \<open>n\<close> of them.\<close>

primrec instructions :: "nat \<Rightarrow> DmntCheatVm \<Rightarrow> nat \<Rightarrow> Opcode list" where
  "instructions 0 vm i = []"
| "instructions (Suc n) vm i = (case next_instr vm i of
     None \<Rightarrow> [] | Some (op, j) \<Rightarrow> opcode op # instructions n vm j)"

text \<open>
  An instruction that is defined on every machine and does not jump back.
\<close>

fun runnable :: "Opcode \<Rightarrow> bool" where
  "runnable (BeginConditional _ _ _ _ _) \<longleftrightarrow> False"
| "runnable (ControlLoop start_loop _ _) \<longleftrightarrow> start_loop"
| "runnable (PerformArithmeticStatic bit_width reg_index math_type val) \<longleftrightarrow>
     is_shift math_type \<longrightarrow> (ucast val :: u64) < 64"
| "runnable (PerformArithmeticRegister bit_width math_type dst src_1 src_2 has_immediate val) \<longleftrightarrow>
     is_shift math_type \<longrightarrow> has_immediate \<and> GetVmInt val bit_width < 64"
| "runnable _ \<longleftrightarrow> True"

lemma runnable_defined: "runnable op \<Longrightarrow> defined_op vm op \<and> \<not> is_loop_end op"
  by (cases op) auto

definition straight :: "DmntCheatVm \<Rightarrow> nat \<Rightarrow> bool" where
  "straight vm i \<longleftrightarrow> (\<exists>n \<ge> num_opcodes vm - i. list_all runnable (instructions n vm i))"

lemma straight_same_code: "same_code vm vm' \<Longrightarrow> straight vm' i = straight vm i"
proof -
  assume s: "same_code vm vm'"
  have "instructions n vm' j = instructions n vm j" for n j
    by (induction n arbitrary: j) (simp_all add: next_instr_same_code[OF s] split: option.split)
  then show ?thesis using s by (simp add: straight_def same_code_def)
qed

lemma straight_step:
  assumes "vm_ok vm" "i \<le> num_opcodes vm" "next_instr vm i = Some (op, j)" "straight vm i"
  shows "runnable (opcode op) \<and> straight vm j"
proof -
  have j: "i < j" "j \<le> num_opcodes vm" using next_instr_props[OF assms(1-3)] by simp_all
  obtain n where n: "n \<ge> num_opcodes vm - i" "list_all runnable (instructions n vm i)"
    using assms(4) by (auto simp: straight_def)
  then obtain m where "n = Suc m" using j by (cases n) auto
  then show ?thesis using n j assms(3) by (auto simp: straight_def intro!: exI[of _ m])
qed

lemma straight_path:
  assumes "vm_ok vm" "path vm i j" "i \<le> num_opcodes vm" "straight vm i"
  shows "straight vm j \<and> j \<le> num_opcodes vm"
  using assms(2-4) unfolding path_def
  by (induction rule: rtranclp_induct) (use straight_step[OF assms(1)] next_instr_props(2)[OF assms(1)] in blast)+

context vm_callbacks
begin

lemma Execute_round_good:
  assumes "vm_ok vm" "inv e" "opcode_ok (opcode op)"
    "defined_op (if begin_conditional_block op then vm\<lparr>condition_depth := condition_depth vm + 1\<rparr> else vm) (opcode op)"
  shows "yields (Execute_round F cb md kDown op (vm, e)) (good (opcode op) vm)"
proof -
  let ?vm = "if begin_conditional_block op then vm\<lparr>condition_depth := condition_depth vm + 1\<rparr> else vm"
  have "vm_ok ?vm" using assms(1) by simp
  then have "yields (Execute_round F cb md kDown op (vm, e)) (good (opcode op) ?vm)"
    using assms logs_ok by (auto simp: Execute_round_def intro!: exec_opcode_good)
  then show ?thesis
  proof (rule yields_mono)
    fix s' assume "good (opcode op) ?vm s'"
    then show "good (opcode op) vm s'"
      by (auto simp: good_def executed_def same_code_def path_def split: if_splits)
  qed
qed

text \<open>A program without jumps back ends.\<close>

lemma Execute_loop_terminates:
  assumes "vm_ok vm" "inv e" "decode_success vm \<Longrightarrow> straight vm (instruction_ptr vm)"
  shows "yields (Execute_loop F cb md kDown (vm, e)) (\<lambda>s'. inv (snd s') \<and> vm_ok (fst s') \<and> same_code vm (fst s'))"
  using assms
proof (induction "num_opcodes vm - instruction_ptr vm" arbitrary: vm e rule: less_induct)
  case less
  obtain out vm1 where d: "DecodeNextOpcode vm = Some (out, vm1)" and ip: "instruction_ptr vm \<le> instruction_ptr vm1"
    and m: "vm_ok vm1" "same_code vm vm1"
    and op: "\<And>op. out = Some op \<Longrightarrow> decode_success vm \<and> instruction_ptr vm < instruction_ptr vm1 \<and> opcode_ok (opcode op)"
    using DecodeNextOpcode_yields[OF less.prems(1)] less.prems(1) by (auto simp: yields_def same_code_def)
  show ?case
  proof (cases out)
    case None
    then show ?thesis using d m less.prems(2) by (subst Execute_loop.simps) simp
  next
    case (Some op)
    note o = op[OF Some]
    have i: "next_instr vm (instruction_ptr vm) = Some (op, instruction_ptr vm1)"
      using DecodeNextOpcode_instr[of vm op vm1] d o Some by simp
    have st: "runnable (opcode op)" "straight vm (instruction_ptr vm1)"
      using straight_step[OF less.prems(1) _ i] less.prems(1,3) o by (auto simp: vm_ok_def)
    have "yields (Execute_round F cb md kDown op (vm1, e)) (good (opcode op) vm1)"
      using Execute_round_good[OF m(1) less.prems(2)] o runnable_defined[OF st(1)] by simp
    then obtain vm2 e2 where r: "Execute_round F cb md kDown op (vm1, e) = Some (vm2, e2)"
      and g: "inv e2" "vm_ok vm2" "same_code vm1 vm2" "executed vm1 vm2"
      using runnable_defined[OF st(1)] by (auto simp: yields_def good_def)
    have sc: "same_code vm vm2" using m(2) g(3) by (simp add: same_code_def)
    have st2: "straight vm2 (instruction_ptr vm2)" if "decode_success vm2"
    proof -
      have "path vm (instruction_ptr vm1) (instruction_ptr vm2)"
        using that g(4) path_same_code[OF m(2)] by (simp add: executed_def)
      then show ?thesis using straight_path[OF less.prems(1) _ _ st(2)] m straight_same_code[OF sc]
        by (simp add: vm_ok_def same_code_def)
    qed
    have "num_opcodes vm2 - instruction_ptr vm2 < num_opcodes vm - instruction_ptr vm"
      using g o sc m(1) by (auto simp: executed_def same_code_def vm_ok_def)
    from less.hyps[OF this g(2,1) st2] have
      "yields (Execute_loop F cb md kDown (vm2, e2)) (\<lambda>s'. inv (snd s') \<and> vm_ok (fst s') \<and> same_code vm (fst s'))"
      using sc by (auto simp: same_code_def elim!: yields_mono)
    then show ?thesis using d Some r by (subst Execute_loop.simps) simp
  qed
qed

end

section \<open>Loading a program\<close>

definition entry_words :: "CheatEntry \<Rightarrow> u32 list" where
  "entry_words e = take (unat (cd_num_opcodes (ce_definition e))) (cd_opcodes (ce_definition e))"

definition entry_ok :: "CheatEntry \<Rightarrow> bool" where
  "entry_ok e \<longleftrightarrow> unat (cd_num_opcodes (ce_definition e)) \<le> length (cd_opcodes (ce_definition e))"

definition program_words :: "CheatEntry list \<Rightarrow> u32 list" where
  "program_words es = concat (map entry_words (filter ce_enabled es))"

definition put_words :: "u32 list \<Rightarrow> DmntCheatVm \<Rightarrow> DmntCheatVm" where
  "put_words ws vm = vm\<lparr>num_opcodes := num_opcodes vm + length ws,
     prog := take (num_opcodes vm) (prog vm) @ ws @ drop (num_opcodes vm + length ws) (prog vm)\<rparr>"

lemma put_words_Nil [simp]: "put_words [] vm = vm"
  by (cases vm) (simp add: put_words_def)

lemma put_words_append:
  assumes "num_opcodes vm + length (ws @ vs) \<le> length (prog vm)"
  shows "put_words vs (put_words ws vm) = put_words (ws @ vs) vm"
  using assms by (simp add: put_words_def ac_simps min_absorb2)

lemma LoadProgram_copy_words:
  assumes "n + rounds \<le> length (cd_opcodes d)" "num_opcodes vm + rounds \<le> length (prog vm)"
  shows "LoadProgram_copy rounds n d vm = Some (put_words (take rounds (drop n (cd_opcodes d))) vm)"
  using assms
proof (induction rounds arbitrary: n vm)
  case (Suc rounds)
  let ?w = "cd_opcodes d ! n"
  have w: "take (Suc rounds) (drop n (cd_opcodes d)) = [?w] @ take rounds (drop (n + 1) (cd_opcodes d))"
    using Suc.prems(1) by (simp add: Cons_nth_drop_Suc[symmetric])
  have "LoadProgram_copy (Suc rounds) n d vm = LoadProgram_copy rounds (n + 1) d (put_words [?w] vm)"
    using Suc.prems by (simp add: put_words_def upd_conv_take_nth_drop)
  also have "\<dots> = Some (put_words (take rounds (drop (n + 1) (cd_opcodes d))) (put_words [?w] vm))"
    using Suc.prems by (intro Suc.IH) (simp_all add: put_words_def)
  finally show ?case using Suc.prems w by (simp add: put_words_append)
qed simp

lemma LoadProgram_loop_words:
  assumes "list_all entry_ok (filter ce_enabled es)" "num_opcodes vm \<le> length (prog vm)"
    "length (prog vm) = MaximumProgramOpcodeCount"
  shows "if num_opcodes vm + length (program_words es) \<le> MaximumProgramOpcodeCount
    then LoadProgram_loop es vm = Some (True, put_words (program_words es) vm)
    else \<exists>p. LoadProgram_loop es vm = Some (False, vm\<lparr>num_opcodes := 0, prog := p\<rparr>) \<and> length p = length (prog vm)"
  using assms
proof (induction es arbitrary: vm)
  case Nil
  then show ?case by (simp add: program_words_def)
next
  case (Cons e es)
  show ?case
  proof (cases "ce_enabled e")
    case False
    then show ?thesis using Cons.IH[of vm] Cons.prems by (simp add: program_words_def split: if_splits)
  next
    case True
    let ?n = "unat (cd_num_opcodes (ce_definition e))" and ?vm = "put_words (entry_words e) vm"
    have e: "length (entry_words e) = ?n" using Cons.prems(1) True by (simp add: entry_ok_def entry_words_def)
    have w: "program_words (e # es) = entry_words e @ program_words es" using True by (simp add: program_words_def)
    show ?thesis
    proof (cases "num_opcodes vm + ?n \<le> MaximumProgramOpcodeCount")
      case False
      then have "\<not> num_opcodes vm + length (program_words (e # es)) \<le> MaximumProgramOpcodeCount" by (simp add: w e)
      moreover have "\<exists>p. LoadProgram_loop (e # es) vm = Some (False, vm\<lparr>num_opcodes := 0, prog := p\<rparr>) \<and>
          length p = length (prog vm)"
        using True False by (intro exI[of _ "prog vm"]) simp
      ultimately show ?thesis by (simp only: if_False)
    next
      case fits: True
      have v: "num_opcodes ?vm = num_opcodes vm + ?n" "length (prog ?vm) = length (prog vm)"
        using fits Cons.prems(3) e by (simp_all add: put_words_def)
      have "LoadProgram_loop (e # es) vm = LoadProgram_loop es ?vm"
        using True fits Cons.prems LoadProgram_copy_words[of 0 ?n "ce_definition e" vm]
        by (simp add: entry_ok_def entry_words_def)
      moreover have "vm\<lparr>num_opcodes := 0, prog := p\<rparr> = ?vm\<lparr>num_opcodes := 0, prog := p\<rparr>" for p
        by (simp add: put_words_def)
      ultimately show ?thesis
        using Cons.IH[of ?vm] Cons.prems fits True v e
        by (simp add: w put_words_append add.assoc split: if_splits)
    qed
  qed
qed

text \<open>Loading cheats concatenates the words of the enabled entries, in their order, at the start of the program
  array when they fit into its 0x400 words. Otherwise loading fails and leaves an empty program. It is
  always defined when no enabled entry claims more words than it has.\<close>

lemma LoadProgram_concatenates:
  assumes "length (prog vm) = MaximumProgramOpcodeCount" "list_all entry_ok (filter ce_enabled entries)"
  shows "if length (program_words entries) \<le> MaximumProgramOpcodeCount
    then LoadProgram entries vm = Some (True, vm\<lparr>num_opcodes := length (program_words entries),
      prog := program_words entries @ drop (length (program_words entries)) (prog vm)\<rparr>)
    else \<exists>p. LoadProgram entries vm = Some (False, vm\<lparr>num_opcodes := 0, prog := p\<rparr>) \<and>
      length p = MaximumProgramOpcodeCount"
  using LoadProgram_loop_words[of entries "vm\<lparr>num_opcodes := 0\<rparr>"] assms
  by (simp add: LoadProgram_def put_words_def split: if_splits)

section \<open>Whole executions\<close>

lemma ResetState_ok [simp]: "vm_ok vm \<Longrightarrow> vm_ok (ResetState vm)"
  by (simp add: vm_ok_def ResetState_def)

lemma ResetState_code [simp]:
  "same_code vm (ResetState vm)" "instruction_ptr (ResetState vm) = 0" "num_opcodes (ResetState vm) = num_opcodes vm"
  "prog (ResetState vm) = prog vm"
  by (simp_all add: same_code_def ResetState_def)

text \<open>A program whose instructions are all \<open>runnable\<close>.\<close>

definition straight_program :: "DmntCheatVm \<Rightarrow> bool" where
  "straight_program vm \<longleftrightarrow> list_all runnable (instructions (num_opcodes vm) vm 0)"

context vm_callbacks
begin

lemma Execute_round_safe:
  assumes "Execute_round F cb md kDown op (vm, e) = Some s'" "vm_ok vm" "inv e" "opcode_ok (opcode op)"
  shows "vm_ok (fst s') \<and> inv (snd s') \<and> same_code vm (fst s')"
proof -
  let ?vm = "if begin_conditional_block op then vm\<lparr>condition_depth := condition_depth vm + 1\<rparr> else vm"
  have "defined_op ?vm (opcode op)"
    using assms exec_opcode_undefined[of ?vm "opcode op" cb md kDown]
    by (cases "defined_op ?vm (opcode op)") (simp_all add: Execute_round_def Let_def)
  from Execute_round_good[OF assms(2-4) this, of F md kDown] assms(1) show ?thesis by (simp add: good_def)
qed

lemma Execute_loop_safe:
  assumes "Execute_loop F cb md kDown s = Some s'" "vm_ok (fst s)" "inv (snd s)"
  shows "vm_ok (fst s') \<and> inv (snd s') \<and> same_code (fst s) (fst s')"
proof -
  let ?P = "\<lambda>F c md kDown s s'. c = cb \<longrightarrow> vm_ok (fst s) \<longrightarrow> inv (snd s) \<longrightarrow>
    vm_ok (fst s') \<and> inv (snd s') \<and> same_code (fst s) (fst s')"
  have "?P F cb md kDown s s'"
  proof (rule Execute_loop.raw_induct[where P = ?P, OF _ assms(1)], intro impI)
    fix loop F c md kDown s s'
    assume IH: "\<And>F c md kDown s s'. loop F c md kDown s = Some s' \<Longrightarrow> ?P F c md kDown s s'"
      and body: "Option.bind (DecodeNextOpcode (fst s)) (\<lambda>(out, vm). case out of None \<Rightarrow> Some (vm, snd s)
        | Some op \<Rightarrow> Option.bind (Execute_round F c md kDown op (vm, snd s)) (loop F c md kDown)) = Some s'"
      and c: "c = cb" and ok: "vm_ok (fst s)" "inv (snd s)"
    obtain out vm1 where d: "DecodeNextOpcode (fst s) = Some (out, vm1)" "vm_ok vm1" "same_code (fst s) vm1"
      "\<And>op. out = Some op \<Longrightarrow> opcode_ok (opcode op)"
      using DecodeNextOpcode_yields[OF ok(1)] ok(1) by (auto simp: yields_def same_code_def)
    show "vm_ok (fst s') \<and> inv (snd s') \<and> same_code (fst s) (fst s')"
    proof (cases out)
      case None
      then show ?thesis using body ok d by auto
    next
      case (Some op)
      then obtain s2 where r: "Execute_round F cb md kDown op (vm1, snd s) = Some s2" "loop F cb md kDown s2 = Some s'"
        using body d c by (auto split: bind_splits)
      from Execute_round_safe[OF r(1) d(2) ok(2) d(4)[OF Some]]
      show ?thesis using IH[OF r(2)] d(3) by (simp add: same_code_def)
    qed
  qed
  then show ?thesis using assms(2,3) by simp
qed

lemma Execute_safe:
  assumes "Execute F cb md (vm, e) = Some (vm', e')" "vm_ok vm" "inv e"
  shows "vm_ok vm' \<and> inv e' \<and> same_code vm vm'"
proof -
  obtain kDown e1 where k: "cb_HidKeysDown cb e = (kDown, e1)" by fastforce
  then have i: "inv e1" using keys_ok[OF assms(3)] by simp
  obtain ls where "Execute_loop F cb md kDown (ResetState vm, CommandLogs cb ls e1) = Some (vm', e')"
    using assms(1) k by (simp add: Execute_def Let_def)
  from Execute_loop_safe[OF this] assms(2) logs_ok[OF i] show ?thesis by (simp add: same_code_def)
qed

lemma Execute_terminates:
  assumes "vm_ok vm" "inv e" "straight_program vm"
  shows "yields (Execute F cb md (vm, e)) (\<lambda>(vm', e'). vm_ok vm' \<and> inv e' \<and> same_code vm vm')"
proof -
  obtain kDown e1 where k: "cb_HidKeysDown cb e = (kDown, e1)" by fastforce
  then have i: "inv e1" using keys_ok[OF assms(2)] by simp
  have "straight (ResetState vm) 0"
    unfolding straight_same_code[OF ResetState_code(1)]
    using assms(3) by (auto simp: straight_program_def straight_def)
  then have "yields (Execute_loop F cb md kDown (ResetState vm, CommandLogs cb ls e1))
      (\<lambda>s'. inv (snd s') \<and> vm_ok (fst s') \<and> same_code (ResetState vm) (fst s'))" for ls
    using assms(1) i logs_ok by (intro Execute_loop_terminates) simp_all
  then have "yields (Execute_loop F cb md kDown (ResetState vm, CommandLogs cb ls e1))
      (\<lambda>(vm', e'). vm_ok vm' \<and> inv e' \<and> same_code vm vm')" for ls
    by (rule yields_mono) (auto simp: same_code_def)
  then show ?thesis using k by (simp add: Execute_def Let_def)
qed

text \<open>An instruction is undefined exactly in the cases that \<open>defined_op\<close> excludes.\<close>

lemma exec_opcode_defined_iff:
  assumes "vm_ok vm" "inv e" "opcode_ok op"
  shows "exec_opcode cb md kDown op (vm, e) = None \<longleftrightarrow> \<not> defined_op vm op"
  using exec_opcode_good[OF assms, of md kDown] exec_opcode_undefined[OF assms(1,3)] by (auto simp: yields_def)

end

section \<open>Properties\<close>

text \<open>Decoding is defined on every well-formed machine: it never reads outside the program, changes only the
  position and the success flag, and moves the position forward within the program. An instruction is delivered only if
  no decoding has failed before. Its register numbers are then in range, and it is flagged as the beginning of a
  block exactly if it is one of the three conditionals.\<close>

lemma DecodeNextOpcode_correct:
  assumes "vm_ok vm"
  shows "\<exists>out ip. DecodeNextOpcode vm = Some (out, vm\<lparr>instruction_ptr := ip, decode_success := out \<noteq> None\<rparr>) \<and>
    instruction_ptr vm \<le> ip \<and> ip \<le> num_opcodes vm \<and>
    (case out of None \<Rightarrow> True
     | Some op \<Rightarrow> decode_success vm \<and> instruction_ptr vm < ip \<and> opcode_ok (opcode op) \<and>
         begin_conditional_block op = is_begin (opcode op))"
proof -
  obtain out vm' where "DecodeNextOpcode vm = Some (out, vm')"
    using DecodeNextOpcode_yields[OF assms] by (auto simp: yields_def)
  with DecodeNextOpcode_yields[OF assms] show ?thesis by (cases out) (auto simp: yields_def)
qed

text \<open>
  A program of ten words: a block for a pressed key with another block in it, a load of an immediate that looks like
  the end of a block, the end of the block, and a store to the heap.
\<close>

definition example_words :: "u32 list" where
  "example_words = [0x80000001, 0x80000002, 0x20000000, 0x40010000, 0, 0x20000000, 0x20000000, 0x04100000, 0x10, 0x63]"

definition example_vm :: DmntCheatVm where
  "example_vm = mk_DmntCheatVm\<lparr>num_opcodes := 10, decode_success := True,
     prog := example_words @ replicate 1014 0\<rparr>"

lemma example_length: "length example_words = 10"
  by (simp add: example_words_def)

lemma example_vm_ok: "vm_ok example_vm"
  by (simp add: vm_ok_def example_vm_def mk_DmntCheatVm_def example_words_def MaximumProgramOpcodeCount_def)

lemma example_dword:
  "GetNextDword (example_vm\<lparr>instruction_ptr := i\<rparr>, v) =
     (if i < 10 then Some (example_words ! i, example_vm\<lparr>instruction_ptr := i + 1\<rparr>, v)
      else Some (0, example_vm\<lparr>instruction_ptr := i\<rparr>, False))"
  using example_length by (simp add: GetNextDword_def example_vm_def mk_DmntCheatVm_def nth_opt_def nth_append)

lemma example_instr:
  "next_instr example_vm 0 = Some (\<lparr>begin_conditional_block = True, opcode = BeginKeypressConditional 1\<rparr>, 1)"
  "next_instr example_vm 1 = Some (\<lparr>begin_conditional_block = True, opcode = BeginKeypressConditional 2\<rparr>, 2)"
  "next_instr example_vm 2 = Some (\<lparr>begin_conditional_block = False, opcode = EndConditional\<rparr>, 3)"
  "next_instr example_vm 3 = Some (\<lparr>begin_conditional_block = False, opcode = LoadRegisterStatic 1 0x20000000\<rparr>, 6)"
  "next_instr example_vm 6 = Some (\<lparr>begin_conditional_block = False, opcode = EndConditional\<rparr>, 7)"
  "next_instr example_vm 7 = Some (\<lparr>begin_conditional_block = False, opcode = StoreStatic 4 1 0 0x10 0x63\<rparr>, 10)"
  "next_instr example_vm 10 = None"
proof -
  have e: "example_vm\<lparr>instruction_ptr := i, decode_success := True\<rparr> = example_vm\<lparr>instruction_ptr := i\<rparr>" for i
    by (simp add: example_vm_def)
  note [simp] = next_instr_def e DecodeNextOpcode_def example_dword opcode_type_of_def nibble_def Op_defs
    example_words_def begins_block_def decode_body_def Let_def
  have ds: "decode_success (example_vm\<lparr>instruction_ptr := i\<rparr>)" for i by (simp add: example_vm_def)
  note [simp] = ds
  show "next_instr example_vm 0 = Some (\<lparr>begin_conditional_block = True, opcode = BeginKeypressConditional 1\<rparr>, 1)"
    by simp
  show "next_instr example_vm 1 = Some (\<lparr>begin_conditional_block = True, opcode = BeginKeypressConditional 2\<rparr>, 2)"
    by simp
  show "next_instr example_vm 2 = Some (\<lparr>begin_conditional_block = False, opcode = EndConditional\<rparr>, 3)"
    by simp
  show "next_instr example_vm 3 = Some (\<lparr>begin_conditional_block = False, opcode = LoadRegisterStatic 1 0x20000000\<rparr>, 6)"
    by (simp add: decode_LoadRegisterStatic_def wide_def)
  show "next_instr example_vm 6 = Some (\<lparr>begin_conditional_block = False, opcode = EndConditional\<rparr>, 7)"
    by simp
  show "next_instr example_vm 7 = Some (\<lparr>begin_conditional_block = False, opcode = StoreStatic 4 1 0 0x10 0x63\<rparr>, 10)"
    by (simp add: decode_StoreStatic_def wide_def GetNextVmInt_def)
  show "next_instr example_vm 10 = None" by simp
qed

lemma example_balanced: "balanced example_vm 1 6"
  by (rule balanced.b_block[OF example_instr(2) _ balanced.b_none example_instr(3)])
    (auto intro: balanced.b_plain[OF example_instr(4) _ _ balanced.b_none])

lemma balanced_same_code: "balanced vm i k \<Longrightarrow> same_code vm vm' \<Longrightarrow> balanced vm' i k"
  by (induction rule: balanced.induct) (auto intro: balanced.intros simp: next_instr_same_code)

theorem SkipConditionalBlock_matching_witness:
  "SkipConditionalBlock (example_vm\<lparr>instruction_ptr := 1, condition_depth := 1\<rparr>) =
     Some (example_vm\<lparr>instruction_ptr := 7, condition_depth := 0\<rparr>)"
proof -
  let ?vm = "example_vm\<lparr>instruction_ptr := 1, condition_depth := 1\<rparr>"
  have "vm_ok ?vm" using example_vm_ok by (simp add: example_vm_def)
  moreover have "decode_success ?vm" "condition_depth ?vm = Suc 0" by (simp_all add: example_vm_def)
  moreover have "balanced ?vm (instruction_ptr ?vm) 6"
    using balanced_same_code[OF example_balanced, of ?vm] by (simp add: same_code_def)
  moreover have "next_instr ?vm 6 = Some (\<lparr>begin_conditional_block = False, opcode = EndConditional\<rparr>, 7)"
    using example_instr(5) by simp
  ultimately have "SkipConditionalBlock ?vm = Some (?vm\<lparr>instruction_ptr := 7, condition_depth := 0\<rparr>)"
    by (rule SkipConditionalBlock_matching) simp
  then show ?thesis by simp
qed

text \<open>Two cheats, of which the second one is not enabled.\<close>

definition example_cheats :: "CheatEntry list" where
  "example_cheats = [
     mk_CheatEntry\<lparr>ce_enabled := True, ce_definition := mk_CheatDefinition\<lparr>cd_num_opcodes := 10,
       cd_opcodes := example_words @ replicate 246 0\<rparr>\<rparr>,
     mk_CheatEntry\<lparr>ce_definition := mk_CheatDefinition\<lparr>cd_num_opcodes := 1\<rparr>\<rparr>]"

end
