(* ===== verification/Guest_Memory_Correct.thy ===== *)
theory Guest_Memory_Correct
  imports Guest_Memory
begin

text \<open>
  The memory of a process as a function of the virtual address: every access of
  \<^verbatim>\<open>core/memory.cpp\<close>, of any width, alignment or length, is a sequence of byte accesses
  through the map from virtual to host addresses, and the rasterizer cache does not change that map.
\<close>

section \<open>Little-endian bytes\<close>

lemma length_to_bytes [simp]: "length (to_bytes (w :: 'a :: len word)) = sizeof TYPE('a)"
  by (simp add: to_bytes_def sizeof_def)

lemma nth_to_bytes:
  "i < sizeof TYPE('a) \<Longrightarrow> to_bytes w ! i = ucast (drop_bit (8 * i) w)" for w :: "'a :: len word"
  by (simp add: to_bytes_def sizeof_def)

lemma bit_from_bytes:
  "bit (from_bytes bs :: 'a :: len word) n \<longleftrightarrow> n < LENGTH('a) \<and> n div 8 < length bs \<and> bit (bs ! (n div 8)) (n mod 8)"
proof (induction bs arbitrary: n)
  case Nil
  then show ?case by simp
next
  case (Cons b bs)
  have b8: "bit b n \<Longrightarrow> n < 8" using bit_imp_le_length[of b n] by simp
  show ?case
  proof (cases "n < 8")
    case True
    then show ?thesis by (auto simp: bit_or_iff bit_push_bit_iff bit_ucast_iff)
  next
    case False
    then obtain m where "n = m + 8" by (metis add.commute le_Suc_ex not_less)
    moreover have "(m + 8) div 8 = Suc (m div 8)" by simp
    ultimately show ?thesis using b8 Cons.IH[of m]
      by (auto simp: bit_or_iff bit_push_bit_iff bit_ucast_iff)
  qed
qed

lemma from_to_bytes [simp]:
  "8 dvd LENGTH('a) \<Longrightarrow> from_bytes (to_bytes w) = w" for w :: "'a :: len word"
proof (rule bit_word_eqI)
  fix n assume d: "8 dvd LENGTH('a)" and n: "n < LENGTH('a)"
  then have "n div 8 < LENGTH('a) div 8" by (metis dvd_div_mult_self less_mult_imp_div_less)
  then show "bit (from_bytes (to_bytes w) :: 'a word) n = bit w n"
    using n by (simp add: bit_from_bytes sizeof_def nth_to_bytes bit_ucast_iff bit_drop_bit_eq)
qed

text \<open>Joining two halves, as the accesses to addresses that are not aligned do.\<close>

lemma from_bytes_append:
  "(from_bytes (xs @ ys) :: 'a :: len word) = from_bytes xs OR push_bit (8 * length xs) (from_bytes ys)"
  by (induction xs) (simp_all add: push_bit_or or.assoc)

lemma ucast_from_bytes:
  "8 * length bs \<le> LENGTH('b) \<Longrightarrow> ucast (from_bytes bs :: 'b :: len word) = (from_bytes bs :: 'a :: len word)"
  by (rule bit_word_eqI) (auto simp: bit_ucast_iff bit_from_bytes)

lemma join_bytes:
  assumes "8 * length xs \<le> LENGTH('b)" "8 * length ys \<le> LENGTH('b)" "8 * length xs = k"
  shows "push_bit k (ucast (from_bytes ys :: 'b :: len word)) OR ucast (from_bytes xs :: 'b word) =
    (from_bytes (xs @ ys) :: 'a :: len word)"
  using assms by (simp add: from_bytes_append ucast_from_bytes or.commute)

lemma to_bytes_split:
  assumes "LENGTH('a) = 2 * LENGTH('b)" "8 dvd LENGTH('b)"
  shows "to_bytes (w :: 'a :: len word) =
    to_bytes (ucast w :: 'b :: len word) @ to_bytes (ucast (drop_bit LENGTH('b) w) :: 'b word)"
proof -
  obtain k where k: "LENGTH('b) = 8 * k" using assms(2) by (rule dvdE)
  have "to_bytes w ! i = (to_bytes (ucast w :: 'b word) @ to_bytes (ucast (drop_bit LENGTH('b) w) :: 'b word)) ! i"
    if i: "i < 2 * k" for i
  proof (rule bit_word_eqI)
    fix n :: nat assume "n < LENGTH(8)"
    then show "bit (to_bytes w ! i) n =
        bit ((to_bytes (ucast w :: 'b word) @ to_bytes (ucast (drop_bit LENGTH('b) w) :: 'b word)) ! i) n"
      using i assms(1) k
      by (auto simp: nth_append sizeof_def nth_to_bytes bit_ucast_iff bit_drop_bit_eq algebra_simps
          dest: bit_imp_le_length)
  qed
  then show ?thesis using assms(1) k by (intro nth_equalityI) (simp_all add: sizeof_def)
qed

section \<open>The map from virtual to host addresses\<close>

text \<open>
  A page is well formed when it is unmapped, or backed by a page of the emulated DRAM: its
  pointer and its backing address are that page, less the virtual address of the page. The backing
  address must not be zero, which the code takes as not backed.
\<close>

definition dram_page :: "u64 \<Rightarrow> bool" where
  "dram_page t \<longleftrightarrow> DramMemoryMap_Base \<le> t \<and> unat (t - DramMemoryMap_Base) + 4096 \<le> DramMemoryMap_Size"

definition backed :: "u64 \<Rightarrow> PageTableImpl \<Rightarrow> u64 \<Rightarrow> bool" where
  "backed buffer pm p \<longleftrightarrow> pm_backing_addr pm p \<noteq> 0 \<and> dram_page (pm_backing_addr pm p + push_bit 12 p) \<and>
     buffer + (pm_backing_addr pm p - DramMemoryMap_Base) \<noteq> 0"

definition page_ok :: "u64 \<Rightarrow> PageTableImpl \<Rightarrow> u64 \<Rightarrow> bool" where
  "page_ok buffer pm p \<longleftrightarrow>
     (case pm_attributes pm p of
        Unmapped \<Rightarrow> pm_pointers pm p = 0
      | Memory \<Rightarrow> backed buffer pm p \<and> pm_pointers pm p = buffer + (pm_backing_addr pm p - DramMemoryMap_Base)
      | RasterizerCachedMemory \<Rightarrow> backed buffer pm p \<and> pm_pointers pm p = 0
      | _ \<Rightarrow> False)"

definition gm_ok :: "GuestMemory \<Rightarrow> bool" where
  "gm_ok gm \<longleftrightarrow> pm_ok (gm_table gm) \<and> gm_buffer gm \<noteq> 0 \<and> unat (gm_buffer gm) + DramMemoryMap_Size < 2 ^ 64 \<and>
     (\<forall>p. unat p < pm_entries (gm_table gm) \<longrightarrow> page_ok (gm_buffer gm) (gm_table gm) p)"

text \<open>The host address of a byte of the process, \<^const>\<open>None\<close> on a page that is not mapped.\<close>

definition host_of :: "u64 \<Rightarrow> PageTableImpl \<Rightarrow> nat \<Rightarrow> u64 option" where
  "host_of buffer pm v =
     (let p = of_nat (v div 4096)
      in if pm_attributes pm p \<in> {Memory, RasterizerCachedMemory}
         then Some (buffer + (pm_backing_addr pm p - DramMemoryMap_Base) + of_nat v) else None)"

abbreviation host :: "GuestMemory \<Rightarrow> nat \<Rightarrow> u64 option" where
  "host gm \<equiv> host_of (gm_buffer gm) (gm_table gm)"

text \<open>Reading and writing byte by byte.\<close>

definition load :: "(nat \<Rightarrow> u64 option) \<Rightarrow> (u64 \<Rightarrow> u8) \<Rightarrow> nat \<Rightarrow> nat \<Rightarrow> u8 list" where
  "load h m v n = map (\<lambda>i. case h (v + i) of None \<Rightarrow> 0 | Some a \<Rightarrow> m a) [0..<n]"

primrec store :: "(nat \<Rightarrow> u64 option) \<Rightarrow> nat \<Rightarrow> u8 list \<Rightarrow> (u64 \<Rightarrow> u8) \<Rightarrow> u64 \<Rightarrow> u8" where
  "store h v [] m = m"
| "store h v (b # bs) m = store h (Suc v) bs (case h v of None \<Rightarrow> m | Some a \<Rightarrow> m(a := b))"

text \<open>Two states that differ in the trace of the GPU calls only.\<close>

definition same_memory :: "GuestMemory \<Rightarrow> GuestMemory \<Rightarrow> bool" where
  "same_memory gm gm' \<longleftrightarrow> gm_table gm' = gm_table gm \<and> gm_buffer gm' = gm_buffer gm \<and> gm_bytes gm' = gm_bytes gm"

definition stored :: "nat \<Rightarrow> u8 list \<Rightarrow> GuestMemory \<Rightarrow> GuestMemory \<Rightarrow> bool" where
  "stored v bs gm gm' \<longleftrightarrow> gm_table gm' = gm_table gm \<and> gm_buffer gm' = gm_buffer gm \<and>
     gm_bytes gm' = store (host gm) v bs (gm_bytes gm)"

lemma length_load [simp]: "length (load h m v n) = n"
  by (simp add: load_def)

lemma load_0 [simp]: "load h m v 0 = []"
  by (simp add: load_def)

lemma load_add: "load h m v (a + b) = load h m v a @ load h m (v + a) b"
proof -
  have "[0..<a + b] = [0..<a] @ map (\<lambda>i. a + i) [0..<b]"
    by (induction b) auto
  then show ?thesis by (simp add: load_def add.assoc comp_def)
qed

lemma store_append: "store h v (xs @ ys) m = store h (v + length xs) ys (store h v xs m)"
  by (induction xs arbitrary: v m) simp_all

lemma store_unmapped: "(\<And>i. i < length bs \<Longrightarrow> h (v + i) = None) \<Longrightarrow> store h v bs m = m"
proof (induction bs arbitrary: v m)
  case (Cons b bs)
  from Cons.prems[of 0] have "h v = None" by simp
  moreover have "store h (Suc v) bs m = m" using Cons.prems[of "Suc _"] by (intro Cons.IH) simp
  ultimately show ?case by simp
qed simp

lemma store_contiguous:
  assumes "\<And>i. i < length bs \<Longrightarrow> h (v + i) = Some (a + of_nat i)" "length bs \<le> 2 ^ 32"
  shows "store h v bs m = (\<lambda>x. if unat (x - a) < length bs then bs ! unat (x - a) else m x)"
  using assms
proof (induction bs arbitrary: v a m)
  case Nil
  then show ?case by simp
next
  case (Cons b bs)
  from Cons.prems(1)[of 0] have a: "h v = Some a" by simp
  have "store h (Suc v) bs (m(a := b)) =
      (\<lambda>x. if unat (x - (a + 1)) < length bs then bs ! unat (x - (a + 1)) else (m(a := b)) x)"
    using Cons.prems(1)[of "Suc _"] Cons.prems(2) by (intro Cons.IH) (simp_all add: algebra_simps)
  moreover have "unat (x - (a + 1)) = (if x = a then 2 ^ 64 - 1 else unat (x - a) - 1)" for x :: u64
  proof (cases "x = a")
    case True
    then show ?thesis by (simp add: unsigned_minus_1_eq_mask mask_eq_exp_minus_1)
  next
    case False
    then have "0 < unat (x - a)" by (simp add: unat_gt_0)
    then show ?thesis using False unat_pred[of "x - a"] by (simp add: algebra_simps)
  qed
  ultimately have "store h v (b # bs) m x =
      (if unat (x - a) < length (b # bs) then (b # bs) ! unat (x - a) else m x)" for x
  proof (cases "x = a")
    case False
    then obtain k where "unat (x - a) = Suc k" by (metis gr0_implies_Suc unat_gt_0 right_minus_eq)
    then show ?thesis using a False \<open>\<And>x. unat (x - (a + 1)) = _ x\<close> \<open>store h (Suc v) bs _ = _\<close> by simp
  qed (use a Cons.prems(2) in simp)
  then show ?case by blast
qed

lemma page_split: "v = push_bit 12 (drop_bit 12 v) + of_nat (unat v mod 4096)" for v :: u64
proof -
  have "unat (push_bit 12 (drop_bit 12 v)) = unat v div 4096 * 4096"
    using le_less_trans[OF div_times_less_eq_dividend unat_lt64, of v 4096]
    by (subst push_bit_eq_mult, subst unat_times) (simp_all add: drop_bit_eq_div)
  moreover have "unat (of_nat (unat v mod 4096) :: u64) = unat v mod 4096"
    by (intro unat_of_nat64) (rule less_trans[of _ 4096], simp_all)
  ultimately show ?thesis using unat_lt64[of v]
    by (subst u64_eq_iff, subst unat_plus) (simp_all add: div_mult_mod_eq)
qed

lemma page_number: "drop_bit PAGE_BITS v = of_nat (unat v div 4096)" "unat (drop_bit PAGE_BITS v) = unat v div 4096"
  for v :: u64
proof -
  show "unat (drop_bit PAGE_BITS v) = unat v div 4096" by (simp add: PAGE_BITS_def drop_bit_eq_div)
  then show "drop_bit PAGE_BITS v = of_nat (unat v div 4096)"
    using of_nat_unat_eq[OF le_less_trans[OF div_le_dividend unat_lt64]] by metis
qed

lemma same_page: "x mod 4096 + i < 4096 \<Longrightarrow> (x + i) div 4096 = x div 4096" for x i :: nat
proof -
  assume "x mod 4096 + i < 4096"
  moreover have "x + i = (x mod 4096 + i) + x div 4096 * 4096" by simp
  ultimately show ?thesis by (metis add_0 div_less div_mult_self1 zero_neq_numeral add.commute)
qed

text \<open>What a byte of the process and the rest of its page are.\<close>

definition page_run :: "GuestMemory \<Rightarrow> u64 \<Rightarrow> u64 \<Rightarrow> bool" where
  "page_run gm v h \<longleftrightarrow> (\<forall>i. unat v mod 4096 + i < 4096 \<longrightarrow> host gm (unat v + i) = Some (h + of_nat i)) \<and>
     (\<forall>n. unat v mod 4096 + n \<le> 4096 \<longrightarrow> in_buffer gm h n)"

lemma unat_base_offset: "unat b + unat (h - b) < 2 ^ 64 \<Longrightarrow> unat h = unat b + unat (h - b)" for b h :: u64
  using unat_plus[of b "h - b"] by simp

lemma page_runD:
  "page_run gm v h \<Longrightarrow> unat v mod 4096 + i < 4096 \<Longrightarrow> host gm (unat v + i) = Some (h + of_nat i)"
  by (simp add: page_run_def)

lemma page_run_nonzero: "page_run gm v h \<Longrightarrow> h \<noteq> 0"
proof -
  assume "page_run gm v h"
  then have "in_buffer gm h 0" unfolding page_run_def by (metis add_0_right mod_less_divisor less_imp_le zero_less_numeral)
  then show ?thesis by (simp add: in_buffer_def)
qed

lemma backed_run:
  assumes ok: "gm_ok gm" and b: "backed (gm_buffer gm) (gm_table gm) (drop_bit PAGE_BITS v)"
    and t: "pm_attributes (gm_table gm) (drop_bit PAGE_BITS v) \<in> {Memory, RasterizerCachedMemory}"
    and h: "h = gm_buffer gm + (pm_backing_addr (gm_table gm) (drop_bit PAGE_BITS v) - DramMemoryMap_Base) + v"
  shows "page_run gm v h"
proof -
  define p m where "p = drop_bit PAGE_BITS v" and "m = unat v mod 4096"
  define t0 where "t0 = pm_backing_addr (gm_table gm) p + push_bit 12 p - DramMemoryMap_Base"
  have buf: "0 < unat (gm_buffer gm)" "unat (gm_buffer gm) + DramMemoryMap_Size < 2 ^ 64"
    using ok by (auto simp: gm_ok_def unat_gt_0)
  have dram: "unat t0 + 4096 \<le> DramMemoryMap_Size" using b by (simp add: backed_def dram_page_def t0_def p_def)
  have hb: "h - gm_buffer gm = t0 + of_nat m"
    using page_split[of v] unfolding h t0_def p_def m_def PAGE_BITS_def by (simp add: algebra_simps)
  have m: "m < 4096" "unat (of_nat m :: u64) = m"
    unfolding m_def by (simp, intro unat_of_nat64) (rule less_trans[of _ 4096], simp_all)
  then have off: "unat (h - gm_buffer gm) = unat t0 + m"
    using dram buf(2) unfolding hb by (subst unat_plus) simp_all
  then have "unat h = unat (gm_buffer gm) + (unat t0 + m)"
    using dram buf(2) m(1) unat_base_offset[of "gm_buffer gm" h] by simp
  then have "h \<noteq> 0" using buf(1) by (intro notI) simp
  then have "in_buffer gm h n" if "m + n \<le> 4096" for n using that off dram by (simp add: in_buffer_def)
  moreover have "host gm (unat v + i) = Some (h + of_nat i)" if "m + i < 4096" for i
  proof -
    have "of_nat ((unat v + i) div 4096) = p" using that by (simp only: same_page m_def page_number(1) p_def)
    then show ?thesis using t unfolding h host_of_def Let_def by (simp add: p_def)
  qed
  ultimately show ?thesis by (simp add: page_run_def m_def)
qed

lemma gm_page_cases:
  assumes ok: "gm_ok gm" and r: "unat v div 4096 < pm_entries (gm_table gm)"
  obtains (unmapped) "pm_attributes (gm_table gm) (drop_bit PAGE_BITS v) = Unmapped"
      "pm_pointers (gm_table gm) (drop_bit PAGE_BITS v) = 0"
      "\<And>i. unat v mod 4096 + i < 4096 \<Longrightarrow> host gm (unat v + i) = None"
    | (mapped) h where "pm_attributes (gm_table gm) (drop_bit PAGE_BITS v) = Memory"
      "pm_pointers (gm_table gm) (drop_bit PAGE_BITS v) \<noteq> 0"
      "pm_pointers (gm_table gm) (drop_bit PAGE_BITS v) + v = h" "page_run gm v h"
    | (cached) h where "pm_attributes (gm_table gm) (drop_bit PAGE_BITS v) = RasterizerCachedMemory"
      "pm_pointers (gm_table gm) (drop_bit PAGE_BITS v) = 0"
      "GetPointerFromRasterizerCachedMemory v gm = Some h" "page_run gm v h"
proof -
  let ?p = "drop_bit PAGE_BITS v"
  have p: "unat ?p < pm_entries (gm_table gm)" using r by (simp only: page_number(2))
  then have pk: "page_ok (gm_buffer gm) (gm_table gm) ?p" using ok by (simp add: gm_ok_def)
  show ?thesis
  proof (cases "pm_attributes (gm_table gm) ?p")
    case Unmapped
    have "host gm (unat v + i) = None" if "unat v mod 4096 + i < 4096" for i
    proof -
      have "of_nat ((unat v + i) div 4096) = ?p" by (simp only: same_page[OF that] page_number(1))
      then show ?thesis using Unmapped by (simp add: host_of_def Let_def)
    qed
    then show ?thesis using pk Unmapped by (intro that(1)) (simp_all add: page_ok_def)
  next
    case Memory
    then show ?thesis using pk backed_run[OF ok, of v]
      by (intro that(2)) (auto simp: page_ok_def backed_def)
  next
    case RasterizerCachedMemory
    then show ?thesis using pk p backed_run[OF ok, of v]
      by (intro that(3)) (auto simp: page_ok_def backed_def GetPointerFromRasterizerCachedMemory_def
          table_entry_def DeviceMemory_GetPointer_def)
  qed (use pk in \<open>simp_all add: page_ok_def\<close>)
qed

section \<open>Accesses inside a page\<close>

lemma page_run_load:
  assumes "page_run gm v h" "unat v mod 4096 + n \<le> 4096"
  shows "host_read h n gm = Some (load (host gm) (gm_bytes gm) (unat v) n)"
  using assms by (simp add: page_run_def host_read_def load_def)

lemma page_run_store:
  assumes "page_run gm v h" "unat v mod 4096 + length bs \<le> 4096"
  shows "\<exists>gm'. host_write h bs gm = Some gm' \<and> stored (unat v) bs gm gm'"
  using assms store_contiguous[of bs "host gm" "unat v" h "gm_bytes gm"]
  by (auto simp: page_run_def host_write_def stored_def)

lemma page_run_gpu [simp]: "page_run (gpu_call c gm) v h = page_run gm v h"
  by (simp add: page_run_def gpu_call_def in_buffer_def)

lemma gpu_call_fields [simp]:
  "gm_table (gpu_call c gm) = gm_table gm" "gm_buffer (gpu_call c gm) = gm_buffer gm"
  "gm_bytes (gpu_call c gm) = gm_bytes gm"
  by (simp_all add: gpu_call_def)

lemma stored_gpu [simp]: "stored v bs (gpu_call c gm) gm' = stored v bs gm gm'"
  by (simp add: stored_def)

lemma load_unmapped: "(\<And>i. i < n \<Longrightarrow> h (v + i) = None) \<Longrightarrow> load h m v n = replicate n 0"
  by (rule nth_equalityI) (simp_all add: load_def)

lemma from_bytes_zeros [simp]: "from_bytes (replicate n 0) = 0"
  by (induction n) simp_all

lemma stored_unmapped: "(\<And>i. i < length bs \<Longrightarrow> host gm (v + i) = None) \<Longrightarrow> stored v bs gm gm"
  by (simp add: stored_def store_unmapped)

lemma Read_correct:
  assumes ok: "gm_ok gm" and r: "unat v div 4096 < pm_entries (gm_table gm)"
    and n: "unat v mod 4096 + sizeof TYPE('a) \<le> 4096"
  shows "\<exists>gm'. Read v gm = Some (from_bytes (load (host gm) (gm_bytes gm) (unat v) (sizeof TYPE('a))) :: 'a :: len word, gm') \<and>
    same_memory gm gm'"
  using ok r
proof (cases rule: gm_page_cases)
  case unmapped
  then have "load (host gm) (gm_bytes gm) (unat v) (sizeof TYPE('a)) = replicate (sizeof TYPE('a)) 0"
    using n by (intro load_unmapped) simp
  then show ?thesis using unmapped r by (simp add: Read_def table_entry_def page_number(2) same_memory_def)
next
  case (mapped h)
  then show ?thesis using r page_run_load[OF mapped(4) n]
    by (simp add: Read_def table_entry_def page_number(2) same_memory_def)
next
  case (cached h)
  then show ?thesis using r page_run_load[of "gpu_call c gm" v h "sizeof TYPE('a)" for c] n
    by (simp add: Read_def table_entry_def page_number(2) same_memory_def)
qed

lemma Write_correct:
  fixes data :: "'a :: len word"
  assumes ok: "gm_ok gm" and r: "unat v div 4096 < pm_entries (gm_table gm)"
    and n: "unat v mod 4096 + sizeof TYPE('a) \<le> 4096"
  shows "\<exists>gm'. Write v data gm = Some gm' \<and> stored (unat v) (to_bytes data) gm gm'"
  using ok r
proof (cases rule: gm_page_cases)
  case unmapped
  then show ?thesis using r n stored_unmapped[of "to_bytes data" gm "unat v"]
    by (simp add: Write_def table_entry_def page_number(2))
next
  case (mapped h)
  then show ?thesis using r n page_run_store[OF mapped(4), of "to_bytes data"]
    by (simp add: Write_def table_entry_def page_number(2))
next
  case (cached h)
  then show ?thesis using r n page_run_store[of "gpu_call c gm" v h "to_bytes data" for c]
    by (simp add: Write_def table_entry_def page_number(2))
qed

section \<open>Accesses of every width and alignment\<close>

definition in_table :: "GuestMemory \<Rightarrow> u64 \<Rightarrow> nat \<Rightarrow> bool" where
  "in_table gm v n \<longleftrightarrow> unat v + n \<le> pm_entries (gm_table gm) * 4096"

lemma same_memoryD:
  assumes "same_memory gm gm'"
  shows "gm_table gm' = gm_table gm" "gm_buffer gm' = gm_buffer gm" "gm_bytes gm' = gm_bytes gm"
    "gm_ok gm' = gm_ok gm" "in_table gm' = in_table gm"
  using assms by (simp_all add: same_memory_def gm_ok_def in_table_def fun_eq_iff)

lemma storedD:
  assumes "stored v bs gm gm'"
  shows "gm_table gm' = gm_table gm" "gm_buffer gm' = gm_buffer gm" "gm_ok gm' = gm_ok gm" "in_table gm' = in_table gm"
    "gm_bytes gm' = store (host gm) v bs (gm_bytes gm)"
  using assms by (simp_all add: stored_def gm_ok_def in_table_def fun_eq_iff)

lemma same_memory_trans: "same_memory a b \<Longrightarrow> same_memory b c \<Longrightarrow> same_memory a c"
  by (simp add: same_memory_def)

lemma stored_append: "stored v xs a b \<Longrightarrow> stored (v + length xs) ys b c \<Longrightarrow> stored v (xs @ ys) a c"
  by (simp add: stored_def store_append)

lemma unat_and_mask: "unat (v AND mask k) = unat v mod 2 ^ k" for v :: u64
  by (simp only: take_bit_eq_mask[symmetric] unsigned_take_bit_eq) (rule take_bit_eq_mod)

lemma aligned_fits:
  fixes v :: u64
  assumes "v AND mask k = 0" "k \<le> 12"
  shows "unat v mod 4096 + 2 ^ k \<le> 4096"
proof -
  have "2 ^ k dvd unat v" using assms(1) unat_and_mask[of v k] by (simp add: mod_eq_0_iff_dvd)
  moreover have "(2 :: nat) ^ k dvd 2 ^ 12" using assms(2) by (rule le_imp_power_dvd)
  ultimately have "2 ^ k dvd unat v mod 4096" "(2 :: nat) ^ k dvd 4096" by (simp_all add: dvd_mod)
  then show ?thesis by (rule mult_dvd_gap) simp
qed

lemma in_table_page: "in_table gm v n \<Longrightarrow> 0 < n \<Longrightarrow> unat v div 4096 < pm_entries (gm_table gm)"
  by (simp add: in_table_def div_less_iff_less_mult)

lemma in_table_split:
  assumes "in_table gm v (a + b)" "gm_ok gm" "0 < b"
  shows "in_table gm v a" "in_table gm (v + of_nat a) b" "unat (v + of_nat a) = unat v + a"
proof -
  have "unat v + (a + b) < 2 ^ 64" using assms(1,2) by (simp add: in_table_def gm_ok_def pm_ok_def)
  then show u: "unat (v + of_nat a) = unat v + a" by (subst unat_plus) simp_all
  show "in_table gm v a" "in_table gm (v + of_nat a) b" using assms(1) u by (simp_all add: in_table_def)
qed

text \<open>A read of a width that returns the bytes of its range in little-endian order.\<close>

definition reads :: "nat \<Rightarrow> (u64 \<Rightarrow> GuestMemory \<Rightarrow> ('a :: len word \<times> GuestMemory) option) \<Rightarrow> bool" where
  "reads n f \<longleftrightarrow> (\<forall>gm v. gm_ok gm \<longrightarrow> in_table gm v n \<longrightarrow>
     (\<exists>gm'. f v gm = Some (from_bytes (load (host gm) (gm_bytes gm) (unat v) n), gm') \<and> same_memory gm gm'))"

lemma readsD:
  assumes "reads n f" "gm_ok gm" "in_table gm v n"
  obtains gm' where "f v gm = Some (from_bytes (load (host gm) (gm_bytes gm) (unat v) n), gm')" "same_memory gm gm'"
  using assms unfolding reads_def by blast

lemma reads_twice:
  fixes f :: "u64 \<Rightarrow> GuestMemory \<Rightarrow> ('b :: len word \<times> GuestMemory) option"
  assumes f: "reads n f" and n: "0 < n" "LENGTH('b) = 8 * n" and ok: "gm_ok gm" "in_table gm v (n + n)"
  shows "\<exists>gm'. Option.bind (f v gm) (\<lambda>(a, gm). Option.bind (f (v + of_nat n) gm)
      (\<lambda>(b, gm). Some (push_bit (8 * n) (ucast b) OR ucast a, gm))) =
    Some (from_bytes (load (host gm) (gm_bytes gm) (unat v) (n + n)) :: 'a :: len word, gm') \<and> same_memory gm gm'"
proof -
  note s = in_table_split[OF ok(2,1) n(1)]
  obtain g1 where 1: "f v gm = Some (from_bytes (load (host gm) (gm_bytes gm) (unat v) n), g1)" "same_memory gm g1"
    using f ok(1) s(1) by (rule readsD)
  note d = same_memoryD[OF 1(2)]
  obtain g2 where 2: "f (v + of_nat n) g1 = Some (from_bytes (load (host g1) (gm_bytes g1) (unat (v + of_nat n)) n), g2)"
    "same_memory g1 g2"
    using f ok(1) s(2) d by (metis readsD)
  show ?thesis
    unfolding load_add using 1 2 d n s(3) same_memory_trans[OF 1(2) 2(2)] by (simp add: join_bytes)
qed

lemma reads_Read: "unat v mod 4096 + sizeof TYPE('a) \<le> 4096 \<Longrightarrow> gm_ok gm \<Longrightarrow> in_table gm v (sizeof TYPE('a)) \<Longrightarrow>
    0 < sizeof TYPE('a) \<Longrightarrow>
    \<exists>gm'. Read v gm = Some (from_bytes (load (host gm) (gm_bytes gm) (unat v) (sizeof TYPE('a))) :: 'a :: len word, gm') \<and>
    same_memory gm gm'"
  by (intro Read_correct in_table_page)

lemma aligned_lits:
  "v AND 1 = 0 \<Longrightarrow> unat v mod 4096 + 2 \<le> 4096" "v AND 3 = 0 \<Longrightarrow> unat v mod 4096 + 4 \<le> 4096"
  "v AND 7 = 0 \<Longrightarrow> unat v mod 4096 + 8 \<le> 4096" for v :: u64
  using aligned_fits[of v 1] aligned_fits[of v 2] aligned_fits[of v 3] by (simp_all add: mask_eq_exp_minus_1)

lemma sizeof_lits [simp]: "sizeof TYPE(8) = 1" "sizeof TYPE(16) = 2" "sizeof TYPE(32) = 4" "sizeof TYPE(64) = 8"
  "sizeof TYPE(128) = 16"
  by (simp_all add: sizeof_def)

lemma reads_Read8: "reads 1 Read8"
  using reads_Read[where 'a = 8] by (simp add: reads_def Read8_def Suc_le_eq)

lemma reads_Read16: "reads 2 Read16"
  unfolding reads_def
proof (intro allI impI)
  fix gm v assume ok: "gm_ok gm" "in_table gm v 2"
  show "\<exists>gm'. Read16 v gm = Some (from_bytes (load (host gm) (gm_bytes gm) (unat v) 2), gm') \<and> same_memory gm gm'"
  proof (cases "v AND 1 = 0")
    case True
    then show ?thesis using aligned_lits(1) reads_Read[where 'a = 16, of v gm] ok by (simp add: Read16_def)
  next
    case False
    have "in_table gm v (1 + 1)" using ok(2) by (simp only: one_add_one)
    then show ?thesis using reads_twice[OF reads_Read8 _ _ ok(1), of v, unfolded one_add_one] False ok(2)
      by (simp add: Read16_def Read8_def)
  qed
qed

lemma reads_Read32: "reads 4 Read32"
  unfolding reads_def
proof (intro allI impI)
  fix gm v assume ok: "gm_ok gm" "in_table gm v 4"
  show "\<exists>gm'. Read32 v gm = Some (from_bytes (load (host gm) (gm_bytes gm) (unat v) 4), gm') \<and> same_memory gm gm'"
  proof (cases "v AND 3 = 0")
    case True
    then show ?thesis using aligned_lits(2) reads_Read[where 'a = 32, of v gm] ok by (simp add: Read32_def)
  next
    case False
    have "in_table gm v (2 + 2)" using ok(2) by simp
    then show ?thesis using reads_twice[OF reads_Read16 _ _ ok(1), of v] False by (simp add: Read32_def)
  qed
qed

lemma reads_Read64: "reads 8 Read64"
  unfolding reads_def
proof (intro allI impI)
  fix gm v assume ok: "gm_ok gm" "in_table gm v 8"
  show "\<exists>gm'. Read64 v gm = Some (from_bytes (load (host gm) (gm_bytes gm) (unat v) 8), gm') \<and> same_memory gm gm'"
  proof (cases "v AND 7 = 0")
    case True
    then show ?thesis using aligned_lits(3) reads_Read[where 'a = 64, of v gm] ok by (simp add: Read64_def)
  next
    case False
    have "in_table gm v (4 + 4)" using ok(2) by simp
    then show ?thesis using reads_twice[OF reads_Read32 _ _ ok(1), of v] False by (simp add: Read64_def)
  qed
qed

text \<open>A write of a width that stores the bytes of its value one after the other.\<close>

definition writes :: "nat \<Rightarrow> (u64 \<Rightarrow> 'a :: len word \<Rightarrow> GuestMemory \<Rightarrow> GuestMemory option) \<Rightarrow> bool" where
  "writes n f \<longleftrightarrow> (\<forall>gm v data. gm_ok gm \<longrightarrow> in_table gm v n \<longrightarrow>
     (\<exists>gm'. f v data gm = Some gm' \<and> stored (unat v) (to_bytes data) gm gm'))"

lemma writesD:
  assumes "writes n f" "gm_ok gm" "in_table gm v n"
  obtains gm' where "f v data gm = Some gm'" "stored (unat v) (to_bytes data) gm gm'"
  using assms unfolding writes_def by blast

lemma writes_twice:
  fixes f :: "u64 \<Rightarrow> 'b :: len word \<Rightarrow> GuestMemory \<Rightarrow> GuestMemory option" and data :: "'a :: len word"
  assumes f: "writes n f" and n: "0 < n" "LENGTH('b) = 8 * n" "LENGTH('a) = 2 * LENGTH('b)"
    and ok: "gm_ok gm" "in_table gm v (n + n)"
  shows "\<exists>gm'. Option.bind (f v (ucast data) gm) (f (v + of_nat n) (ucast (drop_bit (8 * n) data))) = Some gm' \<and>
    stored (unat v) (to_bytes data) gm gm'"
proof -
  note s = in_table_split[OF ok(2,1) n(1)]
  obtain g1 where 1: "f v (ucast data) gm = Some g1" "stored (unat v) (to_bytes (ucast data :: 'b word)) gm g1"
    using f ok(1) s(1) by (rule writesD)
  note d = storedD[OF 1(2)]
  obtain g2 where 2: "f (v + of_nat n) (ucast (drop_bit (8 * n) data)) g1 = Some g2"
    "stored (unat (v + of_nat n)) (to_bytes (ucast (drop_bit (8 * n) data) :: 'b word)) g1 g2"
    using f ok(1) s(2) d by (metis writesD)
  have "to_bytes data = to_bytes (ucast data :: 'b word) @ to_bytes (ucast (drop_bit (8 * n) data) :: 'b word)"
    using to_bytes_split[where 'b = 'b, of data] n by simp
  moreover have "length (to_bytes (ucast data :: 'b word)) = n" using n(2) by (simp add: sizeof_def)
  ultimately show ?thesis using 1 2 s(3) stored_append[OF 1(2)] by simp
qed

lemma writes_Write: "unat v mod 4096 + sizeof TYPE('a) \<le> 4096 \<Longrightarrow> gm_ok gm \<Longrightarrow> in_table gm v (sizeof TYPE('a)) \<Longrightarrow>
    0 < sizeof TYPE('a) \<Longrightarrow> \<exists>gm'. Write v data gm = Some gm' \<and> stored (unat v) (to_bytes data) gm gm'"
  for data :: "'a :: len word"
  by (intro Write_correct in_table_page)

lemma writes_Write8: "writes 1 Write8"
  using writes_Write[where 'a = 8] by (simp add: writes_def Write8_def Suc_le_eq)

lemma writes_Write16: "writes 2 Write16"
  unfolding writes_def
proof (intro allI impI)
  fix gm v data assume ok: "gm_ok gm" "in_table gm v 2"
  have "in_table gm v (1 + 1)" using ok(2) by (simp only: one_add_one)
  then show "\<exists>gm'. Write16 v data gm = Some gm' \<and> stored (unat v) (to_bytes data) gm gm'"
    using aligned_lits(1) writes_Write[of v gm data] ok writes_twice[OF writes_Write8 _ _ _ ok(1), of v data]
    by (simp add: Write16_def Write8_def[abs_def])
qed

lemma writes_Write32: "writes 4 Write32"
  unfolding writes_def
proof (intro allI impI)
  fix gm v data assume ok: "gm_ok gm" "in_table gm v 4"
  have "in_table gm v (2 + 2)" using ok(2) by simp
  then show "\<exists>gm'. Write32 v data gm = Some gm' \<and> stored (unat v) (to_bytes data) gm gm'"
    using aligned_lits(2) writes_Write[of v gm data] ok writes_twice[OF writes_Write16 _ _ _ ok(1), of v data]
    by (simp add: Write32_def)
qed

lemma writes_Write64: "writes 8 Write64"
  unfolding writes_def
proof (intro allI impI)
  fix gm v data assume ok: "gm_ok gm" "in_table gm v 8"
  have "in_table gm v (4 + 4)" using ok(2) by simp
  then show "\<exists>gm'. Write64 v data gm = Some gm' \<and> stored (unat v) (to_bytes data) gm gm'"
    using aligned_lits(3) writes_Write[of v gm data] ok writes_twice[OF writes_Write32 _ _ _ ok(1), of v data]
    by (simp add: Write64_def)
qed

section \<open>Blocks\<close>

text \<open>The address of an offset in a page, and the way the loops walk over the pages.\<close>

definition page_addr :: "u64 \<Rightarrow> u64 \<Rightarrow> u64" where
  "page_addr page_index page_offset = push_bit PAGE_BITS page_index + page_offset"

lemma page_addr_props:
  assumes "unat pi < 2 ^ 52" "unat po < 4096"
  shows "unat (page_addr pi po) = unat pi * 4096 + unat po" "drop_bit PAGE_BITS (page_addr pi po) = pi"
    "unat (page_addr pi po) mod 4096 = unat po"
proof -
  have p: "unat (push_bit PAGE_BITS pi) = unat pi * 4096"
    using assms(1) by (subst push_bit_eq_mult, subst unat_times) (simp_all add: PAGE_BITS_def)
  then show u: "unat (page_addr pi po) = unat pi * 4096 + unat po"
    using assms unfolding page_addr_def by (subst unat_plus) simp_all
  have "unat (drop_bit PAGE_BITS (page_addr pi po)) = unat pi" using assms(2) by (simp only: page_number(2) u)
  then show "drop_bit PAGE_BITS (page_addr pi po) = pi" by (simp only: u64_eq_iff)
  show "unat (page_addr pi po) mod 4096 = unat po" using assms(2) u by simp
qed

lemma page_addr_of: "page_addr (drop_bit PAGE_BITS v) (v AND PAGE_MASK) = v" "unat (v AND PAGE_MASK) < 4096"
proof -
  have "PAGE_MASK = mask 12" by (simp add: PAGE_MASK_def PAGE_SIZE_def PAGE_BITS_def mask_eq_exp_minus_1)
  then have u: "unat (v AND PAGE_MASK) = unat v mod 4096" using unat_and_mask[of v 12] by simp
  show "unat (v AND PAGE_MASK) < 4096" unfolding u by simp
  have "v AND PAGE_MASK = of_nat (unat v mod 4096)" by (simp only: u[symmetric]) simp
  then show "page_addr (drop_bit PAGE_BITS v) (v AND PAGE_MASK) = v"
    using page_split[of v] by (simp add: page_addr_def PAGE_BITS_def)
qed

text \<open>The state of a loop over the pages: what is left fits into the table.\<close>

definition walk_ok :: "GuestMemory \<Rightarrow> u64 \<Rightarrow> u64 \<Rightarrow> u64 \<Rightarrow> bool" where
  "walk_ok gm rem pi po \<longleftrightarrow> gm_ok gm \<and> unat po < 4096 \<and>
     unat pi * 4096 + unat po + unat rem \<le> pm_entries (gm_table gm) * 4096"

definition walk_amount :: "u64 \<Rightarrow> u64 \<Rightarrow> u64" where
  "walk_amount rem po = min (PAGE_SIZE - po) rem"

lemma walk_start: "gm_ok gm \<Longrightarrow> in_table gm v (unat sz) \<Longrightarrow> walk_ok gm sz (drop_bit PAGE_BITS v) (v AND PAGE_MASK)"
proof -
  assume a: "gm_ok gm" "in_table gm v (unat sz)"
  have "unat v div 4096 < 2 ^ 52" using unat_lt64[of v] by simp
  then have "unat (drop_bit PAGE_BITS v) < 2 ^ 52" by (simp only: page_number(2))
  then show ?thesis using a page_addr_props(1)[of "drop_bit PAGE_BITS v" "v AND PAGE_MASK"] page_addr_of[of v]
    by (simp add: walk_ok_def in_table_def)
qed

lemma walk_step:
  assumes w: "walk_ok gm rem pi po" and pos: "rem > 0"
  shows "unat pi < pm_entries (gm_table gm)" "unat pi < 2 ^ 52"
    "unat (walk_amount rem po) = min (4096 - unat po) (unat rem)" "0 < unat (walk_amount rem po)"
    "unat po + unat (walk_amount rem po) \<le> 4096"
    "unat (rem - walk_amount rem po) = unat rem - unat (walk_amount rem po)"
    "walk_ok gm (rem - walk_amount rem po) (pi + 1) 0"
    "unat rem \<noteq> unat (walk_amount rem po) \<Longrightarrow>
      unat (page_addr (pi + 1) 0) = unat (page_addr pi po) + unat (walk_amount rem po)"
proof -
  note d = w[unfolded walk_ok_def]
  have e: "pm_entries (gm_table gm) < 2 ^ 52" using d by (simp add: gm_ok_def pm_ok_def)
  have r: "0 < unat rem" using pos by (simp add: unat_gt_0)
  show pe: "unat pi < pm_entries (gm_table gm)" using d r by linarith
  then show p52: "unat pi < 2 ^ 52" using e by simp
  have "unat (PAGE_SIZE - po) = 4096 - unat po"
    using d by (subst unat_diff) (simp_all add: PAGE_SIZE_def PAGE_BITS_def)
  then show a: "unat (walk_amount rem po) = min (4096 - unat po) (unat rem)"
    by (simp add: walk_amount_def min_def word_le_nat_alt)
  then show "0 < unat (walk_amount rem po)" "unat po + unat (walk_amount rem po) \<le> 4096" using d r by auto
  show s: "unat (rem - walk_amount rem po) = unat rem - unat (walk_amount rem po)" using a by (subst unat_diff) auto
  have i: "unat (pi + 1) = unat pi + 1" using p52 by (subst unat_plus) auto
  show "walk_ok gm (rem - walk_amount rem po) (pi + 1) 0"
    using d pe unfolding walk_ok_def i s a by (auto simp: min_def)
  assume "unat rem \<noteq> unat (walk_amount rem po)"
  then have "unat (walk_amount rem po) = 4096 - unat po" "4096 - unat po < unat rem" using a by auto
  moreover have "unat (pi + 1) < 2 ^ 52" using i pe e d calculation(2) by simp
  ultimately show "unat (page_addr (pi + 1) 0) = unat (page_addr pi po) + unat (walk_amount rem po)"
    using d p52 i by (simp add: page_addr_props)
qed

lemma ReadBlock_page_correct:
  assumes ok: "gm_ok gm" "pm = gm_table gm" and p: "unat pi < pm_entries pm" "unat pi < 2 ^ 52" and n: "unat po < 4096" "unat po + n \<le> 4096"
  shows "\<exists>gm'. ReadBlock_page flush pm pi po n old gm =
      Some (load (host gm) (gm_bytes gm) (unat (page_addr pi po)) n, gm') \<and> same_memory gm gm'"
proof -
  let ?v = "page_addr pi po"
  note v = page_addr_props[OF p(2) n(1)]
  have m: "unat ?v mod 4096 + n \<le> 4096" using n(2) v(3) by simp
  have r: "unat ?v div 4096 < pm_entries (gm_table gm)" using p(1) ok(2) v(1) n(1) by simp
  have a: "pm_pointers pm pi + po + push_bit PAGE_BITS pi = pm_pointers pm pi + ?v" by (simp add: page_addr_def)
  from ok(1) r show ?thesis
  proof (cases rule: gm_page_cases)
    case unmapped
    then have "load (host gm) (gm_bytes gm) (unat ?v) n = replicate n 0" using m by (intro load_unmapped) simp
    then show ?thesis using unmapped(1) p(1) ok(2)
      by (simp add: ReadBlock_page_def Let_def table_entry_def same_memory_def v(2))
  next
    case (mapped h)
    then show ?thesis using p(1) ok(2) page_run_load[OF mapped(4) m] a
      by (simp add: ReadBlock_page_def Let_def table_entry_def same_memory_def v(2))
  next
    case (cached h)
    then show ?thesis using p(1) ok(2) page_run_load[of "if flush then gpu_call c gm else gm" ?v h n for c] m
      by (simp add: ReadBlock_page_def Let_def table_entry_def same_memory_def v(2) page_addr_def[symmetric])
  qed
qed

lemma ReadBlock_loop_correct:
  assumes "walk_ok gm rem pi po" "length dest = unat rem" "pm = gm_table gm"
  shows "\<exists>gm'. ReadBlock_loop flush pm rem pi po dest gm =
      Some (load (host gm) (gm_bytes gm) (unat (page_addr pi po)) (unat rem), gm') \<and> same_memory gm gm'"
  using assms
proof (induction "unat rem" arbitrary: rem pi po dest gm rule: less_induct)
  case less
  note w = less.prems(1)
  show ?case
  proof (cases "rem > 0")
    case False
    then have "rem = 0" by (simp add: word_gt_0)
    then show ?thesis using less.prems(2)
      by (subst ReadBlock_loop.simps) (simp add: same_memory_def load_def)
  next
    case True
    note st = walk_step[OF w True]
    let ?n = "walk_amount rem po"
    obtain g1 where 1: "ReadBlock_page flush pm pi po (unat ?n) (take (unat ?n) dest) gm =
        Some (load (host gm) (gm_bytes gm) (unat (page_addr pi po)) (unat ?n), g1)" "same_memory gm g1"
      using ReadBlock_page_correct[of gm pm pi po "unat ?n" flush] w st less.prems(3) by (auto simp: walk_ok_def)
    note d = same_memoryD[OF 1(2)]
    have "walk_ok g1 (rem - ?n) (pi + 1) 0" using st(7) d by (simp add: walk_ok_def)
    moreover have "unat (rem - ?n) < unat rem" using st(3,4,6) by linarith
    ultimately obtain g2 where 2: "ReadBlock_loop flush pm (rem - ?n) (pi + 1) 0 (drop (unat ?n) dest) g1 =
        Some (load (host g1) (gm_bytes g1) (unat (page_addr (pi + 1) 0)) (unat (rem - ?n)), g2)" "same_memory g1 g2"
      using less.hyps[of "rem - ?n" g1 "pi + 1" 0 "drop (unat ?n) dest"] st(6) less.prems(2,3) d by auto
    have "load (host gm) (gm_bytes gm) (unat (page_addr pi po)) (unat rem) =
        load (host gm) (gm_bytes gm) (unat (page_addr pi po)) (unat ?n) @
        load (host gm) (gm_bytes gm) (unat (page_addr (pi + 1) 0)) (unat (rem - ?n))"
    proof (cases "unat rem = unat ?n")
      case True
      then show ?thesis using st(6) by simp
    next
      case False
      then have "unat rem = unat ?n + unat (rem - ?n)" using st(3,6) by simp
      then show ?thesis unfolding st(8)[OF False] by (metis load_add)
    qed
    then show ?thesis using True 1(1) 2(1) d(1-3) same_memory_trans[OF 1(2) 2(2)]
      by (subst ReadBlock_loop.simps) (simp add: Let_def walk_amount_def[symmetric])
  qed
qed

lemma ReadBlock_load:
  assumes "gm_ok gm" "in_table gm v (length dest)"
  shows "\<exists>gm'. ReadBlock (gm_table gm) v dest gm =
      Some (load (host gm) (gm_bytes gm) (unat v) (length dest), gm') \<and> same_memory gm gm'"
    "\<exists>gm'. ReadBlockUnsafe (gm_table gm) v dest gm =
      Some (load (host gm) (gm_bytes gm) (unat v) (length dest), gm') \<and> same_memory gm gm'"
proof -
  have "length dest < 2 ^ 64" using assms by (simp add: in_table_def gm_ok_def pm_ok_def)
  then have l: "unat (of_nat (length dest) :: u64) = length dest" by simp
  then have "walk_ok gm (of_nat (length dest)) (drop_bit PAGE_BITS v) (v AND PAGE_MASK)"
    using assms by (intro walk_start) simp_all
  from ReadBlock_loop_correct[OF this] l show
    "\<exists>gm'. ReadBlock (gm_table gm) v dest gm =
      Some (load (host gm) (gm_bytes gm) (unat v) (length dest), gm') \<and> same_memory gm gm'"
    "\<exists>gm'. ReadBlockUnsafe (gm_table gm) v dest gm =
      Some (load (host gm) (gm_bytes gm) (unat v) (length dest), gm') \<and> same_memory gm gm'"
    by (simp_all add: ReadBlock_def ReadBlockUnsafe_def page_addr_of)
qed

text \<open>
  The loops that write differ in where the bytes of a page come from: \<open>page\<close> writes \<open>n\<close>
  bytes at an offset of a page from a source, and \<open>I v data s gm\<close> says that the source yields \<open>data\<close>.
  One walk serves them all.
\<close>

lemma write_walk:
  fixes f :: "u64 \<Rightarrow> u64 \<Rightarrow> u64 \<Rightarrow> 's \<Rightarrow> GuestMemory \<Rightarrow> GuestMemory option"
    and I :: "u64 \<Rightarrow> u8 list \<Rightarrow> 's \<Rightarrow> GuestMemory \<Rightarrow> bool"
  assumes f: "\<And>rem pi po s gm. f rem pi po s gm =
      (if rem > 0
       then Option.bind (page pi po (walk_amount rem po) s gm)
         (f (rem - walk_amount rem po) (pi + 1) 0 (onward (walk_amount rem po) s))
       else Some gm)"
    and page: "\<And>pi po n data s gm. gm_ok gm \<Longrightarrow> unat pi < pm_entries (gm_table gm) \<Longrightarrow> unat pi < 2 ^ 52 \<Longrightarrow>
      unat po < 4096 \<Longrightarrow> unat po + unat n \<le> 4096 \<Longrightarrow> unat n \<le> length data \<Longrightarrow> gm_table gm = pm \<Longrightarrow>
      in_table gm (page_addr pi po) (length data) \<Longrightarrow>
      I (page_addr pi po) data s gm \<Longrightarrow>
      \<exists>gm'. page pi po n s gm = Some gm' \<and> stored (unat (page_addr pi po)) (take (unat n) data) gm gm' \<and>
        (\<forall>v. unat v = unat (page_addr pi po) + unat n \<longrightarrow> I v (drop (unat n) data) (onward n s) gm')"
  shows "walk_ok gm rem pi po \<Longrightarrow> gm_table gm = pm \<Longrightarrow> I (page_addr pi po) data s gm \<Longrightarrow> length data = unat rem \<Longrightarrow>
    \<exists>gm'. f rem pi po s gm = Some gm' \<and> stored (unat (page_addr pi po)) data gm gm'"
proof (induction "unat rem" arbitrary: rem pi po s data gm rule: less_induct)
  case less
  note w = less.prems(1)
  show ?case
  proof (cases "rem > 0")
    case False
    then have "rem = 0" by (simp add: word_gt_0)
    then show ?thesis using less.prems(4) by (subst f) (simp add: stored_def)
  next
    case True
    note st = walk_step[OF w True]
    let ?n = "walk_amount rem po" and ?v = "page_addr pi po"
    have "in_table gm ?v (length data)"
      using w less.prems(4) st(2) page_addr_props(1)[of pi po] by (simp add: in_table_def walk_ok_def)
    then obtain g1 where 1: "page pi po ?n s gm = Some g1" "stored (unat ?v) (take (unat ?n) data) gm g1"
      "\<And>v. unat v = unat ?v + unat ?n \<Longrightarrow> I v (drop (unat ?n) data) (onward ?n s) g1"
      using page[of gm pi po ?n data s] w st less.prems by (auto simp: walk_ok_def)
    note d = storedD[OF 1(2)]
    have w1: "walk_ok g1 (rem - ?n) (pi + 1) 0" using st(7) d by (simp add: walk_ok_def)
    have l: "length (take (unat ?n) data) = unat ?n" using st(3) less.prems(4) by simp
    show ?thesis
    proof (cases "unat rem = unat ?n")
      case all: True
      then have r0: "rem - ?n = 0" using st(6) by (simp only: u64_eq_iff) simp
      have "f (rem - ?n) (pi + 1) 0 s' g1 = Some g1" for s' unfolding r0 by (subst f) simp
      then have "f rem pi po s gm = Some g1" using True 1(1) by (subst f) simp
      moreover have "take (unat ?n) data = data" by (rule take_all) (simp only: less.prems(4) all)
      ultimately show ?thesis using 1(2) by simp
    next
      case False
      moreover have "unat (rem - ?n) < unat rem" using st(3,4,6) by linarith
      ultimately obtain g2 where 2: "f (rem - ?n) (pi + 1) 0 (onward ?n s) g1 = Some g2"
        "stored (unat ?v + unat ?n) (drop (unat ?n) data) g1 g2"
        using less.hyps[OF _ w1, of "drop (unat ?n) data" "onward ?n s"] 1(3)[OF st(8)] st(6,8) less.prems(2,4) d(1) by auto
      have "stored (unat ?v) (take (unat ?n) data @ drop (unat ?n) data) gm g2"
        using 1(2) 2(2) by (intro stored_append) (simp_all only: l)
      then show ?thesis using True 1(1) 2(1) by (subst f) simp
    qed
  qed
qed

lemma page_write_cases:
  assumes ok: "gm_ok gm" "gm_table gm = pm" and p: "unat pi < pm_entries (gm_table gm)" "unat pi < 2 ^ 52" "unat po < 4096"
  obtains (unmapped) "table_entry pm_attributes pm pi = Some Unmapped"
      "\<And>i. unat po + i < 4096 \<Longrightarrow> host gm (unat (page_addr pi po) + i) = None"
    | (mapped) h where "table_entry pm_attributes pm pi = Some Memory"
      "pm_pointers pm pi + po + push_bit PAGE_BITS pi = h" "page_run gm (page_addr pi po) h"
    | (cached) h where "table_entry pm_attributes pm pi = Some RasterizerCachedMemory"
      "GetPointerFromRasterizerCachedMemory (push_bit PAGE_BITS pi + po) gm = Some h" "page_run gm (page_addr pi po) h"
proof -
  let ?v = "page_addr pi po"
  note v = page_addr_props[OF p(2,3)]
  have r: "unat ?v div 4096 < pm_entries (gm_table gm)" using p v(1) by simp
  have a: "pm_pointers pm pi + po + push_bit PAGE_BITS pi = pm_pointers pm pi + ?v" by (simp add: page_addr_def)
  from ok(1) r show ?thesis
  proof (cases rule: gm_page_cases)
    case unmapped
    show ?thesis by (rule that(1)) (use unmapped p(1) ok(2) v(2,3) in \<open>simp_all add: table_entry_def\<close>)
  next
    case (mapped h)
    show ?thesis by (rule that(2)[of h]) (use mapped p(1) ok(2) v(2) a in \<open>simp_all add: table_entry_def\<close>)
  next
    case (cached h)
    show ?thesis by (rule that(3)[of h])
      (use cached p(1) ok(2) v(2) in \<open>simp_all add: table_entry_def page_addr_def\<close>)
  qed
qed

lemma stored_page_run:
  assumes "page_run gm (page_addr pi po) h" "unat pi < 2 ^ 52" "unat po < 4096" "unat po + length bs \<le> 4096"
  shows "\<exists>gm'. host_write h bs gm = Some gm' \<and> stored (unat (page_addr pi po)) bs gm gm'"
  using page_run_store[OF assms(1), of bs] page_addr_props(3)[OF assms(2,3)] assms(4) by simp

lemma WriteBlock_buffer_page:
  assumes ok: "gm_ok gm" and p: "unat pi < pm_entries (gm_table gm)" "unat pi < 2 ^ 52"
    and n: "unat po < 4096" "unat po + unat n \<le> 4096" "unat n \<le> length data" and t: "gm_table gm = pm"
  shows "\<exists>gm'. WriteBlock_page flush pm pi po (unat n) (Src_buffer data) gm = Some gm' \<and>
    stored (unat (page_addr pi po)) (take (unat n) data) gm gm'"
  using ok t p n(1)
proof (cases rule: page_write_cases)
  case unmapped
  then show ?thesis using n stored_unmapped[of "take (unat n) data" gm "unat (page_addr pi po)"]
    by (simp add: WriteBlock_page_def Let_def)
next
  case (mapped h)
  then show ?thesis using n p stored_page_run[OF mapped(3) p(2) n(1), of "take (unat n) data"]
    by (simp add: WriteBlock_page_def Let_def)
next
  case (cached h)
  then show ?thesis
    using n p stored_page_run[of "if flush then gpu_call c gm else gm" pi po h "take (unat n) data" for c]
    by (cases flush) (simp_all add: WriteBlock_page_def Let_def)
qed

lemma ZeroBlock_page_correct:
  assumes ok: "gm_ok gm" and p: "unat pi < pm_entries (gm_table gm)" "unat pi < 2 ^ 52"
    and n: "unat po < 4096" "unat po + unat n \<le> 4096" and t: "gm_table gm = pm"
  shows "\<exists>gm'. ZeroBlock_page pm pi po (unat n) gm = Some gm' \<and>
    stored (unat (page_addr pi po)) (replicate (unat n) 0) gm gm'"
  using ok t p n(1)
proof (cases rule: page_write_cases)
  case unmapped
  then show ?thesis using n stored_unmapped[of "replicate (unat n) 0" gm "unat (page_addr pi po)"]
    by (simp add: ZeroBlock_page_def Let_def)
next
  case (mapped h)
  then show ?thesis using n p stored_page_run[OF mapped(3) p(2) n(1), of "replicate (unat n) 0"]
    by (simp add: ZeroBlock_page_def Let_def)
next
  case (cached h)
  then show ?thesis using n p stored_page_run[of "gpu_call c gm" pi po h "replicate (unat n) 0" for c]
    by (simp add: ZeroBlock_page_def Let_def)
qed

lemma WriteBlock_loop_unfold:
  "WriteBlock_loop flush pm rem pi po s gm =
     (if rem > 0
      then Option.bind (WriteBlock_page flush pm pi po (unat (walk_amount rem po)) s gm)
        (WriteBlock_loop flush pm (rem - walk_amount rem po) (pi + 1) 0 (advance (unat (walk_amount rem po)) s))
      else Some gm)"
  by (subst WriteBlock_loop.simps) (simp add: Let_def walk_amount_def)

lemma WriteBlock_loop_buffer:
  assumes "walk_ok gm rem pi po" "length data = unat rem" "gm_table gm = pm"
  shows "\<exists>gm'. WriteBlock_loop flush pm rem pi po (Src_buffer data) gm = Some gm' \<and>
    stored (unat (page_addr pi po)) data gm gm'"
proof (rule write_walk[where page = "\<lambda>pi po n s gm. WriteBlock_page flush pm pi po (unat n) s gm"
      and onward = "\<lambda>n. advance (unat n)" and I = "\<lambda>v data s gm. s = Src_buffer data" and pm = pm,
      OF WriteBlock_loop_unfold])
  fix pi po n :: u64 and data s gm
  assume "gm_ok gm" "unat pi < pm_entries (gm_table gm)" "unat pi < 2 ^ 52" "unat po < 4096"
    "unat po + unat n \<le> 4096" "unat n \<le> length data" "gm_table gm = pm" "s = Src_buffer data"
  then show "\<exists>gm'. WriteBlock_page flush pm pi po (unat n) s gm = Some gm' \<and>
      stored (unat (page_addr pi po)) (take (unat n) data) gm gm' \<and>
      (\<forall>v. unat v = unat (page_addr pi po) + unat n \<longrightarrow> advance (unat n) s = Src_buffer (drop (unat n) data))"
    using WriteBlock_buffer_page[of gm pi po n data pm flush] by simp
qed (use assms in simp_all)

lemma WriteBlock_store:
  assumes "gm_ok gm" "in_table gm v (length src)"
  shows "\<exists>gm'. WriteBlock (gm_table gm) v src gm = Some gm' \<and> stored (unat v) src gm gm'"
    "\<exists>gm'. WriteBlockUnsafe (gm_table gm) v src gm = Some gm' \<and> stored (unat v) src gm gm'"
proof -
  have "length src < 2 ^ 64" using assms by (simp add: in_table_def gm_ok_def pm_ok_def)
  then have l: "unat (of_nat (length src) :: u64) = length src" by simp
  then have "walk_ok gm (of_nat (length src)) (drop_bit PAGE_BITS v) (v AND PAGE_MASK)"
    using assms by (intro walk_start) simp_all
  from WriteBlock_loop_buffer[OF this] l show
    "\<exists>gm'. WriteBlock (gm_table gm) v src gm = Some gm' \<and> stored (unat v) src gm gm'"
    "\<exists>gm'. WriteBlockUnsafe (gm_table gm) v src gm = Some gm' \<and> stored (unat v) src gm gm'"
    by (simp_all add: WriteBlock_def WriteBlock_source_def WriteBlockUnsafe_def page_addr_of)
qed

lemma ZeroBlock_loop_unfold:
  "ZeroBlock_loop pm rem pi po gm =
     (if rem > 0
      then Option.bind (ZeroBlock_page pm pi po (unat (walk_amount rem po)) gm)
        (ZeroBlock_loop pm (rem - walk_amount rem po) (pi + 1) 0)
      else Some gm)"
  by (subst ZeroBlock_loop.simps) (simp add: Let_def walk_amount_def)

lemma ZeroBlock_store:
  assumes "gm_ok gm" "in_table gm v (unat sz)"
  shows "\<exists>gm'. ZeroBlock (gm_table gm) v sz gm = Some gm' \<and> stored (unat v) (replicate (unat sz) 0) gm gm'"
proof -
  define pm where "pm = gm_table gm"
  have "\<exists>gm'. ZeroBlock_loop pm rem pi po gm = Some gm' \<and> stored (unat (page_addr pi po)) (replicate (unat rem) 0) gm gm'"
    if "walk_ok gm rem pi po" "gm_table gm = pm" for gm rem pi po
  proof (rule write_walk[where f = "\<lambda>rem pi po (s :: unit). ZeroBlock_loop pm rem pi po"
        and page = "\<lambda>pi po n s gm. ZeroBlock_page pm pi po (unat n) gm" and s = "()"
        and onward = "\<lambda>n s. s" and I = "\<lambda>v data s gm. data = replicate (length data) 0" and pm = pm,
        OF ZeroBlock_loop_unfold])
    fix pi po n :: u64 and data s gm
    assume "gm_ok gm" "unat pi < pm_entries (gm_table gm)" "unat pi < 2 ^ 52" "unat po < 4096"
      "unat po + unat n \<le> 4096" "unat n \<le> length data" "gm_table gm = pm" "data = replicate (length data) (0 :: u8)"
    then show "\<exists>gm'. ZeroBlock_page pm pi po (unat n) gm = Some gm' \<and>
        stored (unat (page_addr pi po)) (take (unat n) data) gm gm' \<and>
        (\<forall>v. unat v = unat (page_addr pi po) + unat n \<longrightarrow>
           drop (unat n) data = replicate (length (drop (unat n) data)) 0)"
      using ZeroBlock_page_correct[of gm pi po n pm]
      by (metis drop_replicate length_drop length_replicate min.absorb1 take_replicate)
  qed (use that in simp_all)
  from this[OF walk_start[OF assms]] show ?thesis by (simp add: ZeroBlock_def page_addr_of pm_def)
qed

section \<open>Copying\<close>

lemma store_other: "(\<And>j. j < length bs \<Longrightarrow> h (v + j) \<noteq> Some x) \<Longrightarrow> store h v bs m x = m x"
proof (induction bs arbitrary: v m)
  case (Cons b bs)
  from Cons.prems[of 0] have "h v \<noteq> Some x" by simp
  moreover have "store h (Suc v) bs m' x = m' x" for m' using Cons.prems[of "Suc _"] by (intro Cons.IH) simp
  ultimately show ?case by (auto split: option.split)
qed simp

text \<open>A host range that holds the given bytes, away from the host addresses a range of the process has.\<close>

definition host_source :: "u64 \<Rightarrow> u8 list \<Rightarrow> u64 \<Rightarrow> GuestMemory \<Rightarrow> bool" where
  "host_source v data q gm \<longleftrightarrow> in_buffer gm q (length data) \<and>
     (\<forall>i < length data. gm_bytes gm (q + of_nat i) = data ! i) \<and>
     (\<forall>i < length data. \<forall>j < length data. host gm (unat v + j) \<noteq> Some (q + of_nat i))"

lemma host_source_read:
  assumes "host_source v data q gm" "n \<le> length data"
  shows "host_read q n gm = Some (take n data)"
  using assms by (auto simp: host_source_def host_read_def in_buffer_def intro!: nth_equalityI)

lemma host_sourceD:
  assumes "host_source v data q gm" "i < length data"
  shows "gm_bytes gm (q + of_nat i) = data ! i" "j < length data \<Longrightarrow> host gm (unat v + j) \<noteq> Some (q + of_nat i)"
  using assms by (simp_all add: host_source_def)

lemma host_source_apart:
  assumes s: "host_source v data q gm" and h: "page_run gm v h" and n: "unat v mod 4096 + n \<le> 4096" "n \<le> length data"
  shows "\<not> (unat (h - q) < n \<or> unat (q - h) < n)"
proof (rule notI, erule disjE)
  assume a: "unat (h - q) < n"
  have "host gm (unat v + 0) = Some (h + of_nat 0)" by (rule page_runD[OF h]) (use n a in simp)
  moreover have "host gm (unat v + 0) \<noteq> Some (q + of_nat (unat (h - q)))"
    by (rule host_sourceD(2)[OF s]) (use n a in linarith)+
  ultimately show False by simp
next
  assume a: "unat (q - h) < n"
  have "host gm (unat v + unat (q - h)) = Some (h + of_nat (unat (q - h)))"
    by (rule page_runD[OF h]) (use n a in linarith)
  moreover have "host gm (unat v + unat (q - h)) \<noteq> Some (q + of_nat 0)"
    by (rule host_sourceD(2)[OF s]) (use n a in linarith)+
  ultimately show False by simp
qed

lemma host_source_advance:
  assumes s: "host_source v data q gm" and ok: "gm_ok gm" and n: "n \<le> length data" and v: "unat v' = unat v + n"
    and w: "stored (unat v) (take n data) gm gm'"
  shows "host_source v' (drop n data) (q + of_nat n) gm'"
proof -
  note d = storedD[OF w]
  have sz: "unat (q - gm_buffer gm) + length data \<le> DramMemoryMap_Size" "q \<noteq> 0"
    using s by (simp_all add: host_source_def in_buffer_def)
  have buf: "0 < unat (gm_buffer gm)" "unat (gm_buffer gm) + DramMemoryMap_Size < 2 ^ 64"
    using ok by (auto simp: gm_ok_def unat_gt_0)
  have u: "unat (of_nat n :: u64) = n" using n sz(1) buf(2) by (intro unat_of_nat64) simp
  have e: "q + of_nat n - gm_buffer gm = (q - gm_buffer gm) + of_nat n" by simp
  have o: "unat (q + of_nat n - gm_buffer gm) = unat (q - gm_buffer gm) + n"
    unfolding e using sz(1) n buf(2) u by (subst unat_plus) simp_all
  have "unat (q + of_nat n) = unat (gm_buffer gm) + (unat (q - gm_buffer gm) + n)"
    using unat_base_offset[of "gm_buffer gm" "q + of_nat n"] o sz(1) n buf(2) by simp
  then have "q + of_nat n \<noteq> 0" using buf(1) by (intro notI) simp
  then have "in_buffer gm' (q + of_nat n) (length (drop n data))"
    using o sz(1) n d by (simp add: in_buffer_def)
  moreover have "gm_bytes gm' (q + of_nat n + of_nat i) = drop n data ! i" if "i < length data - n" for i
  proof -
    have e: "q + of_nat n + of_nat i = q + of_nat (n + i)" by simp
    have i: "n + i < length data" using that n by simp
    have "host gm (unat v + j) \<noteq> Some (q + of_nat (n + i))" if "j < length (take n data)" for j
      by (rule host_sourceD(2)[OF s i]) (use that in simp)
    then have "gm_bytes gm' (q + of_nat (n + i)) = gm_bytes gm (q + of_nat (n + i))"
      unfolding d(5) by (rule store_other)
    then show ?thesis unfolding e host_sourceD(1)[OF s i] using that n by simp
  qed
  moreover have "host gm' (unat v' + j) \<noteq> Some (q + of_nat n + of_nat i)"
    if "i < length data - n" "j < length data - n" for i j
  proof -
    have "host gm (unat v + (n + j)) \<noteq> Some (q + of_nat (n + i))"
      by (rule host_sourceD(2)[OF s]) (use that in simp_all)
    then show ?thesis using d v by (simp add: add.assoc)
  qed
  ultimately show ?thesis unfolding host_source_def by simp
qed

lemma WriteBlock_host_page:
  assumes ok: "gm_ok gm" and p: "unat pi < pm_entries (gm_table gm)" "unat pi < 2 ^ 52"
    and n: "unat po < 4096" "unat po + unat n \<le> 4096" "unat n \<le> length data" and t: "gm_table gm = pm"
    and s: "host_source (page_addr pi po) data q gm"
  shows "\<exists>gm'. WriteBlock_page True pm pi po (unat n) (Src_host q) gm = Some gm' \<and>
    stored (unat (page_addr pi po)) (take (unat n) data) gm gm'"
proof -
  have m: "unat (page_addr pi po) mod 4096 + unat n \<le> 4096" using n(2) page_addr_props(3)[OF p(2) n(1)] by simp
  have copy: "\<exists>gm'. memcpy_from h (Src_host q) (unat n) g = Some gm' \<and> stored (unat (page_addr pi po)) (take (unat n) data) g gm'"
    if "page_run g (page_addr pi po) h" "host_source (page_addr pi po) data q g" for g h
    using host_source_apart[OF that(2,1) m n(3)] host_source_read[OF that(2) n(3)]
      stored_page_run[OF that(1) p(2) n(1), of "take (unat n) data"] n by simp
  from ok t p n(1) show ?thesis
  proof (cases rule: page_write_cases)
    case unmapped
    then show ?thesis using n stored_unmapped[of "take (unat n) data" gm "unat (page_addr pi po)"]
      by (simp add: WriteBlock_page_def Let_def)
  next
    case (mapped h)
    then show ?thesis using copy[OF mapped(3) s] by (simp add: WriteBlock_page_def Let_def del: memcpy_from.simps)
  next
    case (cached h)
    then show ?thesis using copy[of "gpu_call c gm" h for c] s
      by (simp add: WriteBlock_page_def Let_def host_source_def in_buffer_def del: memcpy_from.simps)
  qed
qed

lemma WriteBlock_host:
  assumes ok: "gm_ok gm" and r: "in_table gm v (unat sz)" and s: "host_source v data q gm" and l: "length data = unat sz"
  shows "\<exists>gm'. WriteBlock_source (gm_table gm) v (Src_host q) sz gm = Some gm' \<and> stored (unat v) data gm gm'"
proof -
  define pm where "pm = gm_table gm"
  have "\<exists>gm'. WriteBlock_loop True pm rem pi po (Src_host q) gm = Some gm' \<and> stored (unat (page_addr pi po)) data gm gm'"
    if "walk_ok gm rem pi po" "gm_table gm = pm" "host_source (page_addr pi po) data q gm" "length data = unat rem"
    for gm rem pi po
  proof (rule write_walk[where page = "\<lambda>pi po n s gm. WriteBlock_page True pm pi po (unat n) s gm"
        and onward = "\<lambda>n. advance (unat n)" and pm = pm
        and I = "\<lambda>v data s gm. \<exists>q. s = Src_host q \<and> host_source v data q gm", OF WriteBlock_loop_unfold])
    fix pi po n :: u64 and data s gm
    assume a: "gm_ok gm" "unat pi < pm_entries (gm_table gm)" "unat pi < 2 ^ 52" "unat po < 4096"
      "unat po + unat n \<le> 4096" "unat n \<le> length data" "gm_table gm = pm"
      "\<exists>q. s = Src_host q \<and> host_source (page_addr pi po) data q gm"
    then obtain q where q: "s = Src_host q" "host_source (page_addr pi po) data q gm" by blast
    then show "\<exists>gm'. WriteBlock_page True pm pi po (unat n) s gm = Some gm' \<and>
        stored (unat (page_addr pi po)) (take (unat n) data) gm gm' \<and>
        (\<forall>v. unat v = unat (page_addr pi po) + unat n \<longrightarrow>
           (\<exists>q. advance (unat n) s = Src_host q \<and> host_source v (drop (unat n) data) q gm'))"
      using WriteBlock_host_page[OF a(1-7) q(2)] host_source_advance[OF q(2) a(1,6)] by auto
  qed (use that in auto)
  from this[OF walk_start[OF ok r]] s l show ?thesis by (simp add: WriteBlock_source_def page_addr_of pm_def)
qed

text \<open>Two ranges of the process that share no byte of the host.\<close>

definition ranges_apart :: "GuestMemory \<Rightarrow> nat \<Rightarrow> nat \<Rightarrow> nat \<Rightarrow> bool" where
  "ranges_apart gm a b n \<longleftrightarrow> (\<forall>i < n. \<forall>j < n. host gm (a + i) \<noteq> None \<longrightarrow> host gm (b + j) \<noteq> host gm (a + i))"

lemma CopyBlock_page_correct:
  assumes ok: "gm_ok gm" and p: "unat pi < pm_entries (gm_table gm)" "unat pi < 2 ^ 52"
    and n: "unat po < 4096" "unat po + unat n \<le> 4096" and t: "gm_table gm = pm"
    and d: "in_table gm dest (unat n)" "ranges_apart gm (unat (page_addr pi po)) (unat dest) (unat n)"
  shows "\<exists>gm'. CopyBlock_page pm pi po n dest gm = Some gm' \<and>
    stored (unat dest) (load (host gm) (gm_bytes gm) (unat (page_addr pi po)) (unat n)) gm gm'"
proof -
  let ?v = "unat (page_addr pi po)" and ?L = "load (host gm) (gm_bytes gm) (unat (page_addr pi po)) (unat n)"
  have m: "?v mod 4096 = unat po" by (rule page_addr_props(3)[OF p(2) n(1)])
  have src: "host_source dest ?L h gm" if "page_run gm (page_addr pi po) h" for h
  proof -
    have h: "host gm (?v + i) = Some (h + of_nat i)" if "i < unat n" for i
      using \<open>page_run gm (page_addr pi po) h\<close> that n(2) m unfolding page_run_def by auto
    moreover have "in_buffer gm h (unat n)" using that n(2) m unfolding page_run_def by auto
    moreover have "host gm (unat dest + j) \<noteq> Some (h + of_nat i)" if "i < unat n" "j < unat n" for i j
      using d(2) h[OF that(1)] that unfolding ranges_apart_def by (metis option.distinct(1))
    ultimately show ?thesis by (simp add: host_source_def load_def)
  qed
  from ok t p n(1) show ?thesis
  proof (cases rule: page_write_cases)
    case unmapped
    then have "?L = replicate (unat n) 0" using n(2) by (intro load_unmapped) simp
    then show ?thesis using unmapped(1) ZeroBlock_store[OF ok d(1)] t by (simp add: CopyBlock_page_def Let_def)
  next
    case (mapped h)
    then show ?thesis using WriteBlock_host[OF ok d(1) src[OF mapped(3)]] t
      by (simp add: CopyBlock_page_def Let_def)
  next
    case (cached h)
    have "host_source dest ?L h (gpu_call c gm)" for c
      using src[OF cached(3)] by (simp add: host_source_def in_buffer_def)
    moreover have "gm_ok (gpu_call c gm)" "in_table (gpu_call c gm) dest (unat n)" for c
      using ok d(1) by (simp_all add: gm_ok_def in_table_def)
    ultimately show ?thesis using cached WriteBlock_host[of "gpu_call c gm" dest n ?L h for c] t
      by (simp add: CopyBlock_page_def Let_def)
  qed
qed

lemma load_apart:
  assumes "\<And>i j. i < n \<Longrightarrow> j < length bs \<Longrightarrow> h (a + i) \<noteq> None \<Longrightarrow> h (b + j) \<noteq> h (a + i)"
  shows "load h (store h b bs m) a n = load h m a n"
  unfolding load_def
proof (rule map_cong[OF refl])
  fix i assume "i \<in> set [0..<n]"
  then have "store h b bs m x = m x" if "h (a + i) = Some x" for x
    using that assms[of i] by (intro store_other) auto
  then show "(case h (a + i) of None \<Rightarrow> 0 | Some x \<Rightarrow> store h b bs m x) = (case h (a + i) of None \<Rightarrow> 0 | Some x \<Rightarrow> m x)"
    by (simp split: option.split)
qed

lemma CopyBlock_loop_unfold:
  "CopyBlock_loop pm rem pi po dest gm =
     (if rem > 0
      then Option.bind (CopyBlock_page pm pi po (walk_amount rem po) dest gm)
        (CopyBlock_loop pm (rem - walk_amount rem po) (pi + 1) 0 (dest + walk_amount rem po))
      else Some gm)"
  by (subst CopyBlock_loop.simps) (simp add: Let_def walk_amount_def)

lemma CopyBlock_loop_correct:
  assumes "walk_ok gm rem pi po" "gm_table gm = pm" "in_table gm dest (unat rem)"
    "ranges_apart gm (unat (page_addr pi po)) (unat dest) (unat rem)"
  shows "\<exists>gm'. CopyBlock_loop pm rem pi po dest gm = Some gm' \<and>
    stored (unat dest) (load (host gm) (gm_bytes gm) (unat (page_addr pi po)) (unat rem)) gm gm'"
  using assms
proof (induction "unat rem" arbitrary: rem pi po dest gm rule: less_induct)
  case less
  note w = less.prems(1)
  have ok: "gm_ok gm" "unat po < 4096" using w by (simp_all add: walk_ok_def)
  show ?case
  proof (cases "rem > 0")
    case False
    then have "rem = 0" by (simp add: word_gt_0)
    then show ?thesis by (subst CopyBlock_loop_unfold) (simp add: stored_def)
  next
    case True
    note st = walk_step[OF w True]
    let ?n = "walk_amount rem po" and ?v = "unat (page_addr pi po)"
    have nr: "unat ?n \<le> unat rem" using st(3) by simp
    then have "in_table gm dest (unat ?n)" "ranges_apart gm ?v (unat dest) (unat ?n)"
      using less.prems(3,4) unfolding in_table_def ranges_apart_def by auto
    then obtain g1 where 1: "CopyBlock_page pm pi po ?n dest gm = Some g1"
      "stored (unat dest) (load (host gm) (gm_bytes gm) ?v (unat ?n)) gm g1"
      using CopyBlock_page_correct[OF ok(1) st(1,2) ok(2) st(5) less.prems(2)] by blast
    note d = storedD[OF 1(2)]
    show ?thesis
    proof (cases "unat rem = unat ?n")
      case all: True
      then have r0: "rem - ?n = 0" using st(6) by (simp only: u64_eq_iff) simp
      have "CopyBlock_loop pm (rem - ?n) (pi + 1) 0 dest' g1 = Some g1" for dest'
        unfolding r0 by (subst CopyBlock_loop_unfold) simp
      then have "CopyBlock_loop pm rem pi po dest gm = Some g1" using True 1(1) by (subst CopyBlock_loop_unfold) simp
      then show ?thesis using 1(2) by (simp only: all) blast
    next
      case False
      have e: "unat rem = unat ?n + unat (rem - ?n)" using st(6) nr by simp
      have "0 < unat (rem - ?n)" using e False by simp
      with less.prems(3) ok(1) have dst: "in_table gm (dest + ?n) (unat (rem - ?n))" "unat (dest + ?n) = unat dest + unat ?n"
        using in_table_split[of gm dest "unat ?n" "unat (rem - ?n)"] unfolding e by simp_all
      have apart: "host gm (?v + unat ?n + i) \<noteq> None \<Longrightarrow> host gm (unat dest + j) \<noteq> host gm (?v + unat ?n + i)"
        if "i < unat (rem - ?n)" "j < unat rem" for i j
        using less.prems(4) that e unfolding ranges_apart_def by (auto simp: add.assoc)
      have "ranges_apart g1 (unat (page_addr (pi + 1) 0)) (unat (dest + ?n)) (unat (rem - ?n))"
        unfolding ranges_apart_def d(1,2) st(8)[OF False] dst(2)
        using apart e by (simp add: add.assoc)
      moreover have "walk_ok g1 (rem - ?n) (pi + 1) 0" using st(7) d by (simp add: walk_ok_def)
      moreover have "unat (rem - ?n) < unat rem" using st(4) e by linarith
      ultimately obtain g2 where 2: "CopyBlock_loop pm (rem - ?n) (pi + 1) 0 (dest + ?n) g1 = Some g2"
        "stored (unat dest + unat ?n) (load (host g1) (gm_bytes g1) (?v + unat ?n) (unat (rem - ?n))) g1 g2"
        using less.hyps[of "rem - ?n" g1 "pi + 1" 0 "dest + ?n"] less.prems(2) d(1,4) dst st(8)[OF False] by auto
      have "load (host g1) (gm_bytes g1) (?v + unat ?n) (unat (rem - ?n)) =
          load (host gm) (gm_bytes gm) (?v + unat ?n) (unat (rem - ?n))"
        unfolding d(1,2,5) using apart nr by (intro load_apart) simp
      then have "stored (unat dest) (load (host gm) (gm_bytes gm) ?v (unat rem)) gm g2"
        unfolding e load_add using 1(2) 2(2) by (intro stored_append) (simp_all only: length_load)
      moreover have "CopyBlock_loop pm rem pi po dest gm = Some g2" using True 1(1) 2(1) by (subst CopyBlock_loop_unfold) simp
      ultimately show ?thesis by blast
    qed
  qed
qed

lemma CopyBlock_store:
  assumes "gm_ok gm" "in_table gm dest (unat sz)" "in_table gm src (unat sz)" "ranges_apart gm (unat src) (unat dest) (unat sz)"
  shows "\<exists>gm'. CopyBlock (gm_table gm) dest src sz gm = Some gm' \<and>
    stored (unat dest) (load (host gm) (gm_bytes gm) (unat src) (unat sz)) gm gm'"
  using CopyBlock_loop_correct[OF walk_start[OF assms(1,3)] refl assms(2)] assms(4)
  by (simp add: CopyBlock_def page_addr_of)

section \<open>Changing the page table\<close>

text \<open>Two states in which every byte of the process is the same byte of the host.\<close>

definition same_view :: "GuestMemory \<Rightarrow> GuestMemory \<Rightarrow> bool" where
  "same_view gm gm' \<longleftrightarrow> pm_entries (gm_table gm') = pm_entries (gm_table gm) \<and> gm_buffer gm' = gm_buffer gm \<and>
     gm_bytes gm' = gm_bytes gm \<and> host gm' = host gm"

lemma same_view_refl [simp]: "same_view gm gm"
  by (simp add: same_view_def)

lemma same_view_trans: "same_view a b \<Longrightarrow> same_view b c \<Longrightarrow> same_view a c"
  unfolding same_view_def by metis

lemma PAGE_MASK_mask: "PAGE_MASK = mask 12"
  by (simp add: PAGE_MASK_def PAGE_SIZE_def PAGE_BITS_def mask_eq_exp_minus_1)

lemma page_base: "drop_bit PAGE_BITS (v AND NOT PAGE_MASK) = drop_bit PAGE_BITS v" for v :: u64
  unfolding PAGE_MASK_mask PAGE_BITS_def
  by (rule bit_word_eqI)
    (auto simp only: bit_drop_bit_eq bit_and_iff bit_not_iff bit_mask_iff comp_def possible_bit_word dest: bit_imp_le_length)

lemma page_ok_cong:
  "pm_attributes pm' q = pm_attributes pm q \<Longrightarrow> pm_pointers pm' q = pm_pointers pm q \<Longrightarrow>
   pm_backing_addr pm' q = pm_backing_addr pm q \<Longrightarrow> page_ok b pm' q = page_ok b pm q"
  by (simp add: page_ok_def backed_def split: PageType.split)

lemma set_page_ok:
  assumes ok: "gm_ok gm" and p: "unat p < pm_entries (gm_table gm)"
    and b: "backed (gm_buffer gm) (gm_table gm) p" "pm_attributes (gm_table gm) p \<in> {Memory, RasterizerCachedMemory}"
    and t: "type = Memory \<and> ptr = gm_buffer gm + (pm_backing_addr (gm_table gm) p - DramMemoryMap_Base) \<or>
      type = RasterizerCachedMemory \<and> ptr = 0"
  defines "gm' \<equiv> gm\<lparr>gm_table := (gm_table gm)\<lparr>pm_attributes := (pm_attributes (gm_table gm))(p := type),
      pm_pointers := (pm_pointers (gm_table gm))(p := ptr)\<rparr>\<rparr>"
  shows "gm_ok gm' \<and> same_view gm gm'"
proof -
  have "page_ok (gm_buffer gm) (gm_table gm') q" if "unat q < pm_entries (gm_table gm)" for q
  proof (cases "q = p")
    case True
    then show ?thesis using b(1) t by (auto simp: page_ok_def backed_def gm'_def)
  next
    case False
    then have "page_ok (gm_buffer gm) (gm_table gm') q = page_ok (gm_buffer gm) (gm_table gm) q"
      by (intro page_ok_cong) (simp_all add: gm'_def)
    then show ?thesis using ok that by (simp add: gm_ok_def)
  qed
  then have "gm_ok gm'" using ok by (simp add: gm_ok_def pm_ok_def gm'_def)
  moreover have "host gm' = host gm" using b(2) t by (auto simp: host_of_def gm'_def Let_def fun_eq_iff)
  ultimately show ?thesis by (simp add: same_view_def gm'_def)
qed

lemma MarkCached_page_correct:
  assumes ok: "gm_ok gm" and r: "unat v div 4096 < pm_entries (gm_table gm)"
  shows "\<exists>gm'. MarkCached_page v cached gm = Some gm' \<and> gm_ok gm' \<and> same_view gm gm'"
proof -
  let ?p = "drop_bit PAGE_BITS v" and ?b = "v AND NOT PAGE_MASK" and ?pm = "gm_table gm"
  have p: "unat ?p < pm_entries ?pm" using r by (simp only: page_number(2))
  then have pk: "page_ok (gm_buffer gm) ?pm ?p" using ok by (simp add: gm_ok_def)
  have e: "table_entry pm_attributes ?pm ?p = Some (pm_attributes ?pm ?p)" using p by (simp add: table_entry_def)
  consider (same) "MarkCached_page v cached gm = Some gm"
    | (mark) "cached" "pm_attributes ?pm ?p = Memory"
    | (unmark) "\<not> cached" "pm_attributes ?pm ?p = RasterizerCachedMemory"
    using e by (cases "pm_attributes ?pm ?p"; cases cached) (auto simp: MarkCached_page_def Let_def)
  then show ?thesis
  proof cases
    case same
    then show ?thesis using ok by simp
  next
    case mark
    then show ?thesis using set_page_ok[OF ok p, of RasterizerCachedMemory 0] pk e
      by (simp add: MarkCached_page_def Let_def page_ok_def)
  next
    case unmark
    let ?h = "gm_buffer gm + (pm_backing_addr ?pm ?p - DramMemoryMap_Base) + ?b"
    have b: "backed (gm_buffer gm) ?pm ?p" using pk unmark by (simp add: page_ok_def)
    have "page_run gm ?b ?h" using backed_run[OF ok, of ?b ?h, unfolded page_base] b unmark(2) by simp
    then have "?h \<noteq> 0" by (rule page_run_nonzero)
    moreover have "GetPointerFromRasterizerCachedMemory ?b gm = Some ?h"
      using b p unfolding GetPointerFromRasterizerCachedMemory_def page_base
      by (simp add: table_entry_def backed_def DeviceMemory_GetPointer_def)
    ultimately show ?thesis using set_page_ok[OF ok p b, of Memory] unmark e
      by (simp add: MarkCached_page_def Let_def)
  qed
qed

lemma MarkCached_loop_correct:
  assumes "gm_ok gm" "n = 0 \<or> unat v div 4096 + n \<le> pm_entries (gm_table gm)"
  shows "\<exists>gm'. MarkCached_loop n v cached gm = Some gm' \<and> gm_ok gm' \<and> same_view gm gm'"
  using assms
proof (induction n arbitrary: v gm)
  case 0
  then show ?case by simp
next
  case (Suc n)
  obtain g1 where 1: "MarkCached_page v cached gm = Some g1" "gm_ok g1" "same_view gm g1"
    using MarkCached_page_correct[OF Suc.prems(1), of v cached] Suc.prems(2) by auto
  have "unat (v + PAGE_SIZE) div 4096 = unat v div 4096 + 1" if "0 < n"
  proof -
    have "unat v div 4096 + Suc n < 2 ^ 52" using Suc.prems by (simp add: gm_ok_def pm_ok_def)
    then have "unat v + 4096 < 2 ^ 64" using div_mult_mod_eq[of "unat v" 4096] that by simp
    then have "unat (v + PAGE_SIZE) = unat v + 4096" by (subst unat_plus) (simp_all add: PAGE_SIZE_def PAGE_BITS_def)
    then show ?thesis by simp
  qed
  moreover have "pm_entries (gm_table g1) = pm_entries (gm_table gm)" using 1(3) by (simp add: same_view_def)
  ultimately have "n = 0 \<or> unat (v + PAGE_SIZE) div 4096 + n \<le> pm_entries (gm_table g1)"
    using Suc.prems(2) by (cases "n = 0") auto
  then obtain g2 where "MarkCached_loop n (v + PAGE_SIZE) cached g1 = Some g2" "gm_ok g2" "same_view g1 g2"
    using Suc.IH[OF 1(2)] by blast
  then show ?case using 1 same_view_trans[of gm g1 g2] by auto
qed

text \<open>What the mapping loops leave in each entry: the same difference for every page of the range.\<close>

lemma MapPages_map_entries:
  assumes "unat base + n \<le> pm_entries pm" "pm_entries pm < 2 ^ 52" "\<delta> = target - push_bit 12 base"
  shows "\<exists>pm'. MapPages_map buffer type n base target pm = Some pm' \<and> pm_entries pm' = pm_entries pm \<and>
    (\<forall>q. if unat base \<le> unat q \<and> unat q < unat base + n
         then pm_attributes pm' q = type \<and> pm_backing_addr pm' q = \<delta> \<and>
              pm_pointers pm' q = buffer + (\<delta> - DramMemoryMap_Base)
         else pm_attributes pm' q = pm_attributes pm q \<and> pm_backing_addr pm' q = pm_backing_addr pm q \<and>
              pm_pointers pm' q = pm_pointers pm q)"
  using assms
proof (induction n arbitrary: base target pm)
  case 0
  then show ?case by auto
next
  case (Suc n)
  have b: "unat (base + 1) = unat base + 1" using Suc.prems by (intro u64_inc[of _ 1]) auto
  have \<delta>: "\<delta> = target + PageSize - push_bit 12 (base + 1)"
    using Suc.prems(3) by (simp add: push_bit_eq_mult algebra_simps)
  define pm1 where "pm1 = pm\<lparr>pm_pointers := (pm_pointers pm)(base := DeviceMemory_GetPointer buffer target - push_bit (unat PageBits) base),
     pm_attributes := (pm_attributes pm)(base := type),
     pm_backing_addr := (pm_backing_addr pm)(base := target - push_bit (unat PageBits) base)\<rparr>"
  obtain pm' where r: "MapPages_map buffer type n (base + 1) (target + PageSize) pm1 = Some pm'"
    "pm_entries pm' = pm_entries pm"
    "\<And>q. if unat base + 1 \<le> unat q \<and> unat q < unat base + 1 + n
         then pm_attributes pm' q = type \<and> pm_backing_addr pm' q = \<delta> \<and>
              pm_pointers pm' q = buffer + (\<delta> - DramMemoryMap_Base)
         else pm_attributes pm' q = pm_attributes pm1 q \<and> pm_backing_addr pm' q = pm_backing_addr pm1 q \<and>
              pm_pointers pm' q = pm_pointers pm1 q"
    using Suc.IH[OF _ _ \<delta>, of pm1] Suc.prems(1,2) unfolding b pm1_def by auto
  have at: "pm_attributes pm1 q = (if q = base then type else pm_attributes pm q)"
    "pm_backing_addr pm1 q = (if q = base then \<delta> else pm_backing_addr pm q)"
    "pm_pointers pm1 q = (if q = base then buffer + (\<delta> - DramMemoryMap_Base) else pm_pointers pm q)" for q
    using Suc.prems(3) by (simp_all add: pm1_def DeviceMemory_GetPointer_def algebra_simps)
  have "if unat base \<le> unat q \<and> unat q < unat base + Suc n
         then pm_attributes pm' q = type \<and> pm_backing_addr pm' q = \<delta> \<and>
              pm_pointers pm' q = buffer + (\<delta> - DramMemoryMap_Base)
         else pm_attributes pm' q = pm_attributes pm q \<and> pm_backing_addr pm' q = pm_backing_addr pm q \<and>
              pm_pointers pm' q = pm_pointers pm q" for q
    using r(3)[of q] u64_eq_iff[of q base] unfolding at by (auto split: if_splits)
  moreover have "MapPages_map buffer type (Suc n) base target pm = Some pm'"
    using r(1) Suc.prems(1) by (simp add: pm1_def)
  ultimately show ?case using r(2) by blast
qed

lemma unmapped_page_ok: "pm_attributes pm q = Unmapped \<Longrightarrow> pm_pointers pm q = 0 \<Longrightarrow> page_ok b pm q"
  by (simp add: page_ok_def)

lemma MapPages_unmap_entries:
  assumes "unat base + n \<le> pm_entries pm" "pm_entries pm < 2 ^ 52"
  shows "\<exists>pm'. MapPages_unmap Unmapped n base pm = Some pm' \<and> pm_entries pm' = pm_entries pm \<and>
    (\<forall>q. if unat base \<le> unat q \<and> unat q < unat base + n
         then pm_attributes pm' q = Unmapped \<and> pm_pointers pm' q = 0
         else pm_attributes pm' q = pm_attributes pm q \<and> pm_backing_addr pm' q = pm_backing_addr pm q \<and>
              pm_pointers pm' q = pm_pointers pm q)"
  using assms
proof (induction n arbitrary: base pm)
  case 0
  then show ?case by auto
next
  case (Suc n)
  have b: "unat (base + 1) = unat base + 1" using Suc.prems by (intro u64_inc[of _ 1]) auto
  define pm1 where "pm1 = pm\<lparr>pm_attributes := (pm_attributes pm)(base := Unmapped),
     pm_pointers := (pm_pointers pm)(base := 0), pm_backing_addr := (pm_backing_addr pm)(base := 0)\<rparr>"
  obtain pm' where r: "MapPages_unmap Unmapped n (base + 1) pm1 = Some pm'" "pm_entries pm' = pm_entries pm"
    "\<And>q. if unat base + 1 \<le> unat q \<and> unat q < unat base + 1 + n
         then pm_attributes pm' q = Unmapped \<and> pm_pointers pm' q = 0
         else pm_attributes pm' q = pm_attributes pm1 q \<and> pm_backing_addr pm' q = pm_backing_addr pm1 q \<and>
              pm_pointers pm' q = pm_pointers pm1 q"
    using Suc.IH[of "base + 1" pm1] Suc.prems unfolding b pm1_def by auto
  have at: "pm_attributes pm1 q = (if q = base then Unmapped else pm_attributes pm q)"
    "pm_backing_addr pm1 q = (if q = base then 0 else pm_backing_addr pm q)"
    "pm_pointers pm1 q = (if q = base then 0 else pm_pointers pm q)" for q
    by (simp_all add: pm1_def)
  have "if unat base \<le> unat q \<and> unat q < unat base + Suc n
         then pm_attributes pm' q = Unmapped \<and> pm_pointers pm' q = 0
         else pm_attributes pm' q = pm_attributes pm q \<and> pm_backing_addr pm' q = pm_backing_addr pm q \<and>
              pm_pointers pm' q = pm_pointers pm q" for q
    using r(3)[of q] u64_eq_iff[of q base] unfolding at by (auto split: if_splits)
  moreover have "MapPages_unmap Unmapped (Suc n) base pm = Some pm'"
    using r(1) Suc.prems(1) by (simp add: pm1_def)
  ultimately show ?case using r(2) by blast
qed

lemma set_table_ok:
  assumes "gm_ok gm" "pm_entries pm' = pm_entries (gm_table gm)"
    and "\<And>q. unat q < pm_entries (gm_table gm) \<Longrightarrow> page_ok (gm_buffer gm) pm' q"
  shows "gm_ok (gm\<lparr>gm_table := pm'\<rparr>)"
  using assms by (simp add: gm_ok_def pm_ok_def)

lemma unat_page_number: "v < e * 4096 \<Longrightarrow> e < 2 ^ 52 \<Longrightarrow> unat (of_nat (v div 4096) :: u64) = v div 4096"
  by (intro unat_of_nat64) simp

text \<open>Mapping pages of the DRAM, the virtual and physical address being different.\<close>

lemma Memory_MapPages_ok:
  assumes ok: "gm_ok gm" and r: "unat base + unat n \<le> pm_entries (gm_table gm)"
    and t: "target \<noteq> 0" "target \<noteq> push_bit 12 base" "\<delta> = target - push_bit 12 base"
    and b: "gm_buffer gm + (\<delta> - DramMemoryMap_Base) \<noteq> 0"
    and d: "\<And>k. k < unat n \<Longrightarrow> dram_page (target + of_nat k * 4096)"
  shows "\<exists>pm'. Memory_MapPages (gm_buffer gm) base n target Memory (gm_table gm) = Some pm' \<and>
    pm_entries pm' = pm_entries (gm_table gm) \<and>
    gm_ok (gm\<lparr>gm_table := pm'\<rparr>) \<and>
    (\<forall>v < pm_entries (gm_table gm) * 4096. host (gm\<lparr>gm_table := pm'\<rparr>) v =
       (if unat base \<le> v div 4096 \<and> v div 4096 < unat base + unat n
        then Some (gm_buffer gm + (\<delta> - DramMemoryMap_Base) + of_nat v) else host gm v))"
proof -
  let ?pm = "gm_table gm" and ?in = "\<lambda>q. unat base \<le> unat q \<and> unat q < unat base + unat n"
  have e: "pm_entries ?pm < 2 ^ 52" using ok by (simp add: gm_ok_def pm_ok_def)
  obtain pm' where pm': "MapPages_map (gm_buffer gm) Memory (unat n) base target ?pm = Some pm'" "pm_entries pm' = pm_entries ?pm"
    "\<And>q. if ?in q
         then pm_attributes pm' q = Memory \<and> pm_backing_addr pm' q = \<delta> \<and>
              pm_pointers pm' q = gm_buffer gm + (\<delta> - DramMemoryMap_Base)
         else pm_attributes pm' q = pm_attributes ?pm q \<and> pm_backing_addr pm' q = pm_backing_addr ?pm q \<and>
              pm_pointers pm' q = pm_pointers ?pm q"
    using MapPages_map_entries[OF r e t(3), of "gm_buffer gm" Memory] by blast
  have "page_ok (gm_buffer gm) pm' q" if q: "unat q < pm_entries ?pm" for q
  proof (cases "?in q")
    case True
    then obtain k where k: "k < unat n" "q = base + of_nat k"
      by (intro that[of "unat q - unat base"]) (simp_all add: of_nat_diff less_diff_conv2)
    then have "\<delta> + push_bit 12 q = target + of_nat k * 4096"
      unfolding t(3) by (simp add: push_bit_eq_mult algebra_simps)
    then have "dram_page (\<delta> + push_bit 12 q)" using d[OF k(1)] by simp
    moreover have "\<delta> \<noteq> 0" using t(2,3) by simp
    ultimately show ?thesis using pm'(3)[of q] True b by (simp add: page_ok_def backed_def)
  next
    case False
    then show ?thesis using pm'(3)[of q] page_ok_cong[of pm' q ?pm] ok q by (simp add: gm_ok_def)
  qed
  then have "gm_ok (gm\<lparr>gm_table := pm'\<rparr>)" using pm'(2) by (intro set_table_ok[OF ok])
  moreover have "host (gm\<lparr>gm_table := pm'\<rparr>) v =
       (if unat base \<le> v div 4096 \<and> v div 4096 < unat base + unat n
        then Some (gm_buffer gm + (\<delta> - DramMemoryMap_Base) + of_nat v) else host gm v)" if "v < pm_entries ?pm * 4096" for v
  proof -
    have "unat (of_nat (v div 4096) :: u64) = v div 4096" using that e by (intro unat_page_number)
    then show ?thesis using pm'(3)[of "of_nat (v div 4096)"] by (simp add: host_of_def Let_def split: if_splits)
  qed
  ultimately show ?thesis using pm'(1,2) t(1) by (simp add: Memory_MapPages_def)
qed

lemma Memory_UnmapPages_ok:
  assumes ok: "gm_ok gm" and r: "unat base + unat n \<le> pm_entries (gm_table gm)"
  shows "\<exists>pm'. Memory_MapPages (gm_buffer gm) base n 0 Unmapped (gm_table gm) = Some pm' \<and>
    gm_ok (gm\<lparr>gm_table := pm'\<rparr>) \<and>
    (\<forall>v < pm_entries (gm_table gm) * 4096. host (gm\<lparr>gm_table := pm'\<rparr>) v =
       (if unat base \<le> v div 4096 \<and> v div 4096 < unat base + unat n then None else host gm v))"
proof -
  let ?pm = "gm_table gm" and ?in = "\<lambda>q. unat base \<le> unat q \<and> unat q < unat base + unat n"
  have e: "pm_entries ?pm < 2 ^ 52" using ok by (simp add: gm_ok_def pm_ok_def)
  obtain pm' where pm': "MapPages_unmap Unmapped (unat n) base ?pm = Some pm'" "pm_entries pm' = pm_entries ?pm"
    "\<And>q. if ?in q
         then pm_attributes pm' q = Unmapped \<and> pm_pointers pm' q = 0
         else pm_attributes pm' q = pm_attributes ?pm q \<and> pm_backing_addr pm' q = pm_backing_addr ?pm q \<and>
              pm_pointers pm' q = pm_pointers ?pm q"
    using MapPages_unmap_entries[OF r e] by blast
  have "page_ok (gm_buffer gm) pm' q" if q: "unat q < pm_entries ?pm" for q
    using pm'(3)[of q] page_ok_cong[of pm' q ?pm] ok q by (cases "?in q") (simp_all add: gm_ok_def unmapped_page_ok)
  then have "gm_ok (gm\<lparr>gm_table := pm'\<rparr>)" using pm'(2) by (intro set_table_ok[OF ok])
  moreover have "host (gm\<lparr>gm_table := pm'\<rparr>) v =
       (if unat base \<le> v div 4096 \<and> v div 4096 < unat base + unat n then None else host gm v)" if "v < pm_entries ?pm * 4096" for v
  proof -
    have "unat (of_nat (v div 4096) :: u64) = v div 4096" using that e by (intro unat_page_number)
    then show ?thesis using pm'(3)[of "of_nat (v div 4096)"] by (simp add: host_of_def Let_def split: if_splits)
  qed
  ultimately show ?thesis using pm'(1) by (simp add: Memory_MapPages_def)
qed

section \<open>An example\<close>

text \<open>
  Sixteen pages of virtual memory: page 2 and page 3 are mapped to the second and the first page of the DRAM,
  page 4 to the third one, which the rasterizer caches.
\<close>

definition example_backing :: "u64 \<Rightarrow> u64" where
  "example_backing p = (if p = 2 then 0x7FFFF000 else if p = 3 then 0x7FFFD000 else if p = 4 then 0x7FFFE000 else 0)"

definition example_memory :: GuestMemory where
  "example_memory = \<lparr>gm_table = \<lparr>pm_entries = 16,
     pm_pointers = (\<lambda>p. if p = 2 \<or> p = 3 then 0x1000000 + (example_backing p - DramMemoryMap_Base) else 0),
     pm_backing_addr = example_backing,
     pm_attributes = (\<lambda>p. if p = 2 \<or> p = 3 then Memory else if p = 4 then RasterizerCachedMemory else Unmapped)\<rparr>,
     gm_buffer = 0x1000000, gm_bytes = (\<lambda>_. 0), gm_gpu = []\<rparr>"

lemma example_memory_ok: "gm_ok example_memory"
proof -
  have "page_ok (gm_buffer example_memory) (gm_table example_memory) p" for p
    by (auto simp: page_ok_def backed_def dram_page_def example_memory_def example_backing_def
        DramMemoryMap_Base_def DramMemoryMap_Size_def)
  then show ?thesis by (simp add: gm_ok_def example_memory_def pm_ok_def DramMemoryMap_Size_def)
qed

lemma example_in_table: "unat v + n \<le> 0x10000 \<Longrightarrow> in_table example_memory v n"
  by (simp add: in_table_def example_memory_def)

section \<open>The properties\<close>



lemma load_store:
  assumes "inj_on h {v..<v + length bs}" "\<And>i. i < length bs \<Longrightarrow> h (v + i) \<noteq> None"
  shows "load h (store h v bs m) v (length bs) = bs"
  using assms
proof (induction bs arbitrary: v m)
  case (Cons b bs)
  from Cons.prems(2)[of 0] obtain a where a: "h v = Some a" by auto
  have "inj_on h {Suc v..<Suc v + length bs}" by (rule inj_on_subset[OF Cons.prems(1)]) auto
  then have IH: "load h (store h (Suc v) bs (m(a := b))) (Suc v) (length bs) = bs"
    using Cons.prems(2)[of "Suc _"] by (intro Cons.IH) simp_all
  have "h (Suc v + j) \<noteq> Some a" if "j < length bs" for j
    using inj_onD[OF Cons.prems(1), of "Suc v + j" v] that a by auto
  then have "store h (Suc v) bs (m(a := b)) a = b" by (subst store_other) simp_all
  then show ?case using IH a load_add[of h _ v 1 "length bs"] by (simp add: load_def)
qed simp

lemma writes_reads:
  assumes w: "writes n (f :: u64 \<Rightarrow> 'a :: len word \<Rightarrow> GuestMemory \<Rightarrow> GuestMemory option)" and r: "reads n g"
    and n: "LENGTH('a) = 8 * n" and ok: "gm_ok gm" "in_table gm v n"
    and inj: "inj_on (host gm) {unat v..<unat v + n}" "None \<notin> host gm ` {unat v..<unat v + n}"
  shows "\<exists>gm' gm''. f v data gm = Some gm' \<and> g v gm' = Some (data, gm'') \<and>
    (\<forall>a. Some a \<notin> host gm ` {unat v..<unat v + n} \<longrightarrow> gm_bytes gm' a = gm_bytes gm a)"
proof -
  obtain g1 where 1: "f v data gm = Some g1" "stored (unat v) (to_bytes data) gm g1" using w ok by (rule writesD)
  note d = storedD[OF 1(2)]
  have l: "length (to_bytes data) = n" using n by (simp add: sizeof_def)
  obtain g2 where 2: "g v g1 = Some (from_bytes (load (host g1) (gm_bytes g1) (unat v) n), g2)"
    using r ok d by (metis readsD)
  have "host gm (unat v + i) \<noteq> None" if "i < n" for i using inj(2) that by (metis atLeastLessThan_iff image_eqI le_add1 nat_add_left_cancel_less)
  then have "load (host gm) (store (host gm) (unat v) (to_bytes data) (gm_bytes gm)) (unat v) n = to_bytes data"
    using load_store[of "host gm" "unat v" "to_bytes data" "gm_bytes gm"] inj(1) l by simp
  then have "load (host g1) (gm_bytes g1) (unat v) n = to_bytes data" unfolding d(1,2,5) .
  moreover have "gm_bytes g1 a = gm_bytes gm a" if "Some a \<notin> host gm ` {unat v..<unat v + n}" for a
    unfolding d(5)
  proof (rule store_other)
    fix j assume "j < length (to_bytes data)"
    then show "host gm (unat v + j) \<noteq> Some a"
      using that l by (metis atLeastLessThan_iff image_eqI le_add1 nat_add_left_cancel_less)
  qed
  ultimately show ?thesis using 1(1) 2 n by (auto simp: from_to_bytes)
qed


lemma example_host:
  "host example_memory v =
     (if 0x2000 \<le> v \<and> v < 0x3000 then Some (of_nat (0xFFF000 + v))
      else if 0x3000 \<le> v \<and> v < 0x4000 then Some (of_nat (0xFFD000 + v))
      else if 0x4000 \<le> v \<and> v < 0x5000 then Some (of_nat (0xFFE000 + v)) else None)" if "v < 0x10000"
proof -
  have "unat (of_nat (v div 4096) :: u64) = v div 4096" using that by (intro unat_of_nat64) simp
  then have "(of_nat (v div 4096) :: u64) = 2 \<longleftrightarrow> v div 4096 = 2" "(of_nat (v div 4096) :: u64) = 3 \<longleftrightarrow> v div 4096 = 3"
    "(of_nat (v div 4096) :: u64) = 4 \<longleftrightarrow> v div 4096 = 4" by (simp_all only: u64_eq_iff) simp_all
  moreover have "v div 4096 = 2 \<longleftrightarrow> 0x2000 \<le> v \<and> v < 0x3000" "v div 4096 = 3 \<longleftrightarrow> 0x3000 \<le> v \<and> v < 0x4000"
    "v div 4096 = 4 \<longleftrightarrow> 0x4000 \<le> v \<and> v < 0x5000" by linarith+
  ultimately show ?thesis
    by (simp add: host_of_def Let_def example_memory_def example_backing_def DramMemoryMap_Base_def)
qed

lemma u64_of_nat_eq: "a < 2 ^ 64 \<Longrightarrow> b < 2 ^ 64 \<Longrightarrow> (of_nat a :: u64) = of_nat b \<longleftrightarrow> a = b"
  by (metis unat_of_nat64)

lemma example_distinct_bytes:
  "inj_on (host example_memory) {0x2FFD..<0x3005}" "None \<notin> host example_memory ` {0x2FFD..<0x3005}"
  by (auto simp: inj_on_def example_host u64_of_nat_eq simp del: of_nat_add)



lemma example_apart: "ranges_apart example_memory 0x4000 0x2FF0 0x20"
  by (auto simp: ranges_apart_def example_host u64_of_nat_eq simp del: of_nat_add)


text \<open>C15. Marking a range as cached by the rasterizer, or as not cached any more, keeps the
  memory of the process as it is: every virtual byte stays the same byte of the host, the contents
  do not change, and the table stays well formed. The range has to lie in the table.\<close>

theorem RasterizerMarkRegionCached_keeps_view:
  assumes "gm_ok gm" "in_table gm v (unat sz)" "0 < unat sz" "unat sz < 2 ^ 40"
  shows "\<exists>gm'. RasterizerMarkRegionCached v sz cached gm = Some gm' \<and> gm_ok gm' \<and>
    gm_bytes gm' = gm_bytes gm \<and> (\<forall>a. host gm' a = host gm a)"
proof (cases "v = 0")
  case True
  then show ?thesis using assms(1) by (simp add: RasterizerMarkRegionCached_def)
next
  case False
  let ?l = "drop_bit PAGE_BITS (v + sz - 1)" and ?f = "drop_bit PAGE_BITS v"
  have "pm_entries (gm_table gm) < 2 ^ 52" using assms(1) by (simp add: gm_ok_def pm_ok_def)
  then have "unat v + unat sz < 2 ^ 64" using assms(2) by (simp add: in_table_def)
  then have "unat (v + sz) = unat v + unat sz" by (rule unat_plus)
  then have u: "unat (v + sz - 1) = unat v + unat sz - 1" using assms(3) unat_pred[of "v + sz"] by simp
  have l: "unat ?l = (unat v + unat sz - 1) div 4096" by (simp only: page_number(2) u)
  have f: "unat ?f = unat v div 4096" by (rule page_number(2))
  have fl: "unat ?f \<le> unat ?l" unfolding l f using assms(3) by (intro div_le_mono) simp
  then have d: "unat (?l - ?f) = unat ?l - unat ?f" by (rule unat_diff)
  have small: "unat ?l - unat ?f < 2 ^ 32 - 1" 
  proof -
    have "unat ?l \<le> (unat v + 2 ^ 28 * 4096) div 4096" unfolding l using assms(4) by (intro div_le_mono) simp
    then show ?thesis unfolding f by simp
  qed
  have n: "unat (?l - ?f + 1) = unat ?l - unat ?f + 1" using d small by (subst unat_plus) simp_all
  have "unat ?l < pm_entries (gm_table gm)"
    unfolding l using assms(2,3) by (intro less_mult_imp_div_less) (simp add: in_table_def)
  then have "unat v div 4096 + unat (?l - ?f + 1) \<le> pm_entries (gm_table gm)" unfolding n f[symmetric] using fl by simp
  then obtain gm' where "MarkCached_loop (unat (?l - ?f + 1)) v cached gm = Some gm'" "gm_ok gm'" "same_view gm gm'"
    using MarkCached_loop_correct[OF assms(1)] by blast
  moreover have "gm_bytes gm' = gm_bytes gm \<and> (\<forall>a. host gm' a = host gm a)"
    using calculation(3) unfolding same_view_def by metis
  moreover have "unat (?l - ?f + 1) < 2 ^ 32" unfolding n using small by simp
  ultimately show ?thesis using False unfolding RasterizerMarkRegionCached_def Let_def by (intro exI[of _ gm']) simp
qed

theorem RasterizerMarkRegionCached_keeps_view_witness:
  "\<exists>gm'. RasterizerMarkRegionCached 0x2800 0x2000 True example_memory = Some gm' \<and> gm_ok gm' \<and>
     (\<forall>a. host gm' a = host example_memory a)"
  using RasterizerMarkRegionCached_keeps_view[OF example_memory_ok example_in_table, of "0x2800" "0x2000" True] by auto

text \<open>C14. Mapping a range of pages onto the DRAM keeps the memory of the process well formed and gives the
  bytes of the range the bytes of the target, the other bytes staying where they are; unmapping it afterwards leaves no
  byte of the range mapped. The virtual and the physical address have to differ: the code stores their
  difference and takes zero for a page that is not backed.\<close>

theorem MapMemoryRegion_well_formed:
  assumes "gm_ok gm" "4096 dvd unat base" "unat base + unat n * 4096 \<le> pm_entries (gm_table gm) * 4096"
    "target \<noteq> 0" "target \<noteq> base" "gm_buffer gm + (target - base - DramMemoryMap_Base) \<noteq> 0"
    "\<And>k. k < unat n \<Longrightarrow> dram_page (target + of_nat k * 4096)"
  shows "\<exists>pm' pm''. MapMemoryRegion (gm_buffer gm) base (n * PageSize) target (gm_table gm) = Some pm' \<and>
    gm_ok (gm\<lparr>gm_table := pm'\<rparr>) \<and>
    (\<forall>v < pm_entries (gm_table gm) * 4096. host (gm\<lparr>gm_table := pm'\<rparr>) v =
       (if unat base \<le> v \<and> v < unat base + unat n * 4096
        then Some (gm_buffer gm + (target - base - DramMemoryMap_Base) + of_nat v) else host gm v)) \<and>
    UnmapRegion (gm_buffer gm) base (n * PageSize) pm' = Some pm'' \<and> gm_ok (gm\<lparr>gm_table := pm''\<rparr>) \<and>
    (\<forall>v < pm_entries (gm_table gm) * 4096. host (gm\<lparr>gm_table := pm''\<rparr>) v =
       (if unat base \<le> v \<and> v < unat base + unat n * 4096 then None else host gm v))"
proof -
  obtain b where b: "unat base = b * 4096" using assms(2) by (metis dvdE mult.commute)
  have e: "pm_entries (gm_table gm) < 2 ^ 52" using assms(1) by (simp add: gm_ok_def pm_ok_def)
  have "unat n * 4096 < 2 ^ 64" using assms(3) e by simp
  then have n: "n * PageSize div PageSize = n" by (simp add: u64_eq_iff unat_times)
  have bp: "unat (base div PageSize) = b" using b by simp
  have "unat (push_bit 12 (base div PageSize)) = unat base"
    using b unat_lt64[of base] by (subst push_bit_eq_mult, subst unat_times) simp_all
  then have pb: "push_bit 12 (base div PageSize) = base" by (simp only: u64_eq_iff)
  have r: "unat (base div PageSize) + unat n \<le> pm_entries (gm_table gm)" using assms(3) b bp by simp
  have inr: "unat (base div PageSize) \<le> v div 4096 \<and> v div 4096 < unat (base div PageSize) + unat n \<longleftrightarrow>
      unat base \<le> v \<and> v < unat base + unat n * 4096" for v
    unfolding bp b by (simp add: less_eq_div_iff_mult_less_eq div_less_iff_less_mult algebra_simps)
  obtain pm' where 1: "Memory_MapPages (gm_buffer gm) (base div PageSize) n target Memory (gm_table gm) = Some pm'"
    "pm_entries pm' = pm_entries (gm_table gm)" "gm_ok (gm\<lparr>gm_table := pm'\<rparr>)"
    "\<forall>v < pm_entries (gm_table gm) * 4096. host (gm\<lparr>gm_table := pm'\<rparr>) v =
       (if unat base \<le> v \<and> v < unat base + unat n * 4096
        then Some (gm_buffer gm + (target - base - DramMemoryMap_Base) + of_nat v) else host gm v)"
    using Memory_MapPages_ok[OF assms(1) r assms(4), unfolded pb, OF assms(5) refl assms(6,7)] unfolding inr by blast
  obtain pm'' where "Memory_MapPages (gm_buffer gm) (base div PageSize) n 0 Unmapped pm' = Some pm''"
    "gm_ok (gm\<lparr>gm_table := pm''\<rparr>)"
    "\<forall>v < pm_entries (gm_table gm) * 4096. host (gm\<lparr>gm_table := pm''\<rparr>) v =
       (if unat base \<le> v \<and> v < unat base + unat n * 4096 then None else host (gm\<lparr>gm_table := pm'\<rparr>) v)"
    using Memory_UnmapPages_ok[OF 1(3), of "base div PageSize" n] r 1(2) unfolding inr by auto
  then show ?thesis using 1 unfolding MapMemoryRegion_def UnmapRegion_def n by (intro exI[of _ pm'] exI[of _ pm'']) simp
qed

lemma example_dram: "k < 2 \<Longrightarrow> dram_page (0x80010000 + of_nat k * 4096)"
  by (cases k; cases "k - 1") (simp_all add: dram_page_def DramMemoryMap_Base_def DramMemoryMap_Size_def)

theorem MapMemoryRegion_well_formed_witness:
  "\<exists>pm'. MapMemoryRegion 0x1000000 0x8000 (2 * PageSize) 0x80010000 (gm_table example_memory) = Some pm' \<and>
     gm_ok (example_memory\<lparr>gm_table := pm'\<rparr>) \<and> host (example_memory\<lparr>gm_table := pm'\<rparr>) 0x9004 = Some 0x1011004"
proof -
  have b: "gm_buffer example_memory = 0x1000000" by (simp add: example_memory_def)
  have n: "gm_buffer example_memory + (0x80010000 - 0x8000 - DramMemoryMap_Base) \<noteq> 0"
    by (simp add: b DramMemoryMap_Base_def)
  have e: "pm_entries (gm_table example_memory) = 16" by (simp add: example_memory_def)
  show ?thesis
    using MapMemoryRegion_well_formed[OF example_memory_ok _ _ _ _ n, of 2] example_dram
    by (auto simp: e b DramMemoryMap_Base_def)
qed

lemma WriteExclusive_cached:
  assumes "gm_ok gm" "in_table gm v 8" "pm_attributes (gm_table gm) (drop_bit PAGE_BITS v) = RasterizerCachedMemory"
  shows "\<exists>ok gm'. WriteExclusive v (data :: u64) expected gm = Some (ok, gm') \<and> same_memory gm gm'"
proof -
  have r: "unat v div 4096 < pm_entries (gm_table gm)" using in_table_page[OF assms(2)] by simp
  from assms(1) r show ?thesis
  proof (cases rule: gm_page_cases)
    case (cached h)
    then show ?thesis using r
      by (simp add: WriteExclusive_def table_entry_def page_number(2) CompareAndSwap_local_def same_memory_def)
  qed (use assms(3) in simp_all)
qed

lemma WriteExclusive_mapped:
  assumes ok: "gm_ok gm" "in_table gm v 8" and t: "pm_attributes (gm_table gm) (drop_bit PAGE_BITS v) = Memory"
    and al: "v AND 7 = 0"
  shows "if from_bytes (load (host gm) (gm_bytes gm) (unat v) 8) = expected
    then \<exists>gm'. WriteExclusive v (data :: u64) expected gm = Some (True, gm') \<and> stored (unat v) (to_bytes data) gm gm'
    else WriteExclusive v data expected gm = Some (False, gm)"
proof -
  have r: "unat v div 4096 < pm_entries (gm_table gm)" using in_table_page[OF ok(2)] by simp
  from ok(1) r show ?thesis
  proof (cases rule: gm_page_cases)
    case (mapped h)
    then show ?thesis
      using r page_run_load[OF mapped(4), of 8] page_run_store[OF mapped(4), of "to_bytes data"] aligned_lits(3)[OF al]
      by (auto simp: WriteExclusive_def AtomicCompareAndSwap_def table_entry_def page_number(2))
  qed (use t in simp_all)
qed



end
