(* ===== verification/Cheat_Engine.thy ===== *)
theory Cheat_Engine
  imports Cheat_VM_Correct Guest_Memory_Correct Page_Table
begin

text \<open>
  The cheat engine, \<^verbatim>\<open>core/memory/cheat_engine.h\<close> and \<^verbatim>\<open>cheat_engine.cpp\<close>: the callbacks that connect
  the machine of \<^verbatim>\<open>Cheat_VM\<close> to the memory of the process and to the controller, the parser of cheat files,
  and the engine that runs the machine from a timed event. A text is a \<open>string\<close>; \<^verbatim>\<open>char\<close> is signed, so the character
  classes are undefined from 128 on.
\<close>

section \<open>Callbacks\<close>

text \<open>
  What the callbacks reach: the memory of the current process and the press state of the controller,
  which is missing while the applet resource is not there.
\<close>

record CheatEnv =
  env_memory :: GuestMemory
  env_press_state :: "u32 option"

definition KEYPAD_BITMASK :: u32 where "KEYPAD_BITMASK = 0x3FFFFFF"

definition SanitizeAddress :: "CheatProcessMetadata \<Rightarrow> u64 \<Rightarrow> u64" where
  "SanitizeAddress metadata a =
     (let main = md_main_nso_extents metadata; heap = md_heap_extents metadata in
      if (a < ex_base main \<or> a \<ge> ex_base main + ex_size main)
         \<and> (a < ex_base heap \<or> a \<ge> ex_base heap + ex_size heap)
      then 0 else a)"

definition StandardVmCallbacks_MemoryRead ::
  "CheatProcessMetadata \<Rightarrow> u64 \<Rightarrow> u8 list \<Rightarrow> CheatEnv \<Rightarrow> (u8 list \<times> CheatEnv) option" where
  "StandardVmCallbacks_MemoryRead metadata address data e = do {
     (data, gm) \<leftarrow> ReadBlock (gm_table (env_memory e)) (SanitizeAddress metadata address) data (env_memory e);
     Some (data, e\<lparr>env_memory := gm\<rparr>)
   }"

definition StandardVmCallbacks_MemoryWrite ::
  "CheatProcessMetadata \<Rightarrow> u64 \<Rightarrow> u8 list \<Rightarrow> CheatEnv \<Rightarrow> CheatEnv option" where
  "StandardVmCallbacks_MemoryWrite metadata address data e = do {
     gm \<leftarrow> WriteBlock (gm_table (env_memory e)) (SanitizeAddress metadata address) data (env_memory e);
     Some (e\<lparr>env_memory := gm\<rparr>)
   }"

definition GetAndResetPressState :: "u32 \<Rightarrow> u32 \<times> u32" where
  "GetAndResetPressState press_state = (press_state, 0)"

definition StandardVmCallbacks_HidKeysDown :: "CheatEnv \<Rightarrow> u64 \<times> CheatEnv" where
  "StandardVmCallbacks_HidKeysDown e =
     (case env_press_state e of
        None \<Rightarrow> (0, e)
      | Some state \<Rightarrow>
          let (press_state, state) = GetAndResetPressState state
          in (ucast (press_state AND KEYPAD_BITMASK), e\<lparr>env_press_state := Some state\<rparr>))"

text \<open>The log callbacks write to the log of the emulator only.\<close>

definition StandardVmCallbacks :: "CheatProcessMetadata \<Rightarrow> CheatEnv Callbacks" where
  "StandardVmCallbacks metadata = \<lparr>
     cb_MemoryRead = StandardVmCallbacks_MemoryRead metadata,
     cb_MemoryWrite = StandardVmCallbacks_MemoryWrite metadata,
     cb_HidKeysDown = StandardVmCallbacks_HidKeysDown,
     cb_DebugLog = (\<lambda>id val e. e),
     cb_CommandLog = (\<lambda>data e. e)\<rparr>"

section \<open>The parser\<close>

definition isspace :: "char \<Rightarrow> bool option" where
  "isspace c = (let n = of_char c :: nat in
     if n < 128 then Some (n = 32 \<or> 9 \<le> n \<and> n \<le> 13) else None)"

definition isxdigit :: "char \<Rightarrow> bool option" where
  "isxdigit c = (let n = of_char c :: nat in
     if n < 128 then Some (48 \<le> n \<and> n \<le> 57 \<or> 65 \<le> n \<and> n \<le> 70 \<or> 97 \<le> n \<and> n \<le> 102) else None)"

text \<open>\<^verbatim>\<open>std::all_of\<close> and \<^verbatim>\<open>std::stoul\<close> with base 16 on a text of hexadecimal digits.\<close>

primrec all_of_isxdigit :: "string \<Rightarrow> bool option" where
  "all_of_isxdigit [] = Some True"
| "all_of_isxdigit (c # cs) = do { b \<leftarrow> isxdigit c; if b then all_of_isxdigit cs else Some False }"

definition hex_digit :: "char \<Rightarrow> u64" where
  "hex_digit c = (let n = of_char c :: nat in
     of_nat (if n \<le> 57 then n - 48 else if n \<le> 70 then n - 55 else n - 87))"

definition stoul_hex :: "string \<Rightarrow> u64" where
  "stoul_hex cs = fold (\<lambda>c acc. acc * 16 + hex_digit c) cs 0"

function ExtractName_loop :: "char \<Rightarrow> string \<Rightarrow> nat \<Rightarrow> nat \<Rightarrow> string option" where
  "ExtractName_loop match data start_index end_index = do {
     c \<leftarrow> nth_opt data end_index;
     if c \<noteq> match then
       if end_index + 1 > length data \<or> end_index + 1 - start_index - 1 > 0x40 then Some []
       else ExtractName_loop match data start_index (end_index + 1)
     else Some (take (end_index - start_index) (drop start_index data))
   }"
  by pat_completeness auto
termination
  by (relation "measure (\<lambda>(match, data, start_index, end_index). length data - end_index)")
    (auto simp: nth_opt_eq_Some)

definition ExtractName :: "char \<Rightarrow> string \<Rightarrow> nat \<Rightarrow> string option" where
  "ExtractName match data start_index = ExtractName_loop match data start_index start_index"

text \<open>\<^verbatim>\<open>memcpy\<close> of the name into the array, and the terminating zero in its last place.\<close>

definition set_readable_name :: "string \<Rightarrow> CheatDefinition \<Rightarrow> CheatDefinition option" where
  "set_readable_name name d =
     (let old = cd_readable_name d; n = min (length old) (length name) in do {
        new \<leftarrow> upd_opt (take n name @ drop n old) (length old - 1) (CHR 0x00);
        Some (d\<lparr>cd_readable_name := new\<rparr>)
      })"

record ParseState =
  ps_out :: "CheatEntry list"
  ps_current_entry :: "nat option"

definition update_definition ::
  "nat \<Rightarrow> (CheatDefinition \<Rightarrow> CheatDefinition option) \<Rightarrow> CheatEntry list \<Rightarrow> CheatEntry list option" where
  "update_definition k f out = do {
     entry \<leftarrow> nth_opt out k;
     d \<leftarrow> f (ce_definition entry);
     upd_opt out k (entry\<lparr>ce_definition := d\<rparr>)
   }"

text \<open>
  One round of the loop at position \<open>i\<close>, for a character that is no space: \<open>None\<close> inside is the early return
  of an empty list, otherwise the position before the increment and the new state.
\<close>

definition Parse_master :: "string \<Rightarrow> nat \<Rightarrow> ParseState \<Rightarrow> (nat \<times> ParseState) option option" where
  "Parse_master data i st = do {
     entry \<leftarrow> nth_opt (ps_out st) 0;
     if cd_num_opcodes (ce_definition entry) > 0 then Some None
     else do {
       name \<leftarrow> ExtractName CHR ''}'' data (i + 1);
       if name = [] then Some None
       else do {
         out \<leftarrow> update_definition 0 (set_readable_name name) (ps_out st);
         Some (Some (i + length name + 1, st\<lparr>ps_out := out, ps_current_entry := Some 0\<rparr>))
       }
     }
   }"

definition Parse_header :: "string \<Rightarrow> nat \<Rightarrow> ParseState \<Rightarrow> (nat \<times> ParseState) option option" where
  "Parse_header data i st = (let current_entry = length (ps_out st); out = ps_out st @ [mk_CheatEntry] in do {
     name \<leftarrow> ExtractName CHR '']'' data (i + 1);
     if name = [] then Some None
     else do {
       out \<leftarrow> update_definition current_entry (set_readable_name name) out;
       Some (Some (i + length name + 1, st\<lparr>ps_out := out, ps_current_entry := Some current_entry\<rparr>))
     }
   })"

definition append_opcode :: "u32 \<Rightarrow> CheatDefinition \<Rightarrow> CheatDefinition option" where
  "append_opcode w d = do {
     ws \<leftarrow> upd_opt (cd_opcodes d) (unat (cd_num_opcodes d)) w;
     Some (d\<lparr>cd_num_opcodes := cd_num_opcodes d + 1, cd_opcodes := ws\<rparr>)
   }"

definition Parse_opcode :: "string \<Rightarrow> nat \<Rightarrow> ParseState \<Rightarrow> (nat \<times> ParseState) option option" where
  "Parse_opcode data i st = (case ps_current_entry st of
       None \<Rightarrow> Some None
     | Some current_entry \<Rightarrow> do {
         entry \<leftarrow> nth_opt (ps_out st) current_entry;
         if unat (cd_num_opcodes (ce_definition entry)) \<ge> length (cd_opcodes (ce_definition entry)) then Some None
         else do {
           let hex = take 8 (drop i data);
           digits \<leftarrow> all_of_isxdigit hex;
           if \<not> digits then Some None
           else do {
             out \<leftarrow> update_definition current_entry (append_opcode (ucast (stoul_hex hex))) (ps_out st);
             Some (Some (i + 8, st\<lparr>ps_out := out\<rparr>))
           }
         }
       })"

definition Parse_round :: "string \<Rightarrow> nat \<Rightarrow> ParseState \<Rightarrow> (nat \<times> ParseState) option option" where
  "Parse_round data i st = do {
     c \<leftarrow> nth_opt data i;
     space \<leftarrow> isspace c;
     if space then Some (Some (i, st))
     else if c = CHR ''{'' then Parse_master data i st
     else if c = CHR ''['' then Parse_header data i st
     else do {
       xdigit \<leftarrow> isxdigit c;
       if xdigit then Parse_opcode data i st else Some None
     }
   }"

lemma Parse_round_forward:
  assumes "Parse_round data i st = Some (Some (j, st'))"
  shows "i \<le> j"
  using assms
  by (auto simp: Parse_round_def Parse_master_def Parse_header_def Parse_opcode_def Let_def
      split: bind_splits if_splits option.splits)

function Parse_loop :: "string \<Rightarrow> nat \<Rightarrow> ParseState \<Rightarrow> ParseState option option" where
  "Parse_loop data i st =
     (if i < length data then do {
        r \<leftarrow> Parse_round data i st;
        case r of None \<Rightarrow> Some None | Some (j, st) \<Rightarrow> Parse_loop data (j + 1) st
      }
      else Some (Some st))"
  by pat_completeness auto
termination
  by (relation "measure (\<lambda>(data, i, st). length data - i)") (auto dest: Parse_round_forward)

text \<open>The flags and numbers of the entries; \<open>i\<close> is the position of the first of them.\<close>

primrec finish_entries :: "nat \<Rightarrow> CheatEntry list \<Rightarrow> CheatEntry list" where
  "finish_entries i [] = []"
| "finish_entries i (e # es) =
     e\<lparr>ce_enabled := cd_num_opcodes (ce_definition e) > 0, ce_cheat_id := of_nat i\<rparr> # finish_entries (i + 1) es"

definition Parse :: "string \<Rightarrow> CheatEntry list option" where
  "Parse data = do {
     r \<leftarrow> Parse_loop data 0 \<lparr>ps_out = [mk_CheatEntry], ps_current_entry = None\<rparr>;
     case r of None \<Rightarrow> Some [] | Some st \<Rightarrow> Some (finish_entries 0 (ps_out st))
   }"

section \<open>The engine\<close>

text \<open>
  The engine with the part of its surroundings it changes: the times, in nanoseconds from the call, at
  which \<^verbatim>\<open>core_timing\<close> was asked to fire its event, the oldest first. The event and its name are not
  modelled further.
\<close>

definition CHEAT_ENGINE_NS :: int where "CHEAT_ENGINE_NS = 1000000000 div 12"

record CheatEngine =
  eng_vm :: DmntCheatVm
  eng_metadata :: CheatProcessMetadata
  eng_cheats :: "CheatEntry list"
  eng_is_pending_reload :: bool
  eng_scheduled :: "int list"

definition mk_MemoryRegionExtents :: MemoryRegionExtents where
  "mk_MemoryRegionExtents = \<lparr>ex_base = 0, ex_size = 0\<rparr>"

definition mk_CheatProcessMetadata :: CheatProcessMetadata where
  "mk_CheatProcessMetadata = \<lparr>md_process_id = 0, md_title_id = 0,
     md_main_nso_extents = mk_MemoryRegionExtents, md_heap_extents = mk_MemoryRegionExtents,
     md_alias_extents = mk_MemoryRegionExtents, md_address_space_extents = mk_MemoryRegionExtents,
     md_main_nso_build_id = replicate 0x20 0\<rparr>"

definition mk_CheatEngine :: "CheatEntry list \<Rightarrow> u8 list \<Rightarrow> CheatEngine" where
  "mk_CheatEngine cheats build_id = \<lparr>eng_vm = mk_DmntCheatVm,
     eng_metadata = mk_CheatProcessMetadata\<lparr>md_main_nso_build_id := build_id\<rparr>,
     eng_cheats = cheats, eng_is_pending_reload = False, eng_scheduled = []\<rparr>"

definition ScheduleEvent :: "int \<Rightarrow> CheatEngine \<Rightarrow> CheatEngine" where
  "ScheduleEvent ns eng = eng\<lparr>eng_scheduled := eng_scheduled eng @ [ns]\<rparr>"

text \<open>\<open>Initialize\<close> reads the identity and the regions of the current process.\<close>

definition Initialize_metadata ::
  "u64 \<Rightarrow> u64 \<Rightarrow> PageTable \<Rightarrow> CheatProcessMetadata \<Rightarrow> CheatProcessMetadata" where
  "Initialize_metadata process_id title_id page_table metadata = metadata\<lparr>
     md_process_id := process_id, md_title_id := title_id,
     md_heap_extents := \<lparr>ex_base = pt_heap_region_start page_table,
       ex_size = pt_heap_region_end page_table - pt_heap_region_start page_table\<rparr>,
     md_address_space_extents := \<lparr>ex_base = pt_address_space_start page_table,
       ex_size = pt_address_space_end page_table - pt_address_space_start page_table\<rparr>,
     md_alias_extents := \<lparr>ex_base = pt_alias_code_region_start page_table,
       ex_size = pt_alias_code_region_end page_table - pt_alias_code_region_start page_table\<rparr>\<rparr>"

definition CheatEngine_Initialize :: "u64 \<Rightarrow> u64 \<Rightarrow> PageTable \<Rightarrow> CheatEngine \<Rightarrow> CheatEngine" where
  "CheatEngine_Initialize process_id title_id page_table eng =
     (let eng = ScheduleEvent CHEAT_ENGINE_NS eng
      in eng\<lparr>eng_metadata := Initialize_metadata process_id title_id page_table (eng_metadata eng),
           eng_is_pending_reload := True\<rparr>)"

definition SetMainMemoryParameters :: "u64 \<Rightarrow> u64 \<Rightarrow> CheatEngine \<Rightarrow> CheatEngine" where
  "SetMainMemoryParameters main_region_begin main_region_size eng = eng\<lparr>eng_metadata :=
     (eng_metadata eng)\<lparr>md_main_nso_extents := \<lparr>ex_base = main_region_begin, ex_size = main_region_size\<rparr>\<rparr>\<rparr>"

definition CheatEngine_Reload :: "CheatEntry list \<Rightarrow> CheatEngine \<Rightarrow> CheatEngine" where
  "CheatEngine_Reload cheats eng = eng\<lparr>eng_cheats := cheats, eng_is_pending_reload := True\<rparr>"

definition FrameCallback :: "Formats \<Rightarrow> int \<Rightarrow> CheatEngine \<times> CheatEnv \<Rightarrow> (CheatEngine \<times> CheatEnv) option" where
  "FrameCallback F ns_late s = (let (eng, e) = s in do {
     vm \<leftarrow> (if eng_is_pending_reload eng then do {
         (ok, vm) \<leftarrow> LoadProgram (eng_cheats eng) (eng_vm eng);
         Some vm
       } else Some (eng_vm eng));
     let eng = eng\<lparr>eng_is_pending_reload := False, eng_vm := vm\<rparr>;
     if GetProgramSize (eng_vm eng) = 0 then Some (eng, e)
     else do {
       (vm, e) \<leftarrow> Execute F (StandardVmCallbacks (eng_metadata eng)) (eng_metadata eng) (eng_vm eng, e);
       Some (ScheduleEvent (CHEAT_ENGINE_NS - ns_late) (eng\<lparr>eng_vm := vm\<rparr>), e)
     }
   })"

end
