(* ===== verification/Cheat_Engine_Correct.thy ===== *)
theory Cheat_Engine_Correct
  imports Cheat_Engine Page_Table_Correct
begin

text \<open>
  Correctness of the cheat engine. The standard callbacks fulfil the interface of the machine, so cheats run on the
  memory of the process without undefined accesses and change only the regions they may touch. Parsing a printed list of
  cheats gives the list back. The engine runs from a single event that re-arms itself until a program
  is empty.
\<close>

section \<open>The memory a cheat can reach\<close>

definition in_extents :: "nat \<Rightarrow> MemoryRegionExtents \<Rightarrow> nat \<Rightarrow> bool" where
  "in_extents slack x v \<longleftrightarrow> unat (ex_base x) \<le> v \<and> v < unat (ex_base x) + unat (ex_size x) + slack"

text \<open>
  The bytes an access of at most eight bytes can touch. It is only the first byte that is checked, so an access may
  go seven bytes beyond a region, and a rejected address is replaced by zero.
\<close>

definition cheat_reach :: "CheatProcessMetadata \<Rightarrow> nat \<Rightarrow> bool" where
  "cheat_reach md v \<longleftrightarrow> v < 8 \<or> in_extents 7 (md_main_nso_extents md) v \<or> in_extents 7 (md_heap_extents md) v"

definition extents_fit :: "CheatProcessMetadata \<Rightarrow> GuestMemory \<Rightarrow> bool" where
  "extents_fit md gm \<longleftrightarrow> (let limit = pm_entries (gm_table gm) * 4096 in 0 < limit \<and>
     unat (ex_base (md_main_nso_extents md)) + unat (ex_size (md_main_nso_extents md)) + 7 \<le> limit \<and>
     unat (ex_base (md_heap_extents md)) + unat (ex_size (md_heap_extents md)) + 7 \<le> limit)"

lemma SanitizeAddress_cases:
  assumes "gm_ok gm" "extents_fit md gm"
  shows "SanitizeAddress md a = 0 \<or> in_extents 0 (md_main_nso_extents md) (unat (SanitizeAddress md a)) \<or>
    in_extents 0 (md_heap_extents md) (unat (SanitizeAddress md a))"
proof -
  have "pm_entries (gm_table gm) * 4096 < 2 ^ 64" using assms(1) by (simp add: gm_ok_def pm_ok_def)
  then have "unat (ex_base x + ex_size x) = unat (ex_base x) + unat (ex_size x)"
    if "x = md_main_nso_extents md \<or> x = md_heap_extents md" for x
    using assms(2) that by (subst unat_plus) (auto simp: extents_fit_def Let_def)
  then show ?thesis
    by (auto simp: SanitizeAddress_def Let_def in_extents_def word_less_nat_alt word_le_nat_alt)
qed

lemma sanitized_reach:
  assumes "gm_ok gm" "extents_fit md gm" "i < 8"
  shows "cheat_reach md (unat (SanitizeAddress md a) + i)"
  using SanitizeAddress_cases[OF assms(1,2), of a] assms(3) by (auto simp: cheat_reach_def in_extents_def)

lemma sanitized_in_table:
  assumes "gm_ok gm" "extents_fit md gm" "n \<le> 8"
  shows "in_table gm (SanitizeAddress md a) n"
proof -
  have "4096 \<le> pm_entries (gm_table gm) * 4096" using assms(2) by (simp add: extents_fit_def Let_def)
  then have "n \<le> pm_entries (gm_table gm) * 4096" using assms(3) by linarith
  moreover have "unat v + n \<le> pm_entries (gm_table gm) * 4096"
    if "in_extents 0 (md_main_nso_extents md) (unat v) \<or> in_extents 0 (md_heap_extents md) (unat v)" for v :: u64
    using that assms(2,3) by (auto simp: in_extents_def extents_fit_def Let_def)
  ultimately show ?thesis unfolding in_table_def using SanitizeAddress_cases[OF assms(1,2), of a]
    by (metis add_0 unsigned_0)
qed

text \<open>The state of the callbacks during a run that started with the memory \<open>gm\<close>.\<close>

definition sandboxed :: "CheatProcessMetadata \<Rightarrow> GuestMemory \<Rightarrow> CheatEnv \<Rightarrow> bool" where
  "sandboxed md gm e \<longleftrightarrow> gm_ok gm \<and> extents_fit md gm \<and> gm_table (env_memory e) = gm_table gm \<and>
     gm_buffer (env_memory e) = gm_buffer gm \<and>
     (\<forall>a. (\<forall>v. cheat_reach md v \<longrightarrow> host gm v \<noteq> Some a) \<longrightarrow> gm_bytes (env_memory e) a = gm_bytes gm a)"

lemma sandboxed_ok:
  assumes "sandboxed md gm e"
  shows "gm_ok (env_memory e)" "extents_fit md (env_memory e)" "host (env_memory e) = host gm"
  using assms by (auto simp: sandboxed_def gm_ok_def extents_fit_def Let_def)

interpretation standard: vm_callbacks "StandardVmCallbacks md" "sandboxed md gm" for md gm
proof
  fix a :: u64 and data :: "u8 list" and e :: CheatEnv
  assume s: "sandboxed md gm e" and l: "length data \<le> 8"
  note ok = sandboxed_ok[OF s]
  note t = sanitized_in_table[OF ok(1,2) l, of a]
  show "yields (cb_MemoryRead (StandardVmCallbacks md) a data e)
      (\<lambda>(data', e'). length data' = length data \<and> sandboxed md gm e')"
    using ReadBlock_load(1)[OF ok(1) t] s
    by (auto simp: StandardVmCallbacks_def StandardVmCallbacks_MemoryRead_def yields_def sandboxed_def same_memory_def)
  obtain gm' where w: "WriteBlock (gm_table (env_memory e)) (SanitizeAddress md a) data (env_memory e) = Some gm'"
    and st: "stored (unat (SanitizeAddress md a)) data (env_memory e) gm'"
    using WriteBlock_store(1)[OF ok(1) t] by blast
  have "gm_bytes gm' x = gm_bytes (env_memory e) x" if "\<forall>v. cheat_reach md v \<longrightarrow> host gm v \<noteq> Some x" for x
    using storedD(5)[OF st] that l sanitized_reach[OF ok(1,2)] ok(3) by (simp add: store_other)
  then show "yields (cb_MemoryWrite (StandardVmCallbacks md) a data e) (sandboxed md gm)"
    using w s storedD[OF st]
    by (auto simp: StandardVmCallbacks_def StandardVmCallbacks_MemoryWrite_def yields_def sandboxed_def)
next
  fix e assume "sandboxed md gm e"
  then show "sandboxed md gm (snd (cb_HidKeysDown (StandardVmCallbacks md) e))"
    by (auto simp: StandardVmCallbacks_def StandardVmCallbacks_HidKeysDown_def GetAndResetPressState_def sandboxed_def
        split: option.split)
qed (simp_all add: StandardVmCallbacks_def)


text \<open>C20. A program that has no loop ends, has no conditional on memory and no shift by 64 bits or by a register
  is always executed to its end: the execution is defined and returns.\<close>

theorem Execute_returns:
  assumes "vm_ok vm" "gm_ok (env_memory e)" "extents_fit md (env_memory e)" "straight_program vm"
  shows "\<exists>vm' e'. Execute F (StandardVmCallbacks md) md (vm, e) = Some (vm', e') \<and> vm_ok vm' \<and> same_code vm vm' \<and>
    gm_ok (env_memory e')"
proof -
  have "sandboxed md (env_memory e) e" using assms(2,3) by (simp add: sandboxed_def)
  from standard.Execute_terminates[OF assms(1) this assms(4), of F md] show ?thesis
    using sandboxed_ok(1) by (auto simp: yields_def)
qed

text \<open>C21. Executing a decoded instruction is undefined in exactly two cases: it is the conditional on memory, whose
  branch dereferences the null pointer \<^verbatim>\<open>store_static\<close>, or it shifts by 64 bits or more. Every other
  instruction is defined, whatever addresses it uses.\<close>

theorem exec_opcode_undefined_cases:
  assumes "vm_ok vm" "gm_ok (env_memory e)" "extents_fit md (env_memory e)" "opcode_ok op"
  shows "exec_opcode (StandardVmCallbacks md) md kDown op (vm, e) = None \<longleftrightarrow> \<not> defined_op vm op"
proof -
  have "sandboxed md (env_memory e) e" using assms(2,3) by (simp add: sandboxed_def)
  from standard.exec_opcode_defined_iff[OF assms(1) this assms(4)] show ?thesis .
qed

section \<open>The life of the engine\<close>

text \<open>
  The steps that concern the engine: the service reloads the cheats, the loader reports the main region, the process
  changes the state behind the callbacks, and the oldest pending event fires. The construction is followed by
  \<^verbatim>\<open>Initialize\<close>.
\<close>

inductive engine_step :: "Formats \<Rightarrow> CheatEngine \<times> CheatEnv \<Rightarrow> CheatEngine \<times> CheatEnv \<Rightarrow> bool" for F where
  reload: "engine_step F (eng, e) (CheatEngine_Reload cheats eng, e)"
| params: "engine_step F (eng, e) (SetMainMemoryParameters b n eng, e)"
| outside: "engine_step F (eng, e) (eng, e')"
| fire: "eng_scheduled eng = ns # pending \<Longrightarrow> FrameCallback F ns_late (eng\<lparr>eng_scheduled := pending\<rparr>, e) = Some s' \<Longrightarrow>
    engine_step F (eng, e) s'"

inductive engine_reachable :: "Formats \<Rightarrow> CheatEngine \<times> CheatEnv \<Rightarrow> bool" for F where
  start: "engine_reachable F (CheatEngine_Initialize process_id title_id page_table (mk_CheatEngine cheats build_id), e)"
| step: "engine_reachable F s \<Longrightarrow> engine_step F s s' \<Longrightarrow> engine_reachable F s'"

lemma FrameCallback_schedule:
  assumes "FrameCallback F ns_late (eng, e) = Some (eng', e')"
  shows "eng_scheduled eng' = eng_scheduled eng \<and> GetProgramSize (eng_vm eng') = 0 \<or>
    eng_scheduled eng' = eng_scheduled eng @ [CHEAT_ENGINE_NS - ns_late]"
  using assms by (auto simp: FrameCallback_def Let_def ScheduleEvent_def split: bind_splits if_splits)

text \<open>What holds of the pending events.\<close>

definition events_ok :: "CheatEngine \<Rightarrow> bool" where
  "events_ok eng \<longleftrightarrow> length (eng_scheduled eng) \<le> 1 \<and>
     (eng_scheduled eng = [] \<longrightarrow> GetProgramSize (eng_vm eng) = 0)"

inductive_cases engine_stepE: "engine_step F s s'"

lemma engine_step_events_ok:
  assumes "engine_step F s s'" "events_ok (fst s)"
  shows "events_ok (fst s')"
  using assms(1)
proof cases
  case (fire eng ns pending ns_late e)
  then show ?thesis using assms(2) FrameCallback_schedule[of F ns_late "eng\<lparr>eng_scheduled := pending\<rparr>" e "fst s'" "snd s'"]
    by (auto simp: events_ok_def)
qed (use assms(2) in \<open>simp_all add: events_ok_def CheatEngine_Reload_def SetMainMemoryParameters_def\<close>)

lemma engine_reachable_events_ok: "engine_reachable F s \<Longrightarrow> events_ok (fst s)"
proof (induction rule: engine_reachable.induct)
  case start
  then show ?case
    by (simp add: events_ok_def CheatEngine_Initialize_def mk_CheatEngine_def ScheduleEvent_def Let_def)
qed (rule engine_step_events_ok)

lemma engine_step_silent:
  "engine_step F s s' \<Longrightarrow> eng_scheduled (fst s) = [] \<Longrightarrow>
     eng_scheduled (fst s') = [] \<and> eng_vm (fst s') = eng_vm (fst s)"
  by (auto elim!: engine_stepE simp: CheatEngine_Reload_def SetMainMemoryParameters_def)

lemma engine_steps_silent:
  "(engine_step F)\<^sup>*\<^sup>* s s' \<Longrightarrow> eng_scheduled (fst s) = [] \<Longrightarrow>
     eng_scheduled (fst s') = [] \<and> eng_vm (fst s') = eng_vm (fst s)"
  by (induction rule: rtranclp_induct) (auto dest: engine_step_silent)


section \<open>Examples\<close>

definition example_formats :: Formats where
  "example_formats = \<lparr>fmt_X = (\<lambda>_. []), fmt_d = (\<lambda>_. []), fmt_0X = (\<lambda>_ _. [])\<rparr>"

definition example_env :: CheatEnv where
  "example_env = \<lparr>env_memory = example_memory, env_press_state = Some 3\<rparr>"

definition example_metadata :: CheatProcessMetadata where
  "example_metadata = mk_CheatProcessMetadata\<lparr>md_main_nso_extents := \<lparr>ex_base = 0x2000, ex_size = 0x100\<rparr>,
     md_heap_extents := \<lparr>ex_base = 0x3000, ex_size = 0x800\<rparr>\<rparr>"

lemma example_fits: "extents_fit example_metadata (env_memory example_env)"
  by (simp add: extents_fit_def example_metadata_def example_env_def example_memory_def)

lemma example_env_ok: "gm_ok (env_memory example_env)"
  using example_memory_ok by (simp add: example_env_def)

lemma example_straight: "straight_program example_vm"
proof -
  have "num_opcodes example_vm = Suc (Suc (Suc (Suc (Suc (Suc (Suc (Suc (Suc (Suc 0)))))))))" by (simp add: example_vm_def)
  then show ?thesis by (simp add: straight_program_def example_instr example_instr(2)[unfolded One_nat_def])
qed

lemma example_reach:
  assumes "cheat_reach example_metadata v"
  shows "host example_memory v \<noteq> Some 0x1002000"
proof
  assume h: "host example_memory v = Some 0x1002000"
  have v: "v < 8 \<or> 0x2000 \<le> v \<and> v < 0x2107 \<or> 0x3000 \<le> v \<and> v < 0x3807"
    using assms by (auto simp: cheat_reach_def in_extents_def example_metadata_def)
  have "host example_memory v = None" if "v div 4096 = 0"
    using that by (simp add: host_of_def example_memory_def)
  moreover have "host example_memory v = Some (0xFFF000 + of_nat v)" if "v div 4096 = 2"
    using that by (simp add: host_of_def example_memory_def example_backing_def DramMemoryMap_Base_def)
  moreover have "host example_memory v = Some (0xFFD000 + of_nat v)" if "v div 4096 = 3"
    using that by (simp add: host_of_def example_memory_def example_backing_def DramMemoryMap_Base_def)
  moreover have u: "unat (of_nat v :: u64) = v" "v < 0x10000" using v by auto
  moreover have "unat (0xFFF000 + of_nat v :: u64) = 0xFFF000 + v" "unat (0xFFD000 + of_nat v :: u64) = 0xFFD000 + v"
    using u by (simp_all add: unat_plus)
  moreover have "v div 4096 = 0 \<or> v div 4096 = 2 \<and> v < 0x2107 \<or> v div 4096 = 3 \<and> v < 0x3807" using v by auto
  ultimately show False using h by auto
qed


theorem Execute_returns_witness:
  "\<exists>vm' e'. Execute example_formats (StandardVmCallbacks example_metadata) example_metadata (example_vm, example_env) =
     Some (vm', e') \<and> vm_ok vm' \<and> same_code example_vm vm' \<and> gm_ok (env_memory e')"
  by (rule Execute_returns[OF example_vm_ok example_env_ok example_fits example_straight])

theorem exec_opcode_undefined_cases_witness:
  "exec_opcode (StandardVmCallbacks example_metadata) example_metadata 3 (BeginConditional 4 0 5 0x10 0)
     (example_vm, example_env) = None \<and>
   exec_opcode (StandardVmCallbacks example_metadata) example_metadata 3 (StoreStatic 4 0 0 0xFFFFFFFF 0)
     (example_vm, example_env) \<noteq> None"
  using exec_opcode_undefined_cases[OF example_vm_ok example_env_ok example_fits,
      of "BeginConditional 4 0 5 0x10 0" 3]
    exec_opcode_undefined_cases[OF example_vm_ok example_env_ok example_fits, of "StoreStatic 4 0 0 0xFFFFFFFF 0" 3]
  by simp

text \<open>An engine that starts without cheats: the first event ends it, and a reload does not bring it back.\<close>

definition example_engine :: CheatEngine where
  "example_engine = CheatEngine_Initialize 1 2 example_pt (mk_CheatEngine [] [])"

definition example_stopped :: CheatEngine where
  "example_stopped = example_engine\<lparr>eng_scheduled := [], eng_is_pending_reload := False\<rparr>"

lemma example_stopped_reachable: "engine_reachable example_formats (example_stopped, example_env)"
proof (rule engine_reachable.step)
  show "engine_reachable example_formats (example_engine, example_env)"
    unfolding example_engine_def by (rule engine_reachable.start)
  show "engine_step example_formats (example_engine, example_env) (example_stopped, example_env)"
    by (rule engine_step.fire[where ns = CHEAT_ENGINE_NS and pending = "[]" and ns_late = 0])
      (simp_all add: example_engine_def example_stopped_def CheatEngine_Initialize_def mk_CheatEngine_def ScheduleEvent_def
        FrameCallback_def LoadProgram_def mk_DmntCheatVm_def GetProgramSize_def Let_def)
qed


section \<open>Printing and parsing\<close>

text \<open>A cheat file as text: for each cheat its name in brackets, then its words as eight digits, a line for each.\<close>

definition hex_char :: "nat \<Rightarrow> char" where
  "hex_char n = char_of (if n < 10 then 48 + n else 55 + n)"

definition print_word :: "u32 \<Rightarrow> string" where
  "print_word w = map (\<lambda>k. hex_char (unat w div 16 ^ k mod 16)) (rev [0 ..< 8])"

definition print_words :: "u32 list \<Rightarrow> string" where
  "print_words ws = concat (map (\<lambda>w. print_word w @ [CHR 0x0A]) ws)"

fun print_cheat :: "string \<times> u32 list \<Rightarrow> string" where
  "print_cheat (name, ws) = CHR ''['' # name @ '']'' @ [CHR 0x0A] @ print_words ws"

definition print_cheats :: "(string \<times> u32 list) list \<Rightarrow> string" where
  "print_cheats cs = concat (map print_cheat cs)"

text \<open>The entry that should come out: the name is cut to 63 characters and padded with zeros.\<close>

definition name_array :: "string \<Rightarrow> string" where
  "name_array name = take 63 name @ replicate (64 - min 63 (length name)) CHR 0x00"

definition cheat_definition :: "string \<Rightarrow> u32 list \<Rightarrow> CheatDefinition" where
  "cheat_definition name ws = \<lparr>cd_readable_name = name_array name, cd_num_opcodes = of_nat (length ws),
     cd_opcodes = ws @ replicate (0x100 - length ws) 0\<rparr>"

definition cheat_entry :: "nat \<Rightarrow> string \<times> u32 list \<Rightarrow> CheatEntry" where
  "cheat_entry i c = \<lparr>ce_enabled = snd c \<noteq> [], ce_cheat_id = of_nat i, ce_definition = cheat_definition (fst c) (snd c)\<rparr>"

definition printable :: "string \<times> u32 list \<Rightarrow> bool" where
  "printable c \<longleftrightarrow> fst c \<noteq> [] \<and> CHR '']'' \<notin> set (fst c) \<and> length (fst c) \<le> 0x41 \<and> length (snd c) \<le> 0x100"

lemma hex_char_props:
  assumes "n < 16"
  shows "isspace (hex_char n) = Some False" "isxdigit (hex_char n) = Some True" "hex_digit (hex_char n) = of_nat n"
    "hex_char n \<noteq> CHR ''{''" "hex_char n \<noteq> CHR ''[''"
proof -
  have "of_char (hex_char n) = (if n < 10 then 48 + n else 55 + n)" using assms by (simp add: hex_char_def)
  then show "isspace (hex_char n) = Some False" "isxdigit (hex_char n) = Some True" "hex_digit (hex_char n) = of_nat n"
    using assms by (auto simp: isspace_def isxdigit_def hex_digit_def Let_def)
  have "of_char CHR ''{'' = (123 :: nat)" "of_char CHR ''['' = (91 :: nat)" by simp_all
  then show "hex_char n \<noteq> CHR ''{''" "hex_char n \<noteq> CHR ''[''"
    using assms \<open>of_char (hex_char n) = _\<close> by (auto split: if_splits)
qed

lemma horner16: "fold (\<lambda>k acc. acc * 16 + x div 16 ^ k mod 16) (rev [0 ..< n]) (x div 16 ^ n) = x" for x :: nat
proof (induction n)
  case (Suc n)
  have "x div 16 ^ Suc n * 16 + x div 16 ^ n mod 16 = x div 16 ^ n"
    using div_mult_mod_eq[of "x div 16 ^ n" 16] by (simp add: div_mult2_eq[symmetric] mult.commute)
  then show ?case using Suc by simp
qed simp

lemma fold_hex_chars:
  "fold (\<lambda>c acc. acc * 16 + hex_digit c) (map (\<lambda>k. hex_char (x div 16 ^ k mod 16)) ks) (of_nat a) =
     of_nat (fold (\<lambda>k acc. acc * 16 + x div 16 ^ k mod 16) ks a)"
proof (induction ks arbitrary: a)
  case (Cons k ks)
  then show ?case using Cons.IH[of "a * 16 + x div 16 ^ k mod 16"] by (simp add: hex_char_props(3))
qed simp

lemma stoul_print_word: "ucast (stoul_hex (print_word w)) = w"
proof -
  have "unat w < 2 ^ 32" using unsigned_less[of w] by simp
  then have "unat w div 16 ^ 8 = 0" by simp
  then have "stoul_hex (print_word w) = of_nat (unat w)"
    using fold_hex_chars[of "unat w" "rev [0 ..< 8]" 0] horner16[of "unat w" 8]
    by (simp only: stoul_hex_def print_word_def semiring_1_class.of_nat_0)
  then show ?thesis by (simp add: unsigned_ucast_eq take_bit_word_eq_self)
qed

declare ExtractName_loop.simps [simp del] Parse_loop.simps [simp del]

text \<open>The position \<open>i\<close> of a text is followed by \<open>rest\<close>.\<close>

lemma drop_prefix: "drop i data = p @ rest \<Longrightarrow> drop (i + length p) data = rest"
  by (metis add.commute append_eq_conv_conj drop_drop)

lemma drop_char:
  assumes "drop i data = c # rest"
  shows "i < length data" "data ! i = c" "nth_opt data i = Some c"
proof -
  show i: "i < length data" using assms by (metis drop_all leI list.distinct(1))
  then show "data ! i = c" using assms by (metis Cons_nth_drop_Suc list.inject)
  then show "nth_opt data i = Some c" using i by simp
qed

lemma ExtractName_prefix:
  assumes d: "drop start data = name @ match # rest" and m: "match \<notin> set name" and l: "length name \<le> 0x41"
  shows "ExtractName match data start = Some name"
proof -
  have e: "ExtractName_loop match data start (start + k) = Some name" if "k \<le> length name" for k
    using that
  proof (induction "length name - k" arbitrary: k)
    case 0
    then have k: "k = length name" by simp
    have "drop (start + k) data = match # rest" using drop_prefix[OF d] k by simp
    then have "nth_opt data (start + k) = Some match" by (rule drop_char(3))
    then show ?case using d k by (subst ExtractName_loop.simps) simp
  next
    case (Suc n)
    then have k: "k < length name" by simp
    have "drop (start + k) data = name ! k # drop (Suc k) name @ match # rest"
      using d k by (simp add: add.commute drop_drop[symmetric] Cons_nth_drop_Suc del: drop_drop)
    note c = drop_char[OF this]
    have "name ! k \<noteq> match" using m k nth_mem by blast
    moreover have "ExtractName_loop match data start (start + Suc k) = Some name" using Suc k by (intro Suc.hyps(1)) simp_all
    ultimately show ?case using c l k by (subst ExtractName_loop.simps) simp
  qed
  from e[of 0] show ?thesis by (simp add: ExtractName_def)
qed

text \<open>A name that is not terminated is read past the end of the text.\<close>

lemma ExtractName_unterminated:
  assumes "match \<notin> set (drop start data)" "length data - start \<le> 0x41" "start \<le> length data"
  shows "ExtractName match data start = None"
proof -
  have "ExtractName_loop match data start (start + k) = None" if "start + k \<le> length data" for k
    using that
  proof (induction "length data - (start + k)" arbitrary: k)
    case 0
    then show ?case by (subst ExtractName_loop.simps) (simp add: nth_opt_def)
  next
    case (Suc n)
    then have k: "start + k < length data" by simp
    have "data ! (start + k) \<in> set (drop start data)" using k nth_mem[of k "drop start data"] by simp
    then have "data ! (start + k) \<noteq> match" using assms(1) by auto
    moreover have "ExtractName_loop match data start (start + Suc k) = None" using Suc k by (intro Suc.hyps(1)) simp_all
    ultimately show ?case using k assms(2) by (subst ExtractName_loop.simps) simp
  qed
  from this[of 0] assms(3) show ?thesis by (simp add: ExtractName_def)
qed

lemma set_readable_name_fresh: "set_readable_name name mk_CheatDefinition = Some (cheat_definition name [])"
proof -
  let ?n = "min 64 (length name)"
  have "(take ?n name @ replicate (64 - ?n) CHR 0x00)[63 := CHR 0x00] = name_array name"
    by (rule nth_equalityI) (auto simp: name_array_def nth_append nth_list_update)
  then show ?thesis
    by (simp add: set_readable_name_def mk_CheatDefinition_def cheat_definition_def upd_opt_def Let_def)
qed

lemma append_opcode_definition:
  assumes "length ws < 0x100"
  shows "append_opcode w (cheat_definition name ws) = Some (cheat_definition name (ws @ [w]))"
proof -
  have "unat (of_nat (length ws) :: u32) = length ws" using assms by (simp add: unat_of_nat)
  moreover have "(ws @ replicate (0x100 - length ws) 0)[length ws := w] = (ws @ [w]) @ replicate (0x100 - length (ws @ [w])) 0"
    using assms by (simp add: list_update_append Suc_diff_Suc[symmetric] del: replicate_Suc) (simp add: Suc_diff_le)
  ultimately show ?thesis using assms by (simp add: append_opcode_def cheat_definition_def)
qed

definition parsed_entry :: "string \<times> u32 list \<Rightarrow> CheatEntry" where
  "parsed_entry c = mk_CheatEntry\<lparr>ce_definition := cheat_definition (fst c) (snd c)\<rparr>"

definition parse_state :: "CheatEntry list \<Rightarrow> string \<times> u32 list \<Rightarrow> ParseState" where
  "parse_state out c = \<lparr>ps_out = out @ [parsed_entry c], ps_current_entry = Some (length out)\<rparr>"

lemma Parse_loop_step:
  assumes "drop i data = c # rest" "Parse_round data i st = Some (Some (j, st'))"
  shows "Parse_loop data i st = Parse_loop data (j + 1) st'"
  using drop_char(1)[OF assms(1)] assms(2) by (subst Parse_loop.simps) simp

lemma Parse_newline:
  assumes "drop i data = CHR 0x0A # rest"
  shows "Parse_loop data i st = Parse_loop data (i + 1) st"
  by (rule Parse_loop_step[OF assms]) (use drop_char[OF assms] in \<open>simp add: Parse_round_def isspace_def\<close>)

lemma Parse_name:
  assumes d: "drop i data = CHR ''['' # name @ CHR '']'' # rest"
    and n: "name \<noteq> []" "CHR '']'' \<notin> set name" "length name \<le> 0x41"
  shows "Parse_loop data i st = Parse_loop data (i + length name + 2) (parse_state (ps_out st) (name, []))"
proof -
  have "drop (i + 1) data = name @ CHR '']'' # rest" using drop_prefix[of i data "[CHR ''['']"] d by simp
  then have "ExtractName CHR '']'' data (i + 1) = Some name" using n(2,3) by (rule ExtractName_prefix)
  then have "Parse_round data i st = Some (Some (i + length name + 1, parse_state (ps_out st) (name, [])))"
    using drop_char[OF d] n(1) set_readable_name_fresh[of name]
    by (simp add: Parse_round_def Parse_header_def isspace_def update_definition_def parse_state_def parsed_entry_def
        mk_CheatEntry_def Let_def)
  from Parse_loop_step[OF d this] show ?thesis by simp
qed

lemma all_hex_digits: "all_of_isxdigit (map (\<lambda>k. hex_char (x div 16 ^ k mod 16)) ks) = Some True"
  by (induction ks) (simp_all add: hex_char_props(2))

lemma Parse_word:
  assumes d: "drop i data = print_word w @ CHR 0x0A # rest" and l: "length ws < 0x100"
  shows "Parse_loop data i (parse_state out (name, ws)) = Parse_loop data (i + 9) (parse_state out (name, ws @ [w]))"
proof -
  have u: "unat (of_nat (length ws) :: u32) = length ws" using l by (simp add: unat_of_nat)
  have p: "print_word w = hex_char (unat w div 16 ^ 7 mod 16) # tl (print_word w)" "length (print_word w) = 8"
    by (simp_all add: print_word_def upt_rec)
  then have c: "drop i data = hex_char (unat w div 16 ^ 7 mod 16) # tl (print_word w) @ CHR 0x0A # rest" using d by simp
  have h: "take 8 (drop i data) = print_word w" using d p(2) by simp
  have x: "all_of_isxdigit (print_word w) = Some True" unfolding print_word_def by (rule all_hex_digits)
  have "Parse_opcode data i (parse_state out (name, ws)) = Some (Some (i + 8, parse_state out (name, ws @ [w])))"
    using l u h x stoul_print_word[of w] append_opcode_definition[OF l]
    by (simp add: Parse_opcode_def parse_state_def parsed_entry_def cheat_definition_def update_definition_def Let_def)
  then have "Parse_round data i (parse_state out (name, ws)) = Some (Some (i + 8, parse_state out (name, ws @ [w])))"
    using drop_char[OF c] hex_char_props[of "unat w div 16 ^ 7 mod 16"] by (simp add: Parse_round_def)
  from Parse_loop_step[OF c this] show ?thesis by (simp add: add.commute)
qed

lemma Parse_words:
  assumes "drop i data = print_words ws @ rest" "length (vs @ ws) \<le> 0x100"
  shows "Parse_loop data i (parse_state out (name, vs)) =
    Parse_loop data (i + length (print_words ws)) (parse_state out (name, vs @ ws))"
  using assms
proof (induction ws arbitrary: i vs)
  case (Cons w ws)
  have d: "drop i data = print_word w @ CHR 0x0A # print_words ws @ rest" using Cons.prems(1) by (simp add: print_words_def)
  have l: "length (print_word w @ [CHR 0x0A]) = 9" by (simp add: print_word_def)
  have "drop (i + 9) data = print_words ws @ rest"
    using drop_prefix[of i data "print_word w @ [CHR 0x0A]"] d l by (simp add: add.commute)
  from Cons.IH[OF this, of "vs @ [w]"] Parse_word[OF d, of vs out name] Cons.prems(2) l
  show ?case by (simp add: print_words_def add.assoc)
qed (simp add: print_words_def)

lemma Parse_cheats:
  assumes "drop i data = print_cheats cs" "list_all printable cs"
  shows "\<exists>st'. Parse_loop data i st = Some (Some st') \<and> ps_out st' = ps_out st @ map parsed_entry cs"
  using assms
proof (induction cs arbitrary: i st)
  case Nil
  then show ?case by (subst Parse_loop.simps) (simp add: print_cheats_def)
next
  case (Cons c cs)
  obtain name ws where c: "c = (name, ws)" by (cases c)
  have d: "drop i data = CHR ''['' # name @ CHR '']'' # CHR 0x0A # print_words ws @ print_cheats cs"
    using Cons.prems(1) c by (simp add: print_cheats_def)
  have p: "name \<noteq> []" "CHR '']'' \<notin> set name" "length name \<le> 0x41" "length ws \<le> 0x100"
    using Cons.prems(2) c by (simp_all add: printable_def)
  let ?i = "i + length name + 2"
  have 1: "drop ?i data = CHR 0x0A # print_words ws @ print_cheats cs"
    using drop_prefix[of i data "CHR ''['' # name @ '']''"] d by (simp add: add.assoc)
  have 2: "drop (?i + 1) data = print_words ws @ print_cheats cs"
    using drop_prefix[of ?i data "[CHR 0x0A]"] 1 by simp
  have 3: "drop (?i + 1 + length (print_words ws)) data = print_cheats cs" using drop_prefix[OF 2] by simp
  have "Parse_loop data i st = Parse_loop data (?i + 1 + length (print_words ws)) (parse_state (ps_out st) (name, ws))"
    using Parse_name[OF d p(1-3), of st] Parse_newline[OF 1] Parse_words[OF 2, of "[]"] p(4) by simp
  then show ?case using Cons.IH[OF 3, of "parse_state (ps_out st) (name, ws)"] Cons.prems(2) c
    by (simp add: parse_state_def)
qed

lemma finish_parsed:
  "list_all printable cs \<Longrightarrow> finish_entries i (map parsed_entry cs) = map (\<lambda>(i, c). cheat_entry i c) (enumerate i cs)"
proof (induction cs arbitrary: i)
  case (Cons c cs)
  have "unat (of_nat (length (snd c)) :: u32) = length (snd c)" using Cons.prems by (simp add: unat_of_nat printable_def)
  then have "(0 :: u32) < of_nat (length (snd c)) \<longleftrightarrow> snd c \<noteq> []" by (simp add: word_less_nat_alt)
  then show ?case using Cons by (simp add: parsed_entry_def cheat_entry_def cheat_definition_def mk_CheatEntry_def)
qed simp

text \<open>C19. Parsing the printed form of a list of cheats is defined and gives the list back: behind the empty entry for the
  master cheat comes one entry for each cheat, numbered from one, with its name cut to 63 characters, its
  words in order, and enabled exactly if it has any.\<close>

theorem Parse_print_roundtrip:
  assumes "list_all printable cs"
  shows "Parse (print_cheats cs) = Some (mk_CheatEntry # map (\<lambda>(i, c). cheat_entry i c) (enumerate 1 cs))"
proof -
  obtain st where "Parse_loop (print_cheats cs) 0 \<lparr>ps_out = [mk_CheatEntry], ps_current_entry = None\<rparr> = Some (Some st)"
    "ps_out st = mk_CheatEntry # map parsed_entry cs"
    using Parse_cheats[of 0 "print_cheats cs" cs "\<lparr>ps_out = [mk_CheatEntry], ps_current_entry = None\<rparr>"] assms by auto
  then show ?thesis using finish_parsed[OF assms, of 1]
    by (simp add: Parse_def mk_CheatEntry_def mk_CheatDefinition_def)
qed

theorem Parse_print_roundtrip_witness:
  "Parse (print_cheats [(''Lives'', example_words), (''None'', [])]) =
     Some [mk_CheatEntry, cheat_entry 1 (''Lives'', example_words), cheat_entry 2 (''None'', [])]"
proof -
  have "list_all printable [(''Lives'', example_words), (''None'', [])]" by (simp add: printable_def example_length)
  from Parse_print_roundtrip[OF this] show ?thesis by (simp add: numeral_2_eq_2)
qed

end
