(* ===== verification/Timing_Util.thy ===== *)
theory Timing_Util
  imports Prelude
begin

text \<open>
  \<^verbatim>\<open>common/uint128.cpp\<close>, the constants of \<^verbatim>\<open>core/hardware_properties.h\<close> and the conversions between
  times and cycles of \<^verbatim>\<open>core/core_timing_util.cpp\<close>. A \<^verbatim>\<open>u128\<close> is an array of two words, the low one
  first. Durations and cycle counts of type \<^verbatim>\<open>s64\<close> are 64-bit words read by \<open>sint\<close>. The 128-bit
  division is exact modulo \<open>2 ^ 64\<close>, so the conversions are the rounded quotients wherever those fit.
\<close>

unbundle bit_operations_syntax

section \<open>Arithmetic on 128 bits\<close>

type_synonym u128 = "u64 \<times> u64"

definition Multiply64Into128 :: "u64 \<Rightarrow> u64 \<Rightarrow> u128" where
  "Multiply64Into128 a b =
     (let tmp = (ucast a :: 128 word) * ucast b
      in (ucast tmp, ucast (drop_bit 64 tmp)))"

definition Divide128On32 :: "u128 \<Rightarrow> u32 \<Rightarrow> (u64 \<times> u64) option" where
  "Divide128On32 dividend divisor' =
     (let divisor = (ucast divisor' :: u64);
          remainder = fst dividend mod divisor;
          accum = fst dividend div divisor
      in if divisor' = 0 then None
         else if snd dividend = 0 then Some (accum, remainder)
         else
           let first_segment = push_bit 32 (snd dividend mod divisor);
               accum = accum + push_bit 32 (first_segment div divisor);
               second_segment = push_bit 32 (first_segment mod divisor);
               accum = accum + second_segment div divisor;
               remainder = remainder + second_segment mod divisor
           in if remainder \<ge> divisor then Some (accum + 1, remainder - divisor)
              else Some (accum, remainder))"

definition MultiplyAndDivide64 :: "u64 \<Rightarrow> u64 \<Rightarrow> u64 \<Rightarrow> u64 option" where
  "MultiplyAndDivide64 a b d =
     (if d = 0 then None
      else
        let diva = a div d; moda = a mod d; divb = b div d; modb = b mod d
        in Some (diva * b + moda * divb + moda * modb div d))"

text \<open>The number a pair of words stands for.\<close>

definition nat_of_u128 :: "u128 \<Rightarrow> nat" where
  "nat_of_u128 v = unat (fst v) + 2 ^ 64 * unat (snd v)"

lemma unat_ucast_wide: "unat (ucast (a :: u64) :: 128 word) = unat a"
proof -
  have "unat a < 2 ^ LENGTH(64)"
    by (rule unsigned_less)
  then show ?thesis
    by (simp add: unsigned_ucast_eq take_bit_nat_eq_self)
qed

lemma nat_of_Multiply64Into128: "nat_of_u128 (Multiply64Into128 a b) = unat a * unat b"
proof -
  have "unat a < 2 ^ LENGTH(64)" "unat b < 2 ^ LENGTH(64)"
    by (rule unsigned_less)+
  then have less: "unat a * unat b < 2 ^ 128"
    using mult_strict_mono[of "unat a" "2 ^ 64" "unat b" "2 ^ 64"] by simp
  let ?t = "(ucast a :: 128 word) * ucast b"
  have t: "unat ?t = unat a * unat b"
    using less by (simp add: unat_word_ariths unat_ucast_wide)
  have lo: "unat (ucast ?t :: u64) = unat ?t mod 2 ^ 64"
    by (simp add: unsigned_ucast_eq take_bit_eq_mod)
  have hi: "unat (ucast (drop_bit 64 ?t) :: u64) = unat ?t div 2 ^ 64"
  proof -
    have "unat (drop_bit 64 ?t) = drop_bit 64 (unat ?t)"
      using less by (simp only: unsigned_drop_bit_eq) (simp add: t take_bit_nat_eq_self)
    then have "unat (ucast (drop_bit 64 ?t) :: u64) = drop_bit 64 (unat ?t) mod 2 ^ 64"
      by (simp only: unsigned_ucast_eq) (simp add: take_bit_eq_mod)
    moreover have "drop_bit 64 (unat ?t) < 2 ^ 64"
      using less by (simp add: t drop_bit_eq_div less_mult_imp_div_less)
    ultimately show ?thesis
      by (simp add: drop_bit_eq_div)
  qed
  show ?thesis
    unfolding nat_of_u128_def Multiply64Into128_def Let_def fst_conv snd_conv lo hi t
    by simp
qed

text \<open>The long division in base \<open>2 ^ 32\<close> that the code performs on the upper word.\<close>

lemma long_division:
  fixes d h lo :: nat
  defines "f \<equiv> h mod d * 2 ^ 32"
  defines "s \<equiv> f mod d * 2 ^ 32"
  assumes d: "0 < d"
  shows "lo + 2 ^ 64 * h =
    d * (2 ^ 64 * (h div d) + lo div d + 2 ^ 32 * (f div d) + s div d) + (lo mod d + s mod d)"
proof -
  have "lo + 2 ^ 64 * h = lo + 2 ^ 64 * (d * (h div d)) + 2 ^ 64 * (h mod d)"
    by (simp flip: distrib_left add.assoc)
  moreover have "2 ^ 64 * (h mod d) = 2 ^ 32 * f"
    by (simp add: f_def)
  moreover have "2 ^ 32 * f = 2 ^ 32 * (d * (f div d)) + s"
    unfolding s_def by (metis distrib_left mult.commute mult_div_mod_eq)
  moreover have "s = d * (s div d) + s mod d" and "lo = d * (lo div d) + lo mod d"
    by simp_all
  ultimately show ?thesis
    by (simp add: algebra_simps)
qed

lemma unat_push_32:
  assumes "unat (w :: u64) < 2 ^ 32"
  shows "unat (push_bit 32 w) = unat w * 2 ^ 32"
  using assms by (simp add: push_bit_eq_mult unat_word_ariths)

text \<open>Moving a divisor from a remainder below its double to the quotient.\<close>

lemma div_mod_carry:
  fixes d :: nat
  assumes "n = d * q + r" and "r < 2 * d"
  shows "n div d = (if d \<le> r then q + 1 else q)" and "n mod d = (if d \<le> r then r - d else r)"
proof -
  have n: "n = d * (q + 1) + (r - d)" if "d \<le> r"
    using that assms by (simp add: algebra_simps)
  show "n div d = (if d \<le> r then q + 1 else q)"
    using assms n by (auto intro!: div_nat_eqI simp: algebra_simps)
  show "n mod d = (if d \<le> r then r - d else r)"
    using assms n by (auto simp: mod_nat_eqI)
qed

text \<open>The quotient is exact modulo \<open>2 ^ 64\<close>: the part of it above is what the code ignores.\<close>

lemma Divide128On32_correct:
  assumes "divisor \<noteq> 0"
  shows "\<exists>q r. Divide128On32 v divisor = Some (q, r)
    \<and> unat q = nat_of_u128 v div unat divisor mod 2 ^ 64 \<and> unat r = nat_of_u128 v mod unat divisor"
proof -
  let ?d = "unat divisor" and ?D = "ucast divisor :: u64" and ?lo = "unat (fst v)" and ?h = "unat (snd v)"
  let ?f = "?h mod ?d * 2 ^ 32"
  let ?s = "?f mod ?d * 2 ^ 32"
  let ?F = "push_bit 32 (snd v mod ?D)"
  let ?S = "push_bit 32 (?F mod ?D)"
  let ?Q = "?lo div ?d + 2 ^ 32 * (?f div ?d) + ?s div ?d" and ?R = "?lo mod ?d + ?s mod ?d"
  have "unat divisor < 2 ^ LENGTH(32)"
    by (rule unsigned_less)
  then have d: "0 < ?d" "?d < 2 ^ 32" and D: "unat ?D = ?d"
    using assms by (simp_all add: unat_gt_0 unsigned_ucast_eq take_bit_nat_eq_self)
  have small: "x mod ?d < 2 ^ 32" for x
    using d less_trans[OF mod_less_divisor] by blast
  have F: "unat ?F = ?f" and S: "unat ?S = ?s"
    using small by (simp_all add: unat_push_32 unat_mod D)
  have "?f div ?d < 2 ^ 32"
    using d by (simp add: less_mult_imp_div_less)
  then have FD: "unat (push_bit 32 (?F div ?D)) = 2 ^ 32 * (?f div ?d)"
    by (subst unat_push_32) (simp_all add: unat_div F D)
  let ?A = "fst v div ?D + push_bit 32 (?F div ?D) + ?S div ?D"
  have A: "unat ?A = ?Q mod 2 ^ 64" and A1: "unat (?A + 1) = (?Q + 1) mod 2 ^ 64"
    by (simp_all add: unat_word_ariths unat_div D FD S mod_simps)
  let ?r = "fst v mod ?D + ?S mod ?D"
  have "?R < 2 ^ 33"
    using small[of ?lo] small[of ?s] by simp
  then have r: "unat ?r = ?R"
    by (simp add: unat_word_ariths unat_mod D S)
  have N: "nat_of_u128 v = ?d * (2 ^ 64 * (?h div ?d) + ?Q) + ?R"
    unfolding nat_of_u128_def by (subst long_division[OF d(1)]) (simp add: add.assoc)
  have R2: "?R < 2 * ?d"
    using d mod_less_divisor[of ?d ?lo] mod_less_divisor[of ?d ?s] by linarith
  note q = div_mod_carry[OF N R2]
  show ?thesis
  proof (cases "snd v = 0")
    case True
    have "?lo div ?d < 2 ^ 64"
      using unat_lt64[of "fst v div ?D"] by (simp add: unat_div D)
    then show ?thesis
      using assms True by (simp add: Divide128On32_def Let_def nat_of_u128_def unat_div unat_mod D)
  next
    case False
    have le: "?D \<le> ?r \<longleftrightarrow> ?d \<le> ?R"
      by (simp only: word_le_nat_alt D r)
    have sub: "unat (?r - ?D) = ?R - ?d" if "?d \<le> ?R"
      using that le by (simp only: unat_sub D r)
    have red: "(2 ^ 64 * x + y) mod 2 ^ 64 = y mod 2 ^ 64" for x y :: nat
      by simp
    show ?thesis
    proof (cases "?d \<le> ?R")
      case True
      then have "Divide128On32 v divisor = Some (?A + 1, ?r - ?D)"
        using assms False le by (simp add: Divide128On32_def Let_def)
      then show ?thesis
        using True A1 sub[OF True] q red by (simp only: if_True add.assoc) blast
    next
      case False
      then have "Divide128On32 v divisor = Some (?A, ?r)"
        using assms \<open>snd v \<noteq> 0\<close> le by (simp add: Divide128On32_def Let_def)
      then show ?thesis
        using False A r q red by (simp only: if_False) blast
    qed
  qed
qed

text \<open>The quotient of the 64-bit routine is exact as long as the product of the two remainders fits.\<close>

lemma mult_div_split:
  fixes a b d :: nat
  shows "a * b div d = a div d * b + a mod d * (b div d) + a mod d * (b mod d) div d" (is "_ = ?q")
proof (cases "d = 0")
  case False
  have "a * b = a div d * d * b + a mod d * b"
    by (metis distrib_right div_mult_mod_eq)
  also have "a mod d * b = a mod d * (b div d) * d + a mod d * (b mod d)"
    by (metis distrib_left div_mult_mod_eq mult.assoc)
  also have "a div d * d * b + (a mod d * (b div d) * d + a mod d * (b mod d))
      = (a div d * b + a mod d * (b div d)) * d + a mod d * (b mod d)"
    by (simp add: algebra_simps)
  finally show ?thesis
    using False by simp
qed simp

lemma MultiplyAndDivide64_correct:
  assumes "d \<noteq> 0" and "unat a mod unat d * (unat b mod unat d) < 2 ^ 64"
  shows "MultiplyAndDivide64 a b d = Some (of_nat (unat a * unat b div unat d))"
proof -
  have m: "unat (a mod d * (b mod d)) = unat a mod unat d * (unat b mod unat d)"
    using assms(2) by (simp add: unat_word_ariths unat_mod)
  have "a div d * b + a mod d * (b div d) + a mod d * (b mod d) div d
      = of_nat (unat a div unat d * unat b + unat a mod unat d * (unat b div unat d)
          + unat a mod unat d * (unat b mod unat d) div unat d)"
    using assms(2) by (simp add: word_unat_eq_iff unat_word_ariths unat_div unat_mod mod_simps unat_of_nat)
  then show ?thesis
    using assms(1) by (simp add: MultiplyAndDivide64_def Let_def mult_div_split[of "unat a" "unat b"])
qed

section \<open>Conversions\<close>

definition BASE_CLOCK_RATE :: u64 where
  "BASE_CLOCK_RATE = 1019215872"

definition CNTFREQ :: u64 where
  "CNTFREQ = 19200000"

definition s64_max :: u64 where
  "s64_max = 0x7FFFFFFFFFFFFFFF"

definition MAX_VALUE_TO_MULTIPLY :: u64 where
  "MAX_VALUE_TO_MULTIPLY = s64_max div BASE_CLOCK_RATE"

text \<open>Division of an \<^verbatim>\<open>s64\<close> by a positive constant, which rounds towards zero.\<close>

definition s64_div :: "u64 \<Rightarrow> int \<Rightarrow> u64" where
  "s64_div v n = word_of_int (if sint v < 0 then - (- sint v div n) else sint v div n)"

definition msToCycles :: "u64 \<Rightarrow> u64" where
  "msToCycles ms =
     (if s64_div ms 1000 > MAX_VALUE_TO_MULTIPLY then s64_max
      else if ms > MAX_VALUE_TO_MULTIPLY then BASE_CLOCK_RATE * s64_div ms 1000
      else (BASE_CLOCK_RATE * ms) div 1000)"

definition usToCycles :: "u64 \<Rightarrow> u64" where
  "usToCycles us =
     (if s64_div us 1000000 > MAX_VALUE_TO_MULTIPLY then s64_max
      else if us > MAX_VALUE_TO_MULTIPLY then BASE_CLOCK_RATE * s64_div us 1000000
      else (BASE_CLOCK_RATE * us) div 1000000)"

definition nsToCycles :: "u64 \<Rightarrow> u64 option" where
  "nsToCycles ns = map_option fst (Divide128On32 (Multiply64Into128 ns BASE_CLOCK_RATE) 1000000000)"

definition msToClockCycles :: "u64 \<Rightarrow> u64 option" where
  "msToClockCycles ms = map_option fst (Divide128On32 (Multiply64Into128 ms CNTFREQ) 1000)"

definition usToClockCycles :: "u64 \<Rightarrow> u64 option" where
  "usToClockCycles us = map_option fst (Divide128On32 (Multiply64Into128 us CNTFREQ) 1000000)"

definition nsToClockCycles :: "u64 \<Rightarrow> u64 option" where
  "nsToClockCycles ns = map_option fst (Divide128On32 (Multiply64Into128 ns CNTFREQ) 1000000000)"

definition CpuCyclesToClockCycles :: "u64 \<Rightarrow> u64 option" where
  "CpuCyclesToClockCycles ticks =
     map_option fst (Divide128On32 (Multiply64Into128 ticks CNTFREQ) (ucast BASE_CLOCK_RATE))"

definition CyclesToMs :: "u64 \<Rightarrow> u64 option" where
  "CyclesToMs cycles =
     map_option fst (Divide128On32 (Multiply64Into128 cycles 1000) (ucast BASE_CLOCK_RATE))"

definition CyclesToNs :: "u64 \<Rightarrow> u64 option" where
  "CyclesToNs cycles =
     map_option fst (Divide128On32 (Multiply64Into128 cycles 1000000000) (ucast BASE_CLOCK_RATE))"

definition CyclesToUs :: "u64 \<Rightarrow> u64 option" where
  "CyclesToUs cycles =
     map_option fst (Divide128On32 (Multiply64Into128 cycles 1000000) (ucast BASE_CLOCK_RATE))"

text \<open>All conversions through 128 bits have one form.\<close>

lemma scale_eq:
  assumes "d \<noteq> 0"
  shows "map_option fst (Divide128On32 (Multiply64Into128 a b) d) = Some (of_nat (unat a * unat b div unat d))"
proof -
  obtain q r where "Divide128On32 (Multiply64Into128 a b) d = Some (q, r)"
    and "unat q = unat a * unat b div unat d mod 2 ^ 64"
    using Divide128On32_correct[OF assms, of "Multiply64Into128 a b"] by (auto simp: nat_of_Multiply64Into128)
  moreover from this(2) have "q = of_nat (unat a * unat b div unat d)"
    by (simp add: word_unat_eq_iff unat_of_nat take_bit_eq_mod)
  ultimately show ?thesis
    by simp
qed

lemma nsToCycles_eq [simp]: "nsToCycles ns = Some (of_nat (unat ns * 1019215872 div 1000000000))"
  by (simp add: nsToCycles_def scale_eq BASE_CLOCK_RATE_def)

lemma CyclesToNs_eq [simp]: "CyclesToNs c = Some (of_nat (unat c * 1000000000 div 1019215872))"
  by (simp add: CyclesToNs_def scale_eq BASE_CLOCK_RATE_def)

lemma CyclesToUs_eq [simp]: "CyclesToUs c = Some (of_nat (unat c * 1000000 div 1019215872))"
  by (simp add: CyclesToUs_def scale_eq BASE_CLOCK_RATE_def)

lemma CpuCyclesToClockCycles_eq [simp]:
  "CpuCyclesToClockCycles c = Some (of_nat (unat c * 19200000 div 1019215872))"
  by (simp add: CpuCyclesToClockCycles_def scale_eq BASE_CLOCK_RATE_def CNTFREQ_def)

lemma s64_div_unat:
  assumes "unat v < 2 ^ 63" and "0 < n"
  shows "unat (s64_div v (int n)) = unat v div n"
proof -
  have "sint v = int (unat v)"
    using assms(1) by (rule sint_small)
  then have "s64_div v (int n) = word_of_int (int (unat v div n))"
    unfolding s64_div_def by (simp only: of_nat_div if_False of_nat_less_0_iff)
  moreover have "unat v div n < 2 ^ 64"
    using unat_lt64[of v] by (meson div_le_dividend le_less_trans)
  ultimately show ?thesis
    by (simp only: of_int_of_nat_eq unat_of_nat64)
qed

text \<open>
  Conversion of a time that is not negative never overflows: it saturates when the seconds alone are too many, and
  is otherwise at most one second of cycles short.
\<close>

lemma round_to_unit:
  fixes r t u :: nat
  assumes "0 < u"
  shows "r * (t div u) \<le> r * t div u" and "0 < r \<Longrightarrow> r * t div u < r * (t div u) + r"
proof -
  have "r * t = u * (r * (t div u)) + r * (t mod u)"
    by (metis distrib_left mult.left_commute mult_div_mod_eq)
  then have eq: "r * t div u = r * (t div u) + r * (t mod u) div u"
    using assms by simp
  then show "r * (t div u) \<le> r * t div u"
    by simp
  have "r * (t mod u) div u < r" if "0 < r"
    using assms that by (simp add: less_mult_imp_div_less)
  with eq show "r * t div u < r * (t div u) + r" if "0 < r"
    using that by simp
qed

definition in_cycles :: "nat \<Rightarrow> nat \<Rightarrow> nat" where
  "in_cycles t u =
     (if t div u > 9049478417 then 2 ^ 63 - 1
      else if t > 9049478417 then 1019215872 * (t div u)
      else 1019215872 * t div u)"

definition within_a_second :: "nat \<Rightarrow> nat \<Rightarrow> bool" where
  "within_a_second cycles exact \<longleftrightarrow> cycles < 2 ^ 63
     \<and> (if exact < 2 ^ 63 then cycles \<le> exact \<and> exact < cycles + 1019215872
        else 2 ^ 63 - 1019215872 < cycles)"

lemma in_cycles_bounds:
  assumes "0 < u"
  shows "within_a_second (in_cycles t u) (1019215872 * t div u)"
proof -
  note r = round_to_unit[OF assms, of 1019215872 t]
  have le: "1019215872 * t div u \<le> 1019215872 * t"
    by simp
  show ?thesis
  proof (cases "t div u > 9049478417")
    case True
    then have "1019215872 * t div u \<ge> 2 ^ 63"
      using r(1) by simp
    then show ?thesis
      using True by (simp add: in_cycles_def within_a_second_def)
  next
    case False
    have "1019215872 * t div u < 2 ^ 63" if "t \<le> 9049478417"
      using that by (intro le_less_trans[OF le]) simp
    then show ?thesis
      using False r by (auto simp: in_cycles_def within_a_second_def)
  qed
qed

lemma MAX_VALUE_TO_MULTIPLY_unat [simp]: "unat MAX_VALUE_TO_MULTIPLY = 9049478417"
  by (simp add: MAX_VALUE_TO_MULTIPLY_def s64_max_def BASE_CLOCK_RATE_def unat_div)

lemma msToCycles_unat:
  assumes "unat ms < 2 ^ 63"
  shows "unat (msToCycles ms) = in_cycles (unat ms) 1000"
proof -
  note d = s64_div_unat[OF assms, of 1000, simplified]
  show ?thesis
    by (simp add: msToCycles_def in_cycles_def word_less_nat_alt d s64_max_def BASE_CLOCK_RATE_def unat_times unat_div)
qed

lemma usToCycles_unat:
  assumes "unat us < 2 ^ 63"
  shows "unat (usToCycles us) = in_cycles (unat us) 1000000"
proof -
  note d = s64_div_unat[OF assms, of 1000000, simplified]
  show ?thesis
    by (simp add: usToCycles_def in_cycles_def word_less_nat_alt d s64_max_def BASE_CLOCK_RATE_def unat_times unat_div)
qed

text \<open>
  Converting nanoseconds to cycles and back loses at most one nanosecond, and ten cycles more, the slack
  \<^verbatim>\<open>Idle\<close> adds, are never before the time.
\<close>

lemma cycles_and_back:
  fixes n :: nat
  defines "c \<equiv> n * 1019215872 div 1000000000"
  shows "c * 1000000000 div 1019215872 \<le> n" and "n \<le> c * 1000000000 div 1019215872 + 1"
    and "n \<le> (c + 10) * 1000000000 div 1019215872"
proof -
  define m where "m = c * 1000000000 div 1019215872"
  define k where "k = (c + 10) * 1000000000 div 1019215872"
  have c: "c * 1000000000 \<le> n * 1019215872" "n * 1019215872 < c * 1000000000 + 1000000000"
    unfolding c_def by (simp_all add: div_times_less_eq_dividend dividend_less_div_times)
  have m: "m * 1019215872 \<le> c * 1000000000" "c * 1000000000 < m * 1019215872 + 1019215872"
    unfolding m_def by (simp_all add: div_times_less_eq_dividend dividend_less_div_times)
  have k: "c * 1000000000 + 10000000000 < k * 1019215872 + 1019215872"
    using dividend_less_div_times[of 1019215872 "(c + 10) * 1000000000"]
    unfolding k_def by (simp add: algebra_simps)
  show "c * 1000000000 div 1019215872 \<le> n" "n \<le> c * 1000000000 div 1019215872 + 1"
    unfolding m_def[symmetric] using c m by linarith+
  show "n \<le> (c + 10) * 1000000000 div 1019215872"
    unfolding k_def[symmetric] using c k by linarith
qed

section \<open>Properties\<close>



text \<open>
  A time in nanoseconds is converted to cycles through 128 bits without overflow, and converting it back gives the
  time itself or one nanosecond less.
\<close>

lemma nsToCycles_roundtrip:
  assumes "unat ns < 2 ^ 63"
  shows "\<exists>c n. nsToCycles ns = Some c \<and> unat c = unat ns * 1019215872 div 1000000000
    \<and> CyclesToNs c = Some n \<and> unat n \<le> unat ns \<and> unat ns \<le> unat n + 1"
proof -
  let ?c = "unat ns * 1019215872 div 1000000000"
  have "?c < 2 ^ 64"
    using assms by (simp add: less_mult_imp_div_less)
  moreover have "?c * 1000000000 div 1019215872 < 2 ^ 64"
    using cycles_and_back(1)[of "unat ns"] assms by simp
  ultimately show ?thesis
    using cycles_and_back(1,2)[of "unat ns"] by simp
qed

end
