(* ===== verification/Core_Timing.thy ===== *)
theory Core_Timing
  imports Timing_Util "HOL-Library.Multiset" "HOL-Library.Product_Lexorder"
begin

text \<open>
  The event queue of the emulated machine: \<^verbatim>\<open>core/core_timing.h\<close> and \<^verbatim>\<open>core_timing.cpp\<close>.

  The vector is kept as a heap by \<^verbatim>\<open>std::push_heap\<close>, \<^verbatim>\<open>pop_heap\<close> and \<^verbatim>\<open>make_heap\<close>. The order the
  standard leaves unspecified is never observed, so the model keeps the events in the order in which
  they were added, and the front of the heap is an event with the least pair of time and number. The interface of
  the heap that the clients use is the locale \<open>event_heap\<close>.

  An \<^verbatim>\<open>EventType\<close> is a number, its \<^verbatim>\<open>weak_ptr\<close> in an event may have expired. Callbacks are functions on the
  timing and on the state \<open>'e\<close> of their owners. The host clock of the multi-core mode is a sequence
  of readings. Blocking on the host events is not modelled: the timer thread is given by the steps between
  two waits.
\<close>

section \<open>Events\<close>

record Event =
  ev_time :: u64
  ev_fifo_order :: u64
  ev_userdata :: u64
  ev_type :: nat

text \<open>The pair that \<^verbatim>\<open>operator>\<close> and \<^verbatim>\<open>operator<\<close> compare.\<close>

definition event_key :: "Event \<Rightarrow> u64 \<times> u64" where
  "event_key e = (ev_time e, ev_fifo_order e)"

definition heap_front :: "Event list \<Rightarrow> Event" where
  "heap_front q = arg_min_list event_key q"

definition heap_push :: "Event \<Rightarrow> Event list \<Rightarrow> Event list" where
  "heap_push e q = q @ [e]"

definition heap_pop :: "Event list \<Rightarrow> Event list" where
  "heap_pop q = remove1 (heap_front q) q"

section \<open>The timing\<close>

text \<open>What the readings of the host clock give, by their number.\<close>

record WallClock =
  wc_time_ns :: "nat \<Rightarrow> u64"
  wc_time_us :: "nat \<Rightarrow> u64"
  wc_cpu_cycles :: "nat \<Rightarrow> u64"
  wc_clock_cycles :: "nat \<Rightarrow> u64"

record CoreTiming =
  ct_clock :: WallClock
  ct_readings :: nat
  ct_global_timer :: u64
  ct_event_queue :: "Event list"
  ct_event_fifo_id :: u64
  ct_event :: bool
  ct_pause_event :: bool
  ct_timer_thread :: bool
  ct_paused :: bool
  ct_paused_set :: bool
  ct_wait_set :: bool
  ct_shutting_down :: bool
  ct_has_started :: bool
  ct_is_multicore :: bool
  ct_ticks :: u64
  ct_downcount :: u64

definition mk_CoreTiming :: "WallClock \<Rightarrow> CoreTiming" where
  "mk_CoreTiming clock = \<lparr>ct_clock = clock, ct_readings = 0, ct_global_timer = 0, ct_event_queue = [],
     ct_event_fifo_id = 0, ct_event = False, ct_pause_event = False, ct_timer_thread = False, ct_paused = False,
     ct_paused_set = False, ct_wait_set = False, ct_shutting_down = False, ct_has_started = False,
     ct_is_multicore = False, ct_ticks = 0, ct_downcount = 0\<rparr>"

definition MAX_SLICE_LENGTH :: u64 where
  "MAX_SLICE_LENGTH = 4000"

definition SetMulticore :: "bool \<Rightarrow> CoreTiming \<Rightarrow> CoreTiming" where
  "SetMulticore is_multicore ct = ct\<lparr>ct_is_multicore := is_multicore\<rparr>"

definition CoreTiming_Initialize :: "CoreTiming \<Rightarrow> CoreTiming" where
  "CoreTiming_Initialize ct =
     (let ct = ct\<lparr>ct_event_fifo_id := 0, ct_shutting_down := False, ct_ticks := 0\<rparr>
      in if ct_is_multicore ct then ct\<lparr>ct_timer_thread := True\<rparr> else ct)"

definition ClearPendingEvents :: "CoreTiming \<Rightarrow> CoreTiming" where
  "ClearPendingEvents ct = ct\<lparr>ct_event_queue := []\<rparr>"

text \<open>The timer thread has ended when \<^verbatim>\<open>join\<close> returns.\<close>

definition Shutdown :: "CoreTiming \<Rightarrow> CoreTiming" where
  "Shutdown ct =
     (let ct = ct\<lparr>ct_paused := True, ct_shutting_down := True, ct_pause_event := True, ct_event := True\<rparr>;
          ct = ClearPendingEvents ct
      in ct\<lparr>ct_timer_thread := False, ct_has_started := False\<rparr>)"

definition Pause :: "bool \<Rightarrow> CoreTiming \<Rightarrow> CoreTiming" where
  "Pause is_paused ct = ct\<lparr>ct_paused := is_paused, ct_pause_event := True\<rparr>"

text \<open>With a timer thread, \<^verbatim>\<open>SyncPause\<close> then waits for the thread; the wait changes nothing.\<close>

definition SyncPause :: "bool \<Rightarrow> CoreTiming \<Rightarrow> CoreTiming" where
  "SyncPause is_paused ct =
     (if is_paused = ct_paused ct \<and> ct_paused_set ct = ct_paused ct then ct
      else
        let ct = Pause is_paused ct
        in if ct_timer_thread ct
           then (if \<not> is_paused then ct\<lparr>ct_pause_event := True\<rparr> else ct)\<lparr>ct_event := True\<rparr>
           else ct)"

definition IsRunning :: "CoreTiming \<Rightarrow> bool" where
  "IsRunning ct \<longleftrightarrow> \<not> ct_paused_set ct"

definition HasPendingEvents :: "CoreTiming \<Rightarrow> bool" where
  "HasPendingEvents ct \<longleftrightarrow> \<not> (ct_wait_set ct \<and> ct_event_queue ct = [])"

definition GetGlobalTimeNs :: "CoreTiming \<Rightarrow> (u64 \<times> CoreTiming) option" where
  "GetGlobalTimeNs ct =
     (if ct_is_multicore ct
      then Some (wc_time_ns (ct_clock ct) (ct_readings ct), ct\<lparr>ct_readings := ct_readings ct + 1\<rparr>)
      else do { ns \<leftarrow> CyclesToNs (ct_ticks ct); Some (ns, ct) })"

definition GetGlobalTimeUs :: "CoreTiming \<Rightarrow> (u64 \<times> CoreTiming) option" where
  "GetGlobalTimeUs ct =
     (if ct_is_multicore ct
      then Some (wc_time_us (ct_clock ct) (ct_readings ct), ct\<lparr>ct_readings := ct_readings ct + 1\<rparr>)
      else do { us \<leftarrow> CyclesToUs (ct_ticks ct); Some (us, ct) })"

definition GetCPUTicks :: "CoreTiming \<Rightarrow> u64 \<times> CoreTiming" where
  "GetCPUTicks ct =
     (if ct_is_multicore ct
      then (wc_cpu_cycles (ct_clock ct) (ct_readings ct), ct\<lparr>ct_readings := ct_readings ct + 1\<rparr>)
      else (ct_ticks ct, ct))"

definition GetClockTicks :: "CoreTiming \<Rightarrow> (u64 \<times> CoreTiming) option" where
  "GetClockTicks ct =
     (if ct_is_multicore ct
      then Some (wc_clock_cycles (ct_clock ct) (ct_readings ct), ct\<lparr>ct_readings := ct_readings ct + 1\<rparr>)
      else do { c \<leftarrow> CpuCyclesToClockCycles (ct_ticks ct); Some (c, ct) })"

text \<open>The sum of two signed numbers; an overflow is undefined.\<close>

definition s64_add :: "u64 \<Rightarrow> u64 \<Rightarrow> u64 option" where
  "s64_add a b =
     (if - (2 ^ 63) \<le> sint a + sint b \<and> sint a + sint b < 2 ^ 63 then Some (a + b) else None)"

definition CoreTiming_ScheduleEvent :: "u64 \<Rightarrow> nat \<Rightarrow> u64 \<Rightarrow> CoreTiming \<Rightarrow> CoreTiming option" where
  "CoreTiming_ScheduleEvent ns_into_future event_type userdata ct = do {
     (now, ct) \<leftarrow> GetGlobalTimeNs ct;
     timeout \<leftarrow> s64_add now ns_into_future;
     let evt = \<lparr>ev_time = timeout, ev_fifo_order = ct_event_fifo_id ct, ev_userdata = userdata, ev_type = event_type\<rparr>;
     Some (ct\<lparr>ct_event_queue := heap_push evt (ct_event_queue ct),
              ct_event_fifo_id := ct_event_fifo_id ct + 1, ct_event := True\<rparr>)
   }"

text \<open>\<^verbatim>\<open>weak_ptr::lock().get()\<close>: the type while it is alive, the null pointer afterwards.\<close>

definition lock_type :: "(nat \<Rightarrow> bool) \<Rightarrow> Event \<Rightarrow> nat option" where
  "lock_type alive e = (if alive (ev_type e) then Some (ev_type e) else None)"

definition UnscheduleEvent :: "(nat \<Rightarrow> bool) \<Rightarrow> nat option \<Rightarrow> u64 \<Rightarrow> CoreTiming \<Rightarrow> CoreTiming" where
  "UnscheduleEvent alive event_type userdata ct = ct\<lparr>ct_event_queue :=
     filter (\<lambda>e. \<not> (lock_type alive e = event_type \<and> ev_userdata e = userdata)) (ct_event_queue ct)\<rparr>"

definition RemoveEvent :: "(nat \<Rightarrow> bool) \<Rightarrow> nat option \<Rightarrow> CoreTiming \<Rightarrow> CoreTiming" where
  "RemoveEvent alive event_type ct = ct\<lparr>ct_event_queue :=
     filter (\<lambda>e. lock_type alive e \<noteq> event_type) (ct_event_queue ct)\<rparr>"

definition AddTicks :: "u64 \<Rightarrow> CoreTiming \<Rightarrow> CoreTiming" where
  "AddTicks t ct = ct\<lparr>ct_ticks := ct_ticks ct + t, ct_downcount := ct_downcount ct - t\<rparr>"

definition Idle :: "CoreTiming \<Rightarrow> CoreTiming option" where
  "Idle ct =
     (if ct_event_queue ct \<noteq> [] then do {
        cycles \<leftarrow> nsToCycles (ev_time (heap_front (ct_event_queue ct)));
        next_ticks \<leftarrow> s64_add cycles 10;
        Some (if next_ticks > ct_ticks ct then ct\<lparr>ct_ticks := next_ticks\<rparr> else ct)
      }
      else Some (ct\<lparr>ct_ticks := ct_ticks ct + 1000\<rparr>))"

definition ResetTicks :: "CoreTiming \<Rightarrow> CoreTiming" where
  "ResetTicks ct = ct\<lparr>ct_downcount := MAX_SLICE_LENGTH\<rparr>"

text \<open>The event types the callers have created: which are alive, and their callbacks.\<close>

record 'e EventTypes =
  et_alive :: "'e \<Rightarrow> nat \<Rightarrow> bool"
  et_callback :: "nat \<Rightarrow> u64 \<Rightarrow> u64 \<Rightarrow> CoreTiming \<times> 'e \<Rightarrow> (CoreTiming \<times> 'e) option"

definition Advance_callback :: "'e EventTypes \<Rightarrow> Event \<Rightarrow> CoreTiming \<times> 'e \<Rightarrow> (CoreTiming \<times> 'e) option" where
  "Advance_callback T evt s =
     (case lock_type (et_alive T (snd s)) evt of
        None \<Rightarrow> Some s
      | Some event_type \<Rightarrow> et_callback T event_type (ev_userdata evt) (ct_global_timer (fst s) - ev_time evt) s)"

partial_function (option) Advance_loop :: "'e EventTypes \<Rightarrow> CoreTiming \<times> 'e \<Rightarrow> (CoreTiming \<times> 'e) option" where
  "Advance_loop T s =
     (let ct = fst s; evt = heap_front (ct_event_queue ct)
      in if ct_event_queue ct \<noteq> [] \<and> ev_time evt \<le> ct_global_timer ct then do {
           s \<leftarrow> Advance_callback T evt (ct\<lparr>ct_event_queue := heap_pop (ct_event_queue ct)\<rparr>, snd s);
           r \<leftarrow> GetGlobalTimeNs (fst s);
           Advance_loop T ((snd r)\<lparr>ct_global_timer := fst r\<rparr>, snd s)
         }
         else Some s)"

definition Advance :: "'e EventTypes \<Rightarrow> CoreTiming \<times> 'e \<Rightarrow> (u64 option \<times> CoreTiming \<times> 'e) option" where
  "Advance T s = do {
     (now, ct) \<leftarrow> GetGlobalTimeNs (fst s);
     (ct, e) \<leftarrow> Advance_loop T (ct\<lparr>ct_global_timer := now\<rparr>, snd s);
     Some (if ct_event_queue ct \<noteq> [] then Some (ev_time (heap_front (ct_event_queue ct)) - ct_global_timer ct)
           else None, ct, e)
   }"

section \<open>The timer thread\<close>

text \<open>What the thread blocks on after a round of its inner loop.\<close>

datatype Wait = NoWait | WaitFor u64 | WaitForEvent

definition ThreadLoop_round :: "'e EventTypes \<Rightarrow> CoreTiming \<times> 'e \<Rightarrow> (Wait \<times> CoreTiming \<times> 'e) option" where
  "ThreadLoop_round T s = do {
     (next_time, ct, e) \<leftarrow> Advance T ((fst s)\<lparr>ct_paused_set := False\<rparr>, snd s);
     Some (case next_time of
         Some t \<Rightarrow> (if 0 <s t then WaitFor t else NoWait, ct, e)
       | None \<Rightarrow> (WaitForEvent, ct\<lparr>ct_wait_set := True\<rparr>, e))
   }"

text \<open>
  The wait is over: it has consumed the signal, or the time is up. The last two steps are before and after the
  wait of a paused thread.
\<close>

definition ThreadLoop_resume :: "Wait \<Rightarrow> CoreTiming \<Rightarrow> CoreTiming" where
  "ThreadLoop_resume w ct = (if w = NoWait then ct else ct\<lparr>ct_event := False\<rparr>)\<lparr>ct_wait_set := False\<rparr>"

definition ThreadLoop_pause :: "CoreTiming \<Rightarrow> CoreTiming" where
  "ThreadLoop_pause ct = ct\<lparr>ct_paused_set := True\<rparr>"

definition ThreadLoop_unpause :: "CoreTiming \<Rightarrow> CoreTiming" where
  "ThreadLoop_unpause ct = ct\<lparr>ct_pause_event := False\<rparr>"

section \<open>The heap\<close>

text \<open>
  The contract of the heap functions of the standard library, for a container with the elements \<open>elems q\<close>: the
  front is least, popping removes it, pushing adds an element.
\<close>

locale event_heap =
  fixes elems :: "'q \<Rightarrow> 'a multiset"
    and key :: "'a \<Rightarrow> 'k :: linorder"
    and front :: "'q \<Rightarrow> 'a"
    and push :: "'a \<Rightarrow> 'q \<Rightarrow> 'q"
    and pop :: "'q \<Rightarrow> 'q"
  assumes front_in: "elems q \<noteq> {#} \<Longrightarrow> front q \<in># elems q"
    and front_least: "x \<in># elems q \<Longrightarrow> key (front q) \<le> key x"
    and elems_push: "elems (push x q) = add_mset x (elems q)"
    and elems_pop: "elems q \<noteq> {#} \<Longrightarrow> elems (pop q) = elems q - {#front q#}"
begin

lemma pop_decreases: "elems q \<noteq> {#} \<Longrightarrow> add_mset (front q) (elems (pop q)) = elems q"
  by (simp add: elems_pop front_in)

text \<open>An element that is pushed comes to the front only if nothing is before it.\<close>

lemma front_push:
  assumes "elems q \<noteq> {#}" and "key (front q) < key x" and "inj_on key (set_mset (elems (push x q)))"
  shows "front (push x q) = front q"
proof -
  have "front (push x q) \<in># elems (push x q)" and "front q \<in># elems (push x q)"
    using front_in[OF assms(1)] front_in[of "push x q"] by (simp_all add: elems_push)
  moreover have "key (front (push x q)) = key (front q)"
    using front_least[of "front q" "push x q"] front_least[of "front (push x q)" q] assms(2) front_in[OF assms(1)]
      front_in[of "push x q"]
    by (auto simp: elems_push)
  ultimately show ?thesis
    using assms(3) by (meson inj_onD)
qed

lemma front_unique:
  assumes "x \<in># elems q" and "\<And>y. y \<in># elems q \<Longrightarrow> key x \<le> key y" and "inj_on key (set_mset (elems q))"
  shows "front q = x"
  using assms front_in[of q] front_least[of x q]
  by (metis antisym empty_iff inj_onD set_mset_empty)

end

lemma arg_min_list_least: "x \<in> set q \<Longrightarrow> f (arg_min_list f q) \<le> f x" for f :: "'a \<Rightarrow> 'k :: linorder"
  by (metis f_arg_min_list_f Min_le empty_iff empty_set finite_imageI image_eqI List.finite_set)

interpretation event_queue: event_heap mset event_key heap_front heap_push heap_pop
proof
  show "heap_front q \<in># mset q" if "mset q \<noteq> {#}" for q
    using that by (simp add: heap_front_def arg_min_list_in)
  show "event_key (heap_front q) \<le> event_key x" if "x \<in># mset q" for q x
    using that by (simp add: heap_front_def arg_min_list_least)
  show "mset (heap_push x q) = add_mset x (mset q)" for x q
    by (simp add: heap_push_def)
  show "mset (heap_pop q) = mset q - {#heap_front q#}" if "mset q \<noteq> {#}" for q
    by (simp add: heap_pop_def)
qed

text \<open>Taking the front over and over is sorting.\<close>

lemma sort_key_arg_min:
  fixes f :: "'a \<Rightarrow> 'k :: linorder"
  assumes "q \<noteq> []"
  shows "sort_key f q = arg_min_list f q # sort_key f (remove1 (arg_min_list f q) q)"
  using assms
proof (induction f q rule: arg_min_list.induct)
  case (2 f x y zs)
  let ?m = "arg_min_list f (y # zs)"
  have IH: "sort_key f (y # zs) = ?m # sort_key f (remove1 ?m (y # zs))"
    using 2 by simp
  show ?case
  proof (cases "f x \<le> f ?m")
    case True
    have "insort_key f x (sort_key f (y # zs)) = x # sort_key f (y # zs)"
      unfolding IH using True by simp
    then show ?thesis
      using True by (simp add: Let_def)
  next
    case False
    then have "remove1 ?m (x # y # zs) = x # remove1 ?m (y # zs)" and "arg_min_list f (x # y # zs) = ?m"
      by (auto simp: Let_def)
    moreover have "insort_key f x (sort_key f (y # zs)) = ?m # insort_key f x (sort_key f (remove1 ?m (y # zs)))"
      unfolding IH using False by simp
    ultimately show ?thesis
      by simp
  qed
qed simp_all

lemma heap_front_least: "e \<in> set q \<Longrightarrow> ev_time (heap_front q) \<le> ev_time e"
  using event_queue.front_least[of e q] by (auto simp: event_key_def less_eq_prod_def)

lemma heap_front_Min:
  assumes "q \<noteq> []"
  shows "ev_time (heap_front q) = Min (ev_time ` set q)"
  using event_queue.front_in[of q] assms heap_front_least[of _ q] by (intro Min_eqI[symmetric]) auto

text \<open>The events that are due, in the order of the heap.\<close>

definition due :: "u64 \<Rightarrow> Event list \<Rightarrow> Event list" where
  "due now q = sort_key event_key (filter (\<lambda>e. ev_time e \<le> now) q)"

lemma due_front:
  assumes "q \<noteq> []" and "ev_time (heap_front q) \<le> now"
  shows "due now q = heap_front q # due now (heap_pop q)"
  using arg_cong[OF sort_key_arg_min[OF assms(1), of event_key], of "filter (\<lambda>e. ev_time e \<le> now)"] assms(2)
  by (simp add: due_def filter_sort heap_front_def heap_pop_def)

lemma due_empty:
  assumes "\<not> (q \<noteq> [] \<and> ev_time (heap_front q) \<le> now)"
  shows "due now q = []" and "filter (\<lambda>e. \<not> ev_time e \<le> now) q = q"
proof -
  have "\<not> ev_time e \<le> now" if "e \<in> set q" for e
    using assms heap_front_least[OF that] that by (auto dest: order_trans)
  then show "due now q = []" and "filter (\<lambda>e. \<not> ev_time e \<le> now) q = q"
    by (auto simp: due_def filter_id_conv filter_empty_conv)
qed

lemma later_pop:
  assumes "ev_time (heap_front q) \<le> now"
  shows "filter (\<lambda>e. \<not> ev_time e \<le> now) (heap_pop q) = filter (\<lambda>e. \<not> ev_time e \<le> now) q"
  using assms by (simp add: heap_pop_def filter_remove1 remove1_idem)

section \<open>Callbacks that schedule\<close>

text \<open>
  A callback that reaches the timing by \<^verbatim>\<open>ScheduleEvent\<close> only: from the state of its owner it computes the
  requests, a delay, a type and the user data each, and the new state.
\<close>

type_synonym Request = "u64 \<times> nat \<times> u64"

type_synonym 'e Plan = "nat \<Rightarrow> u64 \<Rightarrow> u64 \<Rightarrow> 'e \<Rightarrow> (Request list \<times> 'e) option"

primrec schedule_all :: "Request list \<Rightarrow> CoreTiming \<Rightarrow> CoreTiming option" where
  "schedule_all [] ct = Some ct"
| "schedule_all (r # rs) ct = do {
     ct \<leftarrow> CoreTiming_ScheduleEvent (fst r) (fst (snd r)) (snd (snd r)) ct;
     schedule_all rs ct
   }"

definition scheduling :: "'e Plan \<Rightarrow> nat \<Rightarrow> u64 \<Rightarrow> u64 \<Rightarrow> CoreTiming \<times> 'e \<Rightarrow> (CoreTiming \<times> 'e) option" where
  "scheduling plan event_type userdata ns_late s = do {
     r \<leftarrow> plan event_type userdata ns_late (snd s);
     ct \<leftarrow> schedule_all (fst r) (fst s);
     Some (ct, snd r)
   }"

definition scheduled_types :: "('e \<Rightarrow> nat \<Rightarrow> bool) \<Rightarrow> 'e Plan \<Rightarrow> 'e EventTypes" where
  "scheduled_types alive plan = \<lparr>et_alive = alive, et_callback = scheduling plan\<rparr>"

text \<open>The events that requests made at a time amount to.\<close>

primrec new_events :: "u64 \<Rightarrow> u64 \<Rightarrow> Request list \<Rightarrow> Event list" where
  "new_events now fifo [] = []"
| "new_events now fifo (r # rs) =
     \<lparr>ev_time = now + fst r, ev_fifo_order = fifo, ev_userdata = snd (snd r), ev_type = fst (snd r)\<rparr>
     # new_events now (fifo + 1) rs"

text \<open>A delay that leads to a later time, without an overflow.\<close>

definition later :: "u64 \<Rightarrow> Request \<Rightarrow> bool" where
  "later now r \<longleftrightarrow> 0 < unat (fst r) \<and> unat now + unat (fst r) < 2 ^ 63"

text \<open>The specification of a round: the callbacks of a list of events, one after the other.\<close>

primrec fire :: "('e \<Rightarrow> nat \<Rightarrow> bool) \<Rightarrow> 'e Plan \<Rightarrow> u64 \<Rightarrow> Event list \<Rightarrow> 'e \<Rightarrow> (Request list \<times> 'e) option" where
  "fire alive plan now [] e = Some ([], e)"
| "fire alive plan now (v # vs) e =
     (if alive e (ev_type v) then do {
        r \<leftarrow> plan (ev_type v) (ev_userdata v) (now - ev_time v) e;
        r' \<leftarrow> fire alive plan now vs (snd r);
        Some (fst r @ fst r', snd r')
      }
      else fire alive plan now vs e)"

lemma s64_add_small:
  assumes "unat a + unat b < 2 ^ 63"
  shows "s64_add a b = Some (a + b)"
proof -
  have "unat a < 2 ^ 63" "unat b < 2 ^ 63"
    using assms by simp_all
  then have "sint a + sint b = int (unat a + unat b)"
    by (simp only: sint_small of_nat_add)
  moreover have "- (2 ^ 63) \<le> int n \<and> int n < 2 ^ 63" if "n < 2 ^ 63" for n :: nat
    using that by simp
  from this[OF assms] have "- (2 ^ 63) \<le> int (unat a + unat b) \<and> int (unat a + unat b) < 2 ^ 63" .
  ultimately show ?thesis
    unfolding s64_add_def by metis
qed

lemma later_add: "later now r \<Longrightarrow> s64_add now (fst r) = Some (now + fst r)"
  by (simp add: later_def s64_add_small)

lemma later_greater: "later now r \<Longrightarrow> \<not> now + fst r \<le> now"
  by (simp add: later_def word_le_nat_alt unat_plus)

lemma new_events_later:
  "\<forall>r \<in> set rs. later now r \<Longrightarrow> filter (\<lambda>e. \<not> ev_time e \<le> now) (new_events now fifo rs) = new_events now fifo rs"
  "\<forall>r \<in> set rs. later now r \<Longrightarrow> filter (\<lambda>e. ev_time e \<le> now) (new_events now fifo rs) = []"
  by (induction rs arbitrary: fifo) (simp_all add: later_greater)

lemma new_events_append:
  "new_events now fifo (rs @ rs') = new_events now fifo rs @ new_events now (fifo + of_nat (length rs)) rs'"
  by (induction rs arbitrary: fifo) (simp_all add: algebra_simps)

lemma schedule_all_eq:
  assumes "\<not> ct_is_multicore ct" and "CyclesToNs (ct_ticks ct) = Some now" and "\<forall>r \<in> set rs. later now r"
  shows "schedule_all rs ct = Some (ct\<lparr>ct_event_queue := ct_event_queue ct @ new_events now (ct_event_fifo_id ct) rs,
    ct_event_fifo_id := ct_event_fifo_id ct + of_nat (length rs), ct_event := ct_event ct \<or> rs \<noteq> []\<rparr>)"
  using assms
proof (induction rs arbitrary: ct)
  case (Cons r rs)
  let ?evt = "\<lparr>ev_time = now + fst r, ev_fifo_order = ct_event_fifo_id ct, ev_userdata = snd (snd r), ev_type = fst (snd r)\<rparr>"
  let ?ct = "ct\<lparr>ct_event_queue := ct_event_queue ct @ [?evt], ct_event_fifo_id := ct_event_fifo_id ct + 1, ct_event := True\<rparr>"
  have "CoreTiming_ScheduleEvent (fst r) (fst (snd r)) (snd (snd r)) ct = Some ?ct"
    using Cons.prems by (simp add: CoreTiming_ScheduleEvent_def GetGlobalTimeNs_def later_add heap_push_def Let_def del: CyclesToNs_eq)
  moreover have "schedule_all rs ?ct = Some (?ct\<lparr>ct_event_queue := ct_event_queue ?ct @ new_events now (ct_event_fifo_id ?ct) rs,
    ct_event_fifo_id := ct_event_fifo_id ?ct + of_nat (length rs), ct_event := ct_event ?ct \<or> rs \<noteq> []\<rparr>)"
    using Cons.prems by (intro Cons.IH) simp_all
  ultimately show ?case
    by (simp add: algebra_simps)
qed simp

section \<open>Advancing\<close>

lemma Advance_loop_fires:
  assumes "\<not> ct_is_multicore ct" and "CyclesToNs (ct_ticks ct) = Some now" and "ct_global_timer ct = now"
    and "fire alive plan now (due now (ct_event_queue ct)) e = Some (rs, e')"
    and "\<forall>r \<in> set rs. later now r"
  shows "Advance_loop (scheduled_types alive plan) (ct, e) = Some (ct\<lparr>ct_event_queue :=
      filter (\<lambda>v. \<not> ev_time v \<le> now) (ct_event_queue ct) @ new_events now (ct_event_fifo_id ct) rs,
      ct_event_fifo_id := ct_event_fifo_id ct + of_nat (length rs), ct_event := ct_event ct \<or> rs \<noteq> []\<rparr>, e')"
  using assms
proof (induction "due now (ct_event_queue ct)" arbitrary: ct e rs)
  case Nil
  then have "\<not> (ct_event_queue ct \<noteq> [] \<and> ev_time (heap_front (ct_event_queue ct)) \<le> now)"
    using due_front[of "ct_event_queue ct" now] by auto
  moreover from this have "filter (\<lambda>v. \<not> ev_time v \<le> now) (ct_event_queue ct) = ct_event_queue ct"
    by (rule due_empty)
  ultimately show ?case
    using Nil by (subst Advance_loop.simps) (auto simp: Let_def)
next
  case (Cons v vs)
  let ?q = "ct_event_queue ct"
  have q: "?q \<noteq> []" "ev_time (heap_front ?q) \<le> now"
    using Cons.hyps(2) due_empty(1)[of ?q now] by fastforce+
  then have v: "v = heap_front ?q" and vs: "vs = due now (heap_pop ?q)"
    using Cons.hyps(2) due_front[OF q] by auto
  let ?ct = "ct\<lparr>ct_event_queue := heap_pop ?q\<rparr>" and ?T = "scheduled_types alive plan"
  note ct = Cons.prems(1,2,3)
  have step: "Advance_loop ?T (ct, e) = do {
      s \<leftarrow> Advance_callback ?T v (?ct, e);
      r \<leftarrow> GetGlobalTimeNs (fst s);
      Advance_loop ?T ((snd r)\<lparr>ct_global_timer := fst r\<rparr>, snd s)
    }"
    using q ct(3) by (subst Advance_loop.simps) (simp add: Let_def v)
  note fired = Cons.prems(4)[unfolded Cons.hyps(2)[symmetric]]
  show ?case
  proof (cases "alive e (ev_type v)")
    case False
    have same: "?ct\<lparr>ct_global_timer := now\<rparr> = ?ct"
      using ct(3) by simp
    have "Advance_loop ?T (ct, e) = Advance_loop ?T (?ct\<lparr>ct_global_timer := now\<rparr>, e)"
      using False ct unfolding step
      by (simp add: Advance_callback_def lock_type_def scheduled_types_def GetGlobalTimeNs_def del: CyclesToNs_eq)
    then have "Advance_loop ?T (ct, e) = Advance_loop ?T (?ct, e)"
      unfolding same .
    moreover have "fire alive plan now (due now (ct_event_queue ?ct)) e = Some (rs, e')"
      using fired False vs by simp
    ultimately show ?thesis
      using Cons.hyps(1)[of ?ct e rs] ct Cons.prems(5) vs later_pop[OF q(2)] by simp
  next
    case True
    then obtain rs1 e1 rs2 where plan: "plan (ev_type v) (ev_userdata v) (now - ev_time v) e = Some (rs1, e1)"
      and rest: "fire alive plan now vs e1 = Some (rs2, e')" and rs: "rs = rs1 @ rs2"
      using fired by (auto split: bind_splits)
    let ?ct1 = "?ct\<lparr>ct_event_queue := heap_pop ?q @ new_events now (ct_event_fifo_id ct) rs1,
      ct_event_fifo_id := ct_event_fifo_id ct + of_nat (length rs1), ct_event := ct_event ct \<or> rs1 \<noteq> []\<rparr>"
    have same: "?ct1\<lparr>ct_global_timer := now\<rparr> = ?ct1"
      using ct(3) by simp
    have "schedule_all rs1 ?ct = Some ?ct1"
      using schedule_all_eq[of ?ct now rs1] ct Cons.prems(5) rs by simp
    then have "Advance_loop ?T (ct, e) = Advance_loop ?T (?ct1\<lparr>ct_global_timer := now\<rparr>, e1)"
      using True ct plan unfolding step
      by (simp add: Advance_callback_def lock_type_def scheduled_types_def scheduling_def GetGlobalTimeNs_def del: CyclesToNs_eq)
    then have "Advance_loop ?T (ct, e) = Advance_loop ?T (?ct1, e1)"
      unfolding same .
    moreover have due1: "due now (ct_event_queue ?ct1) = vs"
      using Cons.prems(5) rs vs by (simp add: due_def new_events_later)
    ultimately show ?thesis
      using Cons.hyps(1)[of ?ct1 e1 rs2] ct rest Cons.prems(5) rs later_pop[OF q(2)]
      by (simp add: new_events_later new_events_append algebra_simps)
  qed
qed

text \<open>
  The numbers of the pending events are distinct and below the next one, until \<open>2 ^ 64\<close> events have been
  scheduled. Then no two events have the same key, so the front of the heap is determined.
\<close>

definition timing_ok :: "CoreTiming \<Rightarrow> bool" where
  "timing_ok ct \<longleftrightarrow> distinct (map ev_fifo_order (ct_event_queue ct))
     \<and> (\<forall>e \<in> set (ct_event_queue ct). ev_fifo_order e < ct_event_fifo_id ct)"

lemma timing_ok_inj: "timing_ok ct \<Longrightarrow> inj_on event_key (set (ct_event_queue ct))"
  by (auto simp: timing_ok_def distinct_map inj_on_def event_key_def)

lemma timing_ok_front:
  assumes "timing_ok ct" and "e \<in> set (ct_event_queue ct)"
    and "\<And>v. v \<in> set (ct_event_queue ct) \<Longrightarrow> event_key e \<le> event_key v"
  shows "heap_front (ct_event_queue ct) = e"
  using assms timing_ok_inj[OF assms(1)] by (intro event_queue.front_unique) simp_all

lemma timing_ok_init: "timing_ok (mk_CoreTiming clock)"
  by (simp add: timing_ok_def mk_CoreTiming_def)

lemma timing_ok_Shutdown_Initialize: "timing_ok (CoreTiming_Initialize (Shutdown ct))"
  by (simp add: timing_ok_def CoreTiming_Initialize_def Shutdown_def ClearPendingEvents_def Let_def)

lemma GetGlobalTimeNs_queue:
  assumes "GetGlobalTimeNs ct = Some (now, ct')"
  shows "ct_event_queue ct' = ct_event_queue ct" and "ct_event_fifo_id ct' = ct_event_fifo_id ct"
  using assms by (auto simp: GetGlobalTimeNs_def split: if_splits)

lemma timing_ok_ScheduleEvent:
  assumes "timing_ok ct" and "unat (ct_event_fifo_id ct) + 1 < 2 ^ 64"
    and "CoreTiming_ScheduleEvent ns event_type userdata ct = Some ct'"
  shows "timing_ok ct'"
proof -
  obtain now ct1 timeout where time: "GetGlobalTimeNs ct = Some (now, ct1)" and
    ct': "ct' = ct1\<lparr>ct_event_queue := ct_event_queue ct @ [\<lparr>ev_time = timeout, ev_fifo_order = ct_event_fifo_id ct,
      ev_userdata = userdata, ev_type = event_type\<rparr>], ct_event_fifo_id := ct_event_fifo_id ct + 1, ct_event := True\<rparr>"
    using assms(3) by (auto simp: CoreTiming_ScheduleEvent_def heap_push_def Let_def GetGlobalTimeNs_queue split: bind_splits)
  have "x < ct_event_fifo_id ct + 1" if "x \<le> ct_event_fifo_id ct" for x
    using that assms(2) by (simp add: word_less_nat_alt word_le_nat_alt unat_plus)
  then have "\<forall>e \<in> set (ct_event_queue ct'). ev_fifo_order e < ct_event_fifo_id ct'"
    using assms(1) by (auto simp: ct' timing_ok_def less_imp_le)
  moreover have "distinct (map ev_fifo_order (ct_event_queue ct'))"
    using assms(1) by (force simp: ct' timing_ok_def)
  ultimately show ?thesis
    by (simp add: timing_ok_def)
qed

lemma timing_ok_UnscheduleEvent: "timing_ok ct \<Longrightarrow> timing_ok (UnscheduleEvent alive event_type userdata ct)"
  by (auto simp: timing_ok_def UnscheduleEvent_def distinct_map_filter)

lemma timing_ok_RemoveEvent: "timing_ok ct \<Longrightarrow> timing_ok (RemoveEvent alive event_type ct)"
  by (auto simp: timing_ok_def RemoveEvent_def distinct_map_filter)


section \<open>Periodic events\<close>

text \<open>
  The header recommends that a callback with a period asks for \<^verbatim>\<open>period - ns_late\<close>. \<open>run_periodic\<close> runs such a
  callback as often as given; the lateness decreases by the period from call to call.
\<close>

primrec run_periodic :: "'e Plan \<Rightarrow> nat \<Rightarrow> u64 \<Rightarrow> nat \<Rightarrow> nat \<Rightarrow> nat \<Rightarrow> 'e \<Rightarrow> 'e option" where
  "run_periodic plan event_type userdata period 0 late e = Some e"
| "run_periodic plan event_type userdata period (Suc k) late e = do {
     r \<leftarrow> plan event_type userdata (of_nat late) e;
     if fst r = [(of_nat period - of_nat late, event_type, userdata)]
     then run_periodic plan event_type userdata period k (late - period) (snd r) else None
   }"

lemma sint_diff_small:
  assumes "unat a < 2 ^ 63" and "unat b < 2 ^ 63"
  shows "sint (a - b :: u64) = int (unat a) - int (unat b)"
proof -
  have "- (2 ^ 63) \<le> int x - int y \<and> int x - int y < 2 ^ 63" if "x < 2 ^ 63" "y < 2 ^ 63" for x y :: nat
    using that by simp
  from this[OF assms] have range: "- (2 ^ 63) \<le> sint a - sint b \<and> sint a - sint b < 2 ^ 63"
    by (simp only: sint_small[OF assms(1)] sint_small[OF assms(2)])
  then have "sint (a - b) = sint a - sint b"
    by (simp add: sint_word_ariths(2) signed_take_bit_int_eq_self)
  then show ?thesis
    by (simp only: sint_small[OF assms(1)] sint_small[OF assms(2)])
qed

text \<open>The time a late callback asks for is a period after the time of its event, not after the call.\<close>

lemma s64_add_periodic:
  assumes "unat t \<le> unat now" and "unat t + period < 2 ^ 63" and "unat now < 2 ^ 63"
  shows "s64_add now (of_nat period - (now - t)) = Some (t + of_nat period)"
proof -
  have p: "unat (of_nat period :: u64) = period"
    using assms(2) by simp
  have d: "unat (now - t) = unat now - unat t"
    using assms(1) by (simp add: unat_sub word_le_nat_alt)
  have "sint now + sint (of_nat period - (now - t)) = int (unat t + period)"
    using assms by (subst sint_diff_small) (simp_all add: sint_small p d of_nat_diff del: of_nat_unat)
  moreover have "- (2 ^ 63) \<le> int n \<and> int n < 2 ^ 63" if "n < 2 ^ 63" for n :: nat
    using that by simp
  ultimately show ?thesis
    using assms(2) unfolding s64_add_def by (simp only: if_True) simp
qed

lemma Advance_loop_periodic:
  assumes "\<not> ct_is_multicore ct" and "CyclesToNs (ct_ticks ct) = Some now" and "ct_global_timer ct = now"
    and "ct_event_queue ct = [v]" and "\<And>e. alive e (ev_type v)"
    and "run_periodic plan (ev_type v) (ev_userdata v) period k (unat now - unat (ev_time v)) e = Some e'"
    and "unat now < unat (ev_time v) + k * period" and "k = 0 \<or> unat (ev_time v) + (k - 1) * period \<le> unat now"
    and "unat now + period < 2 ^ 63"
  shows "\<exists>ct'. Advance_loop (scheduled_types alive plan) (ct, e) = Some (ct', e')
    \<and> ct_global_timer ct' = now \<and> (\<exists>v'. ct_event_queue ct' = [v'] \<and> unat (ev_time v') = unat (ev_time v) + k * period
      \<and> ev_type v' = ev_type v \<and> ev_userdata v' = ev_userdata v)"
  using assms
proof (induction k arbitrary: ct v e)
  case 0
  then have "\<not> ev_time (heap_front (ct_event_queue ct)) \<le> now"
    by (simp add: heap_front_def word_le_nat_alt)
  then have "Advance_loop (scheduled_types alive plan) (ct, e) = Some (ct, e)"
    using 0 by (subst Advance_loop.simps) (simp add: Let_def)
  then show ?case
    using 0 by simp
next
  case (Suc k)
  note ct = Suc.prems(1-4)
  let ?T = "scheduled_types alive plan" and ?t = "ev_time v" and ?ct = "ct\<lparr>ct_event_queue := []\<rparr>"
  have t: "unat ?t \<le> unat now" and tp: "unat ?t + period < 2 ^ 63" and now: "unat now < 2 ^ 63"
    using Suc.prems(8,9) by simp_all
  have late: "of_nat (unat now - unat ?t) = now - ?t"
    using t by (simp add: of_nat_diff)
  obtain e1 where plan: "plan (ev_type v) (ev_userdata v) (now - ?t) e
      = Some ([(of_nat period - (now - ?t), ev_type v, ev_userdata v)], e1)"
    and rest: "run_periodic plan (ev_type v) (ev_userdata v) period k (unat now - unat ?t - period) e1 = Some e'"
    using Suc.prems(6) by (auto simp: late split: bind_splits if_splits)
  let ?v = "\<lparr>ev_time = ?t + of_nat period, ev_fifo_order = ct_event_fifo_id ct, ev_userdata = ev_userdata v, ev_type = ev_type v\<rparr>"
  let ?ct1 = "?ct\<lparr>ct_event_queue := [?v], ct_event_fifo_id := ct_event_fifo_id ct + 1, ct_event := True\<rparr>"
  have front: "heap_front [v] = v" "heap_pop [v] = []"
    by (simp_all add: heap_front_def heap_pop_def)
  have step: "Advance_loop ?T (ct, e) = do {
      s \<leftarrow> Advance_callback ?T v (?ct, e);
      r \<leftarrow> GetGlobalTimeNs (fst s);
      Advance_loop ?T ((snd r)\<lparr>ct_global_timer := fst r\<rparr>, snd s)
    }"
    using ct t by (subst Advance_loop.simps) (simp add: Let_def front word_le_nat_alt)
  have "schedule_all [(of_nat period - (now - ?t), ev_type v, ev_userdata v)] ?ct = Some ?ct1"
    using ct s64_add_periodic[OF t tp now]
    by (simp add: CoreTiming_ScheduleEvent_def GetGlobalTimeNs_def heap_push_def Let_def del: CyclesToNs_eq)
  then have "Advance_loop ?T (ct, e) = Advance_loop ?T (?ct1\<lparr>ct_global_timer := now\<rparr>, e1)"
    using ct plan Suc.prems(5) unfolding step
    by (simp add: Advance_callback_def lock_type_def scheduled_types_def scheduling_def GetGlobalTimeNs_def
        del: CyclesToNs_eq schedule_all.simps)
  moreover have "unat (ev_time ?v) = unat ?t + period"
    using tp by (simp add: unat_plus)
  ultimately show ?case
    using Suc.IH[of "?ct1\<lparr>ct_global_timer := now\<rparr>" ?v e1] ct Suc.prems(5,7,8,9) rest
    by (cases k) (simp_all add: diff_diff_left add.assoc)
qed

lemma Advance_periodic:
  assumes "\<not> ct_is_multicore ct" and "CyclesToNs (ct_ticks ct) = Some now"
    and "ct_event_queue ct = [v]" and "\<And>e. alive e (ev_type v)"
    and "0 < period" and "ev_time v \<le> now" and "unat now + period < 2 ^ 63"
    and "k = (unat now - unat (ev_time v)) div period + 1"
    and "run_periodic plan (ev_type v) (ev_userdata v) period k (unat now - unat (ev_time v)) e = Some e'"
  shows "\<exists>next ct' v'. Advance (scheduled_types alive plan) (ct, e) = Some (Some next, ct', e')
    \<and> ct_event_queue ct' = [v'] \<and> ev_type v' = ev_type v \<and> ev_userdata v' = ev_userdata v
    \<and> unat (ev_time v') = unat (ev_time v) + k * period \<and> unat next = unat (ev_time v') - unat now
    \<and> 0 < unat next \<and> unat next \<le> period"
proof -
  let ?d = "unat now - unat (ev_time v)"
  have t: "unat (ev_time v) \<le> unat now"
    using assms(6) by (simp add: word_le_nat_alt)
  define m where "m = ?d div period * period"
  have "m \<le> ?d" and "?d < m + period" and "(k - 1) * period = m" and "k * period = m + period"
    using dividend_less_div_times[OF assms(5), of ?d] by (simp_all add: m_def assms(8))
  then have k: "unat (ev_time v) + (k - 1) * period \<le> unat now" "unat now < unat (ev_time v) + k * period"
    "unat (ev_time v) + k * period \<le> unat now + period"
    using t by simp_all
  obtain ct' v' where loop: "Advance_loop (scheduled_types alive plan) (ct\<lparr>ct_global_timer := now\<rparr>, e) = Some (ct', e')"
    and ct': "ct_global_timer ct' = now" "ct_event_queue ct' = [v']"
    and v': "unat (ev_time v') = unat (ev_time v) + k * period" "ev_type v' = ev_type v" "ev_userdata v' = ev_userdata v"
    using Advance_loop_periodic[of "ct\<lparr>ct_global_timer := now\<rparr>" now v alive plan period k e e'] assms k by auto
  have "unat (ev_time v' - now) = unat (ev_time v') - unat now"
    using k v' by (simp add: unat_sub word_le_nat_alt)
  then show ?thesis
    using loop ct' v' k assms(1,2) by (auto simp: Advance_def GetGlobalTimeNs_def heap_front_def simp del: CyclesToNs_eq)
qed

section \<open>Properties\<close>


text \<open>Three events of one type, two of them due at the same time; each callback notes its data and asks for another call.\<close>

definition example_timing :: CoreTiming where
  "example_timing = (mk_CoreTiming \<lparr>wc_time_ns = \<lambda>_. 0, wc_time_us = \<lambda>_. 0, wc_cpu_cycles = \<lambda>_. 0, wc_clock_cycles = \<lambda>_. 0\<rparr>)
     \<lparr>ct_ticks := 1019215872, ct_event_fifo_id := 3, ct_event_queue :=
       [\<lparr>ev_time = 5, ev_fifo_order = 1, ev_userdata = 7, ev_type = 0\<rparr>,
        \<lparr>ev_time = 5, ev_fifo_order = 0, ev_userdata = 8, ev_type = 0\<rparr>,
        \<lparr>ev_time = 2000000000, ev_fifo_order = 2, ev_userdata = 9, ev_type = 0\<rparr>]\<rparr>"

definition example_plan :: "u64 list Plan" where
  "example_plan event_type userdata ns_late log = Some ([(100, event_type, userdata)], log @ [userdata])"




text \<open>
  A callback that asks for its period minus its lateness, the way the header recommends, does not drift:
  however late \<^verbatim>\<open>Advance\<close> comes, it makes up for all the calls that were missed, and the next event is at a
  whole number of periods after the first.
\<close>

lemma periodic_event_keeps_pace:
  assumes "\<not> ct_is_multicore ct" and "CyclesToNs (ct_ticks ct) = Some now"
    and "ct_event_queue ct = [v]" and "\<And>e. alive e (ev_type v)"
    and "0 < period" and "ev_time v \<le> now" and "unat now + period < 2 ^ 63"
    and "k = (unat now - unat (ev_time v)) div period + 1"
    and "run_periodic plan (ev_type v) (ev_userdata v) period k (unat now - unat (ev_time v)) e = Some e'"
  shows "\<exists>next ct' v'. Advance (scheduled_types alive plan) (ct, e) = Some (Some next, ct', e')
    \<and> ct_event_queue ct' = [v'] \<and> ev_type v' = ev_type v \<and> ev_userdata v' = ev_userdata v
    \<and> unat (ev_time v') = unat (ev_time v) + k * period \<and> unat next = unat (ev_time v') - unat now
    \<and> 0 < unat next \<and> unat next \<le> period"
  using assms by (rule Advance_periodic)

end
