(* ===== verification/Cheat_Timing.thy ===== *)
theory Cheat_Timing
  imports Cheat_Engine_Correct Core_Timing
begin

text \<open>
  The cheat engine on the event queue: the requests that \<^verbatim>\<open>core/memory/cheat_engine.cpp\<close> makes reach the timing of
  \<^verbatim>\<open>core/core_timing.cpp\<close>, and the events of the timing reach its \<^verbatim>\<open>FrameCallback\<close>. Cheats run at twelve times a
  second without drift, and frames that were missed are made up for.
\<close>

section \<open>The engine as an owner of an event\<close>

text \<open>The callback of the event, with the calls of \<^verbatim>\<open>ScheduleEvent\<close> it makes.\<close>

definition cheat_plan :: "Formats \<Rightarrow> (CheatEngine \<times> CheatEnv) Plan" where
  "cheat_plan F event_type userdata ns_late s = do {
     s' \<leftarrow> FrameCallback F (sint ns_late) s;
     Some (map (\<lambda>ns. (word_of_int ns, event_type, 0)) (drop (length (eng_scheduled (fst s))) (eng_scheduled (fst s'))), s')
   }"

text \<open>The destructor; \<open>event\<close> is null until \<^verbatim>\<open>Initialize\<close>.\<close>

definition CheatEngine_destroy :: "(nat \<Rightarrow> bool) \<Rightarrow> nat option \<Rightarrow> CoreTiming \<Rightarrow> CoreTiming" where
  "CheatEngine_destroy alive event ct = UnscheduleEvent alive event 0 ct"

lemma CheatEngine_destroy_queue:
  assumes "alive event"
  shows "ct_event_queue (CheatEngine_destroy alive (Some event) ct)
    = filter (\<lambda>v. ev_type v \<noteq> event \<or> ev_userdata v \<noteq> 0) (ct_event_queue ct)"
  unfolding CheatEngine_destroy_def UnscheduleEvent_def
  using assms by (auto simp: lock_type_def intro!: filter_cong)

section \<open>Frames\<close>

text \<open>An engine whose program always runs to its end.\<close>

definition engine_runs :: "CheatEngine \<times> CheatEnv \<Rightarrow> bool" where
  "engine_runs s \<longleftrightarrow> vm_ok (eng_vm (fst s)) \<and> straight_program (eng_vm (fst s)) \<and> GetProgramSize (eng_vm (fst s)) \<noteq> 0
     \<and> \<not> eng_is_pending_reload (fst s) \<and> gm_ok (env_memory (snd s)) \<and> extents_fit (eng_metadata (fst s)) (env_memory (snd s))"

lemma instructions_same_code: "same_code vm vm' \<Longrightarrow> instructions n vm' i = instructions n vm i"
  by (induction n arbitrary: i) (simp_all add: next_instr_same_code split: option.split)

lemma straight_program_same_code: "same_code vm vm' \<Longrightarrow> straight_program vm' = straight_program vm"
  by (simp add: straight_program_def instructions_same_code) (simp add: same_code_def)

lemma FrameCallback_runs:
  assumes "engine_runs (eng, e)"
  shows "\<exists>eng' e'. FrameCallback F ns_late (eng, e) = Some (eng', e') \<and> engine_runs (eng', e')
    \<and> eng_scheduled eng' = eng_scheduled eng @ [CHEAT_ENGINE_NS - ns_late] \<and> same_code (eng_vm eng) (eng_vm eng')"
proof -
  let ?md = "eng_metadata eng" and ?vm = "eng_vm eng"
  have runs: "vm_ok ?vm" "straight_program ?vm" "GetProgramSize ?vm \<noteq> 0" "\<not> eng_is_pending_reload eng"
    "sandboxed ?md (env_memory e) e"
    using assms by (simp_all add: engine_runs_def sandboxed_def)
  obtain vm' e' where exec: "Execute F (StandardVmCallbacks ?md) ?md (?vm, e) = Some (vm', e')"
    and vm': "vm_ok vm'" "same_code ?vm vm'" and e': "sandboxed ?md (env_memory e) e'"
    using standard.Execute_terminates[OF runs(1,5,2), of F ?md] by (auto simp: yields_def)
  let ?eng = "ScheduleEvent (CHEAT_ENGINE_NS - ns_late) (eng\<lparr>eng_is_pending_reload := False, eng_vm := vm'\<rparr>)"
  have "FrameCallback F ns_late (eng, e) = Some (?eng, e')"
    using runs exec by (simp add: FrameCallback_def Let_def)
  moreover have "engine_runs (?eng, e')"
    using runs vm' e' sandboxed_ok[OF e'] straight_program_same_code[OF vm'(2)]
    by (simp add: engine_runs_def ScheduleEvent_def GetProgramSize_def same_code_def)
  ultimately show ?thesis
    using vm' by (simp add: ScheduleEvent_def)
qed

primrec run_frames :: "Formats \<Rightarrow> nat \<Rightarrow> nat \<Rightarrow> CheatEngine \<times> CheatEnv \<Rightarrow> (CheatEngine \<times> CheatEnv) option" where
  "run_frames F 0 late s = Some s"
| "run_frames F (Suc k) late s = do {
     s' \<leftarrow> FrameCallback F (int late) s;
     run_frames F k (late - 83333333) s'
   }"

text \<open>The frames that come due, as calls of the event's callback.\<close>

lemma run_periodic_frames:
  assumes "engine_runs s" and "late < 2 ^ 62"
  shows "\<exists>s'. run_frames F k late s = Some s'
    \<and> run_periodic (cheat_plan F) event_type 0 83333333 k late s = Some s'
    \<and> engine_runs s' \<and> same_code (eng_vm (fst s)) (eng_vm (fst s'))
    \<and> length (eng_scheduled (fst s')) = length (eng_scheduled (fst s)) + k"
  using assms
proof (induction k arbitrary: s late)
  case 0
  then show ?case
    by (simp add: same_code_def)
next
  case (Suc k)
  obtain eng e where s: "s = (eng, e)"
    by (cases s)
  have late: "sint (of_nat late :: u64) = int late"
    using Suc.prems(2) by (simp add: sint_small)
  obtain eng' e' where frame: "FrameCallback F (int late) s = Some (eng', e')" and runs: "engine_runs (eng', e')"
    and sched: "eng_scheduled eng' = eng_scheduled eng @ [CHEAT_ENGINE_NS - int late]"
    and code: "same_code (eng_vm eng) (eng_vm eng')"
    using FrameCallback_runs[of eng e F "int late"] Suc.prems(1) s by auto
  have less: "late - 83333333 < 2 ^ 62"
    using Suc.prems(2) by linarith
  have "cheat_plan F event_type 0 (of_nat late) s = Some ([(of_nat 83333333 - of_nat late, event_type, 0)], (eng', e'))"
    using frame sched s late by (simp add: cheat_plan_def CHEAT_ENGINE_NS_def)
  moreover obtain s' where "run_frames F k (late - 83333333) (eng', e') = Some s'"
    and "run_periodic (cheat_plan F) event_type 0 83333333 k (late - 83333333) (eng', e') = Some s'"
    and "engine_runs s'" and "same_code (eng_vm eng') (eng_vm (fst s'))"
    and "length (eng_scheduled (fst s')) = length (eng_scheduled eng') + k"
    using Suc.IH[OF runs less] by fastforce
  ultimately show ?case
    using frame sched code s by (simp add: same_code_def)
qed

text \<open>
  C32. The cheats of an engine with a program that always ends keep running twelve times a second: when the event of
  the engine is the one pending and \<^verbatim>\<open>Advance\<close> comes late, it runs exactly the frames that have come due, one
  after the other, and leaves one event, a whole number of periods after the last one and not due yet.
\<close>

theorem cheats_keep_pace:
  assumes "\<not> ct_is_multicore ct" and "CyclesToNs (ct_ticks ct) = Some now"
    and "ct_event_queue ct = [v]" and "ev_userdata v = 0" and "\<And>s. alive s (ev_type v)"
    and "ev_time v \<le> now" and "unat now < 2 ^ 62"
    and "engine_runs s" and "k = (unat now - unat (ev_time v)) div 83333333 + 1"
  shows "\<exists>next ct' v' s'. Advance (scheduled_types alive (cheat_plan F)) (ct, s) = Some (Some next, ct', s')
    \<and> run_frames F k (unat now - unat (ev_time v)) s = Some s' \<and> engine_runs s'
    \<and> ct_event_queue ct' = [v'] \<and> ev_type v' = ev_type v \<and> ev_userdata v' = 0
    \<and> unat (ev_time v') = unat (ev_time v) + k * 83333333 \<and> now < ev_time v'"
proof -
  let ?late = "unat now - unat (ev_time v)"
  have "?late < 2 ^ 62"
    using assms(7) by linarith
  then obtain s' where s': "run_frames F k ?late s = Some s'" "engine_runs s'"
    and run: "run_periodic (cheat_plan F) (ev_type v) (ev_userdata v) 83333333 k ?late s = Some s'"
    using run_periodic_frames[OF assms(8), of ?late F k "ev_type v"] unfolding assms(4) by blast
  have "unat now + 83333333 < 2 ^ 63"
    using assms(7) by simp
  then obtain rest ct' v' where "Advance (scheduled_types alive (cheat_plan F)) (ct, s) = Some (Some rest, ct', s')"
    and "ct_event_queue ct' = [v']" "ev_type v' = ev_type v" "ev_userdata v' = ev_userdata v"
    and "unat (ev_time v') = unat (ev_time v) + k * 83333333" "unat rest = unat (ev_time v') - unat now" "0 < unat rest"
    using Advance_periodic[where alive = alive, OF assms(1-3,5) _ assms(6) _ assms(9) run] by auto
  then show ?thesis
    using s' assms(4) by (auto simp: word_less_nat_alt)
qed

definition example_late :: CoreTiming where
  "example_late = example_timing\<lparr>ct_ticks := 203843175,
     ct_event_queue := [\<lparr>ev_time = 5, ev_fifo_order = 1, ev_userdata = 0, ev_type = 0\<rparr>]\<rparr>"

definition example_running :: CheatEngine where
  "example_running = (mk_CheatEngine [] [])\<lparr>eng_vm := example_vm, eng_metadata := example_metadata\<rparr>"

lemma example_running_runs: "engine_runs (example_running, example_env)"
  using example_vm_ok example_straight example_env_ok example_fits
  by (simp add: engine_runs_def example_running_def mk_CheatEngine_def GetProgramSize_def) (simp add: example_vm_def)

theorem cheats_keep_pace_witness:
  "\<exists>next ct' v' s'. Advance (scheduled_types (\<lambda>_ _. True) (cheat_plan example_formats)) (example_late, (example_running, example_env))
      = Some (Some next, ct', s')
    \<and> run_frames example_formats 3 199999995 (example_running, example_env) = Some s'
    \<and> ct_event_queue ct' = [v'] \<and> unat (ev_time v') = 250000004"
proof -
  let ?v = "\<lparr>ev_time = 5, ev_fifo_order = 1, ev_userdata = 0, ev_type = 0\<rparr>"
  have queue: "ct_event_queue example_late = [?v]" and time: "CyclesToNs (ct_ticks example_late) = Some 200000000"
    and mode: "\<not> ct_is_multicore example_late"
    by (simp_all add: example_late_def example_timing_def mk_CoreTiming_def)
  show ?thesis
    using cheats_keep_pace[where alive = "\<lambda>_ _. True", OF mode time queue _ _ _ _ example_running_runs refl, of example_formats]
    by fastforce
qed

end
