(* ===== verification/Multi_Level_Queue.thy ===== *)
theory Multi_Level_Queue
  imports Alignment
begin

text \<open>
  \<^verbatim>\<open>common/multi_level_queue.h\<close>: a queue with a list for each of up to 64 priorities, 0 being the highest, and a
  word with a bit for each list that is not empty. A position in a list is a number; the iterator of the queue is a priority and a
  position, and has the priority \<^verbatim>\<open>Depth\<close> at the end. The two queues of a transfer are different
  objects. An index outside the array of lists, the first element of an empty list, splicing the end of a list, and a shift by
  64 bits are undefined.
\<close>

unbundle bit_operations_syntax

section \<open>The code\<close>

record 'a MultiLevelQueue =
  mlq_levels :: "'a list list"
  mlq_used_priorities :: u64

definition mk_MultiLevelQueue :: "nat \<Rightarrow> 'a MultiLevelQueue" where
  "mk_MultiLevelQueue depth = \<lparr>mlq_levels = replicate depth [], mlq_used_priorities = 0\<rparr>"

definition mlq_depth :: "'a MultiLevelQueue \<Rightarrow> nat" where
  "mlq_depth q = length (mlq_levels q)"

definition level :: "'a MultiLevelQueue \<Rightarrow> u32 \<Rightarrow> 'a list option" where
  "level q priority = nth_opt (mlq_levels q) (unat priority)"

text \<open>\<^verbatim>\<open>1ULL << n\<close>\<close>

definition shift_one :: "nat \<Rightarrow> u64 option" where
  "shift_one n = (if n < 64 then Some (push_bit n 1) else None)"

definition ListIterateTo :: "'a list \<Rightarrow> 'a \<Rightarrow> nat" where
  "ListIterateTo xs x = length (takeWhile (\<lambda>y. y \<noteq> x) xs)"

definition ListShiftForward :: "'a list \<Rightarrow> nat \<Rightarrow> 'a list" where
  "ListShiftForward xs shift = (if shift \<ge> length xs then xs else drop shift xs @ take shift xs)"

text \<open>Moving the element at a position to the front or to the back of another list; the end has no element.\<close>

definition ListSplice_front :: "'a list \<Rightarrow> 'a list \<Rightarrow> nat \<Rightarrow> ('a list \<times> 'a list) option" where
  "ListSplice_front in_list out_list i = do {
     x \<leftarrow> nth_opt out_list i;
     Some (x # in_list, take i out_list @ drop (i + 1) out_list)
   }"

definition ListSplice_back :: "'a list \<Rightarrow> 'a list \<Rightarrow> nat \<Rightarrow> ('a list \<times> 'a list) option" where
  "ListSplice_back in_list out_list i = do {
     x \<leftarrow> nth_opt out_list i;
     Some (in_list @ [x], take i out_list @ drop (i + 1) out_list)
   }"

definition mlq_add :: "'a \<Rightarrow> u32 \<Rightarrow> bool \<Rightarrow> 'a MultiLevelQueue \<Rightarrow> 'a MultiLevelQueue option" where
  "mlq_add element priority send_back q = do {
     xs \<leftarrow> level q priority;
     levels \<leftarrow> upd_opt (mlq_levels q) (unat priority) (if send_back then xs @ [element] else element # xs);
     b \<leftarrow> shift_one (unat priority);
     Some \<lparr>mlq_levels = levels, mlq_used_priorities = mlq_used_priorities q OR b\<rparr>
   }"

definition clear_if_empty :: "u32 \<Rightarrow> 'a MultiLevelQueue \<Rightarrow> 'a MultiLevelQueue option" where
  "clear_if_empty priority q = do {
     xs \<leftarrow> level q priority;
     if xs = [] then do {
       b \<leftarrow> shift_one (unat priority);
       Some (q\<lparr>mlq_used_priorities := mlq_used_priorities q AND NOT b\<rparr>)
     }
     else Some q
   }"

definition mlq_remove :: "'a \<Rightarrow> u32 \<Rightarrow> 'a MultiLevelQueue \<Rightarrow> 'a MultiLevelQueue option" where
  "mlq_remove element priority q = do {
     xs \<leftarrow> level q priority;
     let i = ListIterateTo xs element;
     if i = length xs then Some q
     else do {
       levels \<leftarrow> upd_opt (mlq_levels q) (unat priority) (take i xs @ drop (i + 1) xs);
       clear_if_empty priority (q\<lparr>mlq_levels := levels\<rparr>)
     }
   }"

definition mlq_adjust :: "'a \<Rightarrow> u32 \<Rightarrow> u32 \<Rightarrow> bool \<Rightarrow> 'a MultiLevelQueue \<Rightarrow> 'a MultiLevelQueue option" where
  "mlq_adjust element old_priority new_priority adjust_front q = do {
     q \<leftarrow> mlq_remove element old_priority q;
     mlq_add element new_priority (\<not> adjust_front) q
   }"

text \<open>Both transfers; the result is this queue and the other one.\<close>

definition mlq_transfer ::
  "('a list \<Rightarrow> 'a list \<Rightarrow> nat \<Rightarrow> ('a list \<times> 'a list) option) \<Rightarrow> 'a \<Rightarrow> u32 \<Rightarrow>
    'a MultiLevelQueue \<Rightarrow> 'a MultiLevelQueue \<Rightarrow> ('a MultiLevelQueue \<times> 'a MultiLevelQueue) option" where
  "mlq_transfer move element priority q other = do {
     xs \<leftarrow> level q priority;
     ys \<leftarrow> level other priority;
     (ys, xs) \<leftarrow> move ys xs (ListIterateTo xs element);
     other_levels \<leftarrow> upd_opt (mlq_levels other) (unat priority) ys;
     levels \<leftarrow> upd_opt (mlq_levels q) (unat priority) xs;
     b \<leftarrow> shift_one (unat priority);
     q \<leftarrow> clear_if_empty priority (q\<lparr>mlq_levels := levels\<rparr>);
     Some (q, \<lparr>mlq_levels = other_levels, mlq_used_priorities = mlq_used_priorities other OR b\<rparr>)
   }"

definition transfer_to_front where
  "transfer_to_front = mlq_transfer ListSplice_front"

definition transfer_to_back where
  "transfer_to_back = mlq_transfer ListSplice_back"

definition mlq_yield :: "u32 \<Rightarrow> nat \<Rightarrow> 'a MultiLevelQueue \<Rightarrow> 'a MultiLevelQueue option" where
  "mlq_yield priority n q = do {
     xs \<leftarrow> level q priority;
     levels \<leftarrow> upd_opt (mlq_levels q) (unat priority) (ListShiftForward xs n);
     Some (q\<lparr>mlq_levels := levels\<rparr>)
   }"

definition size_at :: "u32 \<Rightarrow> 'a MultiLevelQueue \<Rightarrow> nat option" where
  "size_at priority q = map_option length (level q priority)"

definition mlq_empty :: "'a MultiLevelQueue \<Rightarrow> bool" where
  "mlq_empty q \<longleftrightarrow> mlq_used_priorities q = 0"

definition empty_at :: "u32 \<Rightarrow> 'a MultiLevelQueue \<Rightarrow> bool option" where
  "empty_at priority q = do {
     b \<leftarrow> shift_one (unat priority);
     Some (mlq_used_priorities q AND b = 0)
   }"

definition highest_priority_set :: "u32 \<Rightarrow> 'a MultiLevelQueue \<Rightarrow> u32 option" where
  "highest_priority_set max_priority q = do {
     priorities \<leftarrow> (if max_priority = 0 then Some (mlq_used_priorities q)
       else do {
         b \<leftarrow> shift_one (unat max_priority);
         Some (mlq_used_priorities q AND NOT (b - 1))
       });
     Some (if priorities = 0 then of_nat (mlq_depth q) else CountTrailingZeroes64 priorities)
   }"

definition lowest_priority_set :: "u32 \<Rightarrow> 'a MultiLevelQueue \<Rightarrow> u32 option" where
  "lowest_priority_set min_priority q = do {
     priorities \<leftarrow> (if min_priority \<ge> of_nat (mlq_depth q) - 1 then Some (mlq_used_priorities q)
       else do {
         b \<leftarrow> shift_one (unat (min_priority + 1));
         Some (mlq_used_priorities q AND (b - 1))
       });
     Some (if priorities = 0 then of_nat (mlq_depth q) else 63 - CountLeadingZeroes64 priorities)
   }"

definition mlq_front :: "u32 \<Rightarrow> 'a MultiLevelQueue \<Rightarrow> 'a option" where
  "mlq_front max_priority q = do {
     priority \<leftarrow> highest_priority_set max_priority q;
     xs \<leftarrow> level q (if priority = of_nat (mlq_depth q) then 0 else priority);
     nth_opt xs 0
   }"

definition mlq_back :: "u32 \<Rightarrow> 'a MultiLevelQueue \<Rightarrow> 'a option" where
  "mlq_back min_priority q = do {
     priority \<leftarrow> lowest_priority_set min_priority q;
     xs \<leftarrow> level q (if priority = of_nat (mlq_depth q) then 63 else priority);
     if xs = [] then None else Some (last xs)
   }"

definition mlq_clear :: "'a MultiLevelQueue \<Rightarrow> 'a MultiLevelQueue" where
  "mlq_clear q = \<lparr>mlq_levels = map (\<lambda>_. []) (mlq_levels q), mlq_used_priorities = 0\<rparr>"

section \<open>Loops over the used priorities\<close>

lemma unat_CountTrailingZeroes64: "w \<noteq> 0 \<Longrightarrow> unat (CountTrailingZeroes64 w) = builtin_ctz w"
  using builtin_ctz_props(2)[of w]
  by (simp add: CountTrailingZeroes64_def unsigned_of_nat take_bit_nat_eq_self)

lemma clear_bit_less:
  fixes w :: u64
  assumes "bit w n"
  shows "unat (w AND NOT (2 ^ n)) < unat w"
proof -
  have "w AND NOT (2 ^ n) \<le> w"
    by (rule word_and_le2)
  moreover have "\<not> bit (w AND NOT (2 ^ n)) n"
    using bit_imp_le_length[OF assms] by (simp add: bit_simps)
  then have "w AND NOT (2 ^ n) \<noteq> w"
    using assms by auto
  ultimately show ?thesis
    by (metis order.strict_iff_order word_less_nat_alt)
qed

function mlq_size_loop :: "'a MultiLevelQueue \<Rightarrow> u64 \<Rightarrow> nat \<Rightarrow> nat option" where
  "mlq_size_loop q priorities n =
     (if priorities = 0 then Some n
      else do {
        let current_priority = CountTrailingZeroes64 priorities;
        xs \<leftarrow> level q current_priority;
        mlq_size_loop q (priorities AND NOT (push_bit (unat current_priority) 1)) (n + length xs)
      })"
  by pat_completeness auto
termination
proof (relation "measure (\<lambda>(q, priorities, n). unat priorities)")
  fix q :: "'a MultiLevelQueue" and priorities :: u64 and n x xs
  assume "priorities \<noteq> 0" and "x = CountTrailingZeroes64 priorities"
  then show "((q, priorities AND NOT (push_bit (unat x) 1), n + length xs), q, priorities, n)
      \<in> measure (\<lambda>(q, priorities, n). unat priorities)"
    using builtin_ctz_props(1)[of priorities] by (simp add: unat_CountTrailingZeroes64 clear_bit_less)
qed simp

declare mlq_size_loop.simps [simp del]

definition mlq_size :: "'a MultiLevelQueue \<Rightarrow> nat option" where
  "mlq_size q = mlq_size_loop q (mlq_used_priorities q) 0"

section \<open>Iterators\<close>

record mlq_iterator =
  it_priority :: u32
  it_pos :: nat

definition IsEnd :: "'a MultiLevelQueue \<Rightarrow> mlq_iterator \<Rightarrow> bool" where
  "IsEnd q i \<longleftrightarrow> unat (it_priority i) = mlq_depth q"

definition mlq_end :: "'a MultiLevelQueue \<Rightarrow> mlq_iterator" where
  "mlq_end q = \<lparr>it_priority = of_nat (mlq_depth q), it_pos = 0\<rparr>"

definition mlq_begin :: "u32 \<Rightarrow> 'a MultiLevelQueue \<Rightarrow> mlq_iterator option" where
  "mlq_begin max_prio q = do {
     priority \<leftarrow> highest_priority_set max_prio q;
     Some (if priority = of_nat (mlq_depth q) then mlq_end q else \<lparr>it_priority = priority, it_pos = 0\<rparr>)
   }"

text \<open>\<^verbatim>\<open>end(min_prio)\<close>: behind the last element of the priority.\<close>

definition mlq_end_at :: "u32 \<Rightarrow> 'a MultiLevelQueue \<Rightarrow> mlq_iterator option" where
  "mlq_end_at min_prio q =
     (if min_prio = of_nat (mlq_depth q) - 1 then Some (mlq_end q) else mlq_begin (min_prio + 1) q)"

definition iterator_equal :: "'a MultiLevelQueue \<Rightarrow> mlq_iterator \<Rightarrow> mlq_iterator \<Rightarrow> bool" where
  "iterator_equal q i j \<longleftrightarrow> IsEnd q i \<and> IsEnd q j \<or> it_priority i = it_priority j \<and> it_pos i = it_pos j"

definition iterator_get :: "'a MultiLevelQueue \<Rightarrow> mlq_iterator \<Rightarrow> 'a option" where
  "iterator_get q i = do { xs \<leftarrow> level q (it_priority i); nth_opt xs (it_pos i) }"

definition iterator_next :: "'a MultiLevelQueue \<Rightarrow> mlq_iterator \<Rightarrow> mlq_iterator option" where
  "iterator_next q i =
     (if IsEnd q i then Some i
      else do {
        xs \<leftarrow> level q (it_priority i);
        let i = i\<lparr>it_pos := it_pos i + 1\<rparr>;
        if it_pos i = length xs then do {
          b \<leftarrow> shift_one (unat (it_priority i + 1));
          let prios = mlq_used_priorities q AND NOT (b - 1);
          if prios = 0 then Some (i\<lparr>it_priority := of_nat (mlq_depth q)\<rparr>)
          else Some \<lparr>it_priority = CountTrailingZeroes64 prios, it_pos = 0\<rparr>
        }
        else Some i
      })"

text \<open>The last position of a list; an empty list has none.\<close>

definition last_of :: "'a MultiLevelQueue \<Rightarrow> u32 \<Rightarrow> mlq_iterator option" where
  "last_of q priority = do {
     xs \<leftarrow> level q priority;
     if xs = [] then None else Some \<lparr>it_priority = priority, it_pos = length xs - 1\<rparr>
   }"

definition iterator_prev :: "'a MultiLevelQueue \<Rightarrow> mlq_iterator \<Rightarrow> mlq_iterator option" where
  "iterator_prev q i =
     (if IsEnd q i then
        (if mlq_used_priorities q \<noteq> 0 then last_of q (63 - CountLeadingZeroes64 (mlq_used_priorities q)) else Some i)
      else if it_pos i = 0 then do {
        b \<leftarrow> shift_one (unat (it_priority i));
        let prios = mlq_used_priorities q AND (b - 1);
        if prios \<noteq> 0 then last_of q (CountTrailingZeroes64 prios) else Some i
      }
      else Some (i\<lparr>it_pos := it_pos i - 1\<rparr>))"

section \<open>The invariant\<close>

text \<open>A bit of the word is set exactly for the lists that are not empty.\<close>

definition mlq_ok :: "'a MultiLevelQueue \<Rightarrow> bool" where
  "mlq_ok q \<longleftrightarrow> 0 < mlq_depth q \<and> mlq_depth q \<le> 64
     \<and> (\<forall>p < 64. bit (mlq_used_priorities q) p \<longleftrightarrow> p < mlq_depth q \<and> mlq_levels q ! p \<noteq> [])"

lemma mlq_ok_bit:
  "mlq_ok q \<Longrightarrow> bit (mlq_used_priorities q) p \<longleftrightarrow> p < mlq_depth q \<and> mlq_levels q ! p \<noteq> []"
  using bit_imp_le_length[of "mlq_used_priorities q" p] by (cases "p < 64") (auto simp: mlq_ok_def)

lemma shift_one_eq [simp]: "n < 64 \<Longrightarrow> shift_one n = Some (2 ^ n)"
  by (simp add: shift_one_def)

lemma level_eq [simp]: "unat p < mlq_depth q \<Longrightarrow> level q p = Some (mlq_levels q ! unat p)"
  by (simp add: level_def mlq_depth_def)

lemma bit_2p64 [simp]: "bit (2 ^ n :: u64) m \<longleftrightarrow> m = n \<and> n < 64"
  by (auto simp: bit_simps)

text \<open>The effect of each operation, for a priority below the depth: it is the one on the list of that priority.\<close>

definition with_level :: "nat \<Rightarrow> 'a list \<Rightarrow> 'a MultiLevelQueue \<Rightarrow> 'a MultiLevelQueue" where
  "with_level p xs q = \<lparr>mlq_levels = (mlq_levels q)[p := xs], mlq_used_priorities =
     (if xs = [] then mlq_used_priorities q AND NOT (2 ^ p) else mlq_used_priorities q OR 2 ^ p)\<rparr>"

lemma with_level_depth [simp]: "mlq_depth (with_level p xs q) = mlq_depth q"
  by (simp add: with_level_def mlq_depth_def)

lemma with_level_levels [simp]: "mlq_levels (with_level p xs q) = (mlq_levels q)[p := xs]"
  by (simp add: with_level_def)

lemma with_level_ok: "mlq_ok q \<Longrightarrow> p < mlq_depth q \<Longrightarrow> mlq_ok (with_level p xs q)"
  by (auto simp: mlq_ok_def with_level_def mlq_depth_def bit_simps nth_list_update)

lemma with_level_used:
  assumes "mlq_ok q" and "p < mlq_depth q" and "(xs = []) = (mlq_levels q ! p = [])"
  shows "with_level p xs q = q\<lparr>mlq_levels := (mlq_levels q)[p := xs]\<rparr>"
proof -
  have "(if xs = [] then mlq_used_priorities q AND NOT (2 ^ p) else mlq_used_priorities q OR 2 ^ p) = mlq_used_priorities q"
    using assms mlq_ok_bit[OF assms(1), of p] by (auto intro!: bit_word_eqI simp: bit_simps)
  then show ?thesis
    by (simp add: with_level_def)
qed

lemma mlq_add_eq:
  assumes "mlq_ok q" and "unat p < mlq_depth q"
  shows "mlq_add x p send_back q = Some (with_level (unat p)
    (if send_back then mlq_levels q ! unat p @ [x] else x # mlq_levels q ! unat p) q)"
  using assms by (simp add: mlq_add_def with_level_def mlq_ok_def mlq_depth_def level_def)

text \<open>Removing the element at its first position is \<open>remove1\<close>.\<close>

lemma remove_at_first:
  "take (ListIterateTo xs x) xs @ drop (ListIterateTo xs x + 1) xs = remove1 x xs"
  "ListIterateTo xs x = length xs \<longleftrightarrow> x \<notin> set xs"
  "ListIterateTo xs x \<le> length xs"
  "x \<in> set xs \<Longrightarrow> xs ! ListIterateTo xs x = x"
  by (induction xs) (auto simp: ListIterateTo_def)

lemma clear_if_empty_eq:
  assumes "mlq_ok q" and "unat p < mlq_depth q" and "xs = [] \<or> mlq_levels q ! unat p \<noteq> []"
  shows "clear_if_empty p (q\<lparr>mlq_levels := (mlq_levels q)[unat p := xs]\<rparr>) = Some (with_level (unat p) xs q)"
proof (cases "xs = []")
  case True
  then show ?thesis
    using assms by (simp add: clear_if_empty_def level_def with_level_def mlq_ok_def mlq_depth_def)
next
  case False
  then have "with_level (unat p) xs q = q\<lparr>mlq_levels := (mlq_levels q)[unat p := xs]\<rparr>"
    using assms by (intro with_level_used) auto
  then show ?thesis
    using assms False by (simp add: clear_if_empty_def level_def mlq_depth_def)
qed

lemma mlq_remove_eq:
  assumes "mlq_ok q" and "unat p < mlq_depth q"
  shows "mlq_remove x p q = Some (with_level (unat p) (remove1 x (mlq_levels q ! unat p)) q)"
proof (cases "x \<in> set (mlq_levels q ! unat p)")
  case False
  then show ?thesis
    using assms with_level_used[OF assms, of "mlq_levels q ! unat p"]
    by (simp add: mlq_remove_def Let_def remove_at_first remove1_idem)
next
  case True
  then have "mlq_levels q ! unat p \<noteq> []"
    by auto
  then show ?thesis
    using assms True clear_if_empty_eq[OF assms, of "remove1 x (mlq_levels q ! unat p)"]
    by (simp add: mlq_remove_def Let_def remove_at_first(1)[simplified] remove_at_first(2) mlq_depth_def)
qed

lemma mlq_yield_eq:
  assumes "mlq_ok q" and "unat p < mlq_depth q"
  shows "mlq_yield p n q = Some (with_level (unat p) (if n < length (mlq_levels q ! unat p)
    then rotate n (mlq_levels q ! unat p) else mlq_levels q ! unat p) q)"
proof -
  have "ListShiftForward (mlq_levels q ! unat p) n = (if n < length (mlq_levels q ! unat p)
      then rotate n (mlq_levels q ! unat p) else mlq_levels q ! unat p)"
    by (simp add: ListShiftForward_def rotate_drop_take not_le)
  then show ?thesis
    using assms with_level_used[OF assms, of "ListShiftForward (mlq_levels q ! unat p) n"]
    by (auto simp: mlq_yield_def mlq_depth_def)
qed

lemma mlq_clear_ok: "mlq_ok q \<Longrightarrow> mlq_ok (mlq_clear q)"
  by (simp add: mlq_ok_def mlq_clear_def mlq_depth_def)

lemma mk_MultiLevelQueue_ok: "0 < d \<Longrightarrow> d \<le> 64 \<Longrightarrow> mlq_ok (mk_MultiLevelQueue d)"
  by (simp add: mlq_ok_def mk_MultiLevelQueue_def mlq_depth_def)

lemma splice_eq:
  assumes "x \<in> set xs"
  shows "ListSplice_front ys xs (ListIterateTo xs x) = Some (x # ys, remove1 x xs)"
    and "ListSplice_back ys xs (ListIterateTo xs x) = Some (ys @ [x], remove1 x xs)"
proof -
  have "ListIterateTo xs x < length xs"
    using assms remove_at_first(2,3)[of xs x] by linarith
  then show "ListSplice_front ys xs (ListIterateTo xs x) = Some (x # ys, remove1 x xs)"
    and "ListSplice_back ys xs (ListIterateTo xs x) = Some (ys @ [x], remove1 x xs)"
    using assms remove_at_first(1)[of xs x] remove_at_first(4)[of x xs]
    by (simp_all add: ListSplice_front_def ListSplice_back_def)
qed

lemma splice_absent:
  assumes "x \<notin> set xs"
  shows "ListSplice_front ys xs (ListIterateTo xs x) = None" and "ListSplice_back ys xs (ListIterateTo xs x) = None"
  using assms remove_at_first(2)[of xs x] by (simp_all add: ListSplice_front_def ListSplice_back_def nth_opt_def)

lemma mlq_transfer_eq:
  assumes "mlq_ok q" "mlq_ok other" and "unat p < mlq_depth q" "mlq_depth other = mlq_depth q"
    and "move (mlq_levels other ! unat p) (mlq_levels q ! unat p) (ListIterateTo (mlq_levels q ! unat p) x)
      = Some (ys, remove1 x (mlq_levels q ! unat p))" and "ys \<noteq> []" and "x \<in> set (mlq_levels q ! unat p)"
  shows "mlq_transfer move x p q other
    = Some (with_level (unat p) (remove1 x (mlq_levels q ! unat p)) q, with_level (unat p) ys other)"
proof -
  have "unat p < 64"
    using assms(1,3) by (simp add: mlq_ok_def)
  moreover have "mlq_levels q ! unat p \<noteq> []"
    using assms(7) by auto
  moreover have "unat p < length (mlq_levels q)" "unat p < length (mlq_levels other)"
    using assms(3,4) by (simp_all add: mlq_depth_def)
  ultimately show ?thesis
    using assms clear_if_empty_eq[OF assms(1,3), of "remove1 x (mlq_levels q ! unat p)"]
    by (simp add: mlq_transfer_def with_level_def)
qed

section \<open>Scanning the word\<close>

text \<open>The first priority from \<open>m\<close> on, and the last up to \<open>m\<close>, whose list is not empty; the depth when there is none.\<close>

definition first_used :: "nat \<Rightarrow> 'a MultiLevelQueue \<Rightarrow> nat" where
  "first_used m q = (case find (\<lambda>p. mlq_levels q ! p \<noteq> []) [m ..< mlq_depth q] of None \<Rightarrow> mlq_depth q | Some p \<Rightarrow> p)"

definition last_used :: "nat \<Rightarrow> 'a MultiLevelQueue \<Rightarrow> nat" where
  "last_used m q = (case find (\<lambda>p. mlq_levels q ! p \<noteq> []) (rev [0 ..< min (m + 1) (mlq_depth q)]) of
     None \<Rightarrow> mlq_depth q | Some p \<Rightarrow> p)"

lemma first_used_cases:
  obtains (none) "first_used m q = mlq_depth q" "\<And>p. m \<le> p \<Longrightarrow> p < mlq_depth q \<Longrightarrow> mlq_levels q ! p = []"
  | (some) "m \<le> first_used m q" "first_used m q < mlq_depth q" "mlq_levels q ! first_used m q \<noteq> []"
      "\<And>p. m \<le> p \<Longrightarrow> p < first_used m q \<Longrightarrow> mlq_levels q ! p = []"
proof (cases "find (\<lambda>p. mlq_levels q ! p \<noteq> []) [m ..< mlq_depth q]")
  case None
  then show ?thesis
    using find_None_iff[THEN iffD1, OF None] by (intro none) (simp_all add: first_used_def)
next
  case (Some r)
  then obtain i where i: "i < mlq_depth q - m" "r = m + i" "mlq_levels q ! r \<noteq> []"
    and before: "\<And>j. j < i \<Longrightarrow> mlq_levels q ! (m + j) = []"
    by (auto simp: find_Some_iff)
  have "mlq_levels q ! p = []" if "m \<le> p" "p < r" for p
    using before[of "p - m"] that i(2) by simp
  then show ?thesis
    using Some i by (intro some) (auto simp: first_used_def)
qed

lemma last_used_cases:
  obtains (none) "last_used m q = mlq_depth q" "\<And>p. p \<le> m \<Longrightarrow> p < mlq_depth q \<Longrightarrow> mlq_levels q ! p = []"
  | (some) "last_used m q \<le> m" "last_used m q < mlq_depth q" "mlq_levels q ! last_used m q \<noteq> []"
      "\<And>p. p \<le> m \<Longrightarrow> last_used m q < p \<Longrightarrow> p < mlq_depth q \<Longrightarrow> mlq_levels q ! p = []"
proof (cases "find (\<lambda>p. mlq_levels q ! p \<noteq> []) (rev [0 ..< min (m + 1) (mlq_depth q)])")
  case None
  then show ?thesis
    using find_None_iff[THEN iffD1, OF None] by (intro none) (simp_all add: last_used_def)
next
  case (Some r)
  define n where "n = min (m + 1) (mlq_depth q)"
  have nth: "rev [0 ..< n] ! j = n - Suc j" if "j < n" for j
    using that by (simp add: rev_nth)
  obtain i where i: "i < n" "mlq_levels q ! (rev [0 ..< n] ! i) \<noteq> []" "r = rev [0 ..< n] ! i"
    and before: "\<And>j. j < i \<Longrightarrow> mlq_levels q ! (rev [0 ..< n] ! j) = []"
    using find_Some_iff[THEN iffD1, OF Some[folded n_def]] by auto
  have "mlq_levels q ! p = []" if "p \<le> m" "r < p" "p < mlq_depth q" for p
  proof -
    have p: "n - Suc p < i" "n - Suc (n - Suc p) = p" "n - Suc p < n"
      using that i nth[of i] by (auto simp: n_def)
    then show ?thesis
      using before[OF p(1)] nth[OF p(3)] by simp
  qed
  moreover have "r = n - Suc i"
    using i nth by simp
  ultimately show ?thesis
    using Some i by (intro some) (auto simp: last_used_def n_def)
qed

lemma ctz_eqI:
  fixes w :: u64
  assumes "bit w p" and "\<And>j. j < p \<Longrightarrow> \<not> bit w j"
  shows "CountTrailingZeroes64 w = of_nat p"
proof -
  have w: "w \<noteq> 0"
    using assms(1) by auto
  then have "builtin_ctz w = p"
    using builtin_ctz_props[OF w] assms by (metis nat_neq_iff)
  then show ?thesis
    using w by (simp add: CountTrailingZeroes64_def)
qed

lemma clz_eqI:
  fixes w :: u64
  assumes "bit w p" and "\<And>j. p < j \<Longrightarrow> \<not> bit w j"
  shows "63 - CountLeadingZeroes64 w = of_nat p"
proof -
  have p: "p < 64"
    using bit_imp_le_length[OF assms(1)] by simp
  have "takeWhile (\<lambda>i. \<not> bit w i) (rev [0 ..< 64]) = rev [Suc p ..< 64]"
  proof -
    have "[0 ..< 64] = [0 ..< p] @ p # [Suc p ..< 64]"
      using upt_add_eq_append[of 0 p "64 - p"] p by (simp add: upt_conv_Cons)
    then have "rev [0 ..< 64] = rev [Suc p ..< 64] @ p # rev [0 ..< p]"
      by (metis append.assoc append_Cons append_Nil rev.simps(2) rev_append)
    then show ?thesis
      using assms by (simp add: takeWhile_append)
  qed
  then have "builtin_clz w = 63 - p"
    by (simp add: builtin_clz_def)
  moreover have "w \<noteq> 0"
    using assms(1) by auto
  ultimately show ?thesis
    using p by (simp add: CountLeadingZeroes64_def of_nat_diff)
qed

lemma bit_from: "bit (w AND NOT (2 ^ m - 1)) p \<longleftrightarrow> bit w p \<and> m \<le> p" for w :: u64
  using bit_imp_le_length[of w p] by (auto simp: bit_simps simp flip: mask_eq_exp_minus_1)

lemma bit_upto: "bit (w AND (2 ^ m - 1)) p \<longleftrightarrow> bit w p \<and> p < m" for w :: u64
  using bit_imp_le_length[of w p] by (auto simp: bit_simps simp flip: mask_eq_exp_minus_1)

lemma scan_up:
  assumes "mlq_ok q" and "\<And>p. bit w p \<longleftrightarrow> bit (mlq_used_priorities q) p \<and> m \<le> p"
  shows "(if w = 0 then of_nat (mlq_depth q) else CountTrailingZeroes64 w) = of_nat (first_used m q)"
    and "w = 0 \<longleftrightarrow> first_used m q = mlq_depth q"
proof -
  note bits = assms(2)[unfolded mlq_ok_bit[OF assms(1)]]
  have "(if w = 0 then of_nat (mlq_depth q) else CountTrailingZeroes64 w) = of_nat (first_used m q)
    \<and> (w = 0 \<longleftrightarrow> first_used m q = mlq_depth q)"
  proof (cases rule: first_used_cases[of m q])
    case none
    then have "w = 0"
      by (intro bit_word_eqI) (auto simp: bits)
    then show ?thesis
      using none by simp
  next
    case some
    then have "bit w (first_used m q)"
      by (simp add: bits)
    moreover from this have "w \<noteq> 0"
      by auto
    moreover have "\<not> bit w j" if "j < first_used m q" for j
      using some(4) that by (auto simp: bits)
    ultimately show ?thesis
      using some(2) ctz_eqI by auto
  qed
  then show "(if w = 0 then of_nat (mlq_depth q) else CountTrailingZeroes64 w) = of_nat (first_used m q)"
    and "w = 0 \<longleftrightarrow> first_used m q = mlq_depth q"
    by blast+
qed

lemma highest_priority_set_eq:
  assumes "mlq_ok q" and "unat m < 64"
  shows "highest_priority_set m q = Some (of_nat (first_used (unat m) q))"
proof -
  have "unat m = 0 \<longleftrightarrow> m = 0"
    by (simp add: unat_eq_0)
  then show ?thesis
    using assms scan_up(1)[OF assms(1), of "mlq_used_priorities q" 0]
      scan_up(1)[OF assms(1), of "mlq_used_priorities q AND NOT (2 ^ unat m - 1)" "unat m"]
    by (simp add: highest_priority_set_def bit_from)
qed

lemma scan_down:
  assumes "mlq_ok q" and "\<And>p. bit w p \<longleftrightarrow> bit (mlq_used_priorities q) p \<and> p \<le> m"
  shows "(if w = 0 then of_nat (mlq_depth q) else 63 - CountLeadingZeroes64 w) = of_nat (last_used m q)"
proof -
  note bits = assms(2)[unfolded mlq_ok_bit[OF assms(1)]]
  show ?thesis
  proof (cases rule: last_used_cases[of m q])
    case none
    then have "w = 0"
      by (intro bit_word_eqI) (auto simp: bits)
    then show ?thesis
      using none by simp
  next
    case some
    then have "bit w (last_used m q)"
      by (simp add: bits)
    moreover from this have "w \<noteq> 0"
      by auto
    moreover have "\<not> bit w j" if "last_used m q < j" for j
      using some(4) that by (auto simp: bits)
    ultimately show ?thesis
      using some(2) clz_eqI by auto
  qed
qed

lemma lowest_priority_set_eq:
  assumes "mlq_ok q"
  shows "lowest_priority_set m q = Some (of_nat (last_used (unat m) q))"
proof -
  have d: "unat (of_nat (mlq_depth q) - 1 :: u32) = mlq_depth q - 1" "mlq_depth q \<le> 64" "0 < mlq_depth q"
    using assms by (simp_all add: mlq_ok_def unat_sub word_le_nat_alt unsigned_of_nat take_bit_nat_eq_self)
  show ?thesis
  proof (cases "m \<ge> of_nat (mlq_depth q) - 1")
    case True
    then have "bit (mlq_used_priorities q) p \<longleftrightarrow> bit (mlq_used_priorities q) p \<and> p \<le> unat m" for p
      using d mlq_ok_bit[OF assms, of p] by (auto simp: word_le_nat_alt)
    then show ?thesis
      using True scan_down[OF assms, of "mlq_used_priorities q" "unat m"] by (simp add: lowest_priority_set_def)
  next
    case False
    then have m: "unat m + 1 < mlq_depth q"
      using d by (simp add: word_le_nat_alt)
    then have "unat (m + 1) = unat m + 1"
      using d by (simp add: unat_word_ariths)
    then show ?thesis
      using False m d scan_down[OF assms, of "mlq_used_priorities q AND (2 ^ Suc (unat m) - 1)" "unat m"]
      by (simp add: lowest_priority_set_def bit_upto less_Suc_eq_le del: power_Suc)
  qed
qed

text \<open>The elements in the order of their priorities.\<close>

definition contents :: "'a MultiLevelQueue \<Rightarrow> 'a list" where
  "contents q = concat (mlq_levels q)"

lemma concat_empty:
  assumes "\<And>p. m \<le> p \<Longrightarrow> p < n \<Longrightarrow> p < length ls \<Longrightarrow> ls ! p = []"
  shows "concat (take (n - m) (drop m ls)) = []"
proof -
  have "ys = []" if ys: "ys \<in> set (take (n - m) (drop m ls))" for ys
  proof -
    from ys obtain i where "i < length (take (n - m) (drop m ls))" "ys = take (n - m) (drop m ls) ! i"
      by (auto simp: in_set_conv_nth)
    then show ?thesis
      using assms[of "m + i"] by (auto simp: less_diff_conv add.commute)
  qed
  then show ?thesis
    by simp
qed

lemma concat_from_first:
  "concat (drop m (mlq_levels q)) = (let r = first_used m q in
     if r = mlq_depth q then [] else mlq_levels q ! r @ concat (drop (r + 1) (mlq_levels q)))"
proof (cases rule: first_used_cases[of m q])
  case none
  then show ?thesis
    using concat_empty[of m "mlq_depth q" "mlq_levels q"] by (simp add: mlq_depth_def Let_def)
next
  case some
  let ?r = "first_used m q"
  have "drop m (mlq_levels q) = take (?r - m) (drop m (mlq_levels q)) @ drop ?r (mlq_levels q)"
    using some(1) by (metis append_take_drop_id drop_drop le_add_diff_inverse2)
  then have "concat (drop m (mlq_levels q)) = concat (drop ?r (mlq_levels q))"
    using concat_empty[of m ?r "mlq_levels q"] some(4) by (metis append_Nil concat_append)
  also have "drop ?r (mlq_levels q) = mlq_levels q ! ?r # drop (?r + 1) (mlq_levels q)"
    using some(2) by (simp add: Cons_nth_drop_Suc mlq_depth_def)
  finally show ?thesis
    using some(2) by (simp add: Let_def)
qed

lemma concat_to_last:
  "concat (take (m + 1) (mlq_levels q)) = (let r = last_used m q in
     if r = mlq_depth q then [] else concat (take r (mlq_levels q)) @ mlq_levels q ! r)"
proof (cases rule: last_used_cases[of m q])
  case none
  then show ?thesis
    using concat_empty[of 0 "m + 1" "mlq_levels q"] by (simp add: mlq_depth_def Let_def)
next
  case some
  let ?r = "last_used m q"
  have "take (m + 1) (mlq_levels q) = take (?r + 1) (mlq_levels q) @ take (m + 1 - (?r + 1)) (drop (?r + 1) (mlq_levels q))"
    using some(1) by (metis add_le_cancel_right le_add_diff_inverse take_add)
  moreover have "concat (take (m + 1 - (?r + 1)) (drop (?r + 1) (mlq_levels q))) = []"
    using some(4) by (intro concat_empty) (simp add: mlq_depth_def)
  moreover have "take (?r + 1) (mlq_levels q) = take ?r (mlq_levels q) @ [mlq_levels q ! ?r]"
    using some(2) by (simp add: take_Suc_conv_app_nth mlq_depth_def)
  ultimately have "concat (take (m + 1) (mlq_levels q)) = concat (take ?r (mlq_levels q)) @ mlq_levels q ! ?r"
    by (simp del: concat_eq_Nil_conv)
  then show ?thesis
    using some(2) by (simp add: Let_def)
qed

lemma unat_of_priority: "n \<le> 64 \<Longrightarrow> unat (of_nat n :: u32) = n"
  by (simp add: unsigned_of_nat take_bit_nat_eq_self)

lemma of_priority_eq: "m \<le> 64 \<Longrightarrow> n \<le> 64 \<Longrightarrow> (of_nat m :: u32) = of_nat n \<longleftrightarrow> m = n"
  by (metis unat_of_priority)

lemma mlq_front_eq:
  assumes "mlq_ok q" and "unat m < mlq_depth q" and "concat (drop (unat m) (mlq_levels q)) \<noteq> []"
  shows "mlq_front m q = Some (hd (concat (drop (unat m) (mlq_levels q))))"
proof (cases rule: first_used_cases[of "unat m" q])
  case none
  then show ?thesis
    using assms(3) by (simp add: concat_from_first Let_def)
next
  case some
  have d: "mlq_depth q \<le> 64"
    using assms(1) by (simp add: mlq_ok_def)
  then have "unat m < 64" "first_used (unat m) q \<le> 64"
    using assms(2) some(2) by simp_all
  then show ?thesis
    using some assms d highest_priority_set_eq[OF assms(1), of m]
    by (simp add: mlq_front_def of_priority_eq unat_of_priority concat_from_first[of "unat m"] Let_def hd_conv_nth nth_append)
qed

lemma mlq_back_eq:
  assumes "mlq_ok q" and "concat (take (unat m + 1) (mlq_levels q)) \<noteq> []"
  shows "mlq_back m q = Some (last (concat (take (unat m + 1) (mlq_levels q))))"
proof (cases rule: last_used_cases[of "unat m" q])
  case none
  then show ?thesis
    using assms(2) concat_to_last[of "unat m" q] by (simp add: Let_def)
next
  case some
  have d: "mlq_depth q \<le> 64"
    using assms(1) by (simp add: mlq_ok_def)
  then have "last_used (unat m) q \<le> 64"
    using some(2) by simp
  then show ?thesis
    using some d lowest_priority_set_eq[OF assms(1), of m] concat_to_last[of "unat m" q]
    by (simp add: mlq_back_def of_priority_eq unat_of_priority Let_def)
qed

text \<open>The loop that adds up the sizes: what is left are the lists from a priority on.\<close>

lemma mlq_size_loop_eq:
  assumes "mlq_ok q" and "\<And>p. bit w p \<longleftrightarrow> bit (mlq_used_priorities q) p \<and> m \<le> p"
  shows "mlq_size_loop q w n = Some (n + length (concat (drop m (mlq_levels q))))"
  using assms(2)
proof (induction "mlq_depth q - m" arbitrary: m w n rule: less_induct)
  case less
  note scan = scan_up[OF assms(1) less.prems]
  show ?case
  proof (cases rule: first_used_cases[of m q])
    case none
    then show ?thesis
      using scan by (subst mlq_size_loop.simps) (simp add: concat_from_first[of m] Let_def)
  next
    case some
    let ?r = "first_used m q"
    have d: "mlq_depth q \<le> 64"
      using assms(1) by (simp add: mlq_ok_def)
    have w: "w \<noteq> 0" "CountTrailingZeroes64 w = of_nat ?r"
      using scan some(2) by auto
    have r: "unat (of_nat ?r :: u32) = ?r"
      using some(2) d by (simp add: unat_of_priority)
    have "bit (w AND NOT (2 ^ ?r)) p \<longleftrightarrow> bit (mlq_used_priorities q) p \<and> ?r + 1 \<le> p" for p
      using less.prems[of p] some(1,4) mlq_ok_bit[OF assms(1), of p] bit_imp_le_length[of w p]
      by (auto simp: bit_simps not_less_eq_eq[symmetric] Suc_le_eq dest: le_neq_implies_less)
    then have "mlq_size_loop q (w AND NOT (2 ^ ?r)) (n + length (mlq_levels q ! ?r))
        = Some (n + length (mlq_levels q ! ?r) + length (concat (drop (?r + 1) (mlq_levels q))))"
      using less.hyps[of "?r + 1" "w AND NOT (2 ^ ?r)"] some(1,2) by simp
    then show ?thesis
      using w r some(2) by (subst mlq_size_loop.simps) (simp add: concat_from_first[of m] Let_def)
  qed
qed

lemma mlq_size_eq: "mlq_ok q \<Longrightarrow> mlq_size q = Some (length (contents q))"
  using mlq_size_loop_eq[of q "mlq_used_priorities q" 0 0] by (simp add: mlq_size_def contents_def)

lemma mlq_empty_eq: "mlq_ok q \<Longrightarrow> mlq_empty q \<longleftrightarrow> contents q = []"
  using scan_up(2)[of q "mlq_used_priorities q" 0] concat_from_first[of 0 q] first_used_cases[of 0 q]
  by (auto simp: mlq_empty_def contents_def Let_def)

section \<open>Iterating\<close>

text \<open>A loop over the queue from an iterator to the end, collecting the elements.\<close>

partial_function (option) traverse :: "'a MultiLevelQueue \<Rightarrow> mlq_iterator \<Rightarrow> 'a list option" where
  "traverse q i =
     (if iterator_equal q i (mlq_end q) then Some []
      else do {
        x \<leftarrow> iterator_get q i;
        i \<leftarrow> iterator_next q i;
        xs \<leftarrow> traverse q i;
        Some (x # xs)
      })"

lemma iterator_equal_end: "mlq_ok q \<Longrightarrow> iterator_equal q i (mlq_end q) \<longleftrightarrow> IsEnd q i"
  by (auto simp: iterator_equal_def IsEnd_def mlq_end_def mlq_ok_def unat_of_priority)

text \<open>The iterator at a position of a list, and the one that follows the last position of a list.\<close>

abbreviation at :: "nat \<Rightarrow> nat \<Rightarrow> mlq_iterator" where
  "at p i \<equiv> \<lparr>it_priority = of_nat p, it_pos = i\<rparr>"

lemma iterator_next_inside:
  assumes "mlq_ok q" and "p < mlq_depth q" and "i + 1 < length (mlq_levels q ! p)"
  shows "iterator_next q (at p i) = Some (at p (i + 1))"
  using assms by (simp add: iterator_next_def IsEnd_def unat_of_priority mlq_ok_def Let_def)

lemma iterator_next_level:
  assumes "mlq_ok q" and "p < mlq_depth q" and "i + 1 = length (mlq_levels q ! p)" and "p \<noteq> 63"
  shows "iterator_next q (at p i) = Some (let r = first_used (p + 1) q in at r (if r = mlq_depth q then i + 1 else 0))"
proof -
  have p: "p < 63" "mlq_depth q \<le> 64"
    using assms by (simp_all add: mlq_ok_def)
  then have "unat (of_nat p + 1 :: u32) = p + 1"
    using unat_of_priority[of "p + 1"] by (simp add: add.commute)
  then show ?thesis
    using assms p scan_up[OF assms(1), of "mlq_used_priorities q AND NOT (2 ^ Suc p - 1)" "p + 1"]
    by (auto simp: iterator_next_def IsEnd_def unat_of_priority Let_def bit_from simp del: power_Suc split: if_splits)
qed

lemma iterator_next_undefined:
  assumes "mlq_ok q" and "mlq_depth q = 64" and "i + 1 = length (mlq_levels q ! 63)"
  shows "iterator_next q (at 63 i) = None"
  using assms by (simp add: iterator_next_def IsEnd_def shift_one_def Let_def)

lemma traverse_from:
  assumes "mlq_ok q" and "mlq_depth q = 64 \<Longrightarrow> mlq_levels q ! 63 = []"
    and "p < mlq_depth q" and "i < length (mlq_levels q ! p)"
  shows "traverse q (at p i) = Some (drop i (mlq_levels q ! p) @ concat (drop (p + 1) (mlq_levels q)))"
  using assms(3,4)
proof (induction "length (drop i (mlq_levels q ! p) @ concat (drop (p + 1) (mlq_levels q)))" arbitrary: p i rule: less_induct)
  case less
  have d: "mlq_depth q \<le> 64"
    using assms(1) by (simp add: mlq_ok_def)
  let ?xs = "mlq_levels q ! p"
  have get: "iterator_get q (at p i) = Some (?xs ! i)" and "\<not> iterator_equal q (at p i) (mlq_end q)"
    using less.prems d assms(1) by (simp_all add: iterator_get_def iterator_equal_end IsEnd_def unat_of_priority)
  then have step: "traverse q (at p i) = do {
      j \<leftarrow> iterator_next q (at p i); xs \<leftarrow> traverse q j; Some (?xs ! i # xs) }"
    by (subst traverse.simps) simp
  have drop: "drop i ?xs = ?xs ! i # drop (i + 1) ?xs"
    using less.prems by (simp add: Cons_nth_drop_Suc)
  show ?case
  proof (cases "i + 1 < length ?xs")
    case True
    then have "traverse q (at p (i + 1)) = Some (drop (i + 1) ?xs @ concat (drop (p + 1) (mlq_levels q)))"
      using less.hyps[of "i + 1" p] less.prems drop by simp
    then show ?thesis
      using step iterator_next_inside[OF assms(1) less.prems(1) True] drop by simp
  next
    case False
    then have i: "i + 1 = length ?xs"
      using less.prems by simp
    moreover have "p \<noteq> 63"
      using assms(2) less.prems d by auto
    ultimately have "iterator_next q (at p i) = Some (let r = first_used (p + 1) q in at r (if r = mlq_depth q then i + 1 else 0))"
      using iterator_next_level[OF assms(1) less.prems(1)] by simp
    moreover have "traverse q (let r = first_used (p + 1) q in at r (if r = mlq_depth q then i + 1 else 0))
        = Some (concat (drop (p + 1) (mlq_levels q)))"
    proof (cases rule: first_used_cases[of "p + 1" q])
      case none
      then show ?thesis
        using assms(1) d by (subst traverse.simps)
          (simp add: iterator_equal_end IsEnd_def unat_of_priority concat_from_first[of "p + 1", simplified] Let_def)
    next
      case some
      then show ?thesis
        using less.hyps[of 0 "first_used (p + 1) q"] drop concat_from_first[of "p + 1" q]
        by (simp add: Let_def)
    qed
    ultimately show ?thesis
      using step drop i by simp
  qed
qed

lemma mlq_begin_eq:
  assumes "mlq_ok q" and "unat m < 64"
  shows "mlq_begin m q = Some (at (first_used (unat m) q) 0)"
proof -
  have "first_used (unat m) q \<le> mlq_depth q"
    by (cases rule: first_used_cases[of "unat m" q]) simp_all
  then show ?thesis
    using assms highest_priority_set_eq[OF assms]
    by (simp add: mlq_begin_def mlq_end_def)
qed

lemma traverse_begin:
  assumes "mlq_ok q" and "mlq_depth q = 64 \<Longrightarrow> mlq_levels q ! 63 = []" and "unat m < 64"
  shows "mlq_begin m q \<bind> traverse q = Some (concat (drop (unat m) (mlq_levels q)))"
proof (cases rule: first_used_cases[of "unat m" q])
  case none
  have "mlq_depth q \<le> 64"
    using assms(1) by (simp add: mlq_ok_def)
  then show ?thesis
    using none mlq_begin_eq[OF assms(1,3)] assms(1)
    by (simp add: concat_from_first[of "unat m"] Let_def, subst traverse.simps)
       (simp add: iterator_equal_end IsEnd_def unat_of_priority)
next
  case some
  then show ?thesis
    using mlq_begin_eq[OF assms(1,3)] traverse_from[OF assms(1,2), of "first_used (unat m) q" 0]
    by (simp add: concat_from_first[of "unat m"] Let_def)
qed

lemma iterator_prev_begin:
  assumes "mlq_ok q" and "r < mlq_depth q" and "first_used 0 q < r"
  shows "iterator_prev q (at r 0) = Some (at (first_used 0 q) (length (mlq_levels q ! first_used 0 q) - 1))"
proof -
  let ?f = "first_used 0 q" and ?w = "mlq_used_priorities q AND (2 ^ r - 1)"
  have d: "mlq_depth q \<le> 64"
    using assms(1) by (simp add: mlq_ok_def)
  have f: "mlq_levels q ! ?f \<noteq> []" "\<And>p. p < ?f \<Longrightarrow> mlq_levels q ! p = []"
    using assms(2,3) by (cases rule: first_used_cases[of 0 q]; simp)+
  have "bit ?w ?f" and "\<And>j. j < ?f \<Longrightarrow> \<not> bit ?w j"
    using f assms by (auto simp: bit_upto mlq_ok_bit)
  then have "CountTrailingZeroes64 ?w = of_nat ?f" and "?w \<noteq> 0"
    by (auto intro: ctz_eqI)
  then show ?thesis
    using assms d f by (simp add: iterator_prev_def IsEnd_def unat_of_priority last_of_def)
qed

section \<open>Runs\<close>

text \<open>Everything a program can do with two queues of the same depth.\<close>

inductive mlq_run :: "nat \<Rightarrow> 'a MultiLevelQueue \<times> 'a MultiLevelQueue \<Rightarrow> bool" for depth where
  create: "mlq_run depth (mk_MultiLevelQueue depth, mk_MultiLevelQueue depth)"
| swap: "mlq_run depth (q, other) \<Longrightarrow> mlq_run depth (other, q)"
| add: "mlq_run depth (q, other) \<Longrightarrow> mlq_add x p send_back q = Some q' \<Longrightarrow> mlq_run depth (q', other)"
| remove: "mlq_run depth (q, other) \<Longrightarrow> mlq_remove x p q = Some q' \<Longrightarrow> mlq_run depth (q', other)"
| adjust: "mlq_run depth (q, other) \<Longrightarrow> mlq_adjust x p p' adjust_front q = Some q' \<Longrightarrow> mlq_run depth (q', other)"
| yield: "mlq_run depth (q, other) \<Longrightarrow> mlq_yield p n q = Some q' \<Longrightarrow> mlq_run depth (q', other)"
| clear: "mlq_run depth (q, other) \<Longrightarrow> mlq_run depth (mlq_clear q, other)"
| to_front: "mlq_run depth (q, other) \<Longrightarrow> transfer_to_front x p q other = Some s \<Longrightarrow> mlq_run depth s"
| to_back: "mlq_run depth (q, other) \<Longrightarrow> transfer_to_back x p q other = Some s \<Longrightarrow> mlq_run depth s"

lemma level_defined: "level q p = Some xs \<longleftrightarrow> unat p < mlq_depth q \<and> xs = mlq_levels q ! unat p"
  by (auto simp: level_def nth_opt_def mlq_depth_def)

lemma mlq_op_defined:
  "mlq_add x p send_back q = Some q' \<Longrightarrow> unat p < mlq_depth q"
  "mlq_remove x p q = Some q' \<Longrightarrow> unat p < mlq_depth q"
  "mlq_yield p n q = Some q' \<Longrightarrow> unat p < mlq_depth q"
  by (auto simp: mlq_add_def mlq_remove_def mlq_yield_def level_defined split: bind_splits)

lemma transfer_effect:
  assumes "mlq_ok q" "mlq_ok other" and "mlq_depth other = mlq_depth q"
    and "transfer_to_front x p q other = Some s \<or> transfer_to_back x p q other = Some s"
  shows "unat p < mlq_depth q \<and> x \<in> set (mlq_levels q ! unat p)
    \<and> (\<exists>ys. s = (with_level (unat p) (remove1 x (mlq_levels q ! unat p)) q, with_level (unat p) ys other)
      \<and> (ys = x # mlq_levels other ! unat p \<or> ys = mlq_levels other ! unat p @ [x]))"
proof -
  have p: "unat p < mlq_depth q"
    using assms(4) by (auto simp: transfer_to_front_def transfer_to_back_def mlq_transfer_def level_defined split: bind_splits)
  have x: "x \<in> set (mlq_levels q ! unat p)"
    using assms(3,4) p splice_absent[of x "mlq_levels q ! unat p" "mlq_levels other ! unat p"]
    by (auto simp: transfer_to_front_def transfer_to_back_def mlq_transfer_def split: bind_splits)
  show ?thesis
    using assms(4) p x mlq_transfer_eq[OF assms(1,2) p assms(3), of ListSplice_front x] splice_eq[OF x, of "mlq_levels other ! unat p"]
      mlq_transfer_eq[OF assms(1,2) p assms(3), of ListSplice_back x]
    by (auto simp: transfer_to_front_def transfer_to_back_def)
qed

lemma mlq_run_ok:
  assumes "mlq_run depth s" and "0 < depth" "depth \<le> 64"
  shows "mlq_ok (fst s) \<and> mlq_ok (snd s) \<and> mlq_depth (fst s) = depth \<and> mlq_depth (snd s) = depth"
  using assms(1)
proof (induction rule: mlq_run.induct)
  case create
  then show ?case
    using assms mk_MultiLevelQueue_ok[OF assms(2,3)] by (simp add: mlq_depth_def mk_MultiLevelQueue_def)
next
  case (add q other x p send_back q')
  then show ?case
    using mlq_op_defined(1)[OF add.hyps(2)] mlq_add_eq[of q p] by (auto simp: with_level_ok)
next
  case (remove q other x p q')
  then show ?case
    using mlq_op_defined(2)[OF remove.hyps(2)] mlq_remove_eq[of q p] by (auto simp: with_level_ok)
next
  case (adjust q other x p p' adjust_front q')
  then obtain q1 where q1: "mlq_remove x p q = Some q1" "mlq_add x p' (\<not> adjust_front) q1 = Some q'"
    by (auto simp: mlq_adjust_def split: bind_splits)
  then have "mlq_ok q1 \<and> mlq_depth q1 = depth"
    using mlq_op_defined(2)[OF q1(1)] mlq_remove_eq[of q p] adjust.IH by (auto simp: with_level_ok)
  then show ?case
    using q1(2) mlq_op_defined(1)[OF q1(2)] mlq_add_eq[of q1 p'] adjust.IH by (auto simp: with_level_ok)
next
  case (yield q other p n q')
  then show ?case
    using mlq_op_defined(3)[OF yield.hyps(2)] mlq_yield_eq[of q p] by (auto simp: with_level_ok)
next
  case (clear q other)
  then show ?case
    using mlq_clear_ok[of q] by (simp add: mlq_depth_def mlq_clear_def)
next
  case (to_front q other x p s)
  then show ?case
    using transfer_effect[of q other x p s] by (auto simp: with_level_ok)
next
  case (to_back q other x p s)
  then show ?case
    using transfer_effect[of q other x p s] by (auto simp: with_level_ok)
qed simp

section \<open>Properties\<close>

text \<open>
  C26. Whatever sequence of operations is run on two queues with up to 64 priorities, transfers between them included,
  the word of used priorities agrees with the lists: its bits are exactly the priorities with an
  element, so that \<^verbatim>\<open>size\<close> is the number of elements and \<^verbatim>\<open>empty\<close> is true exactly when there are none.
\<close>

theorem MultiLevelQueue_invariant:
  assumes "mlq_run depth (q, other)" and "0 < depth" "depth \<le> 64"
  shows "(\<forall>p < 64. bit (mlq_used_priorities q) p \<longleftrightarrow> p < depth \<and> mlq_levels q ! p \<noteq> [])
    \<and> mlq_size q = Some (length (contents q)) \<and> (mlq_empty q \<longleftrightarrow> contents q = [])"
  using mlq_run_ok[OF assms] by (auto simp: mlq_size_eq mlq_empty_eq) (auto simp: mlq_ok_def)

text \<open>
  C25. A loop over the queue from a priority on visits every element of that priority and the lower ones exactly once, the
  higher priorities first and in the order of the list within a priority; \<^verbatim>\<open>front\<close> and \<^verbatim>\<open>back\<close> are its first
  and last elements. This holds when the lowest of 64 priorities is not used: otherwise
  the iterator shifts by 64 bits behind that priority.
\<close>

theorem MultiLevelQueue_iterates_by_priority:
  assumes "mlq_ok q" and "unat m < mlq_depth q" and "mlq_depth q = 64 \<longrightarrow> mlq_levels q ! 63 = []"
  shows "mlq_begin m q \<bind> traverse q = Some (concat (drop (unat m) (mlq_levels q)))
    \<and> (if concat (drop (unat m) (mlq_levels q)) \<noteq> []
       then mlq_front m q = Some (hd (concat (drop (unat m) (mlq_levels q))))
         \<and> mlq_back (of_nat (mlq_depth q) - 1) q = Some (last (concat (drop (unat m) (mlq_levels q)))) else True)"
proof -
  let ?rest = "concat (drop (unat m) (mlq_levels q))"
  have d: "0 < mlq_depth q" "mlq_depth q \<le> 64"
    using assms(1) by (simp_all add: mlq_ok_def)
  then have "unat (of_nat (mlq_depth q) - 1 :: u32) = mlq_depth q - 1"
    using unat_of_priority[of "mlq_depth q"] by (simp add: unat_sub word_le_nat_alt)
  then have all: "take (unat (of_nat (mlq_depth q) - 1 :: u32) + 1) (mlq_levels q) = mlq_levels q"
    using d by (simp add: mlq_depth_def)
  have split: "concat (mlq_levels q) = concat (take (unat m) (mlq_levels q)) @ ?rest"
    by (metis append_take_drop_id concat_append)
  have "mlq_back (of_nat (mlq_depth q) - 1) q = Some (last ?rest)" if "?rest \<noteq> []"
    using mlq_back_eq[OF assms(1), of "of_nat (mlq_depth q) - 1", unfolded all] that
    unfolding split by (simp del: concat_eq_Nil_conv)
  moreover have "mlq_front m q = Some (hd ?rest)" if "?rest \<noteq> []"
    using mlq_front_eq[OF assms(1,2) that] .
  moreover have "mlq_begin m q \<bind> traverse q = Some ?rest"
    using traverse_begin[OF assms(1), of m] assms(2,3) d by simp
  ultimately show ?thesis
    by presburger
qed

definition example_queue :: "nat MultiLevelQueue" where
  "example_queue = \<lparr>mlq_levels = [[10, 11], [], [20], [30]], mlq_used_priorities = 13\<rparr>"

lemma example_queue_ok: "mlq_ok example_queue"
proof -
  have "bit (13 :: u64) p \<longleftrightarrow> p = 0 \<or> p = 2 \<or> p = 3" if "p < 64" for p
  proof -
    have "(13 :: u64) = 2 ^ 0 OR 2 ^ 2 OR 2 ^ 3"
      by simp
    then show ?thesis
      by (simp only: bit_or_iff bit_2p64) simp
  qed
  then show ?thesis
    by (auto simp: mlq_ok_def example_queue_def mlq_depth_def nth_Cons split: nat.splits)
qed

theorem MultiLevelQueue_iterates_by_priority_witness:
  "mlq_begin 1 example_queue \<bind> traverse example_queue = Some [20, 30] \<and> mlq_front 1 example_queue = Some 20"
  using MultiLevelQueue_iterates_by_priority[OF example_queue_ok, of 1] by (simp add: mlq_depth_def) (simp add: example_queue_def)

theorem MultiLevelQueue_invariant_witness:
  "\<exists>q. mlq_add (7 :: nat) 5 True (mk_MultiLevelQueue 8) = Some q \<and> mlq_size q = Some (length (contents q)) \<and> \<not> mlq_empty q"
proof -
  let ?q = "with_level 5 [7 :: nat] (mk_MultiLevelQueue 8)"
  have add: "mlq_add (7 :: nat) 5 True (mk_MultiLevelQueue 8) = Some ?q"
    using mlq_add_eq[OF mk_MultiLevelQueue_ok[of 8], of 5 7 True]
    by (simp add: mlq_depth_def mk_MultiLevelQueue_def)
  have "contents ?q \<noteq> []"
    by (simp add: contents_def mk_MultiLevelQueue_def numeral_eq_Suc)
  moreover have "mlq_run 8 (?q, mk_MultiLevelQueue 8)"
    by (rule mlq_run.add[OF mlq_run.create add])
  ultimately show ?thesis
    using MultiLevelQueue_invariant[of 8 ?q "mk_MultiLevelQueue 8"] add by simp
qed

text \<open>
  C27. Going one element forward across the end of a priority and one back again leads to the element one started from
  only if that priority is the highest in use: going back from the first element of a
  priority leads to the last element of the highest priority in use, not of the preceding one.
\<close>

theorem iterator_prev_undoes_next_iff:
  assumes "mlq_ok q" and "p < mlq_depth q" and "mlq_levels q ! p \<noteq> []"
    and "r = first_used (p + 1) q" and "r < mlq_depth q"
  defines "i \<equiv> \<lparr>it_priority = of_nat p, it_pos = length (mlq_levels q ! p) - 1\<rparr>"
  defines "j \<equiv> \<lparr>it_priority = of_nat r, it_pos = 0\<rparr>"
  shows "iterator_next q i = Some j \<and> (iterator_prev q j = Some i \<longleftrightarrow> first_used 0 q = p)"
proof -
  have d: "mlq_depth q \<le> 64"
    using assms(1) by (simp add: mlq_ok_def)
  have r: "p < r"
    using assms(4,5) by (cases rule: first_used_cases[of "p + 1" q]) simp_all
  have f: "first_used 0 q \<le> p"
    using assms(2,3) by (cases rule: first_used_cases[of 0 q]) (auto simp: not_less[symmetric])
  have "iterator_next q i = Some j"
    using iterator_next_level[OF assms(1,2), of "length (mlq_levels q ! p) - 1"] assms(3-5) r d
    by (simp add: i_def j_def Let_def)
  moreover have "iterator_prev q j = Some (at (first_used 0 q) (length (mlq_levels q ! first_used 0 q) - 1))"
    using iterator_prev_begin[OF assms(1,5)] f r by (simp add: j_def)
  ultimately show ?thesis
    using f assms(2) d by (auto simp: i_def of_priority_eq)
qed

theorem iterator_prev_undoes_next_iff_witness:
  "iterator_next example_queue \<lparr>it_priority = 2, it_pos = 0\<rparr> = Some \<lparr>it_priority = 3, it_pos = 0\<rparr>
    \<and> iterator_prev example_queue \<lparr>it_priority = 3, it_pos = 0\<rparr> \<noteq> Some \<lparr>it_priority = 2, it_pos = 0\<rparr>"
proof -
  have "first_used 3 example_queue = 3" "first_used 0 example_queue = 0" "mlq_depth example_queue = 4"
    "mlq_levels example_queue ! 2 = [20]"
    by (simp_all add: first_used_def example_queue_def mlq_depth_def upt_conv_Cons)
  then show ?thesis
    using iterator_prev_undoes_next_iff[OF example_queue_ok, of 2 3] by simp
qed

end
