(* ===== verification/Macro_Interpreter.thy ===== *)
theory Macro_Interpreter
  imports Prelude
begin

text \<open>
  The macros of the graphics processor: the instruction format of \<^verbatim>\<open>video_core/macro/macro.h\<close> with the bit fields of
  \<^verbatim>\<open>common/bit_field.h\<close>, the interpreter of \<^verbatim>\<open>video_core/macro/macro_interpreter.cpp\<close> and the cache of
  \<^verbatim>\<open>video_core/macro/macro.cpp\<close>.

  The 3D engine the macros drive is an argument with its two calls, on a state \<open>'g\<close>. The buffer of parameters
  survives from one call to the next, so that its size is the capacity. Reading the code or the parameters past
  their ends, the first parameter of an empty list, a shift by 32 bits or more and an overflow of a signed number are
  undefined. The instructions run in a loop that may not end.
\<close>

unbundle bit_operations_syntax

section \<open>Instructions\<close>

text \<open>\<^verbatim>\<open>BitField<pos, bits, T>\<close>: the value for an unsigned and for a signed type, and the assignment.\<close>

definition ExtractValue :: "nat \<Rightarrow> nat \<Rightarrow> u32 \<Rightarrow> u32" where
  "ExtractValue position bits storage =
     drop_bit position (storage AND push_bit position (drop_bit (32 - bits) (NOT 0)))"

definition ExtractValue_signed :: "nat \<Rightarrow> nat \<Rightarrow> u32 \<Rightarrow> u32" where
  "ExtractValue_signed position bits storage =
     (let shift = 32 - bits in signed_drop_bit shift (push_bit (shift - position) storage))"

definition FormatValue :: "nat \<Rightarrow> nat \<Rightarrow> u32 \<Rightarrow> u32" where
  "FormatValue position bits v = push_bit position v AND push_bit position (drop_bit (32 - bits) (NOT 0))"

definition Assign :: "nat \<Rightarrow> nat \<Rightarrow> u32 \<Rightarrow> u32 \<Rightarrow> u32" where
  "Assign position bits v storage =
     (storage AND NOT (push_bit position (drop_bit (32 - bits) (NOT 0)))) OR FormatValue position bits v"

definition NUM_MACRO_REGISTERS :: nat where
  "NUM_MACRO_REGISTERS = 8"

datatype Operation =
    OpALU | AddImmediate | ExtractInsert | ExtractShiftLeftImmediate | ExtractShiftLeftRegister | OpRead | Unused | Branch

datatype ALUOperation =
    Add | AddWithCarry | Subtract | SubtractWithBorrow | OpXor | OpOr | OpAnd | AndNot | Nand | InvalidALU

datatype ResultOperation =
    IgnoreAndFetch | Move | MoveAndSetMethod | FetchAndSend | MoveAndSend | FetchAndSetMethod
  | MoveAndSetMethodFetchAndSend | MoveAndSetMethodSend

datatype BranchCondition = Zero | NotZero

text \<open>The fields of the union \<^verbatim>\<open>Opcode\<close>; a value that is no enumerator is possible for the ALU only.\<close>

definition operation :: "u32 \<Rightarrow> Operation" where
  "operation raw = [OpALU, AddImmediate, ExtractInsert, ExtractShiftLeftImmediate, ExtractShiftLeftRegister, OpRead,
     Unused, Branch] ! unat (ExtractValue 0 3 raw)"

definition result_operation :: "u32 \<Rightarrow> ResultOperation" where
  "result_operation raw = [IgnoreAndFetch, Move, MoveAndSetMethod, FetchAndSend, MoveAndSend, FetchAndSetMethod,
     MoveAndSetMethodFetchAndSend, MoveAndSetMethodSend] ! unat (ExtractValue 4 3 raw)"

definition branch_condition :: "u32 \<Rightarrow> BranchCondition" where
  "branch_condition raw = [Zero, NotZero] ! unat (ExtractValue 4 1 raw)"

definition branch_annul :: "u32 \<Rightarrow> bool" where
  "branch_annul raw \<longleftrightarrow> ExtractValue 5 1 raw \<noteq> 0"

definition is_exit :: "u32 \<Rightarrow> bool" where
  "is_exit raw \<longleftrightarrow> ExtractValue 7 1 raw \<noteq> 0"

definition dst :: "u32 \<Rightarrow> u32" where
  "dst raw = ExtractValue 8 3 raw"

definition src_a :: "u32 \<Rightarrow> u32" where
  "src_a raw = ExtractValue 11 3 raw"

definition src_b :: "u32 \<Rightarrow> u32" where
  "src_b raw = ExtractValue 14 3 raw"

definition immediate :: "u32 \<Rightarrow> u32" where
  "immediate raw = ExtractValue_signed 14 18 raw"

definition alu_operation :: "u32 \<Rightarrow> ALUOperation" where
  "alu_operation raw =
     (let v = unat (ExtractValue 17 5 raw)
      in if v < 13 then [Add, AddWithCarry, Subtract, SubtractWithBorrow, InvalidALU, InvalidALU, InvalidALU, InvalidALU,
           OpXor, OpOr, OpAnd, AndNot, Nand] ! v else InvalidALU)"

definition bf_src_bit :: "u32 \<Rightarrow> nat" where
  "bf_src_bit raw = unat (ExtractValue 17 5 raw)"

definition bf_size :: "u32 \<Rightarrow> nat" where
  "bf_size raw = unat (ExtractValue 22 5 raw)"

definition bf_dst_bit :: "u32 \<Rightarrow> nat" where
  "bf_dst_bit raw = unat (ExtractValue 27 5 raw)"

text \<open>
  The mask is computed with a signed \<^verbatim>\<open>1\<close>: for a size of 31, one is subtracted from the least \<^verbatim>\<open>int\<close>, an
  overflow.
\<close>

definition GetBitfieldMask :: "u32 \<Rightarrow> u32 option" where
  "GetBitfieldMask raw = (if bf_size raw = 31 then None else Some (push_bit (bf_size raw) 1 - 1))"

text \<open>The product is taken at 64 bits and cut to 32.\<close>

definition GetBranchTarget :: "u32 \<Rightarrow> u32" where
  "GetBranchTarget raw = ucast ((scast (immediate raw) :: u64) * 4)"

definition method_addr :: "u32 \<Rightarrow> u32" where
  "method_addr raw = ExtractValue 0 12 raw"

definition method_increment :: "u32 \<Rightarrow> u32" where
  "method_increment raw = ExtractValue 12 6 raw"

section \<open>The interpreter\<close>

text \<open>The calls into \<^verbatim>\<open>Engines::Maxwell3D\<close>.\<close>

record 'g Maxwell3D =
  CallMethodFromMME :: "u32 \<Rightarrow> u32 \<Rightarrow> 'g \<Rightarrow> 'g option"
  GetRegisterValue :: "u32 \<Rightarrow> 'g \<Rightarrow> u32 option"

record MacroInterpreterImpl =
  mi_pc :: u32
  mi_delayed_pc :: "u32 option"
  mi_registers :: "u32 list"
  mi_method_address :: u32
  mi_parameters :: "u32 list"
  mi_num_parameters :: nat
  mi_next_parameter_index :: u32
  mi_carry_flag :: bool

definition mk_MacroInterpreterImpl :: MacroInterpreterImpl where
  "mk_MacroInterpreterImpl = \<lparr>mi_pc = 0, mi_delayed_pc = None, mi_registers = replicate NUM_MACRO_REGISTERS 0,
     mi_method_address = 0, mi_parameters = [], mi_num_parameters = 0, mi_next_parameter_index = 0, mi_carry_flag = False\<rparr>"

definition Reset :: "MacroInterpreterImpl \<Rightarrow> MacroInterpreterImpl" where
  "Reset st = st\<lparr>mi_registers := replicate NUM_MACRO_REGISTERS 0, mi_pc := 0, mi_delayed_pc := None,
     mi_method_address := 0, mi_num_parameters := 0, mi_next_parameter_index := 1, mi_carry_flag := False\<rparr>"

definition GetRegister :: "u32 \<Rightarrow> MacroInterpreterImpl \<Rightarrow> u32 option" where
  "GetRegister register_id st = nth_opt (mi_registers st) (unat register_id)"

definition SetRegister :: "u32 \<Rightarrow> u32 \<Rightarrow> MacroInterpreterImpl \<Rightarrow> MacroInterpreterImpl option" where
  "SetRegister register_id v st =
     (if register_id = 0 then Some st
      else do {
        registers \<leftarrow> upd_opt (mi_registers st) (unat register_id) v;
        Some (st\<lparr>mi_registers := registers\<rparr>)
      })"

definition SetMethodAddress :: "u32 \<Rightarrow> MacroInterpreterImpl \<Rightarrow> MacroInterpreterImpl" where
  "SetMethodAddress address st = st\<lparr>mi_method_address := address\<rparr>"

definition Send :: "'g Maxwell3D \<Rightarrow> u32 \<Rightarrow> MacroInterpreterImpl \<times> 'g \<Rightarrow> (MacroInterpreterImpl \<times> 'g) option" where
  "Send gpu v s = (let st = fst s; m = mi_method_address st in do {
     g \<leftarrow> CallMethodFromMME gpu (method_addr m) v (snd s);
     Some (st\<lparr>mi_method_address := Assign 0 12 (method_addr m + method_increment m) m\<rparr>, g)
   })"

definition FetchParameter :: "MacroInterpreterImpl \<Rightarrow> (u32 \<times> MacroInterpreterImpl) option" where
  "FetchParameter st = do {
     v \<leftarrow> nth_opt (mi_parameters st) (unat (mi_next_parameter_index st));
     Some (v, st\<lparr>mi_next_parameter_index := mi_next_parameter_index st + 1\<rparr>)
   }"

definition GetOpcode :: "u32 list \<Rightarrow> MacroInterpreterImpl \<Rightarrow> u32 option" where
  "GetOpcode code st = nth_opt code (unat (mi_pc st) div 4)"

definition EvaluateBranchCondition :: "BranchCondition \<Rightarrow> u32 \<Rightarrow> bool" where
  "EvaluateBranchCondition c v = (case c of Zero \<Rightarrow> v = 0 | NotZero \<Rightarrow> v \<noteq> 0)"

text \<open>The sums and differences are taken at 64 bits. The result comes with the new carry flag.\<close>

definition GetALUResult :: "ALUOperation \<Rightarrow> u32 \<Rightarrow> u32 \<Rightarrow> bool \<Rightarrow> u32 \<times> bool" where
  "GetALUResult alu a b carry_flag = (case alu of
       Add \<Rightarrow> (let result = (ucast a :: u64) + ucast b in (ucast result, result > 0xFFFFFFFF))
     | AddWithCarry \<Rightarrow>
         (let result = (ucast a :: u64) + ucast b + (if carry_flag then 1 else 0)
          in (ucast result, result > 0xFFFFFFFF))
     | Subtract \<Rightarrow> (let result = (ucast a :: u64) - ucast b in (ucast result, result < 0x100000000))
     | SubtractWithBorrow \<Rightarrow>
         (let result = (ucast a :: u64) - ucast b - (if carry_flag then 0 else 1)
          in (ucast result, result < 0x100000000))
     | OpXor \<Rightarrow> (a XOR b, carry_flag)
     | OpOr \<Rightarrow> (a OR b, carry_flag)
     | OpAnd \<Rightarrow> (a AND b, carry_flag)
     | AndNot \<Rightarrow> (a AND NOT b, carry_flag)
     | Nand \<Rightarrow> (NOT (a AND b), carry_flag)
     | InvalidALU \<Rightarrow> (0, carry_flag))"

text \<open>Fetch a parameter into a register; move a result into it.\<close>

definition fetch_into :: "u32 \<Rightarrow> MacroInterpreterImpl \<times> 'g \<Rightarrow> (MacroInterpreterImpl \<times> 'g) option" where
  "fetch_into reg s = do {
     (v, st) \<leftarrow> FetchParameter (fst s);
     st \<leftarrow> SetRegister reg v st;
     Some (st, snd s)
   }"

definition move_into :: "u32 \<Rightarrow> u32 \<Rightarrow> MacroInterpreterImpl \<times> 'g \<Rightarrow> (MacroInterpreterImpl \<times> 'g) option" where
  "move_into reg v s = do {
     st \<leftarrow> SetRegister reg v (fst s);
     Some (st, snd s)
   }"

definition ProcessResult ::
  "'g Maxwell3D \<Rightarrow> ResultOperation \<Rightarrow> u32 \<Rightarrow> u32 \<Rightarrow> MacroInterpreterImpl \<times> 'g \<Rightarrow> (MacroInterpreterImpl \<times> 'g) option" where
  "ProcessResult gpu oper reg result s = (case oper of
       IgnoreAndFetch \<Rightarrow> fetch_into reg s
     | Move \<Rightarrow> move_into reg result s
     | MoveAndSetMethod \<Rightarrow> do {
         s \<leftarrow> move_into reg result s;
         Some (SetMethodAddress result (fst s), snd s)
       }
     | FetchAndSend \<Rightarrow> do {
         s \<leftarrow> fetch_into reg s;
         Send gpu result s
       }
     | MoveAndSend \<Rightarrow> do {
         s \<leftarrow> move_into reg result s;
         Send gpu result s
       }
     | FetchAndSetMethod \<Rightarrow> do {
         s \<leftarrow> fetch_into reg s;
         Some (SetMethodAddress result (fst s), snd s)
       }
     | MoveAndSetMethodFetchAndSend \<Rightarrow> do {
         s \<leftarrow> move_into reg result s;
         (v, st) \<leftarrow> FetchParameter (SetMethodAddress result (fst s));
         Send gpu v (st, snd s)
       }
     | MoveAndSetMethodSend \<Rightarrow> do {
         s \<leftarrow> move_into reg result s;
         Send gpu (drop_bit 12 result AND 0x3F) (SetMethodAddress result (fst s), snd s)
       })"

text \<open>A shift of a 32-bit value by a register.\<close>

definition macro_shr :: "u32 \<Rightarrow> u32 \<Rightarrow> u32 option" where
  "macro_shr v n = (if n < 32 then Some (drop_bit (unat n) v) else None)"

definition macro_shl :: "u32 \<Rightarrow> u32 \<Rightarrow> u32 option" where
  "macro_shl v n = (if n < 32 then Some (push_bit (unat n) v) else None)"

text \<open>
  The branches of the \<^verbatim>\<open>switch\<close> in \<^verbatim>\<open>Step\<close> that process a result: everything but the branch instruction.
\<close>

definition Step_operation ::
  "'g Maxwell3D \<Rightarrow> u32 \<Rightarrow> MacroInterpreterImpl \<times> 'g \<Rightarrow> (MacroInterpreterImpl \<times> 'g) option" where
  "Step_operation gpu raw s = (let process = (\<lambda>v s. ProcessResult gpu (result_operation raw) (dst raw) v s) in do {
     a \<leftarrow> GetRegister (src_a raw) (fst s);
     b \<leftarrow> GetRegister (src_b raw) (fst s);
     (case operation raw of
       OpALU \<Rightarrow>
         (let (v, c) = GetALUResult (alu_operation raw) a b (mi_carry_flag (fst s))
          in process v ((fst s)\<lparr>mi_carry_flag := c\<rparr>, snd s))
     | AddImmediate \<Rightarrow> process (a + immediate raw) s
     | ExtractInsert \<Rightarrow> do {
         mask \<leftarrow> GetBitfieldMask raw;
         let src = drop_bit (bf_src_bit raw) b AND mask;
         process ((a AND NOT (push_bit (bf_dst_bit raw) mask)) OR push_bit (bf_dst_bit raw) src) s
       }
     | ExtractShiftLeftImmediate \<Rightarrow> do {
         mask \<leftarrow> GetBitfieldMask raw;
         v \<leftarrow> macro_shr b a;
         process (push_bit (bf_dst_bit raw) (v AND mask)) s
       }
     | ExtractShiftLeftRegister \<Rightarrow> do {
         mask \<leftarrow> GetBitfieldMask raw;
         v \<leftarrow> macro_shl (drop_bit (bf_src_bit raw) b AND mask) a;
         process v s
       }
     | OpRead \<Rightarrow> do {
         v \<leftarrow> GetRegisterValue gpu (a + immediate raw) (snd s);
         process v s
       }
     | Unused \<Rightarrow> Some s
     | Branch \<Rightarrow> Some s)
   })"

text \<open>Fetching the instruction and moving the program counter.\<close>

definition Step_fetch :: "u32 list \<Rightarrow> MacroInterpreterImpl \<Rightarrow> (u32 \<times> MacroInterpreterImpl) option" where
  "Step_fetch code st = do {
     raw \<leftarrow> GetOpcode code st;
     Some (raw, case mi_delayed_pc st of
         None \<Rightarrow> st\<lparr>mi_pc := mi_pc st + 4\<rparr>
       | Some target \<Rightarrow> st\<lparr>mi_pc := target, mi_delayed_pc := None\<rparr>)
   }"

text \<open>
  \<^verbatim>\<open>Step\<close> calls itself for the delay slot of a branch that is taken and of an exit. Nothing stops a branch in a delay slot
  from having a delay slot again, so the recursion may not end.
\<close>

partial_function (option) Step ::
  "'g Maxwell3D \<Rightarrow> u32 list \<Rightarrow> bool \<Rightarrow> MacroInterpreterImpl \<times> 'g \<Rightarrow> (bool \<times> MacroInterpreterImpl \<times> 'g) option" where
  "Step gpu code is_delay_slot s = do {
     r \<leftarrow> Step_fetch code (fst s);
     a \<leftarrow> GetRegister (src_a (fst r)) (snd r);
     let raw = fst r;
     let st = snd r;
     let target = mi_pc (fst s) + GetBranchTarget raw;
     if operation raw = Branch \<and> EvaluateBranchCondition (branch_condition raw) a then
       (if branch_annul raw then Some (True, st\<lparr>mi_pc := target\<rparr>, snd s)
        else Step gpu code True (st\<lparr>mi_delayed_pc := Some target\<rparr>, snd s))
     else do {
       s \<leftarrow> Step_operation gpu raw (st, snd s);
       if is_exit raw \<and> \<not> is_delay_slot then do {
         r \<leftarrow> Step gpu code True s;
         Some (False, snd r)
       }
       else Some (True, s)
     }
   }"

partial_function (option) Macro_Execute_loop ::
  "'g Maxwell3D \<Rightarrow> u32 list \<Rightarrow> MacroInterpreterImpl \<times> 'g \<Rightarrow> (MacroInterpreterImpl \<times> 'g) option" where
  "Macro_Execute_loop gpu code s = do {
     r \<leftarrow> Step gpu code False s;
     if fst r then Macro_Execute_loop gpu code (snd r) else Some (snd r)
   }"

text \<open>The parameters are copied over the start of the buffer, which grows when they do not fit.\<close>

definition load_parameters :: "u32 list \<Rightarrow> MacroInterpreterImpl \<Rightarrow> MacroInterpreterImpl option" where
  "load_parameters params st = do {
     p \<leftarrow> nth_opt params 0;
     let st = st\<lparr>mi_registers := (mi_registers st)[1 := p], mi_num_parameters := length params\<rparr>;
     let buffer = (if length params > length (mi_parameters st) then replicate (length params) 0 else mi_parameters st);
     Some (st\<lparr>mi_parameters := params @ drop (length params) buffer\<rparr>)
   }"

definition Macro_Execute ::
  "'g Maxwell3D \<Rightarrow> u32 list \<Rightarrow> u32 list \<Rightarrow> MacroInterpreterImpl \<times> 'g \<Rightarrow> (MacroInterpreterImpl \<times> 'g) option" where
  "Macro_Execute gpu code params s = do {
     st \<leftarrow> load_parameters params (Reset (fst s));
     Macro_Execute_loop gpu code (st, snd s)
   }"

section \<open>The cache of macros\<close>

text \<open>
  An interpreted program refers to the vector of uploaded code with the key \<open>ci_code\<close>. What replaces known programs, found by a hash
  of the code, are arguments; so is the hash. The order of the uploaded code is the one in which the loop of \<^verbatim>\<open>Execute\<close>
  visits the unordered map.
\<close>

type_synonym 'g HLEProgram = "u32 list \<Rightarrow> u32 \<Rightarrow> 'g \<Rightarrow> 'g option"

record 'g CacheInfo =
  ci_code :: u32
  ci_lle_program :: MacroInterpreterImpl
  ci_hle_program :: "'g HLEProgram option"
  ci_hash :: u64

record 'g MacroEngine =
  me_macro_cache :: "u32 \<rightharpoonup> 'g CacheInfo"
  me_uploaded_macro_code :: "(u32 \<times> u32 list) list"

definition mk_MacroEngine :: "'g MacroEngine" where
  "mk_MacroEngine = \<lparr>me_macro_cache = Map.empty, me_uploaded_macro_code = []\<rparr>"

definition uploaded :: "'g MacroEngine \<Rightarrow> u32 \<Rightarrow> u32 list option" where
  "uploaded e method = map_of (me_uploaded_macro_code e) method"

definition AddCode :: "u32 \<Rightarrow> u32 \<Rightarrow> 'g MacroEngine \<Rightarrow> 'g MacroEngine" where
  "AddCode method data e = e\<lparr>me_uploaded_macro_code :=
     (case uploaded e method of
        None \<Rightarrow> me_uploaded_macro_code e @ [(method, [data])]
      | Some code \<Rightarrow> map (\<lambda>(m, c). if m = method then (m, c @ [data]) else (m, c)) (me_uploaded_macro_code e))\<rparr>"

text \<open>The program of a macro that is in the cache.\<close>

definition run_cached ::
  "'g Maxwell3D \<Rightarrow> u32 \<Rightarrow> u32 list \<Rightarrow> 'g CacheInfo \<Rightarrow> 'g MacroEngine \<times> 'g \<Rightarrow> ('g MacroEngine \<times> 'g) option" where
  "run_cached gpu method params info s = (case ci_hle_program info of
       Some program \<Rightarrow> do {
         g \<leftarrow> program params method (snd s);
         Some (fst s, g)
       }
     | None \<Rightarrow> do {
         code \<leftarrow> uploaded (fst s) (ci_code info);
         (st, g) \<leftarrow> Macro_Execute gpu code params (ci_lle_program info, snd s);
         Some ((fst s)\<lparr>me_macro_cache := (me_macro_cache (fst s))(method \<mapsto> info\<lparr>ci_lle_program := st\<rparr>)\<rparr>, g)
       })"

text \<open>The uploaded code a method lies in, and the code from the method on.\<close>

definition mid_method :: "u32 \<Rightarrow> 'g MacroEngine \<Rightarrow> (u32 \<times> u32 list) option" where
  "mid_method method e =
     find (\<lambda>(base, code). method \<ge> base \<and> unat (method - base) < length code) (me_uploaded_macro_code e)"

definition compile_code :: "u32 \<Rightarrow> 'g MacroEngine \<Rightarrow> 'g MacroEngine option" where
  "compile_code method e = (case uploaded e method of
       Some code \<Rightarrow> Some e
     | None \<Rightarrow> (case mid_method method e of
           None \<Rightarrow> None
         | Some (base, code) \<Rightarrow>
             Some (e\<lparr>me_uploaded_macro_code := me_uploaded_macro_code e @ [(method, drop (unat (method - base)) code)]\<rparr>)))"

definition MacroEngine_Execute ::
  "(u32 list \<Rightarrow> u64) \<Rightarrow> (u64 \<Rightarrow> 'g HLEProgram option) \<Rightarrow> 'g Maxwell3D \<Rightarrow> u32 \<Rightarrow> u32 list \<Rightarrow>
    'g MacroEngine \<times> 'g \<Rightarrow> ('g MacroEngine \<times> 'g) option" where
  "MacroEngine_Execute hash hle gpu method params s =
     (case me_macro_cache (fst s) method of
        Some info \<Rightarrow> run_cached gpu method params info s
      | None \<Rightarrow> (case compile_code method (fst s) of
            None \<Rightarrow> Some s
          | Some e \<Rightarrow> do {
              code \<leftarrow> uploaded e method;
              let info = \<lparr>ci_code = method, ci_lle_program = mk_MacroInterpreterImpl,
                ci_hle_program = hle (hash code), ci_hash = hash code\<rparr>;
              run_cached gpu method params info (e\<lparr>me_macro_cache := (me_macro_cache e)(method \<mapsto> info)\<rparr>, snd s)
            }))"

section \<open>Bit fields\<close>

lemma bit_ExtractValue:
  assumes "p + n \<le> 32" and "0 < n"
  shows "bit (ExtractValue p n w) k \<longleftrightarrow> k < n \<and> bit w (p + k)"
  using assms bit_imp_le_length[of w "p + k"] by (auto simp: ExtractValue_def bit_simps add.commute)

lemma ExtractValue_take_bit:
  assumes "p + n \<le> 32" and "0 < n"
  shows "ExtractValue p n w = take_bit n (drop_bit p w)"
  by (rule bit_word_eqI) (auto simp: bit_ExtractValue[OF assms] bit_simps)

lemma ExtractValue_less:
  assumes "p + n \<le> 32" and "0 < n"
  shows "unat (ExtractValue p n w) < 2 ^ n"
  unfolding ExtractValue_take_bit[OF assms] by (simp add: unsigned_take_bit_eq)

lemma bit_Assign:
  assumes "p + n \<le> 32" and "0 < n"
  shows "bit (Assign p n v w) k \<longleftrightarrow> (if p \<le> k \<and> k < p + n then bit v (k - p) else bit w k)"
proof (cases "k < 32")
  case True
  then show ?thesis
    using assms by (auto simp: Assign_def FormatValue_def bit_simps)
next
  case False
  then show ?thesis
    using assms bit_imp_le_length[of w k] bit_imp_le_length[of "Assign p n v w" k] by auto
qed

lemma method_fields:
  "method_addr (Assign 0 12 v m) = take_bit 12 v" "method_increment (Assign 0 12 v m) = method_increment m"
  by (rule bit_word_eqI; simp add: method_addr_def method_increment_def bit_ExtractValue bit_Assign bit_simps; fail)
     (rule bit_word_eqI; auto simp: method_addr_def method_increment_def bit_ExtractValue bit_Assign)

lemma register_fields: "unat (dst w) < 8" "unat (src_a w) < 8" "unat (src_b w) < 8"
  using ExtractValue_less[of 8 3 w] ExtractValue_less[of 11 3 w] ExtractValue_less[of 14 3 w]
  by (simp_all add: dst_def src_a_def src_b_def)

lemma bf_fields: "bf_src_bit w < 32" "bf_size w < 32" "bf_dst_bit w < 32"
  using ExtractValue_less[of 17 5 w] ExtractValue_less[of 22 5 w] ExtractValue_less[of 27 5 w]
  by (simp_all add: bf_src_bit_def bf_size_def bf_dst_bit_def)

lemma immediate_signed: "sint (immediate w) = sint w div 2 ^ 14"
  by (simp add: immediate_def ExtractValue_signed_def Let_def sint_signed_drop_bit_eq drop_bit_eq_div)

section \<open>Arithmetic\<close>

lemma unat_ucast_macro [simp]: "unat (ucast (a :: u32) :: u64) = unat a"
proof -
  have "unat a < 2 ^ LENGTH(32)"
    by (rule unsigned_less)
  then show ?thesis
    by (simp add: unsigned_ucast_eq take_bit_nat_eq_self)
qed

lemma unat_ucast_low: "unat (ucast (r :: u64) :: u32) = unat r mod 2 ^ 32"
  by (simp add: unsigned_ucast_eq take_bit_eq_mod)

lemma unat_u32_less: "unat (a :: u32) < 2 ^ 32"
proof -
  have "unat a < 2 ^ LENGTH(32)"
    by (rule unsigned_less)
  then show ?thesis
    by simp
qed

text \<open>One step of addition and of subtraction with more than one word; the carry flag is the inverse of a borrow.\<close>

lemma GetALUResult_add:
  "unat (fst (GetALUResult AddWithCarry a b c)) + 2 ^ 32 * of_bool (snd (GetALUResult AddWithCarry a b c))
    = unat a + unat b + of_bool c"
proof -
  let ?r = "(ucast a :: u64) + ucast b + (if c then 1 else 0)"
  have r: "unat ?r = unat a + unat b + of_bool c"
    using unat_u32_less[of a] unat_u32_less[of b] by (simp add: unat_word_ariths)
  have "unat a + unat b + of_bool c < 2 ^ 33"
    using unat_u32_less[of a] unat_u32_less[of b] by (cases c) simp_all
  moreover have "n mod 2 ^ 32 + 2 ^ 32 * of_bool (0xFFFFFFFF < n) = n" if "n < 2 ^ 33" for n :: nat
    using that by (cases "n < 2 ^ 32") (simp_all add: le_mod_geq not_less)
  ultimately show ?thesis
    unfolding GetALUResult_def Let_def ALUOperation.case fst_conv snd_conv unat_ucast_low word_less_nat_alt r by simp
qed

lemma GetALUResult_sub:
  "int (unat (fst (GetALUResult SubtractWithBorrow a b c))) - 2 ^ 32 * of_bool (\<not> snd (GetALUResult SubtractWithBorrow a b c))
    = int (unat a) - int (unat b) - of_bool (\<not> c)"
proof -
  let ?r = "(ucast a :: u64) - ucast b - (if c then 0 else 1)"
  define x :: nat where "x = of_bool (\<not> c)"
  define m where "m = 2 ^ 64 + unat a - (unat b + x)"
  have ab: "unat a < 2 ^ 32" "unat b < 2 ^ 32" "x \<le> 1"
    using unat_u32_less by (simp_all add: x_def)
  have "?r = of_nat m"
  proof -
    have "(of_nat m :: u64) = of_nat (2 ^ 64 + unat a) - of_nat (unat b + x)"
      unfolding m_def using ab by (intro of_nat_diff) simp
    also have "(of_nat (2 ^ 64 + unat a) :: u64) = ucast a"
      using ab by (simp add: word_unat_eq_iff unat_of_nat unat_word_ariths)
    also have "(of_nat (unat b + x) :: u64) = ucast b + of_nat x"
      by (simp add: word_unat_eq_iff unat_of_nat unat_word_ariths)
    finally show ?thesis
      by (simp add: x_def)
  qed
  then have r: "unat ?r = m mod 2 ^ 64"
    by (simp add: unat_of_nat)
  show ?thesis
  proof (cases "unat b + x \<le> unat a")
    case True
    then have "m = 2 ^ 64 + (unat a - (unat b + x))"
      by (simp add: m_def)
    then have "m mod 2 ^ 64 = unat a - (unat b + x)"
      using ab by simp
    then show ?thesis
      unfolding GetALUResult_def Let_def ALUOperation.case fst_conv snd_conv unat_ucast_low word_less_nat_alt r
      using True ab by (simp add: x_def of_nat_diff split: if_splits)
  next
    case False
    then have "m < 2 ^ 64" "m = (2 ^ 32 - 1) * 2 ^ 32 + (2 ^ 32 + unat a - (unat b + x))" "2 ^ 32 \<le> m"
      using ab by (simp_all add: m_def)
    then have "m mod 2 ^ 64 = m" "m mod 2 ^ 32 = (2 ^ 32 + unat a - (unat b + x)) mod 2 ^ 32" "\<not> m < 2 ^ 32"
      by (simp_all only: mod_less mod_mult_self3 mod_mult_self4 not_less)
    moreover have "(2 ^ 32 + unat a - (unat b + x)) mod 2 ^ 32 = 2 ^ 32 + unat a - (unat b + x)"
      using False by simp
    ultimately show ?thesis
      unfolding GetALUResult_def Let_def ALUOperation.case fst_conv snd_conv unat_ucast_low word_less_nat_alt r
      using False ab by (simp add: x_def of_nat_diff split: if_splits)
  qed
qed

lemma GetALUResult_first: "GetALUResult Add a b c = GetALUResult AddWithCarry a b False"
  "GetALUResult Subtract a b c = GetALUResult SubtractWithBorrow a b True"
  by (simp_all add: GetALUResult_def)

end
