(* ===== verification/Macro_Correct.thy ===== *)
theory Macro_Correct
  imports Macro_Interpreter
begin

text \<open>
  Correctness of the macro interpreter: registers keep their number and the first of them stays zero, carry and borrow
  chain 32-bit operations to wider ones, bit fields are moved as the format says, parameters sent in a row go to
  successive methods, and code without branches runs to its end.
\<close>

unbundle bit_operations_syntax

section \<open>The invariant\<close>

definition macro_ok :: "MacroInterpreterImpl \<Rightarrow> bool" where
  "macro_ok st \<longleftrightarrow> length (mi_registers st) = 8 \<and> mi_registers st ! 0 = 0"

text \<open>What no instruction changes.\<close>

definition same_parameters :: "MacroInterpreterImpl \<Rightarrow> MacroInterpreterImpl \<Rightarrow> bool" where
  "same_parameters st st' \<longleftrightarrow> mi_parameters st' = mi_parameters st \<and> mi_num_parameters st' = mi_num_parameters st"

lemma same_parameters_refl [simp]: "same_parameters st st"
  by (simp add: same_parameters_def)

lemma same_parameters_trans: "same_parameters st st' \<Longrightarrow> same_parameters st' st'' \<Longrightarrow> same_parameters st st''"
  by (simp add: same_parameters_def)

text \<open>A step that keeps the invariant and the position: the program counter is changed by the branches only.\<close>

definition keeps :: "MacroInterpreterImpl \<Rightarrow> MacroInterpreterImpl \<Rightarrow> bool" where
  "keeps st st' \<longleftrightarrow> macro_ok st' \<and> same_parameters st st' \<and> mi_pc st' = mi_pc st \<and> mi_delayed_pc st' = mi_delayed_pc st"

lemma keeps_trans: "keeps st st' \<Longrightarrow> keeps st' st'' \<Longrightarrow> keeps st st''"
  by (auto simp: keeps_def same_parameters_def)

lemma keeps_ok: "keeps st st' \<Longrightarrow> macro_ok st'"
  by (simp add: keeps_def)

lemma SetRegister_keeps:
  assumes "macro_ok st" and "unat r < 8"
  shows "\<exists>st'. SetRegister r v st = Some st' \<and> keeps st st' \<and> mi_next_parameter_index st' = mi_next_parameter_index st"
proof (cases "r = 0")
  case False
  then have "unat r \<noteq> 0"
    by (simp add: unat_eq_0)
  then show ?thesis
    using False assms by (auto simp: SetRegister_def macro_ok_def keeps_def same_parameters_def)
qed (use assms in \<open>simp add: SetRegister_def keeps_def\<close>)

lemma Send_keeps:
  assumes "macro_ok (fst s)" and "Send gpu v s = Some s'"
  shows "keeps (fst s) (fst s') \<and> mi_next_parameter_index (fst s') = mi_next_parameter_index (fst s)"
  using assms by (auto simp: Send_def Let_def keeps_def macro_ok_def same_parameters_def split: bind_splits)

lemma SetMethodAddress_keeps: "macro_ok st \<Longrightarrow> keeps st (SetMethodAddress v st)"
  by (simp add: SetMethodAddress_def keeps_def macro_ok_def same_parameters_def)

lemma FetchParameter_keeps:
  assumes "macro_ok st" and "FetchParameter st = Some (v, st')"
  shows "keeps st st'"
  using assms by (auto simp: FetchParameter_def keeps_def macro_ok_def same_parameters_def split: bind_splits)

text \<open>The instructions that fetch a parameter.\<close>

definition fetches :: "ResultOperation \<Rightarrow> nat" where
  "fetches oper = (if oper \<in> {IgnoreAndFetch, FetchAndSend, FetchAndSetMethod, MoveAndSetMethodFetchAndSend} then 1 else 0)"

text \<open>Engines that accept all the methods a macro can send to and can read every register.\<close>

definition accepts_methods :: "'g Maxwell3D \<Rightarrow> bool" where
  "accepts_methods gpu \<longleftrightarrow> (\<forall>a v g. unat a < 4096 \<longrightarrow> CallMethodFromMME gpu a v g \<noteq> None) \<and> (\<forall>a g. GetRegisterValue gpu a g \<noteq> None)"

lemma Send_accepts: "accepts_methods gpu \<Longrightarrow> \<exists>s'. Send gpu v s = Some s'"
  using ExtractValue_less[of 0 12 "mi_method_address (fst s)"]
  by (force simp: Send_def Let_def accepts_methods_def method_addr_def split: bind_splits)

lemma move_into_keeps:
  assumes "macro_ok (fst s)" and "unat r < 8"
  shows "\<exists>s'. move_into r v s = Some s' \<and> keeps (fst s) (fst s') \<and> snd s' = snd s
    \<and> mi_next_parameter_index (fst s') = mi_next_parameter_index (fst s)"
  using SetRegister_keeps[OF assms, of v] by (auto simp: move_into_def)

lemma fetch_into_keeps:
  assumes "macro_ok (fst s)" and "unat r < 8" and "fetch_into r s = Some s'"
  shows "keeps (fst s) (fst s') \<and> mi_next_parameter_index (fst s') = mi_next_parameter_index (fst s) + 1"
proof -
  obtain v st st' where f: "FetchParameter (fst s) = Some (v, st)" and r: "SetRegister r v st = Some st'" and s': "s' = (st', snd s)"
    using assms(3) by (auto simp: fetch_into_def split: bind_splits)
  have k: "keeps (fst s) st"
    using FetchParameter_keeps[OF assms(1) f] .
  moreover have "keeps st st' \<and> mi_next_parameter_index st' = mi_next_parameter_index st"
    using SetRegister_keeps[OF keeps_ok[OF k] assms(2), of v] r by auto
  moreover have "mi_next_parameter_index st = mi_next_parameter_index (fst s) + 1"
    using f by (auto simp: FetchParameter_def split: bind_splits)
  ultimately show ?thesis
    using s' by (auto intro: keeps_trans)
qed

lemma ProcessResult_keeps:
  assumes "macro_ok (fst s)" and "unat r < 8" and "ProcessResult gpu oper r v s = Some s'"
  shows "keeps (fst s) (fst s')
    \<and> mi_next_parameter_index (fst s') = mi_next_parameter_index (fst s) + of_nat (fetches oper)"
proof -
  obtain m where m: "move_into r v s = Some m" "keeps (fst s) (fst m)" "macro_ok (fst m)"
    "mi_next_parameter_index (fst m) = mi_next_parameter_index (fst s)"
    using move_into_keeps[OF assms(1,2), of v] keeps_ok by blast
  note f = fetch_into_keeps[OF assms(1,2)]
  have next_set: "mi_next_parameter_index (SetMethodAddress x st) = mi_next_parameter_index st" for x st
    by (simp add: SetMethodAddress_def)
  have next_fetch: "mi_next_parameter_index st' = mi_next_parameter_index st + 1" if "FetchParameter st = Some (x, st')" for x st st'
    using that by (auto simp: FetchParameter_def split: bind_splits)
  show ?thesis
  proof (cases oper)
    case MoveAndSetMethodFetchAndSend
    then obtain x st where x: "FetchParameter (SetMethodAddress v (fst m)) = Some (x, st)"
      and s': "Send gpu x (st, snd m) = Some s'"
      using assms(3) m(1) by (auto simp: ProcessResult_def split: bind_splits)
    have k: "keeps (fst m) (SetMethodAddress v (fst m))"
      using SetMethodAddress_keeps[OF m(3)] .
    have k': "keeps (SetMethodAddress v (fst m)) st"
      using FetchParameter_keeps[OF keeps_ok[OF k] x] .
    show ?thesis
      using Send_keeps[OF _ s'] keeps_ok[OF k'] keeps_trans[OF keeps_trans[OF m(2) k] k'] next_fetch[OF x] next_set m(4)
        MoveAndSetMethodFetchAndSend
      by (auto simp: fetches_def intro: keeps_trans)
  next
    case MoveAndSetMethodSend
    then have s': "Send gpu (drop_bit 12 v AND 0x3F) (SetMethodAddress v (fst m), snd m) = Some s'"
      using assms(3) m(1) by (simp add: ProcessResult_def)
    have k: "keeps (fst m) (SetMethodAddress v (fst m))"
      using SetMethodAddress_keeps[OF m(3)] .
    show ?thesis
      using Send_keeps[OF _ s'] keeps_ok[OF k] keeps_trans[OF m(2) k] next_set m(4) MoveAndSetMethodSend
      by (auto simp: fetches_def intro: keeps_trans)
  next
    case IgnoreAndFetch
    then show ?thesis
      using f[of s'] assms(3) by (simp add: ProcessResult_def fetches_def)
  next
    case Move
    then show ?thesis
      using m assms(3) by (simp add: ProcessResult_def fetches_def)
  next
    case MoveAndSetMethod
    then have "s' = (SetMethodAddress v (fst m), snd m)"
      using m(1) assms(3) by (simp add: ProcessResult_def)
    then show ?thesis
      using MoveAndSetMethod keeps_trans[OF m(2) SetMethodAddress_keeps[OF m(3)]] next_set m(4) by (simp add: fetches_def)
  next
    case FetchAndSend
    then obtain s1 where s1: "fetch_into r s = Some s1" "Send gpu v s1 = Some s'"
      using assms(3) by (auto simp: ProcessResult_def split: bind_splits)
    then show ?thesis
      using FetchAndSend f[OF s1(1)] Send_keeps[OF _ s1(2)] keeps_ok by (auto simp: fetches_def intro: keeps_trans)
  next
    case MoveAndSend
    then have "Send gpu v m = Some s'"
      using m(1) assms(3) by (simp add: ProcessResult_def)
    from Send_keeps[OF m(3) this] show ?thesis
      using MoveAndSend m(2,4) by (auto simp: fetches_def intro: keeps_trans)
  next
    case FetchAndSetMethod
    then obtain s1 where s1: "fetch_into r s = Some s1" "s' = (SetMethodAddress v (fst s1), snd s1)"
      using assms(3) by (auto simp: ProcessResult_def split: bind_splits)
    have "keeps (fst s1) (SetMethodAddress v (fst s1))"
      using f[OF s1(1)] keeps_ok by (auto intro: SetMethodAddress_keeps)
    then show ?thesis
      using FetchAndSetMethod f[OF s1(1)] s1(2) next_set by (auto simp: fetches_def intro: keeps_trans)
  qed
qed

lemma GetRegister_ok: "macro_ok st \<Longrightarrow> unat r < 8 \<Longrightarrow> GetRegister r st = Some (mi_registers st ! unat r)"
  by (simp add: GetRegister_def macro_ok_def)

text \<open>The number of parameters an instruction fetches.\<close>

definition op_fetches :: "u32 \<Rightarrow> nat" where
  "op_fetches raw = (if operation raw \<in> {Unused, Branch} then 0 else fetches (result_operation raw))"

text \<open>Every branch of the operation hands a value to \<^verbatim>\<open>ProcessResult\<close>, or does nothing.\<close>

lemma Step_operation_cases:
  assumes "macro_ok (fst s)" and "Step_operation gpu raw s = Some s'"
  obtains (nothing) "operation raw \<in> {Unused, Branch}" "s' = s"
  | (result) v c where "operation raw \<notin> {Unused, Branch}"
      "ProcessResult gpu (result_operation raw) (dst raw) v ((fst s)\<lparr>mi_carry_flag := c\<rparr>, snd s) = Some s'"
proof -
  have same: "((fst s)\<lparr>mi_carry_flag := mi_carry_flag (fst s)\<rparr>, snd s) = s"
    by simp
  show ?thesis
  proof (cases "operation raw \<in> {Unused, Branch}")
    case True
    then have "s' = s"
      using assms GetRegister_ok[OF assms(1)] register_fields[of raw] by (auto simp: Step_operation_def Let_def)
    with True show ?thesis
      by (rule nothing)
  next
    case False
    then obtain v c where "ProcessResult gpu (result_operation raw) (dst raw) v ((fst s)\<lparr>mi_carry_flag := c\<rparr>, snd s) = Some s'"
      using assms(2) same
      by (cases "operation raw")
        (auto simp: Step_operation_def Let_def split: bind_splits prod.splits; metis same)+
    then show ?thesis
      using False result by blast
  qed
qed

lemma Step_operation_keeps:
  assumes "macro_ok (fst s)" and "Step_operation gpu raw s = Some s'"
  shows "keeps (fst s) (fst s')
    \<and> mi_next_parameter_index (fst s') = mi_next_parameter_index (fst s) + of_nat (op_fetches raw)"
  using assms
proof (cases rule: Step_operation_cases)
  case nothing
  then show ?thesis
    using assms(1) by (simp add: op_fetches_def keeps_def)
next
  case (result v c)
  have "macro_ok (fst ((fst s)\<lparr>mi_carry_flag := c\<rparr>, snd s))"
    using assms(1) by (simp add: macro_ok_def)
  from ProcessResult_keeps[OF this register_fields(1) result(2)] result(1) show ?thesis
    by (simp add: op_fetches_def keeps_def same_parameters_def)
qed

lemma Step_fetch_ok:
  assumes "macro_ok st" and "Step_fetch code st = Some (raw, st')"
  shows "macro_ok st' \<and> same_parameters st st'"
  using assms by (auto simp: Step_fetch_def macro_ok_def same_parameters_def split: bind_splits option.splits)

text \<open>The part of a step behind the branch, and the branch that is taken, for any function that runs the delay slot.\<close>

lemma Step_operation_slot_ok:
  assumes slot: "\<And>s r. slot s = Some r \<Longrightarrow> macro_ok (fst s) \<Longrightarrow> macro_ok (fst (snd r)) \<and> same_parameters (fst s) (fst (snd r))"
    and ok: "macro_ok (fst s)"
    and "Step_operation gpu raw s \<bind> (\<lambda>s. if is_exit raw \<and> \<not> d then slot s \<bind> (\<lambda>r. Some (False, snd r)) else Some (True, s)) = Some r"
  shows "macro_ok (fst (snd r)) \<and> same_parameters (fst s) (fst (snd r))"
proof -
  obtain s1 where s1: "Step_operation gpu raw s = Some s1"
    and r: "(if is_exit raw \<and> \<not> d then slot s1 \<bind> (\<lambda>r. Some (False, snd r)) else Some (True, s1)) = Some r"
    using assms(3) by (cases "Step_operation gpu raw s") simp_all
  have k: "macro_ok (fst s1)" "same_parameters (fst s) (fst s1)"
    using Step_operation_keeps[OF ok s1] by (auto simp: keeps_def)
  show ?thesis
  proof (cases "is_exit raw \<and> \<not> d")
    case True
    then obtain r1 where "slot s1 = Some r1" "r = (False, snd r1)"
      using r by (cases "slot s1") simp_all
    then show ?thesis
      using slot[of s1 r1] k same_parameters_trans by auto
  next
    case False
    then show ?thesis
      using r k by auto
  qed
qed

lemma Step_branch_ok:
  assumes slot: "\<And>s r. slot s = Some r \<Longrightarrow> macro_ok (fst s) \<Longrightarrow> macro_ok (fst (snd r)) \<and> same_parameters (fst s) (fst (snd r))"
    and ok: "macro_ok st"
    and "(if annul then Some (True, st\<lparr>mi_pc := target\<rparr>, g) else slot (st\<lparr>mi_delayed_pc := Some target\<rparr>, g)) = Some r"
  shows "macro_ok (fst (snd r)) \<and> same_parameters st (fst (snd r))"
proof (cases annul)
  case True
  then show ?thesis
    using assms by (auto simp: macro_ok_def same_parameters_def)
next
  case False
  have "macro_ok (fst (st\<lparr>mi_delayed_pc := Some target\<rparr>, g))"
    using ok by (simp add: macro_ok_def)
  then show ?thesis
    using False assms(3) slot[of "(st\<lparr>mi_delayed_pc := Some target\<rparr>, g)" r] by (simp add: same_parameters_def)
qed

lemma Step_ok:
  assumes "Step gpu code is_delay_slot s = Some (b, s')" and "macro_ok (fst s)"
  shows "macro_ok (fst s') \<and> same_parameters (fst s) (fst s')"
proof -
  let ?P = "\<lambda>gpu' code' d s r. gpu' = gpu \<and> code' = code \<longrightarrow> macro_ok (fst s) \<longrightarrow>
    macro_ok (fst (snd r)) \<and> same_parameters (fst s) (fst (snd r))"
  have "?P gpu code is_delay_slot s (b, s')"
  proof (rule Step.raw_induct[where P = ?P, OF _ assms(1)])
    fix step :: "'a Maxwell3D \<Rightarrow> u32 list \<Rightarrow> bool \<Rightarrow> MacroInterpreterImpl \<times> 'a \<Rightarrow> (bool \<times> MacroInterpreterImpl \<times> 'a) option"
      and gpu' code' d s r
    assume IH: "\<And>gpu' code' d s r. step gpu' code' d s = Some r \<Longrightarrow> ?P gpu' code' d s r"
      and body: "(do {
     r \<leftarrow> Step_fetch code' (fst s);
     a \<leftarrow> GetRegister (src_a (fst r)) (snd r);
     let raw = fst r;
     let st = snd r;
     let target = mi_pc (fst s) + GetBranchTarget raw;
     if operation raw = Branch \<and> EvaluateBranchCondition (branch_condition raw) a then
       (if branch_annul raw then Some (True, st\<lparr>mi_pc := target\<rparr>, snd s)
        else step gpu' code' True (st\<lparr>mi_delayed_pc := Some target\<rparr>, snd s))
     else do {
       s \<leftarrow> Step_operation gpu' raw (st, snd s);
       if is_exit raw \<and> \<not> d then do {
         r \<leftarrow> step gpu' code' True s;
         Some (False, snd r)
       }
       else Some (True, s)
     }
   }) = Some r"
    show "?P gpu' code' d s r"
    proof (intro impI, elim conjE)
      assume g: "gpu' = gpu" "code' = code" and ok: "macro_ok (fst s)"
      obtain raw st where f: "Step_fetch code' (fst s) = Some (raw, st)"
        using body by (auto split: bind_splits)
      note st = Step_fetch_ok[OF ok f]
      have a: "GetRegister (src_a raw) st = Some (mi_registers st ! unat (src_a raw))"
        using st register_fields by (simp add: GetRegister_ok)
      have slot: "macro_ok (fst (snd r)) \<and> same_parameters (fst s) (fst (snd r))"
        if "step gpu' code' True s = Some r" "macro_ok (fst s)" for s r
        using IH[OF that(1)] g that(2) by simp
      have "macro_ok (fst (snd r)) \<and> same_parameters st (fst (snd r))"
      proof (cases "operation raw = Branch \<and> EvaluateBranchCondition (branch_condition raw) (mi_registers st ! unat (src_a raw))")
        case True
        then have "(if branch_annul raw then Some (True, st\<lparr>mi_pc := mi_pc (fst s) + GetBranchTarget raw\<rparr>, snd s)
            else step gpu' code' True (st\<lparr>mi_delayed_pc := Some (mi_pc (fst s) + GetBranchTarget raw)\<rparr>, snd s)) = Some r"
          using body f a by (simp add: Let_def split: if_splits)
        then show ?thesis
          using Step_branch_ok[of "step gpu' code' True", OF slot] st by blast
      next
        case False
        then have "Step_operation gpu' raw (st, snd s) \<bind> (\<lambda>s. if is_exit raw \<and> \<not> d
            then step gpu' code' True s \<bind> (\<lambda>r. Some (False, snd r)) else Some (True, s)) = Some r"
          using body f a by (auto simp: Let_def)
        then show ?thesis
          using Step_operation_slot_ok[of "step gpu' code' True", OF slot, of "(st, snd s)"] st by simp
      qed
      then show "macro_ok (fst (snd r)) \<and> same_parameters (fst s) (fst (snd r))"
        using st same_parameters_trans by blast
    qed
  qed
  then show ?thesis
    using assms(2) by simp
qed

lemma Execute_loop_ok:
  assumes "Macro_Execute_loop gpu code s = Some s'" and "macro_ok (fst s)"
  shows "macro_ok (fst s') \<and> same_parameters (fst s) (fst s')"
proof -
  let ?P = "\<lambda>gpu' code' s r. macro_ok (fst s) \<longrightarrow> macro_ok (fst r) \<and> same_parameters (fst s) (fst r)"
  have "?P gpu code s s'"
  proof (rule Macro_Execute_loop.raw_induct[where P = ?P, OF _ assms(1)])
    fix loop :: "'a Maxwell3D \<Rightarrow> u32 list \<Rightarrow> MacroInterpreterImpl \<times> 'a \<Rightarrow> (MacroInterpreterImpl \<times> 'a) option" and gpu code s r
    assume IH: "\<And>gpu code s r. loop gpu code s = Some r \<Longrightarrow> ?P gpu code s r"
      and body: "Step gpu code False s \<bind> (\<lambda>r. if fst r then loop gpu code (snd r) else Some (snd r)) = Some r"
    obtain b s1 where s1: "Step gpu code False s = Some (b, s1)" "(if b then loop gpu code s1 else Some s1) = Some r"
      using body by (cases "Step gpu code False s") (auto split: if_splits)
    show "?P gpu code s r"
      using Step_ok[OF s1(1)] IH[of gpu code s1 r] s1(2) by (auto split: if_splits intro: same_parameters_trans)
  qed
  then show ?thesis
    using assms(2) by simp
qed

lemma load_parameters_ok:
  assumes "load_parameters params (Reset st) = Some st'"
  shows "macro_ok st' \<and> params \<noteq> [] \<and> mi_registers st' ! 1 = hd params \<and> mi_num_parameters st' = length params
    \<and> take (length params) (mi_parameters st') = params \<and> length params \<le> length (mi_parameters st')
    \<and> mi_next_parameter_index st' = 1 \<and> mi_pc st' = 0 \<and> mi_delayed_pc st' = None"
proof -
  obtain p ps where params: "params = p # ps"
    using assms by (cases params) (auto simp: load_parameters_def nth_opt_def)
  then show ?thesis
    using assms by (auto simp: load_parameters_def Reset_def Let_def macro_ok_def NUM_MACRO_REGISTERS_def)
qed

section \<open>Code without branches\<close>

text \<open>
  An instruction that is no branch, shifts by no register and does not use the mask that overflows.
\<close>

definition plain :: "u32 \<Rightarrow> bool" where
  "plain raw \<longleftrightarrow> operation raw \<notin> {Branch, ExtractShiftLeftImmediate, ExtractShiftLeftRegister}
     \<and> (operation raw = ExtractInsert \<longrightarrow> bf_size raw \<noteq> 31)"

definition can_fetch :: "nat \<Rightarrow> MacroInterpreterImpl \<Rightarrow> bool" where
  "can_fetch n st \<longleftrightarrow> unat (mi_next_parameter_index st) + n \<le> length (mi_parameters st)
     \<and> unat (mi_next_parameter_index st) + n < 2 ^ 32"

lemma FetchParameter_defined: "can_fetch 1 st \<Longrightarrow> \<exists>v. FetchParameter st = Some (v, st\<lparr>mi_next_parameter_index := mi_next_parameter_index st + 1\<rparr>)"
  by (simp add: FetchParameter_def can_fetch_def)

lemma ProcessResult_defined:
  assumes "accepts_methods gpu" and "macro_ok (fst s)" and "unat r < 8" and "can_fetch (fetches oper) (fst s)"
  shows "\<exists>s'. ProcessResult gpu oper r v s = Some s'"
proof -
  obtain m where m: "move_into r v s = Some m" "keeps (fst s) (fst m)"
    "mi_next_parameter_index (fst m) = mi_next_parameter_index (fst s)"
    using move_into_keeps[OF assms(2,3), of v] by blast
  have fetch: "\<exists>s'. fetch_into r s = Some s'" if "can_fetch 1 (fst s)"
  proof -
    obtain x where "FetchParameter (fst s) = Some (x, (fst s)\<lparr>mi_next_parameter_index := mi_next_parameter_index (fst s) + 1\<rparr>)"
      using FetchParameter_defined[of "fst s"] \<open>can_fetch 1 (fst s)\<close> by blast
    moreover have "macro_ok ((fst s)\<lparr>mi_next_parameter_index := mi_next_parameter_index (fst s) + 1\<rparr>)"
      using assms(2) by (simp add: macro_ok_def)
    ultimately show ?thesis
      using SetRegister_keeps[OF _ assms(3), of "(fst s)\<lparr>mi_next_parameter_index := mi_next_parameter_index (fst s) + 1\<rparr>" x]
      by (auto simp: fetch_into_def)
  qed
  have fetch': "\<exists>x st. FetchParameter (SetMethodAddress v (fst m)) = Some (x, st)" if "can_fetch 1 (fst s)"
    using that m(2,3) FetchParameter_defined[of "SetMethodAddress v (fst m)"]
    by (auto simp: SetMethodAddress_def can_fetch_def keeps_def same_parameters_def)
  note send = Send_accepts[OF assms(1)]
  show ?thesis
    using assms(4) fetch fetch' m(1) send
    by (cases oper) (fastforce simp: ProcessResult_def fetches_def)+
qed

lemma Step_operation_defined:
  assumes "accepts_methods gpu" and "macro_ok (fst s)" and "plain raw" and "can_fetch (op_fetches raw) (fst s)"
  shows "\<exists>s'. Step_operation gpu raw s = Some s'"
proof -
  have process: "\<exists>s'. ProcessResult gpu (result_operation raw) (dst raw) v ((fst s)\<lparr>mi_carry_flag := c\<rparr>, snd s) = Some s'"
    if "operation raw \<noteq> Unused" for v c
    using assms that by (intro ProcessResult_defined register_fields)
      (auto simp: op_fetches_def plain_def macro_ok_def can_fetch_def)
  have same: "((fst s)\<lparr>mi_carry_flag := mi_carry_flag (fst s)\<rparr>, snd s) = s"
    by simp
  note process' = process[where c = "mi_carry_flag (fst s)", unfolded same]
  have regs: "GetRegister (src_a raw) (fst s) \<noteq> None" "GetRegister (src_b raw) (fst s) \<noteq> None"
    using GetRegister_ok[OF assms(2)] register_fields by simp_all
  obtain f where read: "\<And>x. GetRegisterValue gpu x (snd s) = Some (f x)"
    using assms(1) that[of "\<lambda>x. the (GetRegisterValue gpu x (snd s))"] by (simp add: accepts_methods_def)
  show ?thesis
    using assms(3) process process' regs read
    by (cases "operation raw")
      (auto simp: Step_operation_def Let_def plain_def GetBitfieldMask_def split: prod.split)
qed

lemma Step_fetch_eq:
  assumes "mi_delayed_pc st = None" and "mi_pc st = of_nat (4 * i)" and "i < length code" and "4 * length code < 2 ^ 32"
  shows "Step_fetch code st = Some (code ! i, st\<lparr>mi_pc := of_nat (4 * (i + 1))\<rparr>)"
proof -
  have "unat (mi_pc st) = 4 * i"
    using assms(2-4) by (simp add: unsigned_of_nat take_bit_nat_eq_self del: of_nat_mult)
  moreover have "mi_pc st + 4 = of_nat (4 * (i + 1))"
    using assms(2) by (simp add: algebra_simps)
  ultimately show ?thesis
    using assms(1,3) by (simp add: Step_fetch_def GetOpcode_def del: of_nat_mult of_nat_add)
qed

text \<open>A state in which the instruction with a number is next.\<close>

definition ready :: "nat \<Rightarrow> MacroInterpreterImpl \<Rightarrow> bool" where
  "ready i st \<longleftrightarrow> macro_ok st \<and> mi_delayed_pc st = None \<and> mi_pc st = of_nat (4 * i)"

lemma plain_operation:
  assumes "accepts_methods gpu" and "ready i (fst s)" and "i < length code" "4 * length code < 2 ^ 32"
    and "plain (code ! i)" and "can_fetch (op_fetches (code ! i) + n) (fst s)"
  shows "\<exists>s'. ready (i + 1) (fst s') \<and> can_fetch n (fst s')
    \<and> unat (mi_next_parameter_index (fst s')) = unat (mi_next_parameter_index (fst s)) + op_fetches (code ! i)
    \<and> (\<forall>d. Step gpu code d s = (if is_exit (code ! i) \<and> \<not> d
        then do { r \<leftarrow> Step gpu code True s'; Some (False, snd r) } else Some (True, s')))"
proof -
  let ?raw = "code ! i" and ?st = "(fst s)\<lparr>mi_pc := of_nat (4 * (i + 1))\<rparr>"
  have f: "Step_fetch code (fst s) = Some (?raw, ?st)"
    using assms(2-4) by (intro Step_fetch_eq) (simp_all add: ready_def)
  have ok: "macro_ok (fst (?st, snd s))"
    using assms(2) by (simp add: ready_def macro_ok_def)
  obtain s' where s': "Step_operation gpu ?raw (?st, snd s) = Some s'"
    using Step_operation_defined[OF assms(1) ok assms(5)] assms(6) by (auto simp: can_fetch_def)
  note k = Step_operation_keeps[OF ok s']
  have "op_fetches ?raw \<le> 1"
    by (simp add: op_fetches_def fetches_def)
  then have "unat (mi_next_parameter_index (fst s')) = unat (mi_next_parameter_index (fst s)) + op_fetches ?raw"
    using k assms(6) by (simp add: unat_word_ariths can_fetch_def unsigned_of_nat take_bit_nat_eq_self)
  moreover have "ready (i + 1) (fst s')"
    using k assms(2) by (simp add: ready_def keeps_def)
  moreover have "GetRegister (src_a ?raw) ?st = Some (mi_registers ?st ! unat (src_a ?raw))"
    using ok register_fields by (intro GetRegister_ok) simp_all
  moreover have "operation ?raw \<noteq> Branch"
    using assms(5) by (simp add: plain_def)
  ultimately show ?thesis
    using f s' k assms(6)
    by (intro exI[of _ s'] conjI allI)
      (auto simp: can_fetch_def keeps_def same_parameters_def Step.simps[of gpu code _ s] Let_def)
qed

lemma Execute_loop_straight:
  assumes "accepts_methods gpu" and "4 * length code < 2 ^ 32" and "e + 1 < length code"
    and "is_exit (code ! e)" and "\<And>j. j < e \<Longrightarrow> \<not> is_exit (code ! j)" and "\<And>j. j \<le> e + 1 \<Longrightarrow> plain (code ! j)"
    and "i \<le> e" and "ready i (fst s)" and "can_fetch (\<Sum>j = i ..< e + 2. op_fetches (code ! j)) (fst s)"
  shows "\<exists>s'. Macro_Execute_loop gpu code s = Some s' \<and> macro_ok (fst s')
    \<and> unat (mi_next_parameter_index (fst s')) = unat (mi_next_parameter_index (fst s)) + (\<Sum>j = i ..< e + 2. op_fetches (code ! j))"
  using assms(7-9)
proof (induction "e - i" arbitrary: i s)
  case 0
  then have i: "i = e"
    by simp
  have sum: "(\<Sum>j = e ..< e + 2. op_fetches (code ! j)) = op_fetches (code ! e) + op_fetches (code ! (e + 1))"
    by (simp add: numeral_2_eq_2)
  have r: "ready e (fst s)" and c: "can_fetch (op_fetches (code ! e) + op_fetches (code ! (e + 1))) (fst s)"
    and e: "e < length code" "plain (code ! e)"
    using 0 i sum assms(3,6) by simp_all
  obtain s1 where s1: "ready (e + 1) (fst s1)" "can_fetch (op_fetches (code ! (e + 1))) (fst s1)"
    "unat (mi_next_parameter_index (fst s1)) = unat (mi_next_parameter_index (fst s)) + op_fetches (code ! e)"
    "\<forall>d. Step gpu code d s = (if is_exit (code ! e) \<and> \<not> d then do { r \<leftarrow> Step gpu code True s1; Some (False, snd r) } else Some (True, s1))"
    using plain_operation[OF assms(1) r e(1) assms(2) e(2) c] by blast
  obtain s2 where s2: "ready (e + 2) (fst s2)"
    "unat (mi_next_parameter_index (fst s2)) = unat (mi_next_parameter_index (fst s1)) + op_fetches (code ! (e + 1))"
    "Step gpu code True s1 = Some (True, s2)"
    using plain_operation[OF assms(1), of "e + 1" s1 code 0] s1(1,2) assms(2,3,6) by auto
  then have "Macro_Execute_loop gpu code s = Some s2"
    using s1(4) assms(4) by (subst Macro_Execute_loop.simps) simp
  then show ?case
    using s1 s2 sum i by (simp add: ready_def)
next
  case (Suc n)
  then have i: "i < e"
    by simp
  have sum: "(\<Sum>j = i ..< e + 2. op_fetches (code ! j)) = op_fetches (code ! i) + (\<Sum>j = i + 1 ..< e + 2. op_fetches (code ! j))"
    using i by (simp add: sum.atLeast_Suc_lessThan)
  let ?rest = "\<Sum>j = i + 1 ..< e + 2. op_fetches (code ! j)"
  have c: "can_fetch (op_fetches (code ! i) + ?rest) (fst s)"
    using Suc.prems(3) by (simp only: sum)
  have op: "i < length code" "plain (code ! i)" "\<not> is_exit (code ! i)"
    using i assms(3,5,6) by simp_all
  obtain s1 where s1: "ready (i + 1) (fst s1)" "can_fetch ?rest (fst s1)"
    "unat (mi_next_parameter_index (fst s1)) = unat (mi_next_parameter_index (fst s)) + op_fetches (code ! i)"
    "Step gpu code False s = Some (True, s1)"
    using plain_operation[OF assms(1) Suc.prems(2) op(1) assms(2) op(2) c] op(3) by auto
  then have "Macro_Execute_loop gpu code s = Macro_Execute_loop gpu code s1"
    by (subst Macro_Execute_loop.simps) simp
  then show ?case
    using Suc.hyps(1)[OF _ _ s1(1,2)] Suc.hyps(2) i s1(3) unfolding sum by (simp only: add.assoc)
qed

section \<open>The cache\<close>

text \<open>A program in the cache refers to code that is there, and its macro is the one it was compiled for.\<close>

definition cache_ok :: "'g MacroEngine \<Rightarrow> bool" where
  "cache_ok e \<longleftrightarrow> (\<forall>method info. me_macro_cache e method = Some info \<longrightarrow>
     ci_code info = method \<and> uploaded e method \<noteq> None)"

lemma map_of_append_code:
  "map_of (map (\<lambda>(m, c). if m = method then (m, c @ [data]) else (m, c)) xs) k
    = (if k = method then map_option (\<lambda>c. c @ [data]) (map_of xs k) else map_of xs k)"
  by (induction xs) auto

lemma uploaded_AddCode:
  "uploaded (AddCode method data e) k
    = (if k = method then Some ((case uploaded e k of None \<Rightarrow> [] | Some c \<Rightarrow> c) @ [data]) else uploaded e k)"
  by (auto simp: AddCode_def uploaded_def map_of_append_code map_add_def split: option.split)

lemma cache_ok_AddCode: "cache_ok e \<Longrightarrow> cache_ok (AddCode method data e)"
  by (auto simp: cache_ok_def uploaded_AddCode) (auto simp: AddCode_def)

text \<open>What is compiled for a method: the code uploaded there, or the rest of the code it lies in.\<close>

lemma compile_code_uploaded:
  assumes "compile_code method e = Some e'"
  shows "me_macro_cache e' = me_macro_cache e \<and> (\<forall>k. uploaded e k \<noteq> None \<longrightarrow> uploaded e' k = uploaded e k)
    \<and> (case uploaded e method of
         Some code \<Rightarrow> uploaded e' method = Some code
       | None \<Rightarrow> \<exists>base code. (base, code) \<in> set (me_uploaded_macro_code e) \<and> base \<le> method
           \<and> unat (method - base) < length code \<and> uploaded e' method = Some (drop (unat (method - base)) code))"
proof (cases "uploaded e method")
  case (Some code)
  then show ?thesis
    using assms by (auto simp: compile_code_def)
next
  case None
  obtain base code where mid: "mid_method method e = Some (base, code)"
    and e': "e' = e\<lparr>me_uploaded_macro_code := me_uploaded_macro_code e @ [(method, drop (unat (method - base)) code)]\<rparr>"
    using assms None by (auto simp: compile_code_def split: option.splits)
  obtain i where "i < length (me_uploaded_macro_code e)" "me_uploaded_macro_code e ! i = (base, code)"
    "base \<le> method" "unat (method - base) < length code"
    using find_Some_iff[THEN iffD1, OF mid[unfolded mid_method_def]] by auto
  then have "(base, code) \<in> set (me_uploaded_macro_code e)" "base \<le> method" "unat (method - base) < length code"
    by (metis nth_mem)+
  moreover have "uploaded e' method = Some (drop (unat (method - base)) code)"
    using None by (simp add: e' uploaded_def map_add_def)
  moreover have "uploaded e k \<noteq> None \<Longrightarrow> uploaded e' k = uploaded e k" for k
    by (auto simp: e' uploaded_def map_add_def)
  ultimately show ?thesis
    using None e' by auto
qed

lemma run_cached_ok:
  assumes "cache_ok e" and "me_macro_cache e method = Some info" and "run_cached gpu method params info (e, g) = Some (e', g')"
  shows "cache_ok e' \<and> me_uploaded_macro_code e' = me_uploaded_macro_code e"
  using assms by (auto simp: run_cached_def cache_ok_def uploaded_def split: option.splits bind_splits if_splits)

lemma MacroEngine_Execute_ok:
  assumes "cache_ok e" and "MacroEngine_Execute hash hle gpu method params (e, g) = Some (e', g')"
  shows "cache_ok e'"
proof (cases "me_macro_cache e method")
  case (Some info)
  then show ?thesis
    using assms run_cached_ok[OF assms(1) Some] by (auto simp: MacroEngine_Execute_def)
next
  case None
  show ?thesis
  proof (cases "compile_code method e")
    case None
    then show ?thesis
      using assms \<open>me_macro_cache e method = None\<close> by (simp add: MacroEngine_Execute_def)
  next
    case (Some e1)
    note c = compile_code_uploaded[OF Some]
    obtain code where code: "uploaded e1 method = Some code"
      using c by (auto split: option.splits)
    let ?info = "\<lparr>ci_code = method, ci_lle_program = mk_MacroInterpreterImpl, ci_hle_program = hle (hash code), ci_hash = hash code\<rparr>"
    let ?e = "e1\<lparr>me_macro_cache := (me_macro_cache e1)(method \<mapsto> ?info)\<rparr>"
    have "cache_ok ?e"
      using assms(1) c code by (auto simp: cache_ok_def uploaded_def)
    moreover have "run_cached gpu method params ?info (?e, g) = Some (e', g')"
      using assms(2) None Some code by (simp add: MacroEngine_Execute_def Let_def)
    ultimately show ?thesis
      using run_cached_ok[of ?e "method" ?info] by simp
  qed
qed

section \<open>Properties\<close>

text \<open>
  C30. The carry flag chains 32-bit operations: the sum of two low words and then, with the flag, of two high
  words is the 64-bit sum with the flag as its highest bit, and a difference taken the same way is the 64-bit difference, with the
  flag cleared exactly when it is negative.
\<close>

theorem GetALUResult_chains:
  "(let (lo, c1) = GetALUResult Add a0 b0 c; (hi, c2) = GetALUResult AddWithCarry a1 b1 c1
      in unat lo + 2 ^ 32 * unat hi + 2 ^ 64 * of_bool c2 = (unat a0 + 2 ^ 32 * unat a1) + (unat b0 + 2 ^ 32 * unat b1))
    \<and> (let (lo, c1) = GetALUResult Subtract a0 b0 c; (hi, c2) = GetALUResult SubtractWithBorrow a1 b1 c1;
          a = unat a0 + 2 ^ 32 * unat a1; b = unat b0 + 2 ^ 32 * unat b1
      in int (unat lo + 2 ^ 32 * unat hi) = int a - int b + 2 ^ 64 * of_bool (\<not> c2) \<and> (c2 \<longleftrightarrow> b \<le> a))"
proof -
  define a b where "a = unat a0 + 2 ^ 32 * unat a1" and "b = unat b0 + 2 ^ 32 * unat b1"
  note add = GetALUResult_add[of a0 b0 False] GetALUResult_add[of a1 b1 "snd (GetALUResult AddWithCarry a0 b0 False)"]
  note sub = GetALUResult_sub[of a0 b0 True] GetALUResult_sub[of a1 b1 "snd (GetALUResult SubtractWithBorrow a0 b0 True)"]
  let ?s = "GetALUResult SubtractWithBorrow a0 b0 True"
  let ?t = "GetALUResult SubtractWithBorrow a1 b1 (snd ?s)"
  define m where "m = unat (fst ?s) + 2 ^ 32 * unat (fst ?t)"
  have "int m = int a - int b + 2 ^ 64 * of_bool (\<not> snd ?t)"
    using sub by (simp add: m_def a_def b_def algebra_simps)
  moreover have "m < 2 ^ 64"
    using unat_u32_less[of "fst ?s"] unat_u32_less[of "fst ?t"] by (simp add: m_def)
  ultimately have "(snd ?t \<longleftrightarrow> b \<le> a) \<and> int (unat (fst ?s) + 2 ^ 32 * unat (fst ?t)) = int a - int b + 2 ^ 64 * of_bool (\<not> snd ?t)"
    unfolding m_def[symmetric] by (cases "snd ?t") auto
  moreover have "unat (fst (GetALUResult AddWithCarry a0 b0 False))
      + 2 ^ 32 * unat (fst (GetALUResult AddWithCarry a1 b1 (snd (GetALUResult AddWithCarry a0 b0 False))))
      + 2 ^ 64 * of_bool (snd (GetALUResult AddWithCarry a1 b1 (snd (GetALUResult AddWithCarry a0 b0 False)))) = a + b"
    using add by (simp add: a_def b_def algebra_simps)
  ultimately show ?thesis
    by (simp add: GetALUResult_first case_prod_beta Let_def a_def b_def)
qed

text \<open>
  C31. The instruction that inserts a bit field changes exactly the field: for every size but 31, the bits of the
  destination field come from the source field and all others from the first operand, bits beyond the
  upper end of the source being zero. For the size 31 the mask overflows and the instruction is undefined.
\<close>

theorem ExtractInsert_moves_field:
  assumes "operation raw = ExtractInsert" and "macro_ok (fst s)"
  defines "a \<equiv> mi_registers (fst s) ! unat (src_a raw)" and "b \<equiv> mi_registers (fst s) ! unat (src_b raw)"
  shows "if bf_size raw = 31 then Step_operation gpu raw s = None
    else \<exists>v. Step_operation gpu raw s = ProcessResult gpu (result_operation raw) (dst raw) v s
      \<and> (\<forall>k. bit v k \<longleftrightarrow> (if bf_dst_bit raw \<le> k \<and> k < min 32 (bf_dst_bit raw + bf_size raw)
          then bit b (k - bf_dst_bit raw + bf_src_bit raw) else bit a k))"
proof -
  have regs: "GetRegister (src_a raw) (fst s) = Some a" "GetRegister (src_b raw) (fst s) = Some b"
    using assms(2) register_fields by (simp_all add: GetRegister_ok a_def b_def)
  let ?mask = "push_bit (bf_size raw) 1 - 1 :: u32"
  let ?v = "(a AND NOT (push_bit (bf_dst_bit raw) ?mask)) OR push_bit (bf_dst_bit raw) (drop_bit (bf_src_bit raw) b AND ?mask)"
  have mask: "bit ?mask k \<longleftrightarrow> k < bf_size raw \<and> k < 32" for k
    by (auto simp: bit_simps simp flip: mask_eq_exp_minus_1)
  have "bit ?v k \<longleftrightarrow> (if bf_dst_bit raw \<le> k \<and> k < min 32 (bf_dst_bit raw + bf_size raw)
      then bit b (k - bf_dst_bit raw + bf_src_bit raw) else bit a k)" for k
  proof (cases "k < 32")
    case True
    then show ?thesis
      by (auto simp: bit_simps mask add.commute simp del: push_bit_of_1)
  next
    case False
    then show ?thesis
      using bit_imp_le_length[of ?v k] bit_imp_le_length[of a k] by auto
  qed
  then show ?thesis
    using regs assms(1) by (auto simp: Step_operation_def GetBitfieldMask_def Let_def simp del: push_bit_of_1)
qed


text \<open>
  Whatever code a macro consists of, and however it branches, register 0 reads as zero after every instruction, the
  registers keep their number, and the parameters are not changed.
\<close>

lemma Step_keeps_zero_register:
  assumes "length (mi_registers (fst s)) = 8" and "mi_registers (fst s) ! 0 = 0"
    and "Step gpu code is_delay_slot s = Some (keep_executing, s')"
  shows "length (mi_registers (fst s')) = 8 \<and> mi_registers (fst s') ! 0 = 0 \<and> GetRegister 0 (fst s') = Some 0
    \<and> mi_parameters (fst s') = mi_parameters (fst s)"
  using Step_ok[OF assms(3)] assms(1,2) by (simp add: macro_ok_def same_parameters_def GetRegister_def)

section \<open>Examples\<close>

text \<open>
  A macro that sets the method, sends its first parameter while it fetches the second, and sends that in the
  delay slot of the exit. The engine notes the calls.
\<close>

definition example_macro :: "u32 list" where
  "example_macro = [0x04400221, 0xBB1, 0x1841]"

definition example_gpu :: "(u32 \<times> u32) list Maxwell3D" where
  "example_gpu = \<lparr>CallMethodFromMME = \<lambda>a v g. Some (g @ [(a, v)]), GetRegisterValue = \<lambda>a g. Some 0\<rparr>"

lemma example_macro_fields:
  "operation 0x04400221 = AddImmediate" "operation 0xBB1 = AddImmediate" "operation 0x1841 = AddImmediate"
  "result_operation 0x04400221 = MoveAndSetMethod" "result_operation 0xBB1 = FetchAndSend" "result_operation 0x1841 = MoveAndSend"
  "\<not> is_exit 0x04400221" "is_exit 0xBB1"
  by (simp_all add: operation_def result_operation_def is_exit_def ExtractValue_take_bit take_bit_eq_mod)


definition example_registers :: MacroInterpreterImpl where
  "example_registers = mk_MacroInterpreterImpl\<lparr>mi_registers := [0, 0, 0, 0xFF, 0x5A, 0, 0, 0]\<rparr>"

theorem ExtractInsert_moves_field_witness:
  "\<exists>v. Step_operation example_gpu 0x41091D12 (example_registers, []) = ProcessResult example_gpu Move 5 v (example_registers, [])
    \<and> bit v 0 \<and> bit v 8 \<and> \<not> bit v 9 \<and> bit v 10"
proof -
  have fields: "operation 0x41091D12 = ExtractInsert" "result_operation 0x41091D12 = Move" "dst 0x41091D12 = 5"
    "unat (src_a 0x41091D12) = 3" "unat (src_b 0x41091D12) = 4"
    "bf_size 0x41091D12 = 4" "bf_src_bit 0x41091D12 = 4" "bf_dst_bit 0x41091D12 = 8"
    by (simp_all add: operation_def result_operation_def dst_def src_a_def src_b_def bf_size_def bf_src_bit_def bf_dst_bit_def
        ExtractValue_take_bit take_bit_eq_mod)
  have "macro_ok (fst (example_registers, []))"
    by (simp add: macro_ok_def example_registers_def)
  from ExtractInsert_moves_field[OF fields(1) this, of example_gpu] show ?thesis
    unfolding fields by (auto simp: example_registers_def)
qed

section \<open>Sending\<close>

primrec send_all :: "'g Maxwell3D \<Rightarrow> u32 list \<Rightarrow> MacroInterpreterImpl \<times> 'g \<Rightarrow> (MacroInterpreterImpl \<times> 'g) option" where
  "send_all gpu [] s = Some s"
| "send_all gpu (v # vs) s = do { s \<leftarrow> Send gpu v s; send_all gpu vs s }"

primrec call_all :: "'g Maxwell3D \<Rightarrow> nat \<Rightarrow> nat \<Rightarrow> u32 list \<Rightarrow> 'g \<Rightarrow> 'g option" where
  "call_all gpu address increment [] g = Some g"
| "call_all gpu address increment (v # vs) g = do {
     g \<leftarrow> CallMethodFromMME gpu (of_nat (address mod 4096)) v g;
     call_all gpu (address + increment) increment vs g
   }"

lemma call_all_mod: "call_all gpu (a mod 4096) inc vs g = call_all gpu a inc vs g"
proof (induction vs arbitrary: a g)
  case (Cons v vs)
  have "call_all gpu (a mod 4096 + inc) inc vs g = call_all gpu (a + inc) inc vs g" for g
    using Cons.IH[of "a mod 4096 + inc"] Cons.IH[of "a + inc"] by (simp add: mod_simps)
  then show ?case
    by simp
qed simp

text \<open>
  C29. Values that are sent one after the other go to the methods that start at the method address and are apart by its increment,
  wrapping around at the 12 bits of an address.
\<close>

theorem Send_walks_methods:
  "map_option snd (send_all gpu vs (st, g))
    = call_all gpu (unat (method_addr (mi_method_address st))) (unat (method_increment (mi_method_address st))) vs g"
proof (induction vs arbitrary: st g)
  case (Cons v vs)
  let ?m = "mi_method_address st"
  let ?m' = "Assign 0 12 (method_addr ?m + method_increment ?m) ?m"
  have addr: "unat (method_addr ?m) < 4096" "unat (method_increment ?m) < 64"
    using ExtractValue_less[of 0 12 ?m] ExtractValue_less[of 12 6 ?m] by (simp_all add: method_addr_def method_increment_def)
  then have "unat (method_addr ?m') = (unat (method_addr ?m) + unat (method_increment ?m)) mod 4096"
    by (simp add: method_fields unsigned_take_bit_eq take_bit_eq_mod unat_word_ariths)
  moreover have "of_nat (unat (method_addr ?m) mod 4096) = method_addr ?m"
    using addr by simp
  ultimately show ?case
    using Cons.IH[of "st\<lparr>mi_method_address := ?m'\<rparr>"]
    by (cases "CallMethodFromMME gpu (method_addr ?m) v g") (simp_all add: Send_def Let_def method_fields call_all_mod)
qed simp

end
