(* ===== verification/Ring_Buffer.thy ===== *)
theory Ring_Buffer
  imports Prelude "HOL-Library.Sublist"
begin

text \<open>
  \<^verbatim>\<open>common/ring_buffer.h\<close>: a lock-free queue between one thread that pushes and one that pops. A slot, \<^verbatim>\<open>granularity\<close>
  elements, is one value of the array, so that the copies are copies of slots; the capacity is the length of the
  array, a power of two below \<open>2 ^ 63\<close>. The indices count up and wrap around at 64 bits. Reading past
  the slots that are given, or writing past the array, is undefined.

  Each operation is the sequence of its atomic accesses: load the indices, copy, store the index. The relation
  \<open>spsc_step\<close> interleaves the accesses of the two threads in every order. The loads and stores are
  sequentially consistent, as the source leaves their order at the default.
\<close>

section \<open>The code\<close>

record 'a RingBuffer =
  rb_read_index :: u64
  rb_write_index :: u64
  rb_data :: "'a list"

definition mk_RingBuffer :: "'a list \<Rightarrow> 'a RingBuffer" where
  "mk_RingBuffer data = \<lparr>rb_read_index = 0, rb_write_index = 0, rb_data = data\<rparr>"

definition Capacity :: "'a RingBuffer \<Rightarrow> u64" where
  "Capacity b = of_nat (length (rb_data b))"

definition Size :: "'a RingBuffer \<Rightarrow> u64" where
  "Size b = rb_write_index b - rb_read_index b"

text \<open>\<^verbatim>\<open>memcpy\<close> into the array from a position on, and out of an array.\<close>

definition copy_to :: "'a list \<Rightarrow> nat \<Rightarrow> 'a list \<Rightarrow> 'a list option" where
  "copy_to data pos xs =
     (if pos + length xs \<le> length data then Some (take pos data @ xs @ drop (pos + length xs) data) else None)"

definition copy_from :: "'a list \<Rightarrow> nat \<Rightarrow> nat \<Rightarrow> 'a list option" where
  "copy_from data pos n = (if pos + n \<le> length data then Some (take n (drop pos data)) else None)"

text \<open>The three parts of \<^verbatim>\<open>Push\<close>.\<close>

definition Push_count :: "u64 \<Rightarrow> 'a RingBuffer \<Rightarrow> u64" where
  "Push_count slot_count b =
     (let slots_free = Capacity b + rb_read_index b - rb_write_index b in min slot_count slots_free)"

definition Push_copy :: "'a list \<Rightarrow> u64 \<Rightarrow> u64 \<Rightarrow> 'a list \<Rightarrow> 'a list option" where
  "Push_copy new_slots write_index push_count data =
     (let capacity = length data; pos = unat write_index mod capacity;
          first_copy = min (capacity - pos) (unat push_count); second_copy = unat push_count - first_copy
      in do {
        xs \<leftarrow> copy_from new_slots 0 first_copy;
        data \<leftarrow> copy_to data pos xs;
        ys \<leftarrow> copy_from new_slots first_copy second_copy;
        copy_to data 0 ys
      })"

definition Push :: "'a list \<Rightarrow> u64 \<Rightarrow> 'a RingBuffer \<Rightarrow> (u64 \<times> 'a RingBuffer) option" where
  "Push new_slots slot_count b = do {
     let write_index = rb_write_index b;
     let push_count = Push_count slot_count b;
     data \<leftarrow> Push_copy new_slots write_index push_count (rb_data b);
     Some (push_count, b\<lparr>rb_data := data, rb_write_index := write_index + push_count\<rparr>)
   }"

text \<open>
  The overload for a vector passes the number of elements as the number of slots: a vector that holds some
  slots has \<open>granularity\<close> times as many elements.
\<close>

definition Push_vector :: "nat \<Rightarrow> 'a list \<Rightarrow> 'a RingBuffer \<Rightarrow> (u64 \<times> 'a RingBuffer) option" where
  "Push_vector granularity input b = Push input (of_nat (granularity * length input)) b"

definition Pop_count :: "u64 \<Rightarrow> 'a RingBuffer \<Rightarrow> u64" where
  "Pop_count max_slots b = (let slots_filled = rb_write_index b - rb_read_index b in min slots_filled max_slots)"

definition Pop_copy :: "u64 \<Rightarrow> u64 \<Rightarrow> 'a list \<Rightarrow> 'a list option" where
  "Pop_copy read_index pop_count data =
     (let capacity = length data; pos = unat read_index mod capacity;
          first_copy = min (capacity - pos) (unat pop_count); second_copy = unat pop_count - first_copy
      in do {
        xs \<leftarrow> copy_from data pos first_copy;
        ys \<leftarrow> copy_from data 0 second_copy;
        Some (xs @ ys)
      })"

definition Pop :: "u64 \<Rightarrow> 'a RingBuffer \<Rightarrow> ('a list \<times> 'a RingBuffer) option" where
  "Pop max_slots b = do {
     let read_index = rb_read_index b;
     let pop_count = Pop_count max_slots b;
     xs \<leftarrow> Pop_copy read_index pop_count (rb_data b);
     Some (xs, b\<lparr>rb_read_index := read_index + pop_count\<rparr>)
   }"

text \<open>The overload that returns a vector makes room for the capacity at most.\<close>

definition Pop_vector :: "u64 \<Rightarrow> 'a RingBuffer \<Rightarrow> ('a list \<times> 'a RingBuffer) option" where
  "Pop_vector max_slots b = Pop (min max_slots (Capacity b)) b"

section \<open>Copying around the end\<close>

text \<open>The positions of successive slots.\<close>

lemma wrap_index:
  fixes c :: nat
  assumes "p < c" and "j < c"
  shows "(p + j) mod c = (if p + j < c then p + j else p + j - c)"
  using assms by (simp add: mod_if)

lemma wrapped_nth:
  assumes "pos < length data" and "f \<le> length data - pos" and "length xs = f" and "length ys \<le> pos" and "i < length data"
  shows "(ys @ drop (length ys) (take pos data @ xs @ drop (pos + f) data)) ! i
    = (if i < length ys then ys ! i else if pos \<le> i \<and> i < pos + f then xs ! (i - pos) else data ! i)"
  using assms by (auto simp: nth_append min_def)

lemma Push_copy_eq:
  fixes w n :: u64
  assumes "unat n \<le> length data" and "unat n \<le> length xs" and "0 < length data"
    and "pos = unat w mod length data" and "f = min (length data - pos) (unat n)"
  shows "\<exists>data'. Push_copy xs w n data = Some data' \<and> length data' = length data \<and> (\<forall>i < length data. data' ! i =
    (if i < unat n - f then xs ! (f + i) else if pos \<le> i \<and> i < pos + f then xs ! (i - pos) else data ! i))"
proof -
  have pos: "pos < length data"
    using assms(3,4) by simp
  have f: "f \<le> length data - pos" "f \<le> length xs" "unat n - f \<le> pos" "f + (unat n - f) \<le> length xs" "f \<le> unat n"
    using assms pos by auto
  let ?ys = "take (unat n - f) (drop f xs)"
  let ?data = "?ys @ drop (length ?ys) (take pos data @ take f xs @ drop (pos + f) data)"
  have ys: "length ?ys = unat n - f" and xs: "length (take f xs) = f"
    using f by simp_all
  let ?data1 = "take pos data @ take f xs @ drop (pos + f) data"
  have len: "length ?data1 = length data"
    using f(1,2) pos by simp
  have "copy_from xs 0 f = Some (take f xs)" "copy_from xs f (unat n - f) = Some ?ys"
    using f(2,4) by (simp_all add: copy_from_def)
  moreover have "copy_to data pos (take f xs) = Some ?data1"
    using f(1) pos xs unfolding copy_to_def xs by simp
  moreover have "copy_to ?data1 0 ?ys = Some ?data"
    using f(3) pos ys len unfolding copy_to_def len ys by simp
  ultimately have "Push_copy xs w n data = Some ?data"
    unfolding Push_copy_def Let_def assms(4)[symmetric] assms(5)[symmetric] by simp
  moreover have "?data ! i = (if i < unat n - f then xs ! (f + i) else if pos \<le> i \<and> i < pos + f then xs ! (i - pos) else data ! i)"
    if "i < length data" for i
  proof -
    have "i < unat n - f \<Longrightarrow> ?ys ! i = xs ! (f + i)" "pos \<le> i \<Longrightarrow> i < pos + f \<Longrightarrow> take f xs ! (i - pos) = xs ! (i - pos)"
      using f(4) by simp_all
    then show ?thesis
      using wrapped_nth[OF pos f(1) xs _ that, of ?ys] f(3) unfolding ys by presburger
  qed
  moreover have "length ?data = length data"
    using f(3) pos len ys by simp
  ultimately show ?thesis
    by blast
qed

lemma Push_copy_spec:
  fixes w n :: u64
  assumes "unat n \<le> length data" and "unat n \<le> length xs" and "0 < length data" and "pos = unat w mod length data"
  shows "\<exists>data'. Push_copy xs w n data = Some data' \<and> length data' = length data
    \<and> (\<forall>j < unat n. data' ! ((pos + j) mod length data) = xs ! j)
    \<and> (\<forall>i < length data. (\<forall>j < unat n. i \<noteq> (pos + j) mod length data) \<longrightarrow> data' ! i = data ! i)"
proof -
  define c f where "c = length data" and "f = min (c - pos) (unat n)"
  have pos: "pos < c"
    using assms(3,4) by (simp add: c_def)
  obtain data' where data': "Push_copy xs w n data = Some data'" "length data' = c"
    and nth: "\<And>i. i < c \<Longrightarrow> data' ! i =
      (if i < unat n - f then xs ! (f + i) else if pos \<le> i \<and> i < pos + f then xs ! (i - pos) else data ! i)"
    using Push_copy_eq[OF assms f_def[unfolded c_def]] unfolding c_def by blast
  have n: "unat n \<le> c" "f \<le> c - pos" "f \<le> unat n" "unat n - f \<le> pos" "f = unat n \<or> f = c - pos"
    using assms(1) pos unfolding f_def c_def[symmetric] by linarith+
  have "data' ! ((pos + j) mod c) = xs ! j" if "j < unat n" for j
  proof (cases "pos + j < c")
    case True
    then have "(pos + j) mod c = pos + j" "j < f"
      using that by (simp_all add: f_def)
    then show ?thesis
      using nth[OF True] n by simp
  next
    case False
    have f: "f = c - pos"
      using False that unfolding f_def by linarith
    have "(pos + j) mod c = pos + j - c"
      using False wrap_index[OF pos, of j] that n(1) by simp
    moreover have "pos + j - c < unat n - f" "f + (pos + j - c) = j" "pos + j - c < c"
      using False f that pos n(1) by linarith+
    ultimately show ?thesis
      using nth[of "pos + j - c"] by simp
  qed
  moreover have "data' ! i = data ! i" if i: "i < c" and outside: "\<forall>j < unat n. i \<noteq> (pos + j) mod c" for i
  proof -
    have "\<not> i < unat n - f"
    proof
      assume "i < unat n - f"
      then have "c - pos + i < unat n" "pos + (c - pos + i) = c + i"
        using n(5) pos by linarith+
      then show False
        using outside i by (metis mod_add_self1 mod_less)
    qed
    moreover have "\<not> (pos \<le> i \<and> i < pos + f)"
    proof
      assume "pos \<le> i \<and> i < pos + f"
      then have "i - pos < unat n" "pos + (i - pos) = i"
        using n(3) by linarith+
      then show False
        using outside i by (metis mod_less)
    qed
    ultimately show ?thesis
      using nth[OF i] by presburger
  qed
  ultimately show ?thesis
    using data' unfolding c_def by blast
qed

lemma Pop_copy_spec:
  fixes r n :: u64
  assumes "unat n \<le> length data" and "0 < length data" and "pos = unat r mod length data"
  shows "Pop_copy r n data = Some (map (\<lambda>j. data ! ((pos + j) mod length data)) [0 ..< unat n])"
proof -
  define c f where "c = length data" and "f = min (c - pos) (unat n)"
  have pos: "pos < c"
    using assms(2,3) by (simp add: c_def)
  have f: "pos + f \<le> c" "f \<le> unat n" "unat n - f \<le> c"
    using assms(1) pos by (auto simp: f_def c_def)
  have "Pop_copy r n data = Some (take f (drop pos data) @ take (unat n - f) data)"
  proof -
    have "copy_from data pos f = Some (take f (drop pos data))" "copy_from data 0 (unat n - f) = Some (take (unat n - f) data)"
      using f unfolding copy_from_def c_def by simp_all
    then show ?thesis
      unfolding Pop_copy_def Let_def assms(3)[symmetric] f_def[unfolded c_def, symmetric] by simp
  qed
  moreover have "take f (drop pos data) @ take (unat n - f) data = map (\<lambda>j. data ! ((pos + j) mod c)) [0 ..< unat n]"
  proof (rule nth_equalityI)
    show "length (take f (drop pos data) @ take (unat n - f) data) = length (map (\<lambda>j. data ! ((pos + j) mod c)) [0 ..< unat n])"
      using f by (simp add: c_def)
    fix j assume "j < length (take f (drop pos data) @ take (unat n - f) data)"
    then have j: "j < unat n" "j < c"
      using f assms(1) by (auto simp: c_def)
    have "(pos + j) mod c = (if j < f then pos + j else j - f)"
      using wrap_index[OF pos j(2)] j f pos by (auto simp: f_def)
    then show "(take f (drop pos data) @ take (unat n - f) data) ! j = map (\<lambda>j. data ! ((pos + j) mod c)) [0 ..< unat n] ! j"
      using j f by (auto simp: nth_append c_def)
  qed
  ultimately show ?thesis
    by (simp add: c_def)
qed

section \<open>Two threads\<close>

text \<open>
  Where each thread is: between two operations, behind its loads, or behind its copy. A thread keeps its own index, the
  count it computed and, in between, the slots. The histories are what has been pushed and what has been popped
  so far; they are there to state the property.
\<close>

datatype 'a Producer = PIdle | PLoaded u64 u64 "'a list" | PCopied u64 u64 "'a list"

datatype 'a Consumer = CIdle | CLoaded u64 u64 | CCopied u64 u64 "'a list"

record 'a SPSC =
  sp_buffer :: "'a RingBuffer"
  sp_producer :: "'a Producer"
  sp_consumer :: "'a Consumer"
  sp_pushed :: "'a list"
  sp_popped :: "'a list"

inductive spsc_step :: "'a SPSC \<Rightarrow> 'a SPSC \<Rightarrow> bool" where
  push_load: "sp_producer s = PIdle \<Longrightarrow> unat slot_count \<le> length xs \<Longrightarrow>
    spsc_step s (s\<lparr>sp_producer := PLoaded (rb_write_index (sp_buffer s)) (Push_count slot_count (sp_buffer s)) xs\<rparr>)"
| push_copy: "sp_producer s = PLoaded w n xs \<Longrightarrow> Push_copy xs w n (rb_data (sp_buffer s)) = Some data \<Longrightarrow>
    spsc_step s (s\<lparr>sp_producer := PCopied w n xs, sp_buffer := (sp_buffer s)\<lparr>rb_data := data\<rparr>\<rparr>)"
| push_store: "sp_producer s = PCopied w n xs \<Longrightarrow>
    spsc_step s (s\<lparr>sp_producer := PIdle, sp_buffer := (sp_buffer s)\<lparr>rb_write_index := w + n\<rparr>,
      sp_pushed := sp_pushed s @ take (unat n) xs\<rparr>)"
| pop_load: "sp_consumer s = CIdle \<Longrightarrow>
    spsc_step s (s\<lparr>sp_consumer := CLoaded (rb_read_index (sp_buffer s)) (Pop_count max_slots (sp_buffer s))\<rparr>)"
| pop_copy: "sp_consumer s = CLoaded r n \<Longrightarrow> Pop_copy r n (rb_data (sp_buffer s)) = Some ys \<Longrightarrow>
    spsc_step s (s\<lparr>sp_consumer := CCopied r n ys\<rparr>)"
| pop_store: "sp_consumer s = CCopied r n ys \<Longrightarrow>
    spsc_step s (s\<lparr>sp_consumer := CIdle, sp_buffer := (sp_buffer s)\<lparr>rb_read_index := r + n\<rparr>,
      sp_popped := sp_popped s @ ys\<rparr>)"

definition spsc_start :: "'a list \<Rightarrow> 'a SPSC" where
  "spsc_start data = \<lparr>sp_buffer = mk_RingBuffer data, sp_producer = PIdle, sp_consumer = CIdle, sp_pushed = [], sp_popped = []\<rparr>"

text \<open>
  The invariant. The indices are the lengths of the histories, at 64 bits; the slots between them hold the part of the
  history that has not been popped; a producer behind its loads has reserved free slots, a consumer behind its loads has
  reserved filled ones.
\<close>

definition producer_ok :: "nat \<Rightarrow> 'a list \<Rightarrow> nat \<Rightarrow> nat \<Rightarrow> 'a Producer \<Rightarrow> bool" where
  "producer_ok c data p q t = (case t of PIdle \<Rightarrow> True
     | PLoaded w n xs \<Rightarrow> w = of_nat p \<and> unat n \<le> length xs \<and> p + unat n \<le> q + c
     | PCopied w n xs \<Rightarrow> w = of_nat p \<and> unat n \<le> length xs \<and> p + unat n \<le> q + c
         \<and> (\<forall>j < unat n. data ! ((p + j) mod c) = xs ! j))"

definition consumer_ok :: "'a list \<Rightarrow> nat \<Rightarrow> 'a Consumer \<Rightarrow> bool" where
  "consumer_ok pushed q t = (case t of CIdle \<Rightarrow> True
     | CLoaded r n \<Rightarrow> r = of_nat q \<and> q + unat n \<le> length pushed
     | CCopied r n ys \<Rightarrow> r = of_nat q \<and> q + unat n \<le> length pushed \<and> ys = take (unat n) (drop q pushed))"

definition spsc_ok :: "nat \<Rightarrow> 'a SPSC \<Rightarrow> bool" where
  "spsc_ok c s \<longleftrightarrow> (let b = sp_buffer s; p = length (sp_pushed s); q = length (sp_popped s) in
     length (rb_data b) = c \<and> rb_write_index b = of_nat p \<and> rb_read_index b = of_nat q
     \<and> q \<le> p \<and> p \<le> q + c \<and> sp_popped s = take q (sp_pushed s)
     \<and> (\<forall>k. q \<le> k \<and> k < p \<longrightarrow> rb_data b ! (k mod c) = sp_pushed s ! k)
     \<and> producer_ok c (rb_data b) p q (sp_producer s) \<and> consumer_ok (sp_pushed s) q (sp_consumer s))"

lemma spsc_start_ok: "spsc_ok (length data) (spsc_start data)"
  by (simp add: spsc_ok_def spsc_start_def mk_RingBuffer_def producer_ok_def consumer_ok_def)

text \<open>The capacity divides \<open>2 ^ 64\<close>, so that wrapping the index around does not change the slot.\<close>

lemma slot_of_index: "unat (of_nat p :: u64) mod 2 ^ k = p mod 2 ^ k" if "k < 63"
proof -
  have "(2 :: nat) ^ k dvd 2 ^ LENGTH(64)"
    using that by (intro le_imp_power_dvd) simp
  then show ?thesis
    unfolding unat_of_nat by (rule mod_mod_cancel)
qed

lemma slot_inj:
  fixes c :: nat
  assumes "i mod c = j mod c" and "i < j + c" and "j < i + c"
  shows "i = j"
proof (rule ccontr)
  assume "i \<noteq> j"
  then have "\<not> c dvd (max i j - min i j)"
    using assms(2,3) by (intro nat_dvd_not_less) auto
  then show False
    using assms(1) by (metis max_def min_def mod_eq_dvd_iff_nat nat_le_linear)
qed

lemma unat_index_diff:
  assumes "n \<le> m" and "m - n < 2 ^ 64"
  shows "unat (of_nat m - of_nat n :: u64) = m - n"
proof -
  have "(of_nat m - of_nat n :: u64) = of_nat (m - n)"
    using assms(1) by (simp add: of_nat_diff)
  then show ?thesis
    using assms(2) by simp
qed

lemma unat_min_u64: "unat (min a b :: u64) = min (unat a) (unat b)"
  by (simp add: min_def word_le_nat_alt)

lemma Push_count_ok:
  assumes "spsc_ok c s" and "c < 2 ^ 63"
  shows "length (sp_pushed s) + unat (Push_count slot_count (sp_buffer s)) \<le> length (sp_popped s) + c
    \<and> unat (Push_count slot_count (sp_buffer s)) \<le> unat slot_count"
proof -
  let ?p = "length (sp_pushed s)" and ?q = "length (sp_popped s)"
  have i: "length (rb_data (sp_buffer s)) = c" "rb_write_index (sp_buffer s) = of_nat ?p" "rb_read_index (sp_buffer s) = of_nat ?q"
    "?q \<le> ?p" "?p \<le> ?q + c"
    using assms(1) by (simp_all add: spsc_ok_def Let_def)
  have "unat (of_nat (c + ?q) - of_nat ?p :: u64) = c + ?q - ?p"
    using i(4,5) assms(2) by (intro unat_index_diff) simp_all
  then show ?thesis
    using i by (simp add: Push_count_def Capacity_def Let_def unat_min_u64)
qed

lemma Pop_count_ok:
  assumes "spsc_ok c s" and "c < 2 ^ 63"
  shows "length (sp_popped s) + unat (Pop_count max_slots (sp_buffer s)) \<le> length (sp_pushed s)"
proof -
  let ?p = "length (sp_pushed s)" and ?q = "length (sp_popped s)"
  have i: "rb_write_index (sp_buffer s) = of_nat ?p" "rb_read_index (sp_buffer s) = of_nat ?q" "?q \<le> ?p" "?p \<le> ?q + c"
    using assms(1) by (simp_all add: spsc_ok_def Let_def)
  have "unat (of_nat ?p - of_nat ?q :: u64) = ?p - ?q"
    using i(3,4) assms(2) by (intro unat_index_diff) simp_all
  then show ?thesis
    using i by (simp add: Pop_count_def Let_def unat_min_u64)
qed

lemma push_copy_ok:
  assumes "spsc_ok (2 ^ k) s" and "k < 63" and "sp_producer s = PLoaded w n xs"
    and "Push_copy xs w n (rb_data (sp_buffer s)) = Some data"
  shows "spsc_ok (2 ^ k) (s\<lparr>sp_producer := PCopied w n xs, sp_buffer := (sp_buffer s)\<lparr>rb_data := data\<rparr>\<rparr>)"
proof -
  let ?c = "2 ^ k :: nat" and ?p = "length (sp_pushed s)" and ?q = "length (sp_popped s)" and ?d = "rb_data (sp_buffer s)"
  have i: "length ?d = ?c" "w = of_nat ?p" "unat n \<le> length xs" "?p + unat n \<le> ?q + ?c" "?q \<le> ?p" "?p \<le> ?q + ?c"
    "\<And>k'. ?q \<le> k' \<Longrightarrow> k' < ?p \<Longrightarrow> ?d ! (k' mod ?c) = sp_pushed s ! k'"
    using assms(1,3) by (simp_all add: spsc_ok_def producer_ok_def consumer_ok_def Let_def)
  have pos: "?p mod ?c = unat w mod length ?d"
    using i(1,2) slot_of_index[OF assms(2), of ?p] by simp
  have n: "unat n \<le> length ?d"
    using i(1,4,5) by linarith
  obtain data' where "Push_copy xs w n ?d = Some data'" "length data' = ?c"
    and new: "\<And>j. j < unat n \<Longrightarrow> data' ! ((?p mod ?c + j) mod ?c) = xs ! j"
    and old: "\<And>i. i < ?c \<Longrightarrow> \<forall>j < unat n. i \<noteq> (?p mod ?c + j) mod ?c \<Longrightarrow> data' ! i = ?d ! i"
    using Push_copy_spec[OF n i(3) _ pos] i(1) by auto
  then have data: "data = data'" "length data = ?c"
    using assms(4) by simp_all
  have "data ! (k' mod ?c) = sp_pushed s ! k'" if "?q \<le> k'" "k' < ?p" for k'
  proof -
    have "k' mod ?c \<noteq> (?p mod ?c + j) mod ?c" if "j < unat n" for j
      using slot_inj[of k' ?c "?p + j"] that \<open>?q \<le> k'\<close> \<open>k' < ?p\<close> i(4) by (auto simp: mod_simps)
    then show ?thesis
      using old[of "k' mod ?c"] i(7)[OF that] data by simp
  qed
  moreover have "data ! ((?p + j) mod ?c) = xs ! j" if "j < unat n" for j
    using new[OF that] data by (simp add: mod_simps)
  ultimately show ?thesis
    using assms(1,3) data by (simp add: spsc_ok_def producer_ok_def Let_def)
qed

lemma pop_copy_ok:
  assumes "spsc_ok (2 ^ k) s" and "k < 63" and "sp_consumer s = CLoaded r n"
    and "Pop_copy r n (rb_data (sp_buffer s)) = Some ys"
  shows "spsc_ok (2 ^ k) (s\<lparr>sp_consumer := CCopied r n ys\<rparr>)"
proof -
  let ?c = "2 ^ k :: nat" and ?p = "length (sp_pushed s)" and ?q = "length (sp_popped s)" and ?d = "rb_data (sp_buffer s)"
  have i: "length ?d = ?c" "r = of_nat ?q" "?q + unat n \<le> ?p" "?p \<le> ?q + ?c"
    "\<And>k'. ?q \<le> k' \<Longrightarrow> k' < ?p \<Longrightarrow> ?d ! (k' mod ?c) = sp_pushed s ! k'"
    using assms(1,3) by (simp_all add: spsc_ok_def producer_ok_def consumer_ok_def Let_def)
  have pos: "?q mod ?c = unat r mod length ?d"
    using i(1,2) slot_of_index[OF assms(2), of ?q] by simp
  have "ys = map (\<lambda>j. ?d ! ((?q mod ?c + j) mod ?c)) [0 ..< unat n]"
    using Pop_copy_spec[OF _ _ pos, of n] assms(4) i(1,3,4) by simp
  also have "\<dots> = take (unat n) (drop ?q (sp_pushed s))"
    using i(3,5) by (intro nth_equalityI) (simp_all add: mod_simps)
  finally show ?thesis
    using assms(1,3) by (simp add: spsc_ok_def consumer_ok_def Let_def)
qed

lemma push_store_ok:
  assumes "spsc_ok c s" and "sp_producer s = PCopied w n xs"
  shows "spsc_ok c (s\<lparr>sp_producer := PIdle, sp_buffer := (sp_buffer s)\<lparr>rb_write_index := w + n\<rparr>,
    sp_pushed := sp_pushed s @ take (unat n) xs\<rparr>)"
proof -
  let ?p = "length (sp_pushed s)" and ?q = "length (sp_popped s)" and ?d = "rb_data (sp_buffer s)"
  have i: "w = of_nat ?p" "unat n \<le> length xs" "?p + unat n \<le> ?q + c" "?q \<le> ?p"
    and new: "\<And>j. j < unat n \<Longrightarrow> ?d ! ((?p + j) mod c) = xs ! j"
    and old: "\<And>k. ?q \<le> k \<Longrightarrow> k < ?p \<Longrightarrow> ?d ! (k mod c) = sp_pushed s ! k"
    using assms by (simp_all add: spsc_ok_def producer_ok_def Let_def)
  have "?d ! (k mod c) = (sp_pushed s @ take (unat n) xs) ! k" if "?q \<le> k" "k < ?p + unat n" for k
    using new[of "k - ?p"] old[of k] that by (auto simp: nth_append)
  moreover have "consumer_ok (sp_pushed s @ take (unat n) xs) ?q (sp_consumer s)"
    using assms(1) by (auto simp: spsc_ok_def consumer_ok_def Let_def split: Consumer.splits)
  moreover have "sp_popped s = take ?q (sp_pushed s @ take (unat n) xs)"
    using assms(1) i(4) by (simp add: spsc_ok_def Let_def)
  ultimately show ?thesis
    using assms(1) i by (simp add: spsc_ok_def producer_ok_def Let_def)
qed

lemma pop_store_ok:
  assumes "spsc_ok c s" and "sp_consumer s = CCopied r n ys"
  shows "spsc_ok c (s\<lparr>sp_consumer := CIdle, sp_buffer := (sp_buffer s)\<lparr>rb_read_index := r + n\<rparr>,
    sp_popped := sp_popped s @ ys\<rparr>)"
proof -
  let ?p = "length (sp_pushed s)" and ?q = "length (sp_popped s)"
  have i: "r = of_nat ?q" "?q + unat n \<le> ?p" "ys = take (unat n) (drop ?q (sp_pushed s))" "sp_popped s = take ?q (sp_pushed s)"
    using assms by (simp_all add: spsc_ok_def consumer_ok_def Let_def)
  then have len: "length ys = unat n"
    by simp
  have "sp_popped s @ ys = take (?q + unat n) (sp_pushed s)"
    using i(3,4) by (metis take_add)
  moreover have "producer_ok c (rb_data (sp_buffer s)) ?p (?q + unat n) (sp_producer s)"
    using assms(1) by (auto simp: spsc_ok_def producer_ok_def Let_def split: Producer.splits)
  ultimately show ?thesis
    using assms(1) i(1,2) len by (simp add: spsc_ok_def consumer_ok_def Let_def)
qed

lemma capacity_less: "k < 63 \<Longrightarrow> (2 :: nat) ^ k < 2 ^ 63"
  by (rule power_strict_increasing) simp_all

lemma spsc_step_ok:
  assumes "spsc_step s s'" and "spsc_ok (2 ^ k) s" and "k < 63"
  shows "spsc_ok (2 ^ k) s'"
  using assms(1)
proof cases
  case (push_load slot_count xs)
  have "(2 :: nat) ^ k < 2 ^ 63"
    using assms(3) by (rule capacity_less)
  from Push_count_ok[OF assms(2) this, of slot_count] show ?thesis
    using assms(2) push_load by (simp add: spsc_ok_def producer_ok_def Let_def)
next
  case (pop_load max_slots)
  have "(2 :: nat) ^ k < 2 ^ 63"
    using assms(3) by (rule capacity_less)
  from Pop_count_ok[OF assms(2) this, of max_slots] show ?thesis
    using assms(2) pop_load by (simp add: spsc_ok_def consumer_ok_def Let_def)
next
  case (push_copy w n xs data)
  then show ?thesis
    using push_copy_ok[OF assms(2,3)] by simp
next
  case (push_store w n xs)
  then show ?thesis
    using push_store_ok[OF assms(2)] by simp
next
  case (pop_copy r n ys)
  then show ?thesis
    using pop_copy_ok[OF assms(2,3)] by simp
next
  case (pop_store r n ys)
  then show ?thesis
    using pop_store_ok[OF assms(2)] by simp
qed

lemma spsc_run_ok:
  assumes "spsc_step\<^sup>*\<^sup>* (spsc_start data) s" and "length data = 2 ^ k" and "k < 63"
  shows "spsc_ok (2 ^ k) s"
  using assms(1)
proof (induction rule: rtranclp_induct)
  case base
  then show ?case
    using spsc_start_ok[of data] assms(2) by simp
next
  case (step s s')
  show ?case
    by (rule spsc_step_ok[OF step.hyps(2) step.IH assms(3)])
qed

text \<open>An operation that is not interrupted is a run of its three steps.\<close>

lemma spsc_three_steps:
  assumes "spsc_step s s1" and "spsc_step s1 s2" and "spsc_step s2 s3" and "s3 = s'"
  shows "spsc_step\<^sup>*\<^sup>* s s'"
  unfolding assms(4)[symmetric] by (rule rtranclp.intros(2)[OF rtranclp.intros(2)[OF r_into_rtranclp]]) (fact assms)+

lemma Push_is_run:
  assumes "sp_producer s = PIdle" and "unat slot_count \<le> length xs" and "Push xs slot_count (sp_buffer s) = Some (n, b)"
  shows "spsc_step\<^sup>*\<^sup>* s (s\<lparr>sp_buffer := b, sp_pushed := sp_pushed s @ take (unat n) xs\<rparr>)"
proof -
  let ?w = "rb_write_index (sp_buffer s)"
  obtain data where n: "n = Push_count slot_count (sp_buffer s)" and copy: "Push_copy xs ?w n (rb_data (sp_buffer s)) = Some data"
    and b: "b = (sp_buffer s)\<lparr>rb_data := data, rb_write_index := ?w + n\<rparr>"
    using assms(3) by (auto simp: Push_def Let_def split: bind_splits)
  let ?s1 = "s\<lparr>sp_producer := PLoaded ?w n xs\<rparr>"
  let ?s2 = "?s1\<lparr>sp_producer := PCopied ?w n xs, sp_buffer := (sp_buffer ?s1)\<lparr>rb_data := data\<rparr>\<rparr>"
  let ?s3 = "?s2\<lparr>sp_producer := PIdle, sp_buffer := (sp_buffer ?s2)\<lparr>rb_write_index := ?w + n\<rparr>, sp_pushed := sp_pushed ?s2 @ take (unat n) xs\<rparr>"
  have "spsc_step s ?s1"
    unfolding n by (rule push_load[OF assms(1,2)])
  moreover have "spsc_step ?s1 ?s2"
    using copy by (intro push_copy) simp_all
  moreover have "spsc_step ?s2 ?s3"
    by (rule push_store) simp
  moreover have "?s3 = s\<lparr>sp_buffer := b, sp_pushed := sp_pushed s @ take (unat n) xs\<rparr>"
    using assms(1) b by simp
  ultimately show ?thesis
    by (rule spsc_three_steps)
qed

lemma Pop_is_run:
  assumes "sp_consumer s = CIdle" and "Pop max_slots (sp_buffer s) = Some (ys, b)"
  shows "spsc_step\<^sup>*\<^sup>* s (s\<lparr>sp_buffer := b, sp_popped := sp_popped s @ ys\<rparr>)"
proof -
  let ?r = "rb_read_index (sp_buffer s)" and ?n = "Pop_count max_slots (sp_buffer s)"
  have copy: "Pop_copy ?r ?n (rb_data (sp_buffer s)) = Some ys" and b: "b = (sp_buffer s)\<lparr>rb_read_index := ?r + ?n\<rparr>"
    using assms(2) by (auto simp: Pop_def Let_def split: bind_splits)
  let ?s1 = "s\<lparr>sp_consumer := CLoaded ?r ?n\<rparr>"
  let ?s2 = "?s1\<lparr>sp_consumer := CCopied ?r ?n ys\<rparr>"
  let ?s3 = "?s2\<lparr>sp_consumer := CIdle, sp_buffer := (sp_buffer ?s2)\<lparr>rb_read_index := ?r + ?n\<rparr>, sp_popped := sp_popped ?s2 @ ys\<rparr>"
  have "spsc_step s ?s1"
    by (rule pop_load[OF assms(1)])
  moreover have "spsc_step ?s1 ?s2"
    using copy by (intro pop_copy) simp_all
  moreover have "spsc_step ?s2 ?s3"
    by (rule pop_store) simp
  moreover have "?s3 = s\<lparr>sp_buffer := b, sp_popped := sp_popped s @ ys\<rparr>"
    using assms(1) b by simp
  ultimately show ?thesis
    by (rule spsc_three_steps)
qed

text \<open>With more than one element to a slot, the overload for vectors reads past its input whenever there is room.\<close>

lemma Push_copy_overreads:
  assumes "length input < unat n"
  shows "Push_copy input w n data = None"
proof -
  define f where "f = min (length data - unat w mod length data) (unat n)"
  have "f \<le> unat n"
    by (simp add: f_def)
  then have "copy_from input f (unat n - f) = None"
    using assms by (simp add: copy_from_def)
  then show ?thesis
    by (simp add: Push_copy_def Let_def f_def[symmetric] split: bind_splits)
qed

lemma Push_overreads: "length input < unat (Push_count slot_count b) \<Longrightarrow> Push input slot_count b = None"
  by (simp add: Push_def Push_copy_overreads)

lemma Push_vector_overreads:
  assumes "length input < unat (Push_count (of_nat (granularity * length input)) b)"
  shows "Push_vector granularity input b = None"
  unfolding Push_vector_def using assms by (rule Push_overreads)

section \<open>Properties\<close>

text \<open>
  C24. However the accesses of the pushing and the popping thread interleave, and however often the indices wrap around, what
  has been popped is what was pushed first, in the same order, nothing lost and nothing twice; never more than
  the capacity is in the buffer, and \<^verbatim>\<open>Size\<close> is the number of slots in between.
\<close>

theorem RingBuffer_fifo:
  assumes "spsc_step\<^sup>*\<^sup>* (spsc_start data) s" and "length data = 2 ^ k" and "k < 63"
  shows "prefix (sp_popped s) (sp_pushed s)
    \<and> unat (Size (sp_buffer s)) = length (sp_pushed s) - length (sp_popped s)
    \<and> length (sp_pushed s) - length (sp_popped s) \<le> 2 ^ k"
proof -
  let ?p = "length (sp_pushed s)" and ?q = "length (sp_popped s)"
  have i: "sp_popped s = take ?q (sp_pushed s)" "?q \<le> ?p" "?p \<le> ?q + 2 ^ k"
    "rb_write_index (sp_buffer s) = of_nat ?p" "rb_read_index (sp_buffer s) = of_nat ?q"
    using spsc_run_ok[OF assms] by (simp_all add: spsc_ok_def Let_def)
  have "(2 :: nat) ^ k < 2 ^ 63"
    using assms(3) by (rule capacity_less)
  then have "unat (Size (sp_buffer s)) = ?p - ?q"
    unfolding Size_def i(4,5) using i(2,3) by (intro unat_index_diff) simp_all
  moreover have "prefix (sp_popped s) (sp_pushed s)"
    using i(1) take_is_prefix[of ?q "sp_pushed s"] by simp
  ultimately show ?thesis
    using i(3) by simp
qed

text \<open>
  No interleaving gets a thread stuck in an undefined copy: in every reachable state a producer behind its loads can copy its
  slots, and a consumer behind its loads can copy slots out.
\<close>

lemma RingBuffer_copies_defined:
  assumes "spsc_step\<^sup>*\<^sup>* (spsc_start data) s" and "length data = 2 ^ k" and "k < 63"
  shows "(case sp_producer s of PLoaded w n xs \<Rightarrow> Push_copy xs w n (rb_data (sp_buffer s)) \<noteq> None | _ \<Rightarrow> True)
    \<and> (case sp_consumer s of CLoaded r n \<Rightarrow> Pop_copy r n (rb_data (sp_buffer s)) \<noteq> None | _ \<Rightarrow> True)"
proof -
  note ok = spsc_run_ok[OF assms]
  let ?d = "rb_data (sp_buffer s)"
  have len: "length ?d = 2 ^ k" "0 < length ?d"
    using ok by (simp_all add: spsc_ok_def Let_def)
  have "Push_copy xs w n ?d \<noteq> None" if "sp_producer s = PLoaded w n xs" for w n xs
    using ok that len Push_copy_spec[of n ?d xs _ w] by (auto simp: spsc_ok_def producer_ok_def Let_def)
  moreover have "Pop_copy r n ?d \<noteq> None" if "sp_consumer s = CLoaded r n" for r n
    using ok that len Pop_copy_spec[of n ?d _ r] by (auto simp: spsc_ok_def consumer_ok_def Let_def)
  ultimately show ?thesis
    by (simp split: Producer.split Consumer.split)
qed

definition example_spsc :: "nat SPSC" where
  "example_spsc = (spsc_start [0, 0])\<lparr>sp_buffer := \<lparr>rb_read_index = 1, rb_write_index = 2, rb_data = [5, 6]\<rparr>,
     sp_pushed := [5, 6], sp_popped := [5]\<rparr>"

lemma example_spsc_run: "spsc_step\<^sup>*\<^sup>* (spsc_start [0, 0]) example_spsc"
proof -
  let ?s = "spsc_start [0, 0 :: nat]"
  let ?b = "\<lparr>rb_read_index = 0, rb_write_index = 2, rb_data = [5, 6 :: nat]\<rparr>"
  have "Push [5, 6, 7] 3 (sp_buffer ?s) = Some (2, ?b)"
    by (simp add: Push_def Push_count_def Push_copy_def Capacity_def copy_to_def copy_from_def spsc_start_def mk_RingBuffer_def Let_def)
  from Push_is_run[OF _ _ this] have "spsc_step\<^sup>*\<^sup>* ?s (?s\<lparr>sp_buffer := ?b, sp_pushed := [5, 6]\<rparr>)"
    by (simp add: spsc_start_def)
  moreover have "Pop 1 ?b = Some ([5], ?b\<lparr>rb_read_index := 1\<rparr>)"
    by (simp add: Pop_def Pop_count_def Pop_copy_def copy_from_def Let_def)
  then have "spsc_step\<^sup>*\<^sup>* (?s\<lparr>sp_buffer := ?b, sp_pushed := [5, 6]\<rparr>) example_spsc"
    using Pop_is_run[of "?s\<lparr>sp_buffer := ?b, sp_pushed := [5, 6]\<rparr>" 1 "[5]" "?b\<lparr>rb_read_index := 1\<rparr>"]
    by (simp add: spsc_start_def example_spsc_def)
  ultimately show ?thesis
    by (rule rtranclp_trans)
qed

theorem RingBuffer_fifo_witness:
  "prefix (sp_popped example_spsc) (sp_pushed example_spsc) \<and> unat (Size (sp_buffer example_spsc)) = 1"
  using RingBuffer_fifo[OF example_spsc_run, of 1] by (simp add: example_spsc_def)

end
