(* ===== verification/Spec2Isabelle.thy ===== *)
theory Spec2Isabelle
  imports Process_Capability Page_Table_Layout Cheat_Timing Multi_Level_Queue Macro_Correct Ring_Buffer
begin

text \<open>
  A verification library for the deterministic core of the emulator whose sources lie under
  \<^verbatim>\<open>src/src\<close>: the memory management of the emulated kernel, the tables a process owns, the
  memory of the guest as the processor and the services see it, and the machine for cheat codes. Paths
  below are relative to \<^verbatim>\<open>src/src\<close>.

  \<^bold>\<open>The parts and how they interact.\<close>
  At start the kernel hands physical memory to the \<^verbatim>\<open>MemoryManager\<close>, which keeps one \<^verbatim>\<open>PageHeap\<close>
  per pool; a heap finds its free blocks with a multi-level \<^verbatim>\<open>Bitmap\<close>. A process owns a
  \<^verbatim>\<open>PageTable\<close>: it takes pages from the manager (a \<^verbatim>\<open>PageLinkedList\<close> of blocks), records what an
  address range is used for in a \<^verbatim>\<open>MemoryBlockManager\<close>, and writes the host pointers into a
  \<^verbatim>\<open>Common::PageTable\<close>. Loads, stores and block copies of the guest go through that table. The
  cheat engine reads and writes the same memory from a timed event. A process also owns a
  \<^verbatim>\<open>HandleTable\<close>, a \<^verbatim>\<open>ResourceLimit\<close> and the capabilities parsed from its metadata, which size its handle
  table and choose its pool.

  \<^bold>\<open>Theories.\<close>
  \<^item> \<^verbatim>\<open>Prelude\<close>: integers, result codes, undefined behaviour, shared lemmas.
  \<^item> \<^verbatim>\<open>Alignment\<close>: \<^verbatim>\<open>common/alignment.h\<close>, \<^verbatim>\<open>common/bit_util.h\<close>.
  \<^item> \<^verbatim>\<open>Bitmap\<close>, \<^verbatim>\<open>Page_Heap\<close>: \<^verbatim>\<open>core/hle/kernel/memory/page_heap.h\<close> and \<^verbatim>\<open>page_heap.cpp\<close>. The bitmap
    implements a finite set of offsets; the heap implements a set of free pages, of which
    \<^verbatim>\<open>AllocateBlock\<close> takes and \<^verbatim>\<open>Free\<close> returns exactly a block.
  \<^item> \<^verbatim>\<open>Page_List\<close>, \<^verbatim>\<open>Memory_Manager\<close>: \<^verbatim>\<open>page_linked_list.h\<close>, \<^verbatim>\<open>memory_manager.cpp\<close>. Allocation is
    all or nothing, and what is freed can be allocated again. The loops are verified in the
    locale \<open>page_source\<close>, interpreted on the page heap.
  \<^item> \<^verbatim>\<open>Memory_Block\<close>, \<^verbatim>\<open>Block_Manager\<close>: \<^verbatim>\<open>memory_block.h\<close>, \<^verbatim>\<open>memory_block_manager.cpp\<close>. The blocks
    tile the address space without mergeable neighbours, and an update changes exactly the pages of its range.
  \<^item> \<^verbatim>\<open>Address_Space\<close>, \<^verbatim>\<open>Page_Map\<close>, \<^verbatim>\<open>Page_Table\<close>, \<^verbatim>\<open>Page_Table_Correct\<close>, \<^verbatim>\<open>Page_Table_Layout\<close>:
    \<^verbatim>\<open>address_space_info.cpp\<close>, \<^verbatim>\<open>common/page_table.cpp\<close>, \<^verbatim>\<open>page_table.cpp\<close>. Layout of the regions, the
    walk that checks the state of a range, growing and shrinking the heap with its resource accounting.
  \<^item> \<^verbatim>\<open>Guest_Memory\<close>, \<^verbatim>\<open>Guest_Memory_Correct\<close>: \<^verbatim>\<open>core/memory.cpp\<close>. Every access is a sequence of byte
    accesses through the map from virtual to host addresses.
  \<^item> \<^verbatim>\<open>Cheat_VM\<close>, \<^verbatim>\<open>Cheat_VM_Correct\<close>, \<^verbatim>\<open>Cheat_Engine\<close>, \<^verbatim>\<open>Cheat_Engine_Correct\<close>:
    \<^verbatim>\<open>core/memory/dmnt_cheat_vm.cpp\<close>, \<^verbatim>\<open>cheat_engine.cpp\<close>. The machine stays inside its arrays and the memory
    it may touch, the parser inverts the printer, the engine stops for good once it runs dry.
  \<^item> \<^verbatim>\<open>Handle_Table\<close>, \<^verbatim>\<open>Resource_Limit\<close>, \<^verbatim>\<open>System_Control\<close>, \<^verbatim>\<open>Process_Capability\<close>: the files of the same names
    in \<^verbatim>\<open>core/hle/kernel\<close>.

  \<^bold>\<open>State and operations.\<close>
  A class is a \<open>record\<close> with its members, a method is a function that returns the new record. An integer of the
  source is a word of its width. Undefined behaviour of C++ (an access past the end of an array, a null
  pointer, a shift by the width or more, division by zero) is the result \<open>None\<close>, so a theorem that
  an operation returns \<open>Some\<close> says that it is defined. \<^verbatim>\<open>ASSERT\<close> and its relatives only log in this
  repository and are no branches of the models.

  \<^bold>\<open>Bounds and fuel.\<close>
  No model uses fuel. A loop over a container is structural recursion, a counting loop recurses over the rounds that are left, and
  other loops are \<open>function\<close>s with a termination proof. A loop that may not end (the random generator, the run
  of a cheat program) is a \<open>partial_function\<close> in the option monad, and its theorems state when it returns.

  \<^bold>\<open>Not modelled.\<close>
  Host threads, fibers and the just-in-time compilers of the processor, the services with their sessions, file systems, cryptography, audio,
  rendering, input and the user interfaces: they are input and output around operating-system or driver calls, or tables
  of service commands without state of their own. Locks are not modelled; an operation that holds a lock from beginning to
  end is one step.
\<close>

end
